(* ===== verification/Prelude.thy ===== *)
theory Prelude
  imports Main "HOL-Library.List_Lexorder" "HOL-Library.Char_ord" "HOL-Library.AList"
    "HOL-Library.Sublist"
begin

text \<open>
  What the components share: the Go standard-library operations the sources call
  (decimal formatting and parsing, the string helpers of package \<open>strings\<close>, wrapped
  64-bit integers), Go maps as association lists, and the generic lemmas about them.
  A Go string is a byte sequence, here \<^typ>\<open>string\<close>; Go compares strings bytewise, which
  is the list order of \<open>List_Lexorder\<close> over the character order of \<open>Char_ord\<close>.
\<close>

named_theorems go_map \<open>lookup and key-set laws of Go maps as association lists\<close>
named_theorems go_str \<open>laws of the Go string helpers\<close>

section \<open>64-bit integers\<close>

text \<open>Go's \<open>int\<close> and \<open>int64\<close> arithmetic: the result modulo two's complement of width 64.\<close>

definition wrap64 :: "int \<Rightarrow> int" where
  "wrap64 x = (x + 2 ^ 63) mod 2 ^ 64 - 2 ^ 63"

definition int64_range :: "int \<Rightarrow> bool" where
  "int64_range x \<longleftrightarrow> - (2 ^ 63) \<le> x \<and> x < 2 ^ 63"

section \<open>Decimal formatting and parsing (strconv, fmt)\<close>

definition dig :: "nat \<Rightarrow> char" where
  "dig d = char_of (48 + d)"

definition is_dig :: "char \<Rightarrow> bool" where
  "is_dig c \<longleftrightarrow> 48 \<le> (of_char c :: nat) \<and> (of_char c :: nat) \<le> 57"

definition dig_val :: "char \<Rightarrow> nat" where
  "dig_val c = of_char c - 48"

fun nat_dec :: "nat \<Rightarrow> string" where
  "nat_dec n = (if n < 10 then [dig n] else nat_dec (n div 10) @ [dig (n mod 10)])"

declare nat_dec.simps [simp del]

text \<open>\<open>strconv.Itoa\<close> / \<open>strconv.FormatInt(_, 10)\<close>.\<close>

definition itoa :: "int \<Rightarrow> string" where
  "itoa n = (if n < 0 then CHR ''-'' # nat_dec (nat (- n)) else nat_dec (nat n))"

text \<open>\<open>fmt.Sprintf("%0*d", w, n)\<close>: the sign counts towards the width and precedes the zeros.\<close>

definition zpad_nat :: "nat \<Rightarrow> nat \<Rightarrow> string" where
  "zpad_nat w n = replicate (w - length (nat_dec n)) (CHR ''0'') @ nat_dec n"

definition zpad :: "nat \<Rightarrow> int \<Rightarrow> string" where
  "zpad w n = (if n < 0 then CHR ''-'' # zpad_nat (w - 1) (nat (- n)) else zpad_nat w (nat n))"

definition dec_val :: "string \<Rightarrow> nat" where
  "dec_val s = foldl (\<lambda>a c. 10 * a + dig_val c) 0 s"

definition parse_digits :: "string \<Rightarrow> nat option" where
  "parse_digits s = (if s \<noteq> [] \<and> list_all is_dig s then Some (dec_val s) else None)"

text \<open>\<open>strconv.ParseInt(s, 10, 64)\<close> and \<open>strconv.Atoi\<close>: an optional sign, at least one
  digit, and a value in the int64 range; anything else is an error.\<close>

definition parse_int64 :: "string \<Rightarrow> int option" where
  "parse_int64 s =
     (let (neg, ds) = (case s of
            c # r \<Rightarrow> if c = CHR ''-'' then (True, r) else if c = CHR ''+'' then (False, r)
                     else (False, s)
          | [] \<Rightarrow> (False, []))
      in case parse_digits ds of
           None \<Rightarrow> None
         | Some n \<Rightarrow>
             let v = (if neg then - int n else int n)
             in if int64_range v then Some v else None)"

section \<open>Package strings\<close>

text \<open>\<open>strings.Cut(s, c)\<close> for a one-byte separator: the text before and after the first
  occurrence, and whether there is one.\<close>

fun cut :: "char \<Rightarrow> string \<Rightarrow> string \<times> string \<times> bool" where
  "cut c [] = ([], [], False)"
| "cut c (x # xs) =
     (if x = c then ([], xs, True)
      else case cut c xs of (a, b, ok) \<Rightarrow> (x # a, b, ok))"

text \<open>\<open>strings.LastIndexByte\<close>: the text around the last occurrence, if there is one.\<close>

definition cut_last :: "char \<Rightarrow> string \<Rightarrow> (string \<times> string) option" where
  "cut_last c s =
     (case cut c (rev s) of (a, b, ok) \<Rightarrow> if ok then Some (rev b, rev a) else None)"

definition has_suffix :: "string \<Rightarrow> string \<Rightarrow> bool" where
  "has_suffix s suf \<longleftrightarrow> length suf \<le> length s \<and> drop (length s - length suf) s = suf"

definition trim_suffix :: "string \<Rightarrow> string \<Rightarrow> string" where
  "trim_suffix s suf = (if has_suffix s suf then take (length s - length suf) s else s)"

definition cut_suffix :: "string \<Rightarrow> string \<Rightarrow> string \<times> bool" where
  "cut_suffix s suf =
     (if has_suffix s suf then (take (length s - length suf) s, True) else (s, False))"

text \<open>\<open>strings.Split(s, c)\<close> and \<open>strings.Join(xs, c)\<close> for a one-byte separator.\<close>

fun split_on :: "char \<Rightarrow> string \<Rightarrow> string list" where
  "split_on c [] = [[]]"
| "split_on c (x # xs) =
     (if x = c then [] # split_on c xs
      else case split_on c xs of [] \<Rightarrow> [[x]] | y # ys \<Rightarrow> (x # y) # ys)"

fun join_with :: "char \<Rightarrow> string list \<Rightarrow> string" where
  "join_with c [] = []"
| "join_with c [x] = x"
| "join_with c (x # y # ys) = x @ c # join_with c (y # ys)"

section \<open>Go maps\<close>

text \<open>A Go map is an association list with distinct keys; nil and the empty map are both
  \<open>[]\<close>. Reads go through \<^const>\<open>map_of\<close>, \<open>m[k] = v\<close> is \<open>AList.update\<close> and
  \<open>delete(m, k)\<close> is \<open>AList.delete\<close>. Iteration order is unspecified in Go; the components
  that range over a map either sort the result or compute something order-independent.\<close>

type_synonym ('k, 'v) gomap = "('k \<times> 'v) list"

abbreviation gmap_ok :: "('k, 'v) gomap \<Rightarrow> bool" where
  "gmap_ok m \<equiv> distinct (map fst m)"

abbreviation gput :: "'k \<Rightarrow> 'v \<Rightarrow> ('k, 'v) gomap \<Rightarrow> ('k, 'v) gomap" where
  "gput \<equiv> AList.update"

abbreviation gdel :: "'k \<Rightarrow> ('k, 'v) gomap \<Rightarrow> ('k, 'v) gomap" where
  "gdel \<equiv> AList.delete"

text \<open>\<open>m[k]\<close> where the value type's zero value is \<open>z\<close>.\<close>

definition gget :: "'v \<Rightarrow> ('k, 'v) gomap \<Rightarrow> 'k \<Rightarrow> 'v" where
  "gget z m k = (case map_of m k of None \<Rightarrow> z | Some v \<Rightarrow> v)"

section \<open>Lemmas on integers and digits\<close>

lemma wrap64_id [simp]: "int64_range x \<Longrightarrow> wrap64 x = x"
  by (simp add: wrap64_def int64_range_def)

lemma wrap64_range [simp]: "int64_range (wrap64 x)"
  by (simp add: wrap64_def int64_range_def)

lemma of_char_dig [simp]: "d < 10 \<Longrightarrow> (of_char (dig d) :: nat) = 48 + d"
  by (simp add: dig_def)

lemma is_dig_dig [simp]: "d < 10 \<Longrightarrow> is_dig (dig d)"
  by (simp add: is_dig_def)

lemma dig_val_dig [simp]: "d < 10 \<Longrightarrow> dig_val (dig d) = d"
  by (simp add: dig_val_def)

lemma dig_less_iff [simp]: "a < 10 \<Longrightarrow> b < 10 \<Longrightarrow> dig a < dig b \<longleftrightarrow> a < b"
  by (simp add: less_char_def)

lemma dig_eq_iff [simp]: "a < 10 \<Longrightarrow> b < 10 \<Longrightarrow> dig a = dig b \<longleftrightarrow> a = b"
  by (metis dig_val_dig)

lemma dig_0 [simp]: "dig 0 = CHR ''0''"
proof -
  have "(of_char (dig 0) :: nat) = of_char (CHR ''0'')" by simp
  then show ?thesis by (simp only: of_char_eq_iff)
qed

lemma nat_dec_nonempty [simp]: "nat_dec n \<noteq> []"
  by (subst nat_dec.simps) simp

lemma nat_dec_digits: "list_all is_dig (nat_dec n)"
proof (induction n rule: nat_dec.induct)
  case (1 n)
  then show ?case by (subst nat_dec.simps) simp
qed

lemma dec_val_snoc [simp]: "dec_val (xs @ [c]) = 10 * dec_val xs + dig_val c"
  by (simp add: dec_val_def)

lemma dec_val_nat_dec [simp]: "dec_val (nat_dec n) = n"
proof (induction n rule: nat_dec.induct)
  case (1 n)
  show ?case
  proof (cases "n < 10")
    case True
    then show ?thesis by (subst nat_dec.simps) (simp add: dec_val_def)
  next
    case False
    with 1 show ?thesis by (subst nat_dec.simps) simp
  qed
qed

lemma dec_val_zeros [simp]: "dec_val (replicate k (CHR ''0'') @ xs) = dec_val xs"
  by (induction k) (simp_all add: dec_val_def dig_val_def)

lemma parse_digits_zpad [simp]: "parse_digits (zpad_nat w n) = Some n"
  using nat_dec_digits [of n] is_dig_dig [of 0]
  by (auto simp: parse_digits_def zpad_nat_def list_all_iff)

text \<open>The last \<open>w\<close> decimal digits of a number, the canonical form of zero padding.\<close>

fun digs :: "nat \<Rightarrow> nat \<Rightarrow> string" where
  "digs 0 n = []"
| "digs (Suc w) n = digs w (n div 10) @ [dig (n mod 10)]"

lemma length_digs [simp]: "length (digs w n) = w"
  by (induction w arbitrary: n) auto

lemma digs_zero: "digs w 0 = replicate w (CHR ''0'')"
  by (induction w) (auto simp: replicate_append_same)

lemma digs_eq_zpad: "n < 10 ^ w \<Longrightarrow> 0 < w \<Longrightarrow> zpad_nat w n = digs w n"
proof (induction w arbitrary: n)
  case 0
  then show ?case by simp
next
  case (Suc w)
  show ?case
  proof (cases "n < 10")
    case True
    then show ?thesis
      by (simp add: zpad_nat_def nat_dec.simps [of n] digs_zero)
  next
    case False
    with Suc.prems have w: "0 < w" and n: "n div 10 < 10 ^ w"
      by (auto intro!: Nat.gr0I simp: less_mult_imp_div_less mult.commute)
    have "zpad_nat (Suc w) n = zpad_nat w (n div 10) @ [dig (n mod 10)]"
      using False by (simp add: zpad_nat_def nat_dec.simps [of n])
    with Suc.IH [OF n w] show ?thesis by simp
  qed
qed

lemma length_zpad_nat: "n < 10 ^ w \<Longrightarrow> 0 < w \<Longrightarrow> length (zpad_nat w n) = w"
  by (simp add: digs_eq_zpad)

section \<open>Lemmas on the bytewise order\<close>

lemma less_append_same_length [go_str]:
  fixes a b c d :: string
  assumes "length a = length b"
  shows "a @ c < b @ d \<longleftrightarrow> a < b \<or> a = b \<and> c < d"
  using assms by (induction a b rule: list_induct2) auto

lemma append_less_cancel [simp]: "(a :: string) @ c < a @ d \<longleftrightarrow> c < d"
  by (induction a) auto

lemma append_le_cancel [simp]: "(a :: string) @ c \<le> a @ d \<longleftrightarrow> c \<le> d"
  by (induction a) auto

lemma digs_less_iff:
  "m < 10 ^ w \<Longrightarrow> n < 10 ^ w \<Longrightarrow> digs w m < digs w n \<longleftrightarrow> m < n"
proof (induction w arbitrary: m n)
  case 0
  then show ?case by simp
next
  case (Suc w)
  have d: "m div 10 < 10 ^ w" "n div 10 < 10 ^ w"
    using Suc.prems by (auto simp: less_mult_imp_div_less mult.commute)
  have eq: "digs w (m div 10) = digs w (n div 10) \<longleftrightarrow> m div 10 = n div 10"
    using Suc.IH [OF d] Suc.IH [OF d(2) d(1)] by (metis less_irrefl linorder_neqE_nat)
  have "m < n \<longleftrightarrow> m div 10 < n div 10 \<or> m div 10 = n div 10 \<and> m mod 10 < n mod 10"
    using div_mult_mod_eq [of m 10] div_mult_mod_eq [of n 10]
      mod_less_divisor [of 10 m] mod_less_divisor [of 10 n] by linarith
  then show ?case
    using Suc.IH [OF d] eq by (simp add: less_append_same_length)
qed

lemma zpad_nat_less_iff:
  "m < 10 ^ w \<Longrightarrow> n < 10 ^ w \<Longrightarrow> 0 < w \<Longrightarrow> zpad_nat w m < zpad_nat w n \<longleftrightarrow> m < n"
  by (simp add: digs_eq_zpad digs_less_iff)

lemma zpad_nat_inj: "zpad_nat w m = zpad_nat w n \<Longrightarrow> m = n"
  by (metis parse_digits_zpad option.inject)

section \<open>Lemmas on the string helpers\<close>

lemma cut_append [simp]: "c \<notin> set a \<Longrightarrow> cut c (a @ c # b) = (a, b, True)"
  by (induction a) auto

lemma cut_notin [simp]: "c \<notin> set s \<Longrightarrow> cut c s = (s, [], False)"
  by (induction s) auto

lemma cut_found: "cut c s = (a, b, True) \<Longrightarrow> s = a @ c # b \<and> c \<notin> set a"
  by (induction s arbitrary: a) (auto split: if_splits prod.splits)

lemma cut_last_append [go_str]: "c \<notin> set b \<Longrightarrow> cut_last c (a @ c # b) = Some (a, b)"
  by (simp add: cut_last_def)

lemma cut_last_Some: "cut_last c s = Some (a, b) \<Longrightarrow> s = a @ c # b \<and> c \<notin> set b"
proof -
  assume "cut_last c s = Some (a, b)"
  then have "cut c (rev s) = (rev b, rev a, True)"
    by (auto simp: cut_last_def split: prod.splits if_splits)
  then have "rev s = rev b @ c # rev a \<and> c \<notin> set (rev b)" by (rule cut_found)
  then show ?thesis by (metis append_Cons append_Nil append_assoc rev_append rev_rev_ident
        rev_singleton_conv set_rev rev.simps(2))
qed

lemma has_suffix_append [simp]: "has_suffix (a @ s) s"
  by (simp add: has_suffix_def)

lemma has_suffix_iff: "has_suffix s suf \<longleftrightarrow> (\<exists>a. s = a @ suf)"
  by (metis append_take_drop_id has_suffix_append has_suffix_def)

lemma split_on_nonempty [simp]: "split_on c s \<noteq> []"
  by (induction s) (auto split: list.splits)

lemma join_split [simp]: "join_with c (split_on c s) = s"
proof (induction s)
  case (Cons x xs)
  have "join_with c ((x # y) # ys) = x # join_with c (y # ys)" for y ys
    by (cases ys) auto
  with Cons show ?case by (auto split: list.splits)
qed simp

lemma split_join:
  "xs \<noteq> [] \<Longrightarrow> \<forall>x \<in> set xs. c \<notin> set x \<Longrightarrow> split_on c (join_with c xs) = xs"
proof (induction c xs rule: join_with.induct)
  case (2 c x)
  then show ?case by (induction x) auto
next
  case (3 c x y ys)
  then have IH: "split_on c (join_with c (y # ys)) = y # ys" by simp
  have "c \<notin> set x \<Longrightarrow> split_on c (x @ c # join_with c (y # ys)) = x # y # ys" for x
    by (induction x) (auto simp: IH)
  with 3 show ?case by simp
qed simp

lemma split_on_no_sep: "x \<in> set (split_on c s) \<Longrightarrow> c \<notin> set x"
  by (induction s arbitrary: x) (auto split: list.splits if_splits)

section \<open>Lemmas on Go maps\<close>

lemma map_of_gput [go_map, simp]: "map_of (gput k v m) = (map_of m)(k \<mapsto> v)"
  by (rule AList.update_conv')

lemma map_of_gdel [go_map, simp]: "map_of (gdel k m) = (map_of m)(k := None)"
  by (rule AList.delete_conv')

lemma gmap_ok_gput [go_map, simp]: "gmap_ok m \<Longrightarrow> gmap_ok (gput k v m)"
  by (rule AList.distinct_update)

lemma gmap_ok_gdel [go_map, simp]: "gmap_ok m \<Longrightarrow> gmap_ok (gdel k m)"
  by (rule AList.distinct_delete)

lemma gput_memD: "(a, b) \<in> set (gput k v m) \<Longrightarrow> a = k \<and> b = v \<or> (a, b) \<in> set m"
  by (induction m) (auto split: if_splits)

lemma gdel_memD: "(a, b) \<in> set (gdel k m) \<Longrightarrow> (a, b) \<in> set m \<and> a \<noteq> k"
  by (auto simp: AList.delete_eq)

lemma gget_cases: "gget z m k = z \<or> (k, gget z m k) \<in> set m"
  by (auto simp: gget_def dest: map_of_SomeD split: option.splits)

lemma gmap_ok_filter_map:
  assumes "gmap_ok m" "\<And>x. fst (f x) = fst x"
  shows "gmap_ok (filter P (map f m))"
proof -
  have "map fst (map f m) = map fst m" using assms(2) by simp
  with assms(1) have "gmap_ok (map f m)" by (simp only:)
  then show ?thesis by (rule distinct_map_filter)
qed

lemma gmap_ok_mem: "gmap_ok m \<Longrightarrow> map_of m k = Some v \<longleftrightarrow> (k, v) \<in> set m"
  by (simp add: map_of_eq_Some_iff)

lemma map_of_Some_mem: "map_of m k = Some v \<Longrightarrow> (k, v) \<in> set m"
  by (rule map_of_SomeD)

end
