(* ===== verification/Serial.thy ===== *)
theory Serial
  imports Prelude
begin

text \<open>
  Package \<open>internal/serial\<close>: the timeserial format
  \<open><timestamp>-<counter>@<seriesId>\<close> of channelSerials, the \<open>:<idx>\<close> suffix of
  Message serials, the monotonic generator, and the timestamp bounds of history scans.
\<close>

section \<open>Definitions\<close>

definition timestampWidth :: nat where "timestampWidth = 14"
definition counterWidth :: nat where "counterWidth = 3"
definition idxWidth :: nat where "idxWidth = 3"
definition maxCounter :: int where "maxCounter = 999"

text \<open>\<open>Generator\<close>: the clock \<open>now\<close> is an argument of \<open>Mint\<close> (the value it reads), the
  mutex makes \<open>Mint\<close> and \<open>Restore\<close> atomic.\<close>

record Generator =
  seriesID :: string
  lastTs :: int
  lastCounter :: int

definition NewGenerator :: "string \<Rightarrow> Generator" where
  "NewGenerator series = \<lparr>seriesID = series, lastTs = 0, lastCounter = 0\<rparr>"

definition Restore :: "int \<Rightarrow> int \<Rightarrow> Generator \<Rightarrow> Generator" where
  "Restore ts counter g = g\<lparr>lastTs := ts, lastCounter := counter\<rparr>"

definition format_serial :: "int \<Rightarrow> int \<Rightarrow> string \<Rightarrow> string" where
  "format_serial ts ctr series =
     zpad timestampWidth ts @ ''-'' @ zpad counterWidth ctr @ ''@'' @ series"

definition advance :: "int \<Rightarrow> Generator \<Rightarrow> Generator" where
  "advance now g =
     (if now > lastTs g then g\<lparr>lastTs := now, lastCounter := 0\<rparr>
      else let g1 = g\<lparr>lastCounter := wrap64 (lastCounter g + 1)\<rparr>
           in if lastCounter g1 > maxCounter
              then g1\<lparr>lastTs := wrap64 (lastTs g1 + 1), lastCounter := 0\<rparr>
              else g1)"

definition Mint :: "int \<Rightarrow> Generator \<Rightarrow> string \<times> Generator" where
  "Mint now g =
     (let g' = advance now g
      in (format_serial (lastTs g') (lastCounter g') (seriesID g'), g'))"

definition MessageSerial :: "string \<Rightarrow> int \<Rightarrow> string" where
  "MessageSerial channelSerial idx = channelSerial @ '':'' @ zpad idxWidth idx"

datatype serial_error = NoColon | NonIntegerIdx | NegativeIdx | TooShort | NonNumericTimestamp

definition ParseMessageSerial :: "string \<Rightarrow> serial_error + (string \<times> int)" where
  "ParseMessageSerial s =
     (case cut_last (CHR '':'') s of
        None \<Rightarrow> Inl NoColon
      | Some (cs, suf) \<Rightarrow>
          (case parse_int64 suf of
             None \<Rightarrow> Inl NonIntegerIdx
           | Some idx \<Rightarrow> if idx < 0 then Inl NegativeIdx else Inr (cs, idx)))"

definition Timestamp :: "string \<Rightarrow> serial_error + int" where
  "Timestamp s =
     (if length s < timestampWidth then Inl TooShort
      else case parse_int64 (take timestampWidth s) of
             None \<Rightarrow> Inl NonNumericTimestamp
           | Some v \<Rightarrow> Inr v)"

text \<open>Callers that write \<open>ts, _ := serial.Timestamp(s)\<close> see 0 on an error.\<close>

definition TimestampOr0 :: "string \<Rightarrow> int" where
  "TimestampOr0 s = (case Timestamp s of Inl _ \<Rightarrow> 0 | Inr v \<Rightarrow> v)"

definition TimestampBounds :: "int \<Rightarrow> int \<Rightarrow> string \<times> string" where
  "TimestampBounds start end' =
     ((if start > 0 then zpad timestampWidth start @ ''-'' else ''''),
      (if end' > 0 then zpad timestampWidth (wrap64 (end' + 1)) @ ''-'' else ''''))"

text \<open>The clock readings of a run of mints on one generator, and the serials they give.\<close>

fun mints :: "int list \<Rightarrow> Generator \<Rightarrow> string list" where
  "mints [] g = []"
| "mints (now # ns) g = (case Mint now g of (s, g') \<Rightarrow> s # mints ns g')"

lemmas width_defs = timestampWidth_def counterWidth_def idxWidth_def maxCounter_def

section \<open>The logical timeserial and its order\<close>

text \<open>What a channelSerial encodes, ordered by timestamp, then counter, then series. The
  rendering is an order embedding as long as the timestamp fits its 14 digits.\<close>

datatype timeserial = TS (ts_time: nat) (ts_ctr: nat) (ts_series: string)

instantiation timeserial :: linorder
begin

definition less_timeserial :: "timeserial \<Rightarrow> timeserial \<Rightarrow> bool" where
  "less_timeserial a b \<longleftrightarrow>
     ts_time a < ts_time b \<or>
     ts_time a = ts_time b \<and>
       (ts_ctr a < ts_ctr b \<or> ts_ctr a = ts_ctr b \<and> ts_series a < ts_series b)"

definition less_eq_timeserial :: "timeserial \<Rightarrow> timeserial \<Rightarrow> bool" where
  "less_eq_timeserial a b \<longleftrightarrow> a < b \<or> a = b"

instance
  by standard
    (auto simp: less_timeserial_def less_eq_timeserial_def intro: timeserial.expand)

end

definition ts_ok :: "timeserial \<Rightarrow> bool" where
  "ts_ok t \<longleftrightarrow> ts_time t < 10 ^ 14 \<and> ts_ctr t < 1000"

definition render :: "timeserial \<Rightarrow> string" where
  "render t = format_serial (int (ts_time t)) (int (ts_ctr t)) (ts_series t)"

definition gen_ts :: "Generator \<Rightarrow> timeserial" where
  "gen_ts g = TS (nat (lastTs g)) (nat (lastCounter g)) (seriesID g)"

text \<open>The generator's own invariant, and the reach of the 14-digit timestamp.\<close>

definition gen_inv :: "Generator \<Rightarrow> bool" where
  "gen_inv g \<longleftrightarrow> 0 \<le> lastTs g \<and> 0 \<le> lastCounter g \<and> lastCounter g \<le> maxCounter"

definition clock_ok :: "int \<Rightarrow> Generator \<Rightarrow> bool" where
  "clock_ok now g \<longleftrightarrow> gen_inv g \<and> now < 10 ^ 14 \<and> lastTs g + 1 < 10 ^ 14"

lemma zpad_of_nat: "zpad w (int n) = zpad_nat w n"
  by (simp add: zpad_def)

lemma render_alt:
  "render t = zpad_nat 14 (ts_time t) @ ''-'' @ zpad_nat 3 (ts_ctr t) @ ''@'' @ ts_series t"
  by (simp add: render_def format_serial_def width_defs zpad_of_nat)

lemma length_render: "ts_ok t \<Longrightarrow> length (render t) = 19 + length (ts_series t)"
  by (simp add: render_alt ts_ok_def length_zpad_nat)

lemma render_less_iff:
  assumes "ts_ok a" "ts_ok b"
  shows "render a < render b \<longleftrightarrow> a < b"
proof -
  have t: "zpad_nat 14 (ts_time a) < zpad_nat 14 (ts_time b) \<longleftrightarrow> ts_time a < ts_time b"
    "length (zpad_nat 14 (ts_time a)) = length (zpad_nat 14 (ts_time b))"
    using assms by (simp_all add: ts_ok_def zpad_nat_less_iff length_zpad_nat)
  have c: "zpad_nat 3 (ts_ctr a) < zpad_nat 3 (ts_ctr b) \<longleftrightarrow> ts_ctr a < ts_ctr b"
    "length (zpad_nat 3 (ts_ctr a)) = length (zpad_nat 3 (ts_ctr b))"
    using assms by (simp_all add: ts_ok_def zpad_nat_less_iff length_zpad_nat)
  show ?thesis
    unfolding render_alt less_timeserial_def
    using t c by (auto simp: less_append_same_length dest: zpad_nat_inj)
qed

section \<open>The generator\<close>

lemma advance_seriesID [simp]: "seriesID (advance now g) = seriesID g"
  by (simp add: advance_def Let_def)

lemma gen_inv_advance: "gen_inv g \<Longrightarrow> lastTs g + 1 < 2 ^ 63 \<Longrightarrow> gen_inv (advance now g)"
  by (auto simp: gen_inv_def advance_def Let_def width_defs int64_range_def)

lemma clock_ok_gen_inv: "clock_ok now g \<Longrightarrow> gen_inv (advance now g)"
  by (rule gen_inv_advance) (simp_all add: clock_ok_def)

lemma advance_time: "clock_ok now g \<Longrightarrow>
    lastTs (advance now g) \<le> max now (lastTs g + 1) \<and> lastTs g \<le> lastTs (advance now g)"
  by (auto simp: clock_ok_def gen_inv_def advance_def Let_def width_defs int64_range_def)

lemma gen_ts_advance: "clock_ok now g \<Longrightarrow> gen_ts g < gen_ts (advance now g)"
  by (auto simp: clock_ok_def gen_inv_def gen_ts_def less_timeserial_def advance_def Let_def
      width_defs int64_range_def)

lemma ts_ok_gen: "gen_inv g \<Longrightarrow> lastTs g < 10 ^ 14 \<Longrightarrow> ts_ok (gen_ts g)"
  by (auto simp: gen_inv_def gen_ts_def ts_ok_def width_defs nat_less_iff)

lemma Mint_render:
  assumes "clock_ok now g"
  shows "Mint now g = (render (gen_ts (advance now g)), advance now g)"
  using clock_ok_gen_inv [OF assms]
  by (simp add: Mint_def Let_def render_def gen_ts_def gen_inv_def)

lemma ts_ok_advance: "clock_ok now g \<Longrightarrow> ts_ok (gen_ts (advance now g))"
  using advance_time [of now g] clock_ok_gen_inv [of now g]
  by (intro ts_ok_gen) (auto simp: clock_ok_def)

lemma Mint_gt:
  assumes "clock_ok now g" and "lastTs g < 10 ^ 14"
  shows "render (gen_ts g) < fst (Mint now g)"
  using assms ts_ok_gen [of g] ts_ok_advance [of now g] gen_ts_advance [of now g]
  by (simp add: Mint_render clock_ok_def render_less_iff)

section \<open>Message serials\<close>

lemma colon_not_digit: "CHR '':'' \<notin> set (zpad_nat w n)"
  using nat_dec_digits [of n] by (auto simp: zpad_nat_def list_all_iff is_dig_def)

lemma parse_int64_zpad_nat:
  "int n < 2 ^ 63 \<Longrightarrow> parse_int64 (zpad_nat w n) = Some (int n)"
proof -
  assume n: "int n < 2 ^ 63"
  obtain c r where s: "zpad_nat w n = c # r"
    by (cases "zpad_nat w n") (auto simp: zpad_nat_def)
  have "list_all is_dig (zpad_nat w n)"
    using nat_dec_digits [of n] is_dig_dig [of 0] by (auto simp: zpad_nat_def list_all_iff)
  then have "c \<noteq> CHR ''-''" "c \<noteq> CHR ''+''" by (auto simp: s is_dig_def)
  then have "parse_int64 (zpad_nat w n) =
      (case parse_digits (zpad_nat w n) of None \<Rightarrow> None
       | Some n \<Rightarrow> if int64_range (int n) then Some (int n) else None)"
    by (simp add: parse_int64_def s Let_def split: option.split)
  with n show ?thesis by (simp add: int64_range_def)
qed

lemma zpad_nonneg: "0 \<le> i \<Longrightarrow> zpad w i = zpad_nat w (nat i)"
  by (simp add: zpad_def)

lemma ParseMessageSerial_MessageSerial:
  assumes "0 \<le> idx" "idx < 2 ^ 63"
  shows "ParseMessageSerial (MessageSerial cs idx) = Inr (cs, idx)"
  using assms
  by (simp add: ParseMessageSerial_def MessageSerial_def zpad_nonneg cut_last_append
      colon_not_digit parse_int64_zpad_nat)

lemma MessageSerial_idx_less_iff:
  assumes "0 \<le> i" "i < 1000" "0 \<le> j" "j < 1000"
  shows "MessageSerial cs i < MessageSerial cs j \<longleftrightarrow> i < j"
proof -
  have "zpad_nat 3 (nat i) < zpad_nat 3 (nat j) \<longleftrightarrow> i < j"
    using assms by (subst zpad_nat_less_iff) (auto simp: nat_less_iff)
  with assms show ?thesis by (simp add: MessageSerial_def zpad_nonneg width_defs)
qed

lemma MessageSerial_cs_less:
  assumes "length cs = length cs'" "cs < cs'"
  shows "MessageSerial cs i < MessageSerial cs' j"
  using assms by (simp add: MessageSerial_def less_append_same_length)

lemma MessageSerial_nonempty [simp]: "MessageSerial cs i \<noteq> []"
  by (simp add: MessageSerial_def)

lemma MessageSerial_inj:
  assumes "0 \<le> i" "i < 2 ^ 63" "0 \<le> j" "j < 2 ^ 63" "MessageSerial cs i = MessageSerial cs' j"
  shows "cs = cs' \<and> i = j"
proof -
  have "Inr (cs, i) = (Inr (cs', j) :: serial_error + (string \<times> int))"
    using ParseMessageSerial_MessageSerial [OF assms(1,2), of cs]
      ParseMessageSerial_MessageSerial [OF assms(3,4), of cs']
    by (simp only: assms(5))
  then show ?thesis by simp
qed

section \<open>Runs of mints and timestamps\<close>

definition clocks_ok :: "int list \<Rightarrow> Generator \<Rightarrow> bool" where
  "clocks_ok nows g \<longleftrightarrow> gen_inv g \<and> lastTs g + int (length nows) < 10 ^ 14 \<and>
     (\<forall>n \<in> set nows. n + int (length nows) < 10 ^ 14)"

lemma clocks_ok_Cons:
  assumes "clocks_ok (now # ns) g"
  shows "clock_ok now g \<and> clocks_ok ns (advance now g)"
proof -
  have c: "clock_ok now g" using assms by (auto simp: clocks_ok_def clock_ok_def)
  have "lastTs (advance now g) \<le> max now (lastTs g + 1)" using advance_time [OF c] by simp
  with assms clock_ok_gen_inv [OF c] have "clocks_ok ns (advance now g)"
    by (auto simp: clocks_ok_def)
  with c show ?thesis by simp
qed

lemma mints_above_sorted:
  "clocks_ok nows g \<Longrightarrow>
     (\<forall>s \<in> set (mints nows g). render (gen_ts g) < s) \<and> sorted_wrt (<) (mints nows g)"
proof (induction nows arbitrary: g)
  case Nil
  then show ?case by simp
next
  case (Cons now ns)
  have c: "clock_ok now g" "clocks_ok ns (advance now g)"
    using clocks_ok_Cons [OF Cons.prems] by auto
  have lt: "render (gen_ts g) < render (gen_ts (advance now g))"
    using Mint_gt [OF c(1)] c(1) by (simp add: Mint_render clock_ok_def)
  have m: "mints (now # ns) g = render (gen_ts (advance now g)) # mints ns (advance now g)"
    using c(1) by (simp add: Mint_render)
  show ?case
    unfolding m using Cons.IH [OF c(2)] lt by (auto intro: less_trans)
qed

lemma take_render: "ts_ok t \<Longrightarrow> take 14 (render t) = zpad_nat 14 (ts_time t)"
  by (simp add: render_alt ts_ok_def length_zpad_nat)

lemma Timestamp_render: "ts_ok t \<Longrightarrow> Timestamp (render t @ suf) = Inr (int (ts_time t))"
proof -
  assume t: "ts_ok t"
  then have "take 14 (render t @ suf) = zpad_nat 14 (ts_time t)"
    by (simp add: take_render length_render)
  with t show ?thesis
    by (simp add: Timestamp_def width_defs length_render parse_int64_zpad_nat ts_ok_def)
qed

lemma bound_less_iff:
  assumes "ts_ok t" "n < 10 ^ 14"
  shows "render t < zpad_nat 14 n @ ''-'' \<longleftrightarrow> ts_time t < n"
    and "zpad_nat 14 n @ ''-'' \<le> render t \<longleftrightarrow> n \<le> ts_time t"
proof -
  have l: "length (zpad_nat 14 (ts_time t)) = length (zpad_nat 14 n)"
    using assms by (simp add: ts_ok_def length_zpad_nat)
  have "render t < zpad_nat 14 n @ ''-'' \<longleftrightarrow>
      zpad_nat 14 (ts_time t) < zpad_nat 14 n"
    unfolding render_alt using l by (auto simp: less_append_same_length)
  also have "\<dots> \<longleftrightarrow> ts_time t < n"
    using assms by (simp add: ts_ok_def zpad_nat_less_iff)
  finally show "render t < zpad_nat 14 n @ ''-'' \<longleftrightarrow> ts_time t < n" .
  then show "zpad_nat 14 n @ ''-'' \<le> render t \<longleftrightarrow> n \<le> ts_time t"
    by (metis linorder_not_less)
qed

text \<open>The test the backends apply to a bound pair: an empty string is no bound.\<close>

definition in_bounds :: "string \<Rightarrow> string \<Rightarrow> string \<Rightarrow> bool" where
  "in_bounds lower upper s \<longleftrightarrow>
     (lower = [] \<or> lower \<le> s) \<and> (upper = [] \<or> s < upper)"

section \<open>Properties\<close>

text \<open>C32: a run of mints on one generator yields strictly increasing channelSerials in Go's
  bytewise string order, whatever the clock does (standing still, going backwards, more than
  a thousand mints in one millisecond), as long as the 14-digit timestamp is not exhausted.\<close>

theorem mints_strictly_increasing:
  assumes "clocks_ok nows g"
  shows "sorted_wrt (<) (mints nows g)"
  using mints_above_sorted [OF assms] by simp

theorem mints_strictly_increasing_witness:
  "clocks_ok [5, 5, 3, 9] (NewGenerator ''ab'') \<and>
   sorted_wrt (<) (mints [5, 5, 3, 9] (NewGenerator ''ab''))"
proof -
  have "clocks_ok [5, 5, 3, 9] (NewGenerator ''ab'')"
    by (simp add: clocks_ok_def gen_inv_def NewGenerator_def width_defs)
  with mints_strictly_increasing [OF this] show ?thesis by simp
qed

text \<open>Splitting a Message serial gives back exactly the channelSerial and the batch index
  it was built from, for every channelSerial (also one that contains a colon) and every
  non-negative index.\<close>

theorem message_serial_roundtrip:
  assumes "0 \<le> idx" "idx < 2 ^ 63"
  shows "ParseMessageSerial (MessageSerial cs idx) = Inr (cs, idx)"
  using assms by (rule ParseMessageSerial_MessageSerial)

theorem message_serial_roundtrip_witness:
  "ParseMessageSerial (MessageSerial ''00000000000005-001@ab'' 12) =
     Inr (''00000000000005-001@ab'', 12)"
  using message_serial_roundtrip [of 12 "''00000000000005-001@ab''"] by simp

text \<open>The order of Message serials is publish order, then batch order: for two
  channelSerials of the same length it is the order of the channelSerials first and, within
  one batch of at most a thousand messages, the order of the indices.\<close>

theorem message_serial_order:
  assumes "length cs = length cs'" "0 \<le> i" "i < 1000" "0 \<le> j" "j < 1000"
  shows "MessageSerial cs i < MessageSerial cs' j \<longleftrightarrow> cs < cs' \<or> cs = cs' \<and> i < j"
proof (cases cs cs' rule: linorder_cases)
  case less
  with assms(1) show ?thesis by (simp add: MessageSerial_cs_less)
next
  case equal
  with assms show ?thesis by (simp add: MessageSerial_idx_less_iff)
next
  case greater
  with MessageSerial_cs_less [of cs' cs j i] assms(1) show ?thesis by auto
qed

theorem message_serial_order_witness:
  "MessageSerial ''05-001@ab'' 999 < MessageSerial ''05-002@ab'' 0 \<and>
   MessageSerial ''05-001@ab'' 9 < MessageSerial ''05-001@ab'' 10"
  using message_serial_order [of "''05-001@ab''" "''05-002@ab''" 999 0]
    message_serial_order [of "''05-001@ab''" "''05-001@ab''" 9 10]
  by simp

text \<open>The lexicographic bounds of a history scan select exactly the inclusive millisecond
  range they were made from: a serial is inside the bounds iff its timestamp is inside the
  range, a zero bound meaning no bound on that side.\<close>

theorem timestamp_bounds_correct:
  assumes "ts_ok t" "start < 10 ^ 14" "end' + 1 < 10 ^ 14"
    and "TimestampBounds start end' = (lower, upper)"
  shows "in_bounds lower upper (render t) \<longleftrightarrow>
    (start > 0 \<longrightarrow> start \<le> int (ts_time t)) \<and> (end' > 0 \<longrightarrow> int (ts_time t) \<le> end')"
proof -
  have lower: "lower = (if start > 0 then zpad_nat 14 (nat start) @ ''-'' else [])"
    using assms(4) by (auto simp: TimestampBounds_def width_defs zpad_nonneg)
  have "end' > 0 \<Longrightarrow> wrap64 (end' + 1) = end' + 1"
    using assms(3) by (simp add: int64_range_def)
  then have upper: "upper = (if end' > 0 then zpad_nat 14 (nat (end' + 1)) @ ''-'' else [])"
    using assms(4) by (auto simp: TimestampBounds_def width_defs zpad_nonneg)
  have "start > 0 \<Longrightarrow> lower \<le> render t \<longleftrightarrow> start \<le> int (ts_time t)"
    using bound_less_iff(2) [OF assms(1), of "nat start"] assms(2)
    by (simp add: lower nat_less_iff nat_le_iff)
  moreover have "end' > 0 \<Longrightarrow> render t < upper \<longleftrightarrow> int (ts_time t) \<le> end'"
    using bound_less_iff(1) [OF assms(1), of "nat (end' + 1)"] assms(3)
    by (auto simp: upper nat_less_iff)
  ultimately show ?thesis
    by (auto simp: in_bounds_def lower upper)
qed

theorem timestamp_bounds_correct_witness:
  "in_bounds (fst (TimestampBounds 3 7)) (snd (TimestampBounds 3 7)) (render (TS 7 0 ''ab''))"
  using timestamp_bounds_correct [of "TS 7 0 ''ab''" 3 7 "fst (TimestampBounds 3 7)"
      "snd (TimestampBounds 3 7)"]
  by (simp add: ts_ok_def)

text \<open>The largest int64 end bound wraps to a negative timestamp, so its upper bound sorts
  below every channelSerial and the scan returns nothing, although every serial's timestamp
  is at most that end.\<close>

theorem timestamp_bounds_end_wraps:
  assumes "ts_ok t"
  shows "\<not> in_bounds (fst (TimestampBounds 0 (2 ^ 63 - 1))) (snd (TimestampBounds 0 (2 ^ 63 - 1)))
    (render t)"
proof -
  have u: "hd (snd (TimestampBounds 0 (2 ^ 63 - 1))) = CHR ''-''"
    "snd (TimestampBounds 0 (2 ^ 63 - 1)) \<noteq> []"
    by (simp_all add: TimestampBounds_def wrap64_def zpad_def)
  obtain c r where cr: "zpad_nat 14 (ts_time t) = c # r"
    by (cases "zpad_nat 14 (ts_time t)") (auto simp: zpad_nat_def)
  have "list_all is_dig (zpad_nat 14 (ts_time t))"
    using nat_dec_digits is_dig_dig [of 0] by (auto simp: zpad_nat_def list_all_iff)
  then have "CHR ''-'' < c" by (simp add: cr is_dig_def less_char_def)
  then have "snd (TimestampBounds 0 (2 ^ 63 - 1)) < render t"
    using u by (cases "snd (TimestampBounds 0 (2 ^ 63 - 1))") (auto simp: render_alt cr)
  with u show ?thesis by (auto simp: in_bounds_def)
qed

theorem timestamp_bounds_end_wraps_witness:
  "\<not> in_bounds (fst (TimestampBounds 0 (2 ^ 63 - 1))) (snd (TimestampBounds 0 (2 ^ 63 - 1)))
    (render (TS 1700000000000 0 ''ab''))"
  using timestamp_bounds_end_wraps [of "TS 1700000000000 0 ''ab''"] by (simp add: ts_ok_def)

end
