(* ===== verification/Protocol.thy ===== *)
theory Protocol
  imports Serial
begin

text \<open>
  Package \<open>internal/protocol\<close>: the wire enums of \<open>action.go\<close>, \<open>presence.go\<close> and
  \<open>annotation.go\<close>, and the structs of \<open>message.go\<close>, \<open>presence.go\<close>, \<open>annotation.go\<close> and
  \<open>summary.go\<close> as records. Every wire enum is an int8 on the wire, so each datatype has a
  constructor for the values that have no constant.
\<close>

section \<open>Untyped payloads\<close>

text \<open>Go's \<open>any\<close> as the codecs produce it. \<open>AnyNum\<close> carries the text the number prints as.\<close>

datatype goany =
    AnyNil
  | AnyStr string
  | AnyBytes string
  | AnyBool bool
  | AnyNum string
  | AnyArr "goany list"
  | AnyObj "(string \<times> goany) list"

text \<open>A \<open>map[string]any\<close>, with nil distinguished from an empty object.\<close>

type_synonym extras = "(string \<times> goany) list option"

section \<open>Wire enums\<close>

datatype MessageAction =
    MessageCreate | MessageUpdate | MessageDelete | MessageSummary | MessageAppend
  | MessageActionOther int

datatype PresenceAction =
    PresenceAbsent | PresencePresent | PresenceEnter | PresenceLeave | PresenceUpdate
  | PresenceActionOther int

datatype AnnotationAction =
    AnnotationCreate | AnnotationDelete | AnnotationActionOther int

datatype Action =
    ActionHeartbeat | ActionAck | ActionNack | ActionConnect | ActionConnected
  | ActionDisconnect | ActionDisconnected | ActionClose | ActionClosed | ActionError
  | ActionAttach | ActionAttached | ActionDetach | ActionDetached | ActionPresence
  | ActionMessage | ActionSync | ActionAuth | ActionAnnotation | ActionOther int

fun IsMutation :: "MessageAction \<Rightarrow> bool" where
  "IsMutation MessageUpdate = True"
| "IsMutation MessageDelete = True"
| "IsMutation MessageAppend = True"
| "IsMutation _ = False"

section \<open>Summaries\<close>

record ClientIDList =
  cl_Total :: int
  cl_ClientIDs :: "string list"
  cl_Clipped :: bool

record ClientIDCounts =
  cc_Total :: int
  cc_ClientIDs :: "(string, int) gomap"
  cc_TotalUnidentified :: int
  cc_Clipped :: bool
  cc_TotalClientIDs :: int

record TotalAggregation =
  ta_Total :: int

record Aggregation =
  ag_Method :: string
  ag_Values :: "(string, ClientIDList) gomap"
  ag_Counts :: "(string, ClientIDCounts) gomap"
  ag_Flag :: "ClientIDList option"
  ag_Total :: "TotalAggregation option"

type_synonym Summary = "(string, Aggregation) gomap"

section \<open>Messages\<close>

record MessageVersion =
  v_Serial :: string
  v_Timestamp :: int
  v_ClientID :: string
  v_Description :: string
  v_Metadata :: extras

text \<open>\<open>Message\<close>. The \<open>Alt\<close> map has the single key \<open>DeltaAppend\<close>, so it is an option: the
  append delta, a message whose own \<open>Alt\<close> the code never reads.\<close>

record MessageBody =
  m_ID :: string
  m_Serial :: string
  m_Action :: MessageAction
  m_ClientID :: string
  m_ConnectionID :: string
  m_ConnectionKey :: string
  m_Name :: string
  m_Data :: goany
  m_Encoding :: string
  m_Extras :: extras
  m_Timestamp :: int
  m_Version :: "MessageVersion option"
  m_Summary :: Summary

record Message = MessageBody +
  m_Alt :: "MessageBody option"

definition HasAppendDelta :: "Message \<Rightarrow> bool" where
  "HasAppendDelta m \<longleftrightarrow> m_Alt m \<noteq> None"

record PresenceMessage =
  p_ID :: string
  p_Serial :: string
  p_Action :: PresenceAction
  p_ClientID :: string
  p_ConnectionID :: string
  p_Data :: goany
  p_Encoding :: string
  p_Extras :: extras
  p_Timestamp :: int

record Annotation =
  a_ID :: string
  a_Serial :: string
  a_Action :: AnnotationAction
  a_ClientID :: string
  a_ConnectionID :: string
  a_Type :: string
  a_Name :: string
  a_MessageSerial :: string
  a_Count :: int
  a_Data :: goany
  a_Encoding :: string
  a_Extras :: extras
  a_Timestamp :: int
  a_Summary :: Summary

record ChannelMessage =
  cm_ID :: string
  cm_ChannelSerial :: string
  cm_Messages :: "Message list"
  cm_Presence :: "PresenceMessage list"
  cm_Annotations :: "Annotation list"

record ErrorInfo =
  ei_Message :: string
  ei_Code :: int
  ei_StatusCode :: int

text \<open>The zero values Go gives an unset struct.\<close>

definition zeroMessage :: Message where
  "zeroMessage = \<lparr>m_ID = [], m_Serial = [], m_Action = MessageCreate, m_ClientID = [],
     m_ConnectionID = [], m_ConnectionKey = [], m_Name = [], m_Data = AnyNil, m_Encoding = [],
     m_Extras = None, m_Timestamp = 0, m_Version = None, m_Summary = [], m_Alt = None\<rparr>"

definition zeroPresence :: PresenceMessage where
  "zeroPresence = \<lparr>p_ID = [], p_Serial = [], p_Action = PresenceAbsent, p_ClientID = [],
     p_ConnectionID = [], p_Data = AnyNil, p_Encoding = [], p_Extras = None, p_Timestamp = 0\<rparr>"

definition zeroAnnotation :: Annotation where
  "zeroAnnotation = \<lparr>a_ID = [], a_Serial = [], a_Action = AnnotationCreate, a_ClientID = [],
     a_ConnectionID = [], a_Type = [], a_Name = [], a_MessageSerial = [], a_Count = 0,
     a_Data = AnyNil, a_Encoding = [], a_Extras = None, a_Timestamp = 0, a_Summary = []\<rparr>"

definition zeroChannelMessage :: ChannelMessage where
  "zeroChannelMessage = \<lparr>cm_ID = [], cm_ChannelSerial = [], cm_Messages = [], cm_Presence = [],
     cm_Annotations = []\<rparr>"

lemmas zero_defs = zeroMessage_def zeroPresence_def zeroAnnotation_def zeroChannelMessage_def

end
