(* ===== verification/Summary.thy ===== *)
theory Summary
  imports Protocol
begin

text \<open>
  \<open>internal/protocol/annotation.go\<close> and \<open>summary.go\<close>: parsing and validating an
  annotation, and folding annotations into the per-message summary, one fold per aggregation
  method. The refinement section gives each method its abstract meaning (a set of
  contributions, a partial function, a tally) and shows that the fold computes it.
\<close>

section \<open>Annotation types and validation (annotation.go)\<close>

definition ParseAnnotationType :: "string \<Rightarrow> string \<times> string \<times> bool" where
  "ParseAnnotationType typ =
     (if typ = [] then ([], [], False)
      else case cut (CHR '':'') typ of (name, aggregation, found) \<Rightarrow>
        if name = [] then ([], [], False)
        else if found \<and> CHR '':'' \<in> set aggregation then ([], [], False)
        else (name, aggregation, True))"

definition AnnotationAggregations :: "string list" where
  "AnnotationAggregations =
     [''distinct.v1'', ''unique.v1'', ''multiple.v1'', ''flag.v1'', ''total.v1'']"

definition AnnotationAnonymousAggregations :: "string list" where
  "AnnotationAnonymousAggregations = [''multiple.v1'', ''total.v1'']"

definition annotationAggregationsUsingCount :: "string list" where
  "annotationAggregationsUsingCount = [''multiple.v1'']"

datatype annotation_error =
    MissingMessageSerial | MissingType | MalformedType | UnknownAggregation string
  | AnonymousNotAllowed

text \<open>\<open>Validate\<close> mutates \<open>Count\<close> where it defaults it, so success returns the annotation.\<close>

definition Validate :: "Annotation \<Rightarrow> annotation_error + Annotation" where
  "Validate a =
     (if a_MessageSerial a = [] then Inl MissingMessageSerial
      else if a_Type a = [] then Inl MissingType
      else case ParseAnnotationType (a_Type a) of (_, aggregation, ok) \<Rightarrow>
        if \<not> ok then Inl MalformedType
        else if aggregation = [] then Inr a
        else if aggregation \<notin> set AnnotationAggregations then Inl (UnknownAggregation aggregation)
        else if a_ClientID a = [] \<and> aggregation \<notin> set AnnotationAnonymousAggregations
          then Inl AnonymousNotAllowed
        else if aggregation \<in> set annotationAggregationsUsingCount \<and> a_Count a = 0
          then Inr (a\<lparr>a_Count := 1\<rparr>)
        else Inr a)"

section \<open>The folds (summary.go)\<close>

definition emptyList :: ClientIDList where
  "emptyList = \<lparr>cl_Total = 0, cl_ClientIDs = [], cl_Clipped = False\<rparr>"

definition emptyCounts :: ClientIDCounts where
  "emptyCounts = \<lparr>cc_Total = 0, cc_ClientIDs = [], cc_TotalUnidentified = 0,
     cc_Clipped = False, cc_TotalClientIDs = 0\<rparr>"

definition newAggregation :: "string \<Rightarrow> Aggregation" where
  "newAggregation mth = \<lparr>ag_Method = mth, ag_Values = [], ag_Counts = [], ag_Flag = None,
     ag_Total = None\<rparr>"

definition agg_empty :: "Aggregation \<Rightarrow> bool" where
  "agg_empty a =
     (if ag_Method a = ''distinct.v1'' \<or> ag_Method a = ''unique.v1'' then ag_Values a = []
      else if ag_Method a = ''multiple.v1'' then ag_Counts a = []
      else if ag_Method a = ''flag.v1''
        then (case ag_Flag a of None \<Rightarrow> True | Some l \<Rightarrow> cl_ClientIDs l = [])
      else if ag_Method a = ''total.v1''
        then (case ag_Total a of None \<Rightarrow> True | Some t \<Rightarrow> ta_Total t \<le> 0)
      else True)"

definition addClientID :: "string \<Rightarrow> ClientIDList \<Rightarrow> ClientIDList" where
  "addClientID cid l =
     (let ids = (if cid \<in> set (cl_ClientIDs l) then cl_ClientIDs l else cl_ClientIDs l @ [cid])
      in l\<lparr>cl_ClientIDs := ids, cl_Total := int (length ids)\<rparr>)"

definition removeClientID :: "string \<Rightarrow> ClientIDList \<Rightarrow> ClientIDList" where
  "removeClientID cid l =
     (let ids = remove1 cid (cl_ClientIDs l)
      in l\<lparr>cl_ClientIDs := ids, cl_Total := int (length ids)\<rparr>)"

text \<open>The two halves \<open>foldDistinct\<close> and \<open>foldUnique\<close> share: adding a client under a value,
  and removing it there, dropping a value left without clients.\<close>

definition addUnder :: "string \<Rightarrow> string \<Rightarrow> (string, ClientIDList) gomap \<Rightarrow>
    (string, ClientIDList) gomap" where
  "addUnder val cid vs = gput val (addClientID cid (gget emptyList vs val)) vs"

definition removeUnder :: "string \<Rightarrow> string \<Rightarrow> (string, ClientIDList) gomap \<Rightarrow>
    (string, ClientIDList) gomap" where
  "removeUnder val cid vs =
     (case map_of vs val of
        None \<Rightarrow> vs
      | Some l \<Rightarrow>
          let l' = removeClientID cid l
          in if cl_ClientIDs l' = [] then gdel val vs else gput val l' vs)"

definition foldDistinct :: "Aggregation \<Rightarrow> Annotation \<Rightarrow> string \<Rightarrow> Aggregation" where
  "foldDistinct agg a val =
     (case a_Action a of
        AnnotationCreate \<Rightarrow> agg\<lparr>ag_Values := addUnder val (a_ClientID a) (ag_Values agg)\<rparr>
      | AnnotationDelete \<Rightarrow> agg\<lparr>ag_Values := removeUnder val (a_ClientID a) (ag_Values agg)\<rparr>
      | AnnotationActionOther _ \<Rightarrow> agg)"

text \<open>The loop of \<open>foldUnique\<close> over every other value; the order does not matter, each value
  is treated on its own.\<close>

definition removeElsewhere :: "string \<Rightarrow> string \<Rightarrow> (string, ClientIDList) gomap \<Rightarrow>
    (string, ClientIDList) gomap" where
  "removeElsewhere val cid vs =
     filter (\<lambda>(v, l). v = val \<or> cl_ClientIDs l \<noteq> [])
       (map (\<lambda>(v, l). (v, if v = val then l else removeClientID cid l)) vs)"

definition foldUnique :: "Aggregation \<Rightarrow> Annotation \<Rightarrow> string \<Rightarrow> Aggregation" where
  "foldUnique agg a val =
     (case a_Action a of
        AnnotationCreate \<Rightarrow>
          agg\<lparr>ag_Values := addUnder val (a_ClientID a)
             (removeElsewhere val (a_ClientID a) (ag_Values agg))\<rparr>
      | AnnotationDelete \<Rightarrow> agg\<lparr>ag_Values := removeUnder val (a_ClientID a) (ag_Values agg)\<rparr>
      | AnnotationActionOther _ \<Rightarrow> agg)"

definition bumpCounts :: "string \<Rightarrow> int \<Rightarrow> ClientIDCounts \<Rightarrow> ClientIDCounts" where
  "bumpCounts cid delta cc =
     (let cc1 = cc\<lparr>cc_Total := wrap64 (cc_Total cc + delta)\<rparr>;
          cc2 = (if cid = []
                 then cc1\<lparr>cc_TotalUnidentified := wrap64 (cc_TotalUnidentified cc1 + delta)\<rparr>
                 else let n = wrap64 (gget 0 (cc_ClientIDs cc1) cid + delta)
                      in cc1\<lparr>cc_ClientIDs := (if n \<le> 0 then gdel cid (cc_ClientIDs cc1)
                                             else gput cid n (cc_ClientIDs cc1))\<rparr>)
      in cc2\<lparr>cc_TotalClientIDs := int (length (cc_ClientIDs cc2))\<rparr>)"

definition foldMultiple :: "Aggregation \<Rightarrow> Annotation \<Rightarrow> string \<Rightarrow> Aggregation" where
  "foldMultiple agg a val =
     (let count = (if a_Count a = 0 then 1 else a_Count a)
      in if map_of (ag_Counts agg) val = None \<and> a_Action a = AnnotationDelete then agg
         else let cc = gget emptyCounts (ag_Counts agg) val;
                  delta = (if a_Action a = AnnotationDelete then wrap64 (- count) else count);
                  cc' = bumpCounts (a_ClientID a) delta cc
              in agg\<lparr>ag_Counts :=
                   (if cc_Total cc' \<le> 0 \<and> cc_ClientIDs cc' = [] \<and> cc_TotalUnidentified cc' \<le> 0
                    then gdel val (ag_Counts agg) else gput val cc' (ag_Counts agg))\<rparr>)"

definition foldFlag :: "Aggregation \<Rightarrow> Annotation \<Rightarrow> Aggregation" where
  "foldFlag agg a =
     (let l = (case ag_Flag agg of None \<Rightarrow> emptyList | Some l \<Rightarrow> l)
      in agg\<lparr>ag_Flag := Some (case a_Action a of
            AnnotationCreate \<Rightarrow> addClientID (a_ClientID a) l
          | AnnotationDelete \<Rightarrow> removeClientID (a_ClientID a) l
          | AnnotationActionOther _ \<Rightarrow> l)\<rparr>)"

definition foldTotal :: "Aggregation \<Rightarrow> Annotation \<Rightarrow> Aggregation" where
  "foldTotal agg a =
     (let t = (case ag_Total agg of None \<Rightarrow> 0 | Some t \<Rightarrow> ta_Total t)
      in agg\<lparr>ag_Total := Some \<lparr>ta_Total = (case a_Action a of
            AnnotationCreate \<Rightarrow> wrap64 (t + 1)
          | AnnotationDelete \<Rightarrow> wrap64 (t - 1)
          | AnnotationActionOther _ \<Rightarrow> t)\<rparr>\<rparr>)"

definition foldAgg :: "string \<Rightarrow> Aggregation \<Rightarrow> Annotation \<Rightarrow> Aggregation option" where
  "foldAgg mth agg a =
     (if mth = ''distinct.v1'' then Some (foldDistinct agg a (a_Name a))
      else if mth = ''unique.v1'' then Some (foldUnique agg a (a_Name a))
      else if mth = ''multiple.v1'' then Some (foldMultiple agg a (a_Name a))
      else if mth = ''flag.v1'' then Some (foldFlag agg a)
      else if mth = ''total.v1'' then Some (foldTotal agg a)
      else None)"

definition Apply :: "Summary \<Rightarrow> Annotation \<Rightarrow> Summary" where
  "Apply s a =
     (case ParseAnnotationType (a_Type a) of (_, mth, ok) \<Rightarrow>
        if \<not> ok \<or> mth = [] then s
        else case foldAgg mth (gget (newAggregation mth) s (a_Type a)) a of
               None \<Rightarrow> s
             | Some agg \<Rightarrow> if agg_empty agg then gdel (a_Type a) s else gput (a_Type a) agg s)"

lemmas fold_defs = foldDistinct_def foldUnique_def foldMultiple_def foldFlag_def foldTotal_def

section \<open>Well-formedness\<close>

definition list_ok :: "ClientIDList \<Rightarrow> bool" where
  "list_ok l \<longleftrightarrow> distinct (cl_ClientIDs l) \<and> cl_Total l = int (length (cl_ClientIDs l))"

definition values_ok :: "(string, ClientIDList) gomap \<Rightarrow> bool" where
  "values_ok vs \<longleftrightarrow> gmap_ok vs \<and> (\<forall>(v, l) \<in> set vs. list_ok l \<and> cl_ClientIDs l \<noteq> [])"

definition counts_ok :: "ClientIDCounts \<Rightarrow> bool" where
  "counts_ok cc \<longleftrightarrow> gmap_ok (cc_ClientIDs cc) \<and> (\<forall>(c, n) \<in> set (cc_ClientIDs cc). n > 0) \<and>
     cc_TotalClientIDs cc = int (length (cc_ClientIDs cc))"

definition agg_ok :: "Aggregation \<Rightarrow> bool" where
  "agg_ok a \<longleftrightarrow> values_ok (ag_Values a) \<and> gmap_ok (ag_Counts a) \<and>
     (\<forall>(v, cc) \<in> set (ag_Counts a). counts_ok cc) \<and>
     (case ag_Flag a of None \<Rightarrow> True | Some l \<Rightarrow> list_ok l)"

text \<open>A summary is well formed: distinct types, each aggregation belongs to its type's method,
  is well formed and holds at least one contribution.\<close>

definition summary_ok :: "Summary \<Rightarrow> bool" where
  "summary_ok s \<longleftrightarrow> gmap_ok s \<and>
     (\<forall>(typ, agg) \<in> set s. agg_ok agg \<and> \<not> agg_empty agg \<and>
        ag_Method agg = fst (snd (ParseAnnotationType typ)))"

lemma list_ok_add: "list_ok l \<Longrightarrow> list_ok (addClientID c l)"
  by (auto simp: list_ok_def addClientID_def Let_def)

lemma list_ok_remove: "list_ok l \<Longrightarrow> list_ok (removeClientID c l)"
  by (auto simp: list_ok_def removeClientID_def Let_def)

lemma list_ok_empty [simp]: "list_ok emptyList"
  by (simp add: list_ok_def emptyList_def)

lemma emptyList_ids [simp]: "cl_ClientIDs emptyList = []"
  by (simp add: emptyList_def)

lemma addClientID_set [simp]: "set (cl_ClientIDs (addClientID c l)) = insert c (set (cl_ClientIDs l))"
  by (auto simp: addClientID_def Let_def)

lemma addClientID_nonempty [simp]: "cl_ClientIDs (addClientID c l) \<noteq> []"
  by (auto simp: addClientID_def Let_def)

lemma removeClientID_set [simp]:
  "list_ok l \<Longrightarrow> set (cl_ClientIDs (removeClientID c l)) = set (cl_ClientIDs l) - {c}"
  by (auto simp: removeClientID_def Let_def list_ok_def)

lemma values_ok_get: "values_ok vs \<Longrightarrow> list_ok (gget emptyList vs v)"
  using gget_cases [of emptyList vs v] by (auto simp: values_ok_def)

lemma values_ok_mem: "values_ok vs \<Longrightarrow> map_of vs v = Some l \<Longrightarrow> list_ok l \<and> cl_ClientIDs l \<noteq> []"
  by (auto simp: values_ok_def dest!: map_of_Some_mem)

lemma values_ok_add: "values_ok vs \<Longrightarrow> values_ok (addUnder v c vs)"
  using values_ok_get [of vs v]
  by (auto simp: values_ok_def addUnder_def list_ok_add dest!: gput_memD)

lemma values_ok_gput:
  "values_ok vs \<Longrightarrow> list_ok l \<Longrightarrow> cl_ClientIDs l \<noteq> [] \<Longrightarrow> values_ok (gput v l vs)"
  by (fastforce simp: values_ok_def dest!: gput_memD)

lemma values_ok_gdel: "values_ok vs \<Longrightarrow> values_ok (gdel v vs)"
  by (fastforce simp: values_ok_def dest!: gdel_memD)

lemma values_ok_remove:
  assumes "values_ok vs"
  shows "values_ok (removeUnder v c vs)"
proof (cases "map_of vs v")
  case (Some l)
  with values_ok_mem [OF assms Some] values_ok_gput [OF assms] values_ok_gdel [OF assms]
  show ?thesis by (simp add: removeUnder_def Let_def list_ok_remove)
qed (simp add: removeUnder_def assms)

lemma removeElsewhere_map_of:
  assumes "gmap_ok vs"
  shows "map_of (removeElsewhere v c vs) w =
    (case map_of vs w of
       None \<Rightarrow> None
     | Some l \<Rightarrow> if w = v then Some l
         else if cl_ClientIDs (removeClientID c l) = [] then None else Some (removeClientID c l))"
  using assms
proof (induction vs)
  case Nil
  then show ?case by (simp add: removeElsewhere_def)
next
  case (Cons x xs)
  have "w \<notin> fst ` set xs \<Longrightarrow> map_of xs w = None" by (simp add: map_of_eq_None_iff)
  with Cons show ?case by (cases x) (auto simp: removeElsewhere_def split: option.splits)
qed

lemma values_ok_elsewhere:
  assumes "values_ok vs"
  shows "values_ok (removeElsewhere v c vs)"
proof -
  have "gmap_ok (removeElsewhere v c vs)"
    using assms unfolding removeElsewhere_def
    by (intro gmap_ok_filter_map) (auto simp: values_ok_def)
  with assms show ?thesis
    by (auto simp: values_ok_def removeElsewhere_def list_ok_remove)
qed

lemma counts_ok_bump: "counts_ok cc \<Longrightarrow> counts_ok (bumpCounts c d cc)"
  by (auto simp: counts_ok_def bumpCounts_def Let_def dest!: gput_memD gdel_memD)

lemma agg_ok_new [simp]: "agg_ok (newAggregation mth)"
  by (simp add: agg_ok_def newAggregation_def values_ok_def)

lemma foldDistinct_ok: "agg_ok g \<Longrightarrow> agg_ok (foldDistinct g a v)"
  by (auto simp: agg_ok_def foldDistinct_def values_ok_add values_ok_remove
      split: AnnotationAction.split)

lemma foldUnique_ok: "agg_ok g \<Longrightarrow> agg_ok (foldUnique g a v)"
  by (auto simp: agg_ok_def foldUnique_def values_ok_add values_ok_remove values_ok_elsewhere
      split: AnnotationAction.split)

lemma foldMultiple_ok: "agg_ok g \<Longrightarrow> agg_ok (foldMultiple g a v)"
proof -
  assume ok: "agg_ok g"
  have "counts_ok emptyCounts" by (simp add: counts_ok_def emptyCounts_def)
  then have "counts_ok (gget emptyCounts (ag_Counts g) v)"
    using ok gget_cases [of emptyCounts "ag_Counts g" v] by (auto simp: agg_ok_def)
  then have "counts_ok (bumpCounts (a_ClientID a) d (gget emptyCounts (ag_Counts g) v))" for d
    by (rule counts_ok_bump)
  with ok have "agg_ok (g\<lparr>ag_Counts := gput v (bumpCounts (a_ClientID a) d
      (gget emptyCounts (ag_Counts g) v)) (ag_Counts g)\<rparr>)" for d
    by (auto simp: agg_ok_def dest!: gput_memD)
  moreover from ok have "agg_ok (g\<lparr>ag_Counts := gdel v (ag_Counts g)\<rparr>)"
    by (auto simp: agg_ok_def dest!: gdel_memD)
  ultimately show ?thesis using ok by (simp add: foldMultiple_def Let_def)
qed

lemma foldFlag_ok: "agg_ok g \<Longrightarrow> agg_ok (foldFlag g a)"
  by (auto simp: agg_ok_def foldFlag_def Let_def list_ok_add list_ok_remove
      split: AnnotationAction.split option.split option.splits)

lemma foldTotal_ok: "agg_ok g \<Longrightarrow> agg_ok (foldTotal g a)"
  by (simp add: agg_ok_def foldTotal_def Let_def)

lemmas folds_ok = foldDistinct_ok foldUnique_ok foldMultiple_ok foldFlag_ok foldTotal_ok

lemma foldAgg_ok: "foldAgg mth g a = Some g' \<Longrightarrow> agg_ok g \<Longrightarrow> agg_ok g'"
  by (auto simp: foldAgg_def folds_ok split: if_splits)

lemma foldAgg_method: "foldAgg mth g a = Some g' \<Longrightarrow> ag_Method g' = ag_Method g"
  by (auto simp: foldAgg_def fold_defs Let_def split: if_splits AnnotationAction.splits)

lemma summary_ok_get:
  assumes "summary_ok s" "ParseAnnotationType t = (n, mth, ok)"
  shows "agg_ok (gget (newAggregation mth) s t) \<and> ag_Method (gget (newAggregation mth) s t) = mth"
proof -
  have "ag_Method (newAggregation mth) = mth" by (simp add: newAggregation_def)
  with assms gget_cases [of "newAggregation mth" s t] show ?thesis
    by (auto simp: summary_ok_def)
qed

lemma Apply_ok: "summary_ok s \<Longrightarrow> summary_ok (Apply s a)"
proof -
  assume ok: "summary_ok s"
  obtain n mth b where p: "ParseAnnotationType (a_Type a) = (n, mth, b)" by (rule prod_cases3)
  let ?g = "gget (newAggregation mth) s (a_Type a)"
  have g: "agg_ok ?g" "ag_Method ?g = mth" using summary_ok_get [OF ok p] by auto
  show ?thesis
  proof (cases "\<not> b \<or> mth = [] \<or> foldAgg mth ?g a = None")
    case True
    with ok p show ?thesis by (auto simp: Apply_def)
  next
    case False
    then obtain g' where g': "foldAgg mth ?g a = Some g'" by auto
    have "agg_ok g'" "ag_Method g' = mth"
      using foldAgg_ok [OF g' g(1)] foldAgg_method [OF g'] g(2) by auto
    with ok p g' show ?thesis
      by (auto simp: Apply_def summary_ok_def dest!: gput_memD gdel_memD)
  qed
qed

section \<open>What a summary means\<close>

text \<open>The contributions recorded under one annotation type: pairs of a value and a client
  for the distinct and unique methods, clients for the flag method, a tally for the total
  method.\<close>

definition pairs :: "(string, ClientIDList) gomap \<Rightarrow> (string \<times> string) set" where
  "pairs vs = {(v, c). \<exists>l. map_of vs v = Some l \<and> c \<in> set (cl_ClientIDs l)}"

definition contrib :: "Summary \<Rightarrow> string \<Rightarrow> (string \<times> string) set" where
  "contrib s typ = (case map_of s typ of None \<Rightarrow> {} | Some g \<Rightarrow> pairs (ag_Values g))"

definition flagged :: "Summary \<Rightarrow> string \<Rightarrow> string set" where
  "flagged s typ = (case map_of s typ of
      None \<Rightarrow> {}
    | Some g \<Rightarrow> (case ag_Flag g of None \<Rightarrow> {} | Some l \<Rightarrow> set (cl_ClientIDs l)))"

definition tally :: "Summary \<Rightarrow> string \<Rightarrow> nat" where
  "tally s typ = (case map_of s typ of
      None \<Rightarrow> 0
    | Some g \<Rightarrow> (case ag_Total g of None \<Rightarrow> 0 | Some t \<Rightarrow> nat (ta_Total t)))"

text \<open>The abstract operations.\<close>

definition distinct_spec :: "Annotation \<Rightarrow> (string \<times> string) set \<Rightarrow> (string \<times> string) set" where
  "distinct_spec a S = (case a_Action a of
      AnnotationCreate \<Rightarrow> insert (a_Name a, a_ClientID a) S
    | AnnotationDelete \<Rightarrow> S - {(a_Name a, a_ClientID a)}
    | AnnotationActionOther _ \<Rightarrow> S)"

definition unique_spec :: "Annotation \<Rightarrow> (string \<times> string) set \<Rightarrow> (string \<times> string) set" where
  "unique_spec a S = (case a_Action a of
      AnnotationCreate \<Rightarrow> insert (a_Name a, a_ClientID a) {(v, c) \<in> S. c \<noteq> a_ClientID a}
    | AnnotationDelete \<Rightarrow> S - {(a_Name a, a_ClientID a)}
    | AnnotationActionOther _ \<Rightarrow> S)"

lemma pairs_empty [simp]: "pairs [] = {}"
  by (simp add: pairs_def)

lemma mem_pairs: "(v, c) \<in> pairs vs \<longleftrightarrow> (\<exists>l. map_of vs v = Some l \<and> c \<in> set (cl_ClientIDs l))"
  by (simp add: pairs_def)

lemma mem_pairs_get: "(v, c) \<in> pairs vs \<longleftrightarrow> c \<in> set (cl_ClientIDs (gget emptyList vs v))"
  by (simp add: mem_pairs gget_def split: option.split)

lemma pairs_add: "pairs (addUnder v c vs) = insert (v, c) (pairs vs)"
proof (rule set_eqI, clarify)
  fix w d
  show "(w, d) \<in> pairs (addUnder v c vs) \<longleftrightarrow> (w, d) \<in> insert (v, c) (pairs vs)"
    by (auto simp: mem_pairs_get addUnder_def gget_def)
qed

lemma pairs_remove:
  assumes "values_ok vs"
  shows "pairs (removeUnder v c vs) = pairs vs - {(v, c)}"
proof (rule set_eqI, clarify)
  fix w d
  show "(w, d) \<in> pairs (removeUnder v c vs) \<longleftrightarrow> (w, d) \<in> pairs vs - {(v, c)}"
  proof (cases "map_of vs v")
    case None
    then show ?thesis by (auto simp: mem_pairs removeUnder_def)
  next
    case (Some l)
    then have r: "set (cl_ClientIDs (removeClientID c l)) = set (cl_ClientIDs l) - {c}"
      using values_ok_mem [OF assms] by simp
    then have "cl_ClientIDs (removeClientID c l) = [] \<longleftrightarrow> set (cl_ClientIDs l) \<subseteq> {c}"
      by (metis Diff_eq_empty_iff set_empty)
    with Some r show ?thesis
      by (cases "w = v") (auto simp: mem_pairs removeUnder_def Let_def)
  qed
qed

lemma pairs_elsewhere:
  assumes "values_ok vs"
  shows "pairs (removeElsewhere v c vs) = {(w, d) \<in> pairs vs. w = v \<or> d \<noteq> c}"
proof (rule set_eqI, clarify)
  fix w d
  have "gmap_ok vs" using assms by (simp add: values_ok_def)
  note m = removeElsewhere_map_of [OF this, of v c w]
  show "(w, d) \<in> pairs (removeElsewhere v c vs) \<longleftrightarrow> (w, d) \<in> {(w, d) \<in> pairs vs. w = v \<or> d \<noteq> c}"
  proof (cases "map_of vs w")
    case None
    then show ?thesis by (simp add: mem_pairs m)
  next
    case (Some l)
    then have r: "set (cl_ClientIDs (removeClientID c l)) = set (cl_ClientIDs l) - {c}"
      using values_ok_mem [OF assms] by simp
    then have "cl_ClientIDs (removeClientID c l) = [] \<longleftrightarrow> set (cl_ClientIDs l) \<subseteq> {c}"
      by (metis Diff_eq_empty_iff set_empty)
    with Some r show ?thesis by (auto simp: mem_pairs m)
  qed
qed

lemma pairs_foldDistinct:
  "agg_ok g \<Longrightarrow> pairs (ag_Values (foldDistinct g a (a_Name a))) = distinct_spec a (pairs (ag_Values g))"
  by (auto simp: foldDistinct_def distinct_spec_def pairs_add pairs_remove agg_ok_def
      split: AnnotationAction.splits)

lemma pairs_foldUnique:
  "agg_ok g \<Longrightarrow> pairs (ag_Values (foldUnique g a (a_Name a))) = unique_spec a (pairs (ag_Values g))"
  by (auto simp: foldUnique_def unique_spec_def pairs_add pairs_remove pairs_elsewhere agg_ok_def
      split: AnnotationAction.splits)

lemma contrib_get: "contrib s typ = pairs (ag_Values (gget (newAggregation mth) s typ))"
  by (simp add: contrib_def gget_def newAggregation_def split: option.split)

lemma Apply_step:
  assumes "ParseAnnotationType (a_Type a) = (n, mth, True)" "mth \<noteq> []"
    and "foldAgg mth (gget (newAggregation mth) s (a_Type a)) a = Some g"
  shows "map_of (Apply s a) (a_Type a) = (if agg_empty g then None else Some g)"
  using assms by (simp add: Apply_def)

lemma Apply_other: "t \<noteq> a_Type a \<Longrightarrow> map_of (Apply s a) t = map_of s t"
  by (auto simp: Apply_def split: prod.splits option.splits)

lemma contrib_Apply:
  assumes "summary_ok s" "ParseAnnotationType (a_Type a) = (n, mth, True)"
  shows "mth = ''distinct.v1'' \<Longrightarrow> contrib (Apply s a) (a_Type a) = distinct_spec a (contrib s (a_Type a))"
    and "mth = ''unique.v1'' \<Longrightarrow> contrib (Apply s a) (a_Type a) = unique_spec a (contrib s (a_Type a))"
proof -
  let ?g = "gget (newAggregation mth) s (a_Type a)"
  have g: "agg_ok ?g" "ag_Method ?g = mth" using summary_ok_get [OF assms] by auto
  have fold: "foldAgg mth ?g a = Some g' \<Longrightarrow> mth = ''distinct.v1'' \<or> mth = ''unique.v1'' \<Longrightarrow>
      contrib (Apply s a) (a_Type a) = pairs (ag_Values g')" for g'
    using Apply_step [OF assms(2), of s g'] foldAgg_method [of mth ?g a g'] g(2)
    by (auto simp: contrib_def agg_empty_def split: if_splits)
  show "mth = ''distinct.v1'' \<Longrightarrow> contrib (Apply s a) (a_Type a) = distinct_spec a (contrib s (a_Type a))"
    using fold pairs_foldDistinct [OF g(1)] by (simp add: foldAgg_def contrib_get [of s _ mth])
  show "mth = ''unique.v1'' \<Longrightarrow> contrib (Apply s a) (a_Type a) = unique_spec a (contrib s (a_Type a))"
    using fold pairs_foldUnique [OF g(1)] by (simp add: foldAgg_def contrib_get [of s _ mth])
qed

lemma summary_ok_fold: "summary_ok s \<Longrightarrow> summary_ok (foldl Apply s xs)"
  by (induction xs arbitrary: s) (auto intro: Apply_ok)

lemma summary_ok_Nil [simp]: "summary_ok []"
  by (simp add: summary_ok_def)

lemma contrib_other: "ty \<noteq> a_Type a \<Longrightarrow> contrib (Apply s a) ty = contrib s ty"
  by (simp add: contrib_def Apply_other)

text \<open>The actions one client took on one value of one type, unknown actions left out.\<close>

definition own_actions :: "string \<Rightarrow> string \<Rightarrow> string \<Rightarrow> Annotation list \<Rightarrow> AnnotationAction list" where
  "own_actions ty v c xs =
     filter (\<lambda>x. x = AnnotationCreate \<or> x = AnnotationDelete)
       (map a_Action (filter (\<lambda>a. a_Type a = ty \<and> a_Name a = v \<and> a_ClientID a = c) xs))"

lemma own_actions_snoc:
  "own_actions ty v c (xs @ [a]) = own_actions ty v c xs @
     (if a_Type a = ty \<and> a_Name a = v \<and> a_ClientID a = c \<and>
         (a_Action a = AnnotationCreate \<or> a_Action a = AnnotationDelete)
      then [a_Action a] else [])"
  by (simp add: own_actions_def)

lemma contrib_distinct_fold:
  assumes "ParseAnnotationType ty = (n, ''distinct.v1'', True)"
  shows "(v, c) \<in> contrib (foldl Apply [] xs) ty \<longleftrightarrow>
    own_actions ty v c xs \<noteq> [] \<and> last (own_actions ty v c xs) = AnnotationCreate"
proof (induction xs rule: rev_induct)
  case Nil
  show ?case by (simp add: own_actions_def contrib_def)
next
  case (snoc a xs)
  let ?s = "foldl Apply [] xs"
  show ?case
  proof (cases "a_Type a = ty")
    case False
    then show ?thesis using snoc.IH by (simp add: contrib_other own_actions_snoc)
  next
    case True
    have "contrib (Apply ?s a) ty = distinct_spec a (contrib ?s ty)"
      using contrib_Apply(1) [of ?s a n "''distinct.v1''"] assms True summary_ok_fold [of "[]" xs]
      by simp
    then show ?thesis using snoc.IH True
      by (auto simp: own_actions_snoc distinct_spec_def split: AnnotationAction.splits)
  qed
qed

lemma contrib_unique_single:
  assumes "ParseAnnotationType ty = (n, ''unique.v1'', True)"
  shows "(v, c) \<in> contrib (foldl Apply [] xs) ty \<Longrightarrow> (w, c) \<in> contrib (foldl Apply [] xs) ty \<Longrightarrow> v = w"
proof (induction xs arbitrary: v w c rule: rev_induct)
  case Nil
  then show ?case by (simp add: contrib_def)
next
  case (snoc a xs)
  let ?s = "foldl Apply [] xs"
  show ?case
  proof (cases "a_Type a = ty")
    case False
    then show ?thesis using snoc by (simp add: contrib_other)
  next
    case True
    have "contrib (Apply ?s a) ty = unique_spec a (contrib ?s ty)"
      using contrib_Apply(2) [of ?s a n "''unique.v1''"] assms True summary_ok_fold [of "[]" xs]
      by simp
    then show ?thesis using snoc
      by (auto simp: unique_spec_def split: AnnotationAction.splits)
  qed
qed

lemma sum_gput:
  "gmap_ok m \<Longrightarrow> sum_list (map snd (gput k v m)) = sum_list (map snd m) - gget 0 m k + (v :: int)"
  by (induction m) (auto simp: gget_def map_of_eq_None_iff split: option.splits)

lemma gdel_notin: "k \<notin> fst ` set m \<Longrightarrow> gdel k m = m"
  by (induction m) (auto simp: AList.delete_eq)

lemma sum_gdel:
  "gmap_ok m \<Longrightarrow> sum_list (map snd (gdel k m)) = sum_list (map snd m) - (gget 0 m k :: int)"
proof (induction m)
  case (Cons x m)
  then show ?case
    by (cases x) (auto simp: gget_def gdel_notin map_of_eq_None_iff AList.delete_eq [symmetric] split: option.splits)
qed (simp add: gget_def)

definition counts_sum :: "ClientIDCounts \<Rightarrow> int" where
  "counts_sum cc = sum_list (map snd (cc_ClientIDs cc)) + cc_TotalUnidentified cc"

section \<open>Properties\<close>

text \<open>Every summary the fold produces is well formed, for every sequence of annotations:
  types are distinct and carry their own method, no aggregation is empty, every client list is
  duplicate free with its total equal to its length, every per-client count is positive and
  every client-count total is exact.\<close>

theorem summary_fold_well_formed: "summary_ok (foldl Apply [] xs)"
  by (rule summary_ok_fold) simp

text \<open>Distinct.v1 means last action wins per client and value: after any sequence of
  annotations a client is listed under a value iff its last create or delete of that type and
  value was a create.\<close>

theorem distinct_last_action_wins:
  assumes "ParseAnnotationType ty = (n, ''distinct.v1'', True)"
  shows "(v, c) \<in> contrib (foldl Apply [] xs) ty \<longleftrightarrow>
    own_actions ty v c xs \<noteq> [] \<and> last (own_actions ty v c xs) = AnnotationCreate"
  using assms by (rule contrib_distinct_fold)

theorem distinct_last_action_wins_witness:
  "(''up'', ''bob'') \<in> contrib (foldl Apply []
     [zeroAnnotation\<lparr>a_Type := ''r:distinct.v1'', a_Name := ''up'', a_ClientID := ''bob''\<rparr>])
     ''r:distinct.v1''"
  using distinct_last_action_wins [of "''r:distinct.v1''" "''r''" "''up''" "''bob''"
      "[zeroAnnotation\<lparr>a_Type := ''r:distinct.v1'', a_Name := ''up'', a_ClientID := ''bob''\<rparr>]"]
  by (simp add: ParseAnnotationType_def own_actions_def zeroAnnotation_def)

text \<open>Unique.v1 keeps at most one value per client after any sequence of annotations, and a
  create makes the new value the client's current one while leaving every other client's
  contribution untouched.\<close>

theorem unique_one_value_newest_wins:
  assumes "ParseAnnotationType ty = (n, ''unique.v1'', True)" and "a_Type a = ty"
    and "a_Action a = AnnotationCreate"
  shows "{v. (v, a_ClientID a) \<in> contrib (foldl Apply [] (xs @ [a])) ty} = {a_Name a} \<and>
    (\<forall>v c. c \<noteq> a_ClientID a \<longrightarrow> ((v, c) \<in> contrib (foldl Apply [] (xs @ [a])) ty \<longleftrightarrow>
       (v, c) \<in> contrib (foldl Apply [] xs) ty)) \<and>
    (\<forall>v w c. (v, c) \<in> contrib (foldl Apply [] xs) ty \<longrightarrow>
       (w, c) \<in> contrib (foldl Apply [] xs) ty \<longrightarrow> v = w)"
proof -
  have "contrib (foldl Apply [] (xs @ [a])) ty = unique_spec a (contrib (foldl Apply [] xs) ty)"
    using contrib_Apply(2) [of "foldl Apply [] xs" a n "''unique.v1''"] assms
      summary_ok_fold [of "[]" xs] by simp
  then show ?thesis
    using assms(3) contrib_unique_single [OF assms(1), of _ _ xs]
    by (auto simp: unique_spec_def)
qed

theorem unique_one_value_newest_wins_witness:
  "{v. (v, ''bob'') \<in> contrib (foldl Apply [] ([] @
     [zeroAnnotation\<lparr>a_Type := ''r:unique.v1'', a_Name := ''up'', a_ClientID := ''bob''\<rparr>]))
     ''r:unique.v1''} = {''up''}"
  using unique_one_value_newest_wins [of "''r:unique.v1''" "''r''"
      "zeroAnnotation\<lparr>a_Type := ''r:unique.v1'', a_Name := ''up'', a_ClientID := ''bob''\<rparr>" "[]"]
  by (simp add: ParseAnnotationType_def zeroAnnotation_def)

text \<open>Total.v1 is a tally over the naturals: a create adds one, a delete takes one away and
  stops at zero (a non-positive tally is dropped from the summary), and other types are
  unaffected.\<close>

theorem total_is_a_tally:
  assumes "summary_ok s" and "ParseAnnotationType (a_Type a) = (n, ''total.v1'', True)"
    and "int (tally s (a_Type a)) < 2 ^ 63 - 1"
  shows "tally (Apply s a) (a_Type a) =
    (case a_Action a of
       AnnotationCreate \<Rightarrow> tally s (a_Type a) + 1
     | AnnotationDelete \<Rightarrow> tally s (a_Type a) - 1
     | AnnotationActionOther _ \<Rightarrow> tally s (a_Type a))"
proof -
  let ?g = "gget (newAggregation ''total.v1'') s (a_Type a)"
  have m: "ag_Method ?g = ''total.v1''" using summary_ok_get [OF assms(1,2)] by simp
  have f: "foldAgg ''total.v1'' ?g a = Some (foldTotal ?g a)" by (simp add: foldAgg_def)
  have t: "map_of (Apply s a) (a_Type a) =
      (if agg_empty (foldTotal ?g a) then None else Some (foldTotal ?g a))"
    using Apply_step [OF assms(2) _ f] by simp
  have old: "(case ag_Total ?g of None \<Rightarrow> 0 | Some t \<Rightarrow> ta_Total t) = int (tally s (a_Type a))"
  proof (cases "map_of s (a_Type a)")
    case None
    then show ?thesis by (simp add: gget_def newAggregation_def tally_def)
  next
    case (Some g)
    with assms(1) have "\<not> agg_empty g" by (auto simp: summary_ok_def dest!: map_of_Some_mem)
    with Some m show ?thesis
      by (auto simp: gget_def tally_def agg_empty_def split: option.splits)
  qed
  have "ag_Method (foldTotal ?g a) = ''total.v1''" using m by (simp add: foldTotal_def Let_def)
  with t old assms(3) show ?thesis
    by (cases "a_Action a")
      (auto simp: tally_def foldTotal_def Let_def agg_empty_def int64_range_def)
qed

theorem total_is_a_tally_witness:
  "tally (Apply [] (zeroAnnotation\<lparr>a_Type := ''r:total.v1''\<rparr>)) ''r:total.v1'' = 1"
  using total_is_a_tally [of "[]" "zeroAnnotation\<lparr>a_Type := ''r:total.v1''\<rparr>" "''r''"]
  by (simp add: ParseAnnotationType_def zeroAnnotation_def tally_def)

text \<open>Multiple.v1 keeps its total equal to the sum of the per-client counts and the
  unidentified count, as long as a delete takes no more than the client contributed and the
  64-bit sums do not overflow.\<close>

theorem multiple_total_is_sum:
  assumes "counts_ok cc" and "cc_Total cc = counts_sum cc"
    and "cid \<noteq> [] \<Longrightarrow> 0 \<le> gget 0 (cc_ClientIDs cc) cid + delta"
    and "int64_range (cc_Total cc + delta)" "int64_range (cc_TotalUnidentified cc + delta)"
    and "int64_range (gget 0 (cc_ClientIDs cc) cid + delta)"
  shows "cc_Total (bumpCounts cid delta cc) = counts_sum (bumpCounts cid delta cc)"
  using assms
  by (auto simp: bumpCounts_def counts_sum_def counts_ok_def Let_def sum_gput sum_gdel)

theorem multiple_total_is_sum_witness:
  "cc_Total (bumpCounts ''bob'' 3 emptyCounts) = counts_sum (bumpCounts ''bob'' 3 emptyCounts)"
  using multiple_total_is_sum [of emptyCounts "''bob''" 3]
  by (simp add: counts_ok_def counts_sum_def emptyCounts_def gget_def int64_range_def)

text \<open>Without that condition the multiple.v1 total drifts: after two clients react once each
  and one of them sends a delete with count 5, the entry lists one client with count 1 and a
  total of minus 3.\<close>

theorem multiple_over_delete_negative_total:
  "let mk = (\<lambda>c act n. zeroAnnotation\<lparr>a_Type := ''r:multiple.v1'', a_Name := ''up'',
                a_ClientID := c, a_Action := act, a_Count := n\<rparr>);
       s = foldl Apply [] [mk ''amy'' AnnotationCreate 1, mk ''bob'' AnnotationCreate 1,
                           mk ''amy'' AnnotationDelete 5];
       cc = gget emptyCounts (ag_Counts (gget (newAggregation ''multiple.v1'') s ''r:multiple.v1''))
              ''up''
   in cc_Total cc = -3 \<and> cc_ClientIDs cc = [(''bob'', 1)]"
  by code_simp

end
