(* ===== verification/Paging.thy ===== *)
theory Paging
  imports Prelude
begin

text \<open>
  The pagination contract every paginated read of the server shares: a page is the
  limit-bounded prefix, in scan direction, of the items strictly beyond the cursor, and the
  next cursor is the key of the page's last item. The locales \<open>cursor_scan\<close> and \<open>cursor_paging\<close> state it and
  prove once what a client relies on: following the next links from an empty cursor visits
  every item exactly once, in order, and stops. The reads that satisfy it interpret it.
\<close>

section \<open>Definitions\<close>

text \<open>The cursor test of the scans: an empty cursor excludes nothing; otherwise the cursor and
  everything before it in scan direction is skipped.\<close>

definition skips :: "bool \<Rightarrow> string \<Rightarrow> string \<Rightarrow> bool" where
  "skips fw cursor s \<longleftrightarrow> cursor \<noteq> [] \<and> (if fw then s \<le> cursor else cursor \<le> s)"

definition limited :: "int \<Rightarrow> 'a list \<Rightarrow> 'a list" where
  "limited lim ys = (if lim > 0 then take (nat lim) ys else ys)"

definition cut_short :: "int \<Rightarrow> 'a list \<Rightarrow> bool" where
  "cut_short lim ys \<longleftrightarrow> lim > 0 \<and> nat lim < length ys"

text \<open>The specified page over the items in ascending key order.\<close>

definition page_of :: "('a \<Rightarrow> string) \<Rightarrow> bool \<Rightarrow> string \<Rightarrow> int \<Rightarrow> 'a list \<Rightarrow> 'a list \<times> bool" where
  "page_of key fw cursor lim xs =
     (let ys = filter (\<lambda>x. \<not> skips fw cursor (key x)) (if fw then xs else rev xs)
      in (limited lim ys, cut_short lim ys))"

text \<open>A client that follows the next links: it asks for the page at a cursor and, while the
  page is not the last, continues at the key of the page's last item. \<open>None\<close> is a client that
  is still following links when its fuel runs out.\<close>

fun follow :: "(string \<Rightarrow> 'a list \<times> bool) \<Rightarrow> ('a \<Rightarrow> string) \<Rightarrow> nat \<Rightarrow> string \<Rightarrow> 'a list option" where
  "follow pg key 0 c = None"
| "follow pg key (Suc n) c =
     (case pg c of (ys, more) \<Rightarrow>
        if more \<and> ys \<noteq> [] \<and> key (last ys) \<noteq> []
        then map_option (\<lambda>zs. ys @ zs) (follow pg key n (key (last ys)))
        else Some ys)"

section \<open>Lemmas\<close>

lemma limited_append_rest: "lim > 0 \<Longrightarrow> limited lim ys @ drop (nat lim) ys = ys"
  by (simp add: limited_def)

lemma sorted_filter_after:
  assumes "sorted_wrt (\<lambda>a b. R (key a) (key b)) (us @ [u] @ vs)"
    and irr: "\<And>a. \<not> R a a" and tr: "\<And>a b c. R a b \<Longrightarrow> R b c \<Longrightarrow> R a c"
  shows "filter (\<lambda>x. R (key u) (key x)) (us @ [u] @ vs) = vs"
proof -
  have "filter (\<lambda>x. R (key u) (key x)) us = []"
  proof -
    have "\<not> R (key u) (key x)" if "x \<in> set us" for x
    proof
      assume "R (key u) (key x)"
      moreover have "R (key x) (key u)" using assms(1) that by (simp add: sorted_wrt_append)
      ultimately show False using irr tr by blast
    qed
    then show ?thesis by (simp add: filter_empty_conv)
  qed
  moreover have "filter (\<lambda>x. R (key u) (key x)) vs = vs"
    using assms(1) by (auto simp: sorted_wrt_append)
  ultimately show ?thesis using irr by simp
qed

text \<open>The rest of a scan, beyond the last item of a page.\<close>

lemma beyond_last:
  assumes "sorted_wrt (\<lambda>a b. R (key a) (key b)) zs" "0 < n" "n < length zs"
    and irr: "\<And>a. \<not> R a a" and tr: "\<And>a b c. R a b \<Longrightarrow> R b c \<Longrightarrow> R a c"
  shows "filter (\<lambda>x. R (key (last (take n zs))) (key x)) zs = drop n zs"
proof -
  let ?u = "last (take n zs)"
  have "take n zs \<noteq> []" using assms(2,3) by auto
  then have z: "zs = butlast (take n zs) @ [?u] @ drop n zs"
    by (metis append_assoc append_butlast_last_id append_take_drop_id)
  then show ?thesis
    using sorted_filter_after [of R key "butlast (take n zs)" ?u "drop n zs"] assms(1) irr tr
    by metis
qed

text \<open>Beyond a page's last item the scan continues at the next position of the list.\<close>

lemma scan_at:
  assumes "sorted_wrt (\<lambda>a b. if fw then key a < key b else key b < key a) us"
    and "\<forall>u \<in> set us. key u \<noteq> []" "0 < j" "j < length us"
  shows "filter (\<lambda>x. \<not> skips fw (key (last (take j us))) (key x)) us = drop j us"
proof -
  let ?R = "\<lambda>a b. if fw then a < b else b < (a :: string)"
  let ?c = "key (last (take j us))"
  have "last (take j us) \<in> set us"
    using assms(3,4) by (intro in_set_takeD [OF last_in_set]) auto
  then have "?c \<noteq> []" using assms(2) by blast
  then have "(\<lambda>x. \<not> skips fw ?c (key x)) = (\<lambda>x. ?R ?c (key x))"
    by (auto simp: skips_def not_le)
  moreover have "filter (\<lambda>x. ?R ?c (key x)) us = drop j us"
    using assms(1,3,4) by (intro beyond_last) (auto split: if_splits)
  ultimately show ?thesis by simp
qed

section \<open>The contract\<close>

text \<open>A listing read in one direction.\<close>

locale cursor_scan =
  fixes valid :: "'s \<Rightarrow> bool"
    and items :: "'s \<Rightarrow> 'a list"
    and key :: "'a \<Rightarrow> string"
    and fw :: bool
    and page :: "'s \<Rightarrow> string \<Rightarrow> int \<Rightarrow> 'a list \<times> bool"
  assumes scan_spec: "valid s \<Longrightarrow> page s c lim = page_of key fw c lim (items s)"
    and scan_sorted: "valid s \<Longrightarrow> sorted_wrt (<) (map key (items s))"
    and scan_keys: "valid s \<Longrightarrow> x \<in> set (items s) \<Longrightarrow> key x \<noteq> []"
begin

lemma follow_from:
  assumes "lim > 0" "length us - j < n" "j \<le> length us" "valid s"
    and us: "us = (if fw then items s else rev (items s))"
    and srt: "sorted_wrt (\<lambda>a b. if fw then key a < key b else key b < key a) us"
    and ne: "\<forall>u \<in> set us. key u \<noteq> []"
    and "filter (\<lambda>x. \<not> skips fw c (key x)) us = drop j us"
  shows "follow (\<lambda>c. page s c lim) key n c = Some (drop j us)"
  using assms(2,3,8)
proof (induction n arbitrary: c j)
  case 0
  then show ?case by simp
next
  case (Suc n)
  define k where "k = nat lim"
  have lim: "limited lim ys = take k ys" for ys :: "'a list"
    using assms(1) by (simp add: limited_def k_def)
  have pg: "page s c lim = (take k (drop j us), k < length us - j)"
    using Suc.prems(3) us assms(1,4)
    by (simp add: scan_spec page_of_def Let_def lim cut_short_def k_def)
  show ?case
  proof (cases "k < length us - j")
    case False
    with pg show ?thesis by simp
  next
    case True
    have k: "0 < k" using assms(1) by (simp add: k_def)
    let ?page = "take k (drop j us)"
    have nep: "?page \<noteq> []" using True k by simp
    have last: "last ?page = last (take (j + k) us)"
      using nep by (simp add: take_add)
    have mem: "last ?page \<in> set us" using nep by (meson in_set_dropD in_set_takeD last_in_set)
    have "follow (\<lambda>c. page s c lim) key n (key (last ?page)) = Some (drop (j + k) us)"
      using Suc.prems(1) True k scan_at [OF srt ne, of "j + k"]
      by (intro Suc.IH) (auto simp: last)
    moreover have "?page @ drop (j + k) us = drop j us"
      by (metis add.commute append_take_drop_id drop_drop)
    ultimately show ?thesis using True pg nep mem ne by simp
  qed
qed

lemma follow_scan:
  assumes "valid s" "lim > 0" "length (items s) < n"
  shows "follow (\<lambda>c. page s c lim) key n [] = Some (if fw then items s else rev (items s))"
proof -
  let ?us = "if fw then items s else rev (items s)"
  have "sorted_wrt (\<lambda>a b. if fw then key a < key b else key b < key a) ?us"
    using scan_sorted [OF assms(1)] by (simp add: sorted_wrt_map sorted_wrt_rev)
  then show ?thesis
    using assms scan_keys [OF assms(1)] follow_from [of lim ?us 0 n s "[]"] by (simp add: skips_def)
qed

end

text \<open>A listing that can be read both ways.\<close>

locale cursor_paging =
  fixes valid :: "'s \<Rightarrow> bool"
    and items :: "'s \<Rightarrow> 'a list"
    and key :: "'a \<Rightarrow> string"
    and page :: "'s \<Rightarrow> bool \<Rightarrow> string \<Rightarrow> int \<Rightarrow> 'a list \<times> bool"
  assumes page_spec: "valid s \<Longrightarrow> page s fw c lim = page_of key fw c lim (items s)"
    and items_sorted: "valid s \<Longrightarrow> sorted_wrt (<) (map key (items s))"
    and keys_nonempty: "valid s \<Longrightarrow> x \<in> set (items s) \<Longrightarrow> key x \<noteq> []"

sublocale cursor_paging \<subseteq> onward: cursor_scan valid items key True "\<lambda>s. page s True"
  by unfold_locales (simp_all add: page_spec items_sorted keys_nonempty)

sublocale cursor_paging \<subseteq> backward: cursor_scan valid items key False "\<lambda>s. page s False"
  by unfold_locales (simp_all add: page_spec items_sorted keys_nonempty)

context cursor_paging
begin

lemma follow_all:
  assumes "valid s" "lim > 0" "length (items s) < n"
  shows "follow (\<lambda>c. page s fw c lim) key n [] = Some (if fw then items s else rev (items s))"
  using onward.follow_scan [OF assms] backward.follow_scan [OF assms] by (cases fw) simp_all

end

end
