(* ===== verification/Storage.thy ===== *)
theory Storage
  imports Summary Paging
begin

text \<open>
  Package \<open>internal/storage\<close> (\<open>storage.go\<close>): what every backend shares. Batch-id resolution,
  version stamping, the merge that makes an update, delete or append a complete new version,
  the collapse of append runs, the page slicers, and the query and page types of a history
  read. An error return is the \<open>Inl\<close> of a sum.
\<close>

section \<open>Definitions\<close>

text \<open>The errors a store operation returns: the exported sentinels, the two argument checks of
  \<open>Mutate\<close>, the empty-batch check, and a cancelled context.\<close>

datatype storage_error =
    ErrTargetNotFound | ErrIncompatibleAppend | ErrInvalidMessageID
  | ErrNoItems | ErrNotMutation | ErrNoTarget | ErrCtx

type_synonym Kind = string

definition KindMessage :: Kind where "KindMessage = ''message''"
definition KindPresence :: Kind where "KindPresence = ''presence''"
definition KindAnnotation :: Kind where "KindAnnotation = ''annotation''"

definition Normalize :: "Kind \<Rightarrow> Kind" where
  "Normalize k = (if k = [] then KindMessage else k)"

lemmas kind_defs = KindMessage_def KindPresence_def KindAnnotation_def Normalize_def

definition MemberKey :: "string \<Rightarrow> string \<Rightarrow> string" where
  "MemberKey connectionID clientID = connectionID @ '':'' @ clientID"

subsection \<open>Batch ids\<close>

text \<open>The first loop of \<open>messageBaseID\<close>: whether any message carries an id; a message without
  one after a message with one is an error.\<close>

fun scanIDs :: "bool \<Rightarrow> Message list \<Rightarrow> storage_error + bool" where
  "scanIDs hasID [] = Inr hasID"
| "scanIDs hasID (m # ms) =
     (if m_ID m \<noteq> [] then scanIDs True ms
      else if hasID then Inl ErrInvalidMessageID
      else scanIDs hasID ms)"

definition batchID :: "string \<Rightarrow> nat \<Rightarrow> string" where
  "batchID base i = base @ '':'' @ itoa (int i)"

text \<open>The second loop, from index \<open>i\<close> on.\<close>

fun checkIDs :: "string \<Rightarrow> nat \<Rightarrow> Message list \<Rightarrow> bool" where
  "checkIDs base i [] = True"
| "checkIDs base i (m # ms) = (m_ID m = batchID base i \<and> checkIDs base (Suc i) ms)"

definition messageBaseID :: "Message list \<Rightarrow> storage_error + (string \<times> bool)" where
  "messageBaseID msgs =
     (case msgs of
        [m] \<Rightarrow> Inr (trim_suffix (m_ID m) '':0'', m_ID m \<noteq> [])
      | _ \<Rightarrow>
         (case scanIDs False msgs of
            Inl e \<Rightarrow> Inl e
          | Inr hasID \<Rightarrow>
              if \<not> hasID then Inr ([], False)
              else (case cut_suffix (m_ID (hd msgs)) '':0'' of
                 (base, ok) \<Rightarrow>
                   if \<not> ok then Inl ErrInvalidMessageID
                   else if checkIDs base 1 (tl msgs) then Inr (base, True)
                   else Inl ErrInvalidMessageID)))"

fun stampIDs :: "string \<Rightarrow> nat \<Rightarrow> Message list \<Rightarrow> Message list" where
  "stampIDs base i [] = []"
| "stampIDs base i (m # ms) = m\<lparr>m_ID := batchID base i\<rparr> # stampIDs base (Suc i) ms"

text \<open>\<open>StampMessageIDs\<close>, with the value \<open>id.NewMessageBaseID\<close> returns as an argument.\<close>

definition StampMessageIDs :: "string \<Rightarrow> Message list \<Rightarrow> storage_error + (string \<times> Message list)" where
  "StampMessageIDs fresh msgs =
     (case messageBaseID msgs of
        Inl e \<Rightarrow> Inl e
      | Inr (base, hasID) \<Rightarrow>
          if \<not> hasID then Inr (fresh, stampIDs fresh 0 msgs) else Inr (base, msgs))"

subsection \<open>Stamping and merging versions\<close>

definition StampCreateVersion :: "Message \<Rightarrow> Message" where
  "StampCreateVersion m =
     (let ts = TimestampOr0 (m_Serial m)
      in m\<lparr>m_Timestamp := ts,
           m_Version := Some \<lparr>v_Serial = m_Serial m, v_Timestamp = ts, v_ClientID = m_ClientID m,
             v_Description = [], v_Metadata = None\<rparr>\<rparr>)"

definition StampPresenceMember :: "string \<Rightarrow> int \<Rightarrow> PresenceMessage \<Rightarrow> PresenceMessage" where
  "StampPresenceMember channelSerial idx p =
     (let s = MessageSerial channelSerial idx
      in p\<lparr>p_Serial := s, p_Timestamp := TimestampOr0 s\<rparr>)"

fun concatData :: "goany \<Rightarrow> goany \<Rightarrow> storage_error + goany" where
  "concatData current AnyNil = Inr current"
| "concatData AnyNil add = Inr add"
| "concatData (AnyStr c) (AnyStr a) = Inr (AnyStr (c @ a))"
| "concatData (AnyBytes c) (AnyBytes a) = Inr (AnyBytes (c @ a))"
| "concatData _ _ = Inl ErrIncompatibleAppend"

definition mutationVersion :: "Message \<Rightarrow> string \<Rightarrow> MessageVersion" where
  "mutationVersion mut versionSerial =
     \<lparr>v_Serial = versionSerial, v_Timestamp = TimestampOr0 versionSerial,
      v_ClientID = m_ClientID mut,
      v_Description = (case m_Version mut of None \<Rightarrow> [] | Some v \<Rightarrow> v_Description v),
      v_Metadata = (case m_Version mut of None \<Rightarrow> None | Some v \<Rightarrow> v_Metadata v)\<rparr>"

definition appendDelta :: "Message \<Rightarrow> Message \<Rightarrow> Message \<Rightarrow> MessageVersion \<Rightarrow> MessageBody" where
  "appendDelta current mut v ver =
     \<lparr>m_ID = [], m_Serial = m_Serial current, m_Action = MessageAppend,
      m_ClientID = m_ClientID current, m_ConnectionID = m_ConnectionID current,
      m_ConnectionKey = [], m_Name = m_Name v, m_Data = m_Data mut, m_Encoding = m_Encoding mut,
      m_Extras = m_Extras v, m_Timestamp = m_Timestamp v, m_Version = Some ver, m_Summary = []\<rparr>"

definition MergeVersion :: "Message \<Rightarrow> Message \<Rightarrow> string \<Rightarrow> storage_error + Message" where
  "MergeVersion current mut versionSerial =
     (let v = current\<lparr>m_Alt := None\<rparr>;
          v = (if m_Extras mut \<noteq> None then v\<lparr>m_Extras := m_Extras mut\<rparr> else v);
          ver = mutationVersion mut versionSerial
      in case m_Action mut of
           MessageAppend \<Rightarrow>
             (case concatData (m_Data current) (m_Data mut) of
                Inl e \<Rightarrow> Inl e
              | Inr concatenated \<Rightarrow>
                  let v = (if m_Name mut \<noteq> [] then v\<lparr>m_Name := m_Name mut\<rparr> else v);
                      delta = appendDelta current mut v ver;
                      v = v\<lparr>m_Action := MessageUpdate, m_Data := concatenated\<rparr>;
                      v = (if m_Encoding mut \<noteq> [] then v\<lparr>m_Encoding := m_Encoding mut\<rparr> else v)
                  in Inr (v\<lparr>m_Alt := Some delta, m_Version := Some ver\<rparr>))
         | _ \<Rightarrow>
             let v = (if m_Data mut \<noteq> AnyNil
                      then v\<lparr>m_Data := m_Data mut, m_Encoding := m_Encoding mut\<rparr> else v);
                 v = (if m_Name mut \<noteq> [] then v\<lparr>m_Name := m_Name mut\<rparr> else v);
                 v = v\<lparr>m_Action := (if m_Action mut = MessageDelete then MessageDelete
                                   else MessageUpdate)\<rparr>
             in Inr (v\<lparr>m_Version := Some ver\<rparr>))"

fun CollapseAppendVersions :: "Message list \<Rightarrow> Message list" where
  "CollapseAppendVersions [] = []"
| "CollapseAppendVersions [m] = [m]"
| "CollapseAppendVersions (m # n # ms) =
     (if HasAppendDelta m \<and> HasAppendDelta n then CollapseAppendVersions (n # ms)
      else m # CollapseAppendVersions (n # ms))"

definition VersionSerial :: "Message \<Rightarrow> string" where
  "VersionSerial m =
     (case m_Version m of
        Some v \<Rightarrow> if v_Serial v \<noteq> [] then v_Serial v else m_Serial m
      | None \<Rightarrow> m_Serial m)"

definition CreateChannelSerial :: "string \<Rightarrow> string" where
  "CreateChannelSerial identity =
     (case ParseMessageSerial identity of Inl _ \<Rightarrow> identity | Inr (cs, _) \<Rightarrow> cs)"

subsection \<open>Queries and pages\<close>

datatype Direction = DirectionBackwards | DirectionForwards

record HistoryQuery =
  hq_Kind :: Kind
  hq_Direction :: Direction
  hq_Start :: int
  hq_End :: int
  hq_Cursor :: string
  hq_AfterChannelSerial :: string
  hq_EndChannelSerial :: string
  hq_Limit :: int
  hq_Collapse :: bool

record HistoryPage =
  hp_ChannelMessages :: "ChannelMessage list"
  hp_HasMore :: bool

definition zeroQuery :: HistoryQuery where
  "zeroQuery = \<lparr>hq_Kind = [], hq_Direction = DirectionBackwards, hq_Start = 0, hq_End = 0,
     hq_Cursor = [], hq_AfterChannelSerial = [], hq_EndChannelSerial = [], hq_Limit = 0,
     hq_Collapse = False\<rparr>"

definition zeroPage :: HistoryPage where
  "zeroPage = \<lparr>hp_ChannelMessages = [], hp_HasMore = False\<rparr>"

definition forwards :: "HistoryQuery \<Rightarrow> bool" where
  "forwards q \<longleftrightarrow> hq_Direction q = DirectionForwards"

text \<open>The scan both page slicers run over the items in scan order: the body of \<open>emit\<close>, and the
  \<open>for\<close> loop that stops when it returns false. \<open>key\<close> is the item's cursor unit and \<open>mk\<close> the
  single-item ChannelMessage.\<close>

fun emitEach :: "('a \<Rightarrow> string) \<Rightarrow> ('a \<Rightarrow> ChannelMessage) \<Rightarrow> HistoryQuery \<Rightarrow> int \<Rightarrow> 'a list \<Rightarrow>
    HistoryPage \<Rightarrow> HistoryPage" where
  "emitEach key mk q count [] page = page"
| "emitEach key mk q count (x # xs) page =
     (if hq_Cursor q \<noteq> [] \<and>
         (forwards q \<and> key x \<le> hq_Cursor q \<or> \<not> forwards q \<and> key x \<ge> hq_Cursor q)
      then emitEach key mk q count xs page
      else if hq_Limit q > 0 \<and> count \<ge> hq_Limit q then page\<lparr>hp_HasMore := True\<rparr>
      else emitEach key mk q (count + 1) xs
             (page\<lparr>hp_ChannelMessages := hp_ChannelMessages page @ [mk x]\<rparr>))"

definition versionCM :: "Message \<Rightarrow> ChannelMessage" where
  "versionCM m = zeroChannelMessage\<lparr>cm_ChannelSerial := CreateChannelSerial (VersionSerial m),
     cm_Messages := [m]\<rparr>"

definition PaginateVersions :: "Message list \<Rightarrow> HistoryQuery \<Rightarrow> HistoryPage" where
  "PaginateVersions all q =
     emitEach VersionSerial versionCM q 0 (if forwards q then all else rev all) zeroPage"

definition annotationCM :: "Annotation \<Rightarrow> ChannelMessage" where
  "annotationCM a = zeroChannelMessage\<lparr>cm_ChannelSerial := CreateChannelSerial (a_Serial a),
     cm_Annotations := [a]\<rparr>"

definition PaginateAnnotations :: "Annotation list \<Rightarrow> HistoryQuery \<Rightarrow> HistoryPage" where
  "PaginateAnnotations all q =
     emitEach a_Serial annotationCM q 0 (if forwards q then all else rev all) zeroPage"

subsection \<open>Items of a kind\<close>

text \<open>\<open>HistItem\<close>: the item itself; its \<open>Serial\<close> field and its \<open>Append\<close> closure are functions.\<close>

datatype HistItem = ItemMessage Message | ItemPresence PresenceMessage | ItemAnnotation Annotation

fun it_Serial :: "HistItem \<Rightarrow> string" where
  "it_Serial (ItemMessage m) = m_Serial m"
| "it_Serial (ItemPresence p) = p_Serial p"
| "it_Serial (ItemAnnotation a) = a_Serial a"

fun it_Append :: "HistItem \<Rightarrow> ChannelMessage \<Rightarrow> ChannelMessage" where
  "it_Append (ItemMessage m) dst = dst\<lparr>cm_Messages := cm_Messages dst @ [m]\<rparr>"
| "it_Append (ItemPresence p) dst = dst\<lparr>cm_Presence := cm_Presence dst @ [p]\<rparr>"
| "it_Append (ItemAnnotation a) dst = dst\<lparr>cm_Annotations := cm_Annotations dst @ [a]\<rparr>"

definition CMItems :: "ChannelMessage \<Rightarrow> Kind \<Rightarrow> HistItem list" where
  "CMItems cm kind =
     (if Normalize kind = KindPresence then map ItemPresence (cm_Presence cm)
      else if Normalize kind = KindAnnotation then map ItemAnnotation (cm_Annotations cm)
      else map ItemMessage (cm_Messages cm))"

section \<open>Lemmas\<close>

subsection \<open>The page slicers satisfy the paging contract\<close>

lemma skips_forwards:
  "hq_Cursor q \<noteq> [] \<and> (forwards q \<and> k \<le> hq_Cursor q \<or> \<not> forwards q \<and> k \<ge> hq_Cursor q) \<longleftrightarrow>
     skips (forwards q) (hq_Cursor q) k"
  by (auto simp: skips_def)

lemma emitEach_eq:
  fixes key :: "'a \<Rightarrow> string"
  assumes "hq_Limit q > 0 \<longrightarrow> c \<le> hq_Limit q" "0 \<le> c"
  defines "ys xs \<equiv> filter (\<lambda>x. \<not> skips (forwards q) (hq_Cursor q) (key x)) xs"
  shows "emitEach key mk q c xs page =
    page\<lparr>hp_ChannelMessages := hp_ChannelMessages page @
           map mk (if hq_Limit q > 0 then take (nat (hq_Limit q - c)) (ys xs) else ys xs),
         hp_HasMore := hp_HasMore page \<or>
           hq_Limit q > 0 \<and> nat (hq_Limit q - c) < length (ys xs)\<rparr>"
  using assms(1,2)
proof (induction xs arbitrary: c page)
  case Nil
  then show ?case by (simp add: ys_def)
next
  case (Cons x xs)
  show ?case
  proof (cases "skips (forwards q) (hq_Cursor q) (key x)")
    case True
    with Cons show ?thesis by (simp add: skips_forwards ys_def)
  next
    case False
    show ?thesis
    proof (cases "hq_Limit q > 0 \<and> c \<ge> hq_Limit q")
      case True
      with False Cons.prems show ?thesis by (simp add: skips_forwards ys_def)
    next
      case lim: False
      then have n: "hq_Limit q > 0 \<Longrightarrow> nat (hq_Limit q - c) = Suc (nat (hq_Limit q - (c + 1)))"
        by auto
      have "emitEach key mk q c (x # xs) page =
          emitEach key mk q (c + 1) xs (page\<lparr>hp_ChannelMessages := hp_ChannelMessages page @ [mk x]\<rparr>)"
        using False lim by (auto simp: skips_forwards)
      also have "\<dots> = page\<lparr>hp_ChannelMessages := (hp_ChannelMessages page @ [mk x]) @
             map mk (if hq_Limit q > 0 then take (nat (hq_Limit q - (c + 1))) (ys xs) else ys xs),
           hp_HasMore := hp_HasMore page \<or>
             hq_Limit q > 0 \<and> nat (hq_Limit q - (c + 1)) < length (ys xs)\<rparr>"
        using lim Cons.prems by (subst Cons.IH) auto
      finally show ?thesis using False n by (auto simp: ys_def)
    qed
  qed
qed

definition pageQuery :: "bool \<Rightarrow> string \<Rightarrow> int \<Rightarrow> HistoryQuery" where
  "pageQuery fw c lim = zeroQuery\<lparr>hq_Direction := (if fw then DirectionForwards
     else DirectionBackwards), hq_Cursor := c, hq_Limit := lim\<rparr>"

lemma pageQuery_sel [simp]:
  "forwards (pageQuery fw c lim) = fw" "hq_Cursor (pageQuery fw c lim) = c"
  "hq_Limit (pageQuery fw c lim) = lim"
  by (simp_all add: pageQuery_def forwards_def)

lemma emitEach_page_of:
  assumes "\<And>x. unmk (mk x) = x" "page = emitEach key mk (pageQuery fw c lim) 0
      (if fw then xs else rev xs) zeroPage"
  shows "(map unmk (hp_ChannelMessages page), hp_HasMore page) = page_of key fw c lim xs"
proof -
  have "unmk \<circ> mk = id" using assms(1) by auto
  then show ?thesis
    unfolding assms(2)
    by (simp add: emitEach_eq page_of_def Let_def limited_def cut_short_def zeroPage_def)
qed

definition versionsPage :: "Message list \<Rightarrow> bool \<Rightarrow> string \<Rightarrow> int \<Rightarrow> Message list \<times> bool" where
  "versionsPage all fw c lim =
     (let page = PaginateVersions all (pageQuery fw c lim)
      in (map (hd \<circ> cm_Messages) (hp_ChannelMessages page), hp_HasMore page))"

definition annotationsPage :: "Annotation list \<Rightarrow> bool \<Rightarrow> string \<Rightarrow> int \<Rightarrow> Annotation list \<times> bool" where
  "annotationsPage all fw c lim =
     (let page = PaginateAnnotations all (pageQuery fw c lim)
      in (map (hd \<circ> cm_Annotations) (hp_ChannelMessages page), hp_HasMore page))"

definition keyed :: "('a \<Rightarrow> string) \<Rightarrow> 'a list \<Rightarrow> bool" where
  "keyed key xs \<longleftrightarrow> sorted_wrt (<) (map key xs) \<and> (\<forall>x \<in> set xs. key x \<noteq> [])"

interpretation versions_paging: cursor_paging "keyed VersionSerial" "\<lambda>ms. ms" VersionSerial versionsPage
  by unfold_locales
    (simp_all add: keyed_def versionsPage_def Let_def PaginateVersions_def versionCM_def
      emitEach_page_of [OF _ refl])

interpretation annotations_paging: cursor_paging "keyed a_Serial" "\<lambda>as. as" a_Serial annotationsPage
  by unfold_locales
    (simp_all add: keyed_def annotationsPage_def Let_def PaginateAnnotations_def annotationCM_def
      emitEach_page_of [OF _ refl])

subsection \<open>Batch ids\<close>

lemma dig_not_colon: "CHR '':'' \<notin> set (nat_dec n)"
  using nat_dec_digits [of n] by (auto simp: list_all_iff is_dig_def)

lemma itoa_0: "itoa 0 = ''0''"
  by (simp add: itoa_def nat_dec.simps [of 0])

lemma batchID_0 [simp]: "batchID base 0 = base @ '':0''"
  by (simp add: batchID_def itoa_0)

lemma trim_suffix_append [simp]: "trim_suffix (a @ s) s = a"
  by (simp add: trim_suffix_def)

lemma cut_suffix_append [simp]: "cut_suffix (a @ s) s = (a, True)"
  by (simp add: cut_suffix_def)

lemma cut_suffix_True: "cut_suffix s suf = (a, True) \<Longrightarrow> s = a @ suf"
  by (auto simp: cut_suffix_def has_suffix_def split: if_splits)
    (metis append_take_drop_id)

lemma length_stampIDs [simp]: "length (stampIDs b i ms) = length ms"
  by (induction ms arbitrary: i) auto

lemma map_upt_Cons: "map f [i ..< i + Suc n] = f i # map f [Suc i ..< Suc i + n]"
  by (subst upt_conv_Cons) (simp_all del: upt_Suc)

lemma stampIDs_ids: "map m_ID (stampIDs b i ms) = map (batchID b) [i ..< i + length ms]"
proof (induction ms arbitrary: i)
  case (Cons m ms)
  then show ?case using map_upt_Cons [of "batchID b" i "length ms"] by simp
qed simp

lemma checkIDs_iff: "checkIDs b i ms \<longleftrightarrow> map m_ID ms = map (batchID b) [i ..< i + length ms]"
proof (induction ms arbitrary: i)
  case (Cons m ms)
  then show ?case using map_upt_Cons [of "batchID b" i "length ms"] by simp
qed simp

lemma scanIDs_all: "\<forall>m \<in> set ms. m_ID m \<noteq> [] \<Longrightarrow> scanIDs h ms = Inr (h \<or> ms \<noteq> [])"
  by (induction ms arbitrary: h) auto

lemma batchID_nonempty [simp]: "batchID b i \<noteq> []"
  by (simp add: batchID_def)

text \<open>The shape that a multi-message batch with ids must have.\<close>

lemma messageBaseID_shape:
  assumes "length ms \<noteq> 1" "ms \<noteq> []" "map m_ID ms = map (batchID b) [0 ..< length ms]"
  shows "messageBaseID ms = Inr (b, True)"
proof -
  obtain m n r where ms: "ms = m # n # r" using assms(1,2) by (cases ms; cases "tl ms") auto
  have "\<forall>x \<in> set (map m_ID ms). x \<noteq> []" unfolding assms(3) by auto
  then have scan: "scanIDs False ms = Inr True" using assms(2) by (subst scanIDs_all) auto
  have "m_ID m # map m_ID (n # r) = batchID b 0 # map (batchID b) [1 ..< 1 + length (n # r)]"
    using assms(3) map_upt_Cons [of "batchID b" 0 "length (n # r)"] unfolding ms by simp
  then have "m_ID m = batchID b 0" "checkIDs b 1 (n # r)"
    unfolding checkIDs_iff by (simp_all only: list.inject)
  then show ?thesis using scan unfolding messageBaseID_def ms by (simp del: checkIDs.simps)
qed

lemma messageBaseID_hasID:
  assumes "messageBaseID ms = Inr (b, True)" "length ms \<noteq> 1"
  shows "ms \<noteq> [] \<and> map m_ID ms = map (batchID b) [0 ..< length ms]"
proof (cases ms)
  case Nil
  then show ?thesis using assms(1) by (simp add: messageBaseID_def)
next
  case (Cons m r)
  with assms have c: "cut_suffix (m_ID m) '':0'' = (b, True)" "checkIDs b 1 r"
    by (auto simp: messageBaseID_def split: list.splits sum.splits if_splits prod.splits)
  then have "m_ID m # map m_ID r = batchID b 0 # map (batchID b) [1 ..< 1 + length r]"
    by (simp only: checkIDs_iff) (simp add: cut_suffix_True)
  then show ?thesis using Cons map_upt_Cons [of "batchID b" 0 "length r"] by simp
qed

lemma stamped_shape_restamp:
  assumes "StampMessageIDs fresh msgs = Inr (base, ms)" "msgs \<noteq> []"
  shows "(length msgs \<noteq> 1 \<longrightarrow> map m_ID ms = map (batchID base) [0 ..< length msgs]) \<and>
    StampMessageIDs fresh' ms = Inr (base, ms)"
proof (cases "messageBaseID msgs")
  case (Inl e)
  with assms show ?thesis by (simp add: StampMessageIDs_def)
next
  case (Inr r)
  obtain b h where r: "r = (b, h)" by (cases r)
  show ?thesis
  proof (cases h)
    case False
    with assms Inr r have ms: "base = fresh" "ms = stampIDs fresh 0 msgs"
      by (auto simp: StampMessageIDs_def)
    then have ids: "map m_ID ms = map (batchID base) [0 ..< length ms]" and "ms \<noteq> []"
      using assms(2) stampIDs_ids [of base 0 msgs] by (cases msgs; simp)+
    have "messageBaseID ms = Inr (base, True)"
    proof (cases "length ms = 1")
      case True
      then obtain m where "ms = [m]" by (auto simp: length_Suc_conv)
      with ids show ?thesis by (simp add: messageBaseID_def)
    qed (rule messageBaseID_shape [OF _ \<open>ms \<noteq> []\<close> ids])
    then show ?thesis using ids ms by (simp add: StampMessageIDs_def)
  next
    case True
    with assms Inr r have "ms = msgs" "messageBaseID msgs = Inr (base, True)"
      by (simp_all add: StampMessageIDs_def)
    with messageBaseID_hasID [of msgs base] show ?thesis by (auto simp: StampMessageIDs_def)
  qed
qed

lemma stamped_restamp:
  "StampMessageIDs fresh msgs = Inr (base, ms) \<Longrightarrow> msgs \<noteq> [] \<Longrightarrow>
     StampMessageIDs fresh' ms = Inr (base, ms)"
  using stamped_shape_restamp by blast

subsection \<open>Merging\<close>

lemma concatData_error_iff:
  "(\<exists>e. concatData c a = Inl e) \<longleftrightarrow>
     c \<noteq> AnyNil \<and> a \<noteq> AnyNil \<and> \<not> (\<exists>x y. c = AnyStr x \<and> a = AnyStr y) \<and>
     \<not> (\<exists>x y. c = AnyBytes x \<and> a = AnyBytes y)"
  by (cases c; cases a) auto

lemma MergeVersion_mixin:
  assumes "m_Action mut \<noteq> MessageAppend"
  shows "MergeVersion cur mut vs = Inr (cur\<lparr>m_Alt := None,
     m_Extras := (if m_Extras mut = None then m_Extras cur else m_Extras mut),
     m_Data := (if m_Data mut = AnyNil then m_Data cur else m_Data mut),
     m_Encoding := (if m_Data mut = AnyNil then m_Encoding cur else m_Encoding mut),
     m_Name := (if m_Name mut = [] then m_Name cur else m_Name mut),
     m_Action := (if m_Action mut = MessageDelete then MessageDelete else MessageUpdate),
     m_Version := Some (mutationVersion mut vs)\<rparr>)"
  using assms by (cases "m_Action mut") (simp_all add: MergeVersion_def Let_def)

definition appendName :: "Message \<Rightarrow> Message \<Rightarrow> Message" where
  "appendName cur mut = cur\<lparr>m_Alt := None,
     m_Extras := (if m_Extras mut = None then m_Extras cur else m_Extras mut),
     m_Name := (if m_Name mut = [] then m_Name cur else m_Name mut)\<rparr>"

lemma MergeVersion_append:
  assumes "m_Action mut = MessageAppend"
  shows "MergeVersion cur mut vs = (case concatData (m_Data cur) (m_Data mut) of
     Inl e \<Rightarrow> Inl e
   | Inr d \<Rightarrow> Inr ((appendName cur mut)\<lparr>m_Data := d, m_Action := MessageUpdate,
       m_Encoding := (if m_Encoding mut = [] then m_Encoding cur else m_Encoding mut),
       m_Alt := Some (appendDelta cur mut (appendName cur mut) (mutationVersion mut vs)),
       m_Version := Some (mutationVersion mut vs)\<rparr>))"
  using assms by (simp add: MergeVersion_def Let_def appendName_def appendDelta_def split: sum.split)

lemma MergeVersion_carries:
  assumes "MergeVersion cur mut vs = Inr v"
  shows "m_ID v = m_ID cur" "m_Serial v = m_Serial cur" "m_ClientID v = m_ClientID cur"
    "m_ConnectionID v = m_ConnectionID cur" "m_Timestamp v = m_Timestamp cur"
    "m_Summary v = m_Summary cur" "m_Version v = Some (mutationVersion mut vs)"
    "m_Action v = (if m_Action mut = MessageDelete then MessageDelete else MessageUpdate)"
    "HasAppendDelta v \<longleftrightarrow> m_Action mut = MessageAppend"
    "m_Name v = (if m_Name mut = [] then m_Name cur else m_Name mut)"
    "m_Extras v = (if m_Extras mut = None then m_Extras cur else m_Extras mut)"
  using assms
  by (cases "m_Action mut = MessageAppend";
      fastforce simp: MergeVersion_mixin MergeVersion_append appendName_def HasAppendDelta_def
        split: sum.splits)+

lemma MergeVersion_data:
  assumes "MergeVersion cur mut vs = Inr v"
  shows "if m_Action mut = MessageAppend then concatData (m_Data cur) (m_Data mut) = Inr (m_Data v)
     else m_Data v = (if m_Data mut = AnyNil then m_Data cur else m_Data mut)"
  using assms
  by (cases "m_Action mut = MessageAppend")
    (auto simp: MergeVersion_mixin MergeVersion_append split: sum.splits)

lemma MergeVersion_delta:
  assumes "MergeVersion cur mut vs = Inr v" "m_Alt v = Some d"
  shows "m_Data d = m_Data mut \<and> m_Action d = MessageAppend \<and> m_Serial d = m_Serial v \<and>
     m_Name d = m_Name v \<and> m_Extras d = m_Extras v \<and> m_Timestamp d = m_Timestamp v \<and>
     m_Version d = m_Version v"
  using assms
  by (cases "m_Action mut = MessageAppend")
    (auto simp: MergeVersion_mixin MergeVersion_append appendName_def appendDelta_def
      split: sum.splits)

lemma MergeVersion_error_iff:
  "MergeVersion cur mut vs = Inl e \<longleftrightarrow>
     m_Action mut = MessageAppend \<and> concatData (m_Data cur) (m_Data mut) = Inl e"
  by (cases "m_Action mut = MessageAppend")
    (simp_all add: MergeVersion_mixin MergeVersion_append split: sum.splits)

lemma VersionSerial_merged:
  "MergeVersion cur mut vs = Inr v \<Longrightarrow> vs \<noteq> [] \<Longrightarrow> VersionSerial v = vs"
  by (simp add: VersionSerial_def MergeVersion_carries mutationVersion_def)

lemma VersionSerial_create: "VersionSerial (StampCreateVersion m) = m_Serial m"
  by (simp add: VersionSerial_def StampCreateVersion_def Let_def)

text \<open>A run of mutations on one message, each with its version serial.\<close>

fun mergeAll :: "Message \<Rightarrow> (Message \<times> string) list \<Rightarrow> storage_error + Message" where
  "mergeAll cur [] = Inr cur"
| "mergeAll cur ((mut, vs) # ms) =
     (case MergeVersion cur mut vs of Inl e \<Rightarrow> Inl e | Inr v \<Rightarrow> mergeAll v ms)"

lemma MergeVersion_append_str:
  assumes "m_Action mut = MessageAppend" "m_Data cur = AnyStr x" "m_Data mut = AnyStr y"
  obtains v where "MergeVersion cur mut vs = Inr v" "m_Data v = AnyStr (x @ y)"
proof -
  have "\<nexists>e. MergeVersion cur mut vs = Inl e" using assms by (simp add: MergeVersion_error_iff)
  then obtain v where v: "MergeVersion cur mut vs = Inr v" by (cases "MergeVersion cur mut vs") auto
  with MergeVersion_data [OF v] assms that show ?thesis by simp
qed

subsection \<open>Collapsing append runs\<close>

lemma Collapse_hd: "ms \<noteq> [] \<Longrightarrow> CollapseAppendVersions ms \<noteq> [] \<and>
    (HasAppendDelta (hd (CollapseAppendVersions ms)) \<longleftrightarrow> HasAppendDelta (hd ms))"
  by (induction ms rule: CollapseAppendVersions.induct) auto

lemma Collapse_subseq: "subseq (CollapseAppendVersions ms) ms"
  by (induction ms rule: CollapseAppendVersions.induct) (auto intro: list_emb_Cons)

lemma Collapse_last: "ms \<noteq> [] \<Longrightarrow> last (CollapseAppendVersions ms) = last ms"
  by (induction ms rule: CollapseAppendVersions.induct) (auto simp: Collapse_hd)

lemma Collapse_non_append:
  "filter (\<lambda>m. \<not> HasAppendDelta m) (CollapseAppendVersions ms) =
     filter (\<lambda>m. \<not> HasAppendDelta m) ms"
  by (induction ms rule: CollapseAppendVersions.induct) auto

lemma Collapse_no_runs:
  "Suc i < length (CollapseAppendVersions ms) \<Longrightarrow>
     \<not> (HasAppendDelta (CollapseAppendVersions ms ! i) \<and>
        HasAppendDelta (CollapseAppendVersions ms ! Suc i))"
proof (induction ms arbitrary: i rule: CollapseAppendVersions.induct)
  case (3 m n ms)
  show ?case
  proof (cases "HasAppendDelta m \<and> HasAppendDelta n")
    case True
    with 3 show ?thesis by simp
  next
    case False
    with 3 Collapse_hd [of "n # ms"] show ?thesis
      by (cases i) (auto simp: hd_conv_nth)
  qed
qed auto

lemma sorted_wrt_subseq:
  assumes "subseq xs ys" "sorted_wrt R ys"
  shows "sorted_wrt R xs"
  using assms
proof (induction xs ys rule: list_emb.induct)
  case (list_emb_Cons2 x y xs ys)
  then have "set xs \<subseteq> set ys" by (auto elim!: list_emb_set)
  with list_emb_Cons2 show ?case by auto
qed auto

lemma Collapse_sorted:
  "sorted_wrt (\<lambda>a b. VersionSerial a < VersionSerial b) ms \<Longrightarrow>
   sorted_wrt (\<lambda>a b. VersionSerial a < VersionSerial b) (CollapseAppendVersions ms)"
  using Collapse_subseq [of ms] by (blast intro: sorted_wrt_subseq)

section \<open>Properties\<close>

text \<open>Stamping resolves one batch id per publish and is stable: every message of a
  multi-message batch carries the id \<open>base:idx\<close>, and publishing the stamped messages again (a
  client retry) resolves to the same batch id and leaves the messages as they are, so the
  retry meets the same idempotency keys.\<close>

theorem stamped_batch_restamps:
  assumes "StampMessageIDs fresh msgs = Inr (base, ms)" "msgs \<noteq> []"
  shows "(length msgs \<noteq> 1 \<longrightarrow> map m_ID ms = map (batchID base) [0 ..< length msgs]) \<and>
    StampMessageIDs fresh' ms = Inr (base, ms)"
  using assms by (rule stamped_shape_restamp)

theorem stamped_batch_restamps_witness:
  "StampMessageIDs ''abcdefgh'' [zeroMessage, zeroMessage] =
     Inr (''abcdefgh'', stampIDs ''abcdefgh'' 0 [zeroMessage, zeroMessage]) \<and>
   StampMessageIDs ''zzzzzzzz'' (stampIDs ''abcdefgh'' 0 [zeroMessage, zeroMessage]) =
     Inr (''abcdefgh'', stampIDs ''abcdefgh'' 0 [zeroMessage, zeroMessage])"
proof -
  have s: "StampMessageIDs ''abcdefgh'' [zeroMessage, zeroMessage] =
     Inr (''abcdefgh'', stampIDs ''abcdefgh'' 0 [zeroMessage, zeroMessage])"
    by (simp add: StampMessageIDs_def messageBaseID_def zeroMessage_def)
  from stamped_batch_restamps [OF s, of "''zzzzzzzz''"] s show ?thesis by simp
qed

text \<open>A merged version is a complete message that keeps the target's identity, creator,
  connection, create timestamp and summary and carries the operator's fresh version: a delete
  is a tombstone, an update and an append are stored as an update, name, extras and data are
  mixed in only when supplied, and an append (and only an append) concatenates the data and
  carries a delta with the appended data alone.\<close>

theorem merge_is_complete_version:
  assumes "MergeVersion cur mut vs = Inr v"
  shows "m_Serial v = m_Serial cur \<and> m_ClientID v = m_ClientID cur \<and>
    m_ConnectionID v = m_ConnectionID cur \<and> m_Timestamp v = m_Timestamp cur \<and>
    m_Summary v = m_Summary cur \<and> m_Version v = Some (mutationVersion mut vs) \<and>
    m_Action v = (if m_Action mut = MessageDelete then MessageDelete else MessageUpdate) \<and>
    m_Name v = (if m_Name mut = [] then m_Name cur else m_Name mut) \<and>
    m_Extras v = (if m_Extras mut = None then m_Extras cur else m_Extras mut) \<and>
    (if m_Action mut = MessageAppend
     then concatData (m_Data cur) (m_Data mut) = Inr (m_Data v) \<and>
       (\<exists>d. m_Alt v = Some d \<and> m_Data d = m_Data mut \<and> m_Action d = MessageAppend \<and>
            m_Name d = m_Name v \<and> m_Version d = m_Version v)
     else m_Data v = (if m_Data mut = AnyNil then m_Data cur else m_Data mut) \<and> m_Alt v = None)"
proof -
  have alt: "m_Alt v \<noteq> None \<longleftrightarrow> m_Action mut = MessageAppend"
    using MergeVersion_carries(9) [OF assms] by (simp add: HasAppendDelta_def)
  show ?thesis
  proof (cases "m_Action mut = MessageAppend")
    case True
    with alt obtain d where d: "m_Alt v = Some d" by auto
    show ?thesis
      using True d MergeVersion_delta [OF assms d] MergeVersion_data [OF assms]
        MergeVersion_carries [OF assms] by simp
  next
    case False
    with alt MergeVersion_data [OF assms] MergeVersion_carries [OF assms] show ?thesis by simp
  qed
qed

theorem merge_is_complete_version_witness:
  "\<exists>v. MergeVersion (zeroMessage\<lparr>m_Serial := ''s:000'', m_Data := AnyStr ''ab''\<rparr>)
      (zeroMessage\<lparr>m_Action := MessageAppend, m_Data := AnyStr ''cd''\<rparr>) ''t:000'' = Inr v \<and>
    m_Serial v = ''s:000'' \<and> m_Action v = MessageUpdate \<and> m_Alt v \<noteq> None"
proof -
  let ?c = "zeroMessage\<lparr>m_Serial := ''s:000'', m_Data := AnyStr ''ab''\<rparr>"
  let ?a = "zeroMessage\<lparr>m_Action := MessageAppend, m_Data := AnyStr ''cd''\<rparr>"
  obtain v where v: "MergeVersion ?c ?a ''t:000'' = Inr v"
    by (cases "MergeVersion ?c ?a ''t:000''") (auto simp: MergeVersion_error_iff)
  with merge_is_complete_version [OF v] show ?thesis by auto
qed

text \<open>A stream of string appends never fails and rolls up: after any run of string appends
  the stored data is the created text followed by every appended text in order, so the version
  a late reader fetches is the whole aggregate.\<close>

theorem appends_roll_up:
  assumes "m_Data cur = AnyStr x"
    and "\<forall>(mut, vs) \<in> set ms. m_Action mut = MessageAppend \<and> (\<exists>y. m_Data mut = AnyStr y)"
  shows "\<exists>v. mergeAll cur ms = Inr v \<and> m_Serial v = m_Serial cur \<and>
    m_Data v = AnyStr (x @ concat (map (\<lambda>(mut, vs). case m_Data mut of AnyStr y \<Rightarrow> y | _ \<Rightarrow> []) ms))"
  using assms
proof (induction ms arbitrary: cur x)
  case Nil
  then show ?case by simp
next
  case (Cons p ms)
  obtain mut vs where p: "p = (mut, vs)" by (cases p)
  from Cons.prems(2) p obtain y where a: "m_Action mut = MessageAppend" "m_Data mut = AnyStr y"
    by auto
  obtain v where v: "MergeVersion cur mut vs = Inr v" "m_Data v = AnyStr (x @ y)"
    by (rule MergeVersion_append_str [OF a(1) Cons.prems(1) a(2)])
  from Cons.IH [OF v(2)] Cons.prems(2) v(1) a(2) MergeVersion_carries(2) [OF v(1)]
  show ?case by (simp add: p)
qed

theorem appends_roll_up_witness:
  "\<exists>v. mergeAll (zeroMessage\<lparr>m_Data := AnyStr ''He''\<rparr>)
      [(zeroMessage\<lparr>m_Action := MessageAppend, m_Data := AnyStr ''ll''\<rparr>, ''v1''),
       (zeroMessage\<lparr>m_Action := MessageAppend, m_Data := AnyStr ''o''\<rparr>, ''v2'')] = Inr v \<and>
    m_Data v = AnyStr ''Hello''"
  using appends_roll_up [of "zeroMessage\<lparr>m_Data := AnyStr ''He''\<rparr>" "''He''"
      "[(zeroMessage\<lparr>m_Action := MessageAppend, m_Data := AnyStr ''ll''\<rparr>, ''v1''),
        (zeroMessage\<lparr>m_Action := MessageAppend, m_Data := AnyStr ''o''\<rparr>, ''v2'')]"]
  by auto

text \<open>Collapsing appends for the version history keeps every create, update and delete in
  order, keeps the newest version, selects from the versions without reordering, and leaves no
  two adjacent append aggregates.\<close>

theorem collapse_appends_correct:
  assumes "ms \<noteq> []"
  shows "subseq (CollapseAppendVersions ms) ms \<and>
    last (CollapseAppendVersions ms) = last ms \<and>
    filter (\<lambda>m. \<not> HasAppendDelta m) (CollapseAppendVersions ms) =
      filter (\<lambda>m. \<not> HasAppendDelta m) ms \<and>
    (\<forall>i. Suc i < length (CollapseAppendVersions ms) \<longrightarrow>
       \<not> (HasAppendDelta (CollapseAppendVersions ms ! i) \<and>
          HasAppendDelta (CollapseAppendVersions ms ! Suc i)))"
  using Collapse_subseq Collapse_last [OF assms] Collapse_non_append Collapse_no_runs by blast

theorem collapse_appends_correct_witness:
  "CollapseAppendVersions
     [zeroMessage, zeroMessage\<lparr>m_ID := ''a'', m_Alt := Some (MessageBody.truncate zeroMessage)\<rparr>,
      zeroMessage\<lparr>m_ID := ''b'', m_Alt := Some (MessageBody.truncate zeroMessage)\<rparr>] =
     [zeroMessage, zeroMessage\<lparr>m_ID := ''b'', m_Alt := Some (MessageBody.truncate zeroMessage)\<rparr>] \<and>
   last (CollapseAppendVersions [zeroMessage]) = zeroMessage"
  using collapse_appends_correct [of "[zeroMessage]"] by (simp add: HasAppendDelta_def zeroMessage_def)

end
