(* ===== verification/Core.thy ===== *)
theory Core
  imports Storage
begin

text \<open>
  Package \<open>internal/core\<close> (\<open>channel.go\<close>, \<open>name.go\<close>): the live list of one channel that the
  storage backend appends to, the streams that tail it, and the channel-name predicate. The
  linked list is the list of its entries from the sentinel on; an entry's \<open>notify\<close> is closed
  exactly when it has a successor, and a stream's cursor is a position in that list.
\<close>

section \<open>Definitions\<close>

subsection \<open>The channel\<close>

text \<open>\<open>ch_entries\<close>: the \<open>cm\<close> pointers of the entries, the sentinel first and \<open>tail\<close> last; \<open>None\<close>
  is nil. \<open>ch_ready\<close>: the ready channel is closed.\<close>

record Channel =
  ch_name :: string
  ch_ready :: bool
  ch_initialSerial :: string
  ch_entries :: "ChannelMessage option list"

definition newChannel :: "string \<Rightarrow> Channel" where
  "newChannel name = \<lparr>ch_name = name, ch_ready = False, ch_initialSerial = [],
     ch_entries = [None]\<rparr>"

definition Initialize :: "string \<Rightarrow> string \<Rightarrow> Channel \<Rightarrow> Channel" where
  "Initialize current initial c =
     (if ch_ready c then c
      else c\<lparr>ch_entries := butlast (ch_entries c) @
                [Some (zeroChannelMessage\<lparr>cm_ChannelSerial := current\<rparr>)],
             ch_initialSerial := initial, ch_ready := True\<rparr>)"

definition InitialChannelSerial :: "Channel \<Rightarrow> string" where
  "InitialChannelSerial c = ch_initialSerial c"

definition cm_empty :: "ChannelMessage \<Rightarrow> bool" where
  "cm_empty cm \<longleftrightarrow> cm_Messages cm = [] \<and> cm_Presence cm = [] \<and> cm_Annotations cm = []"

definition Append :: "ChannelMessage \<Rightarrow> Channel \<Rightarrow> Channel" where
  "Append cm c = (if cm_empty cm then c else c\<lparr>ch_entries := ch_entries c @ [Some cm]\<rparr>)"

subsection \<open>Streams\<close>

text \<open>The result of a \<open>select\<close> on an event and the context: \<open>Blocked\<close> when neither is ready;
  when both are, Go picks either, so the pick is an argument.\<close>

datatype 'a outcome = Blocked | Cancelled | Got 'a

definition select2 :: "bool \<Rightarrow> bool \<Rightarrow> bool \<Rightarrow> 'a \<Rightarrow> 'a outcome" where
  "select2 ev ctxDone pickCtx x =
     (if ev \<and> \<not> (ctxDone \<and> pickCtx) then Got x
      else if ctxDone then Cancelled else Blocked)"

record Stream =
  st_cursor :: nat

definition Attach :: "bool \<Rightarrow> bool \<Rightarrow> Channel \<Rightarrow> Stream outcome" where
  "Attach ctxDone pickCtx c =
     select2 (ch_ready c) ctxDone pickCtx \<lparr>st_cursor = length (ch_entries c) - 1\<rparr>"

text \<open>\<open>Stream.ChannelSerial\<close> dereferences the entry's cm; \<open>None\<close> is the nil dereference.\<close>

definition StreamChannelSerial :: "Channel \<Rightarrow> Stream \<Rightarrow> string option" where
  "StreamChannelSerial c st =
     (if st_cursor st < length (ch_entries c)
      then map_option cm_ChannelSerial (ch_entries c ! st_cursor st) else None)"

definition Next :: "bool \<Rightarrow> bool \<Rightarrow> Channel \<Rightarrow> Stream \<Rightarrow> (ChannelMessage option \<times> Stream) outcome" where
  "Next ctxDone pickCtx c st =
     select2 (Suc (st_cursor st) < length (ch_entries c)) ctxDone pickCtx
       (ch_entries c ! Suc (st_cursor st), st\<lparr>st_cursor := Suc (st_cursor st)\<rparr>)"

subsection \<open>Channel names\<close>

text \<open>The name as the runes the regexp engine decodes.\<close>

definition lineBreakChars :: "int list" where
  "lineBreakChars = [0x0A, 0x0B, 0x0C, 0x0D, 0x85, 0x2028, 0x2029]"

definition regexp_s :: "int list" where
  "regexp_s = [0x09, 0x0A, 0x0C, 0x0D, 0x20]"

definition ValidChannelName :: "int list \<Rightarrow> bool" where
  "ValidChannelName name =
     (case name of
        [] \<Rightarrow> False
      | r # rs \<Rightarrow> r \<notin> set ([0x3A, 0x2C, 0x5B] @ regexp_s) \<and>
          list_all (\<lambda>x. x \<notin> set lineBreakChars) rs)"

section \<open>A stream among concurrent appends\<close>

text \<open>Appends and reads of one attached stream in any order; a read with nothing to read is
  parked and reads nothing.\<close>

datatype chan_event = EvAppend ChannelMessage | EvNext

fun run_stream :: "chan_event list \<Rightarrow> Channel \<Rightarrow> Stream \<Rightarrow> ChannelMessage option list \<Rightarrow>
    Channel \<times> Stream \<times> ChannelMessage option list" where
  "run_stream [] c st got = (c, st, got)"
| "run_stream (EvAppend cm # es) c st got = run_stream es (Append cm c) st got"
| "run_stream (EvNext # es) c st got =
     (case Next False False c st of
        Got (cm, st') \<Rightarrow> run_stream es c st' (got @ [cm])
      | _ \<Rightarrow> run_stream es c st got)"

definition appended :: "chan_event list \<Rightarrow> ChannelMessage list" where
  "appended es = concat (map (\<lambda>e. case e of EvAppend cm \<Rightarrow> if cm_empty cm then [] else [cm]
     | EvNext \<Rightarrow> []) es)"

text \<open>What the stream has not read yet.\<close>

definition pending :: "Channel \<Rightarrow> Stream \<Rightarrow> ChannelMessage option list" where
  "pending c st = drop (Suc (st_cursor st)) (ch_entries c)"

section \<open>The appender contract\<close>

text \<open>What a storage backend relies on: after \<open>Initialize\<close>, each \<open>Append\<close> of a non-empty
  ChannelMessage adds exactly that one to what subscribers get, at the end.\<close>

locale appender =
  fixes init :: "string \<Rightarrow> string \<Rightarrow> 's \<Rightarrow> 's"
    and app :: "ChannelMessage \<Rightarrow> 's \<Rightarrow> 's"
    and delivered :: "'s \<Rightarrow> ChannelMessage list"
    and valid :: "'s \<Rightarrow> bool"
    and is_ready :: "'s \<Rightarrow> bool"
  assumes app_delivers: "valid s \<Longrightarrow> \<not> cm_empty cm \<Longrightarrow> delivered (app cm s) = delivered s @ [cm]"
    and app_valid: "valid s \<Longrightarrow> valid (app cm s)"
    and app_ready: "is_ready (app cm s) \<longleftrightarrow> is_ready s"
    and init_valid: "valid s \<Longrightarrow> delivered s = [] \<Longrightarrow> valid (init cur ini s)"
    and init_ready: "is_ready (init cur ini s)"
    and init_once: "is_ready s \<Longrightarrow> init cur ini s = s"
begin

lemma delivers_all:
  "valid s \<Longrightarrow> \<forall>cm \<in> set cms. \<not> cm_empty cm \<Longrightarrow>
     delivered (foldl (\<lambda>s cm. app cm s) s cms) = delivered s @ cms"
  by (induction cms arbitrary: s) (auto simp: app_delivers app_valid)

end

definition live :: "Channel \<Rightarrow> ChannelMessage list" where
  "live c = map the (tl (ch_entries c))"

definition chan_ok :: "Channel \<Rightarrow> bool" where
  "chan_ok c \<longleftrightarrow> ch_entries c \<noteq> [] \<and> None \<notin> set (tl (ch_entries c)) \<and>
     (ch_ready c \<longrightarrow> hd (ch_entries c) \<noteq> None)"

interpretation channel_appender: appender Initialize Append live chan_ok ch_ready
proof unfold_locales
  fix s :: Channel and cm :: ChannelMessage and cur ini :: string
  show "chan_ok s \<Longrightarrow> \<not> cm_empty cm \<Longrightarrow> live (Append cm s) = live s @ [cm]"
    by (simp add: chan_ok_def Append_def live_def)
  show "chan_ok s \<Longrightarrow> chan_ok (Append cm s)"
    by (cases "ch_entries s") (auto simp: chan_ok_def Append_def)
  show "ch_ready (Append cm s) = ch_ready s" by (simp add: Append_def)
  show "chan_ok s \<Longrightarrow> live s = [] \<Longrightarrow> chan_ok (Initialize cur ini s)"
    by (cases "ch_entries s") (auto simp: chan_ok_def Initialize_def live_def)
  show "ch_ready (Initialize cur ini s)" by (simp add: Initialize_def)
  show "ch_ready s \<Longrightarrow> Initialize cur ini s = s" by (simp add: Initialize_def)
qed

lemma chan_ok_new: "chan_ok (newChannel name)"
  by (simp add: chan_ok_def newChannel_def)

section \<open>Lemmas\<close>

lemma select2_run [simp]: "select2 ev False p x = (if ev then Got x else Blocked)"
  by (simp add: select2_def)

lemma pending_Append:
  "st_cursor st < length (ch_entries c) \<Longrightarrow>
     pending (Append cm c) st = pending c st @ (if cm_empty cm then [] else [Some cm])"
  by (simp add: pending_def Append_def)

lemma pending_Next:
  "Suc (st_cursor st) < length (ch_entries c) \<Longrightarrow>
     pending c st = ch_entries c ! Suc (st_cursor st) # pending c (st\<lparr>st_cursor := Suc (st_cursor st)\<rparr>)"
  by (simp add: pending_def Cons_nth_drop_Suc)

lemma run_stream_pending:
  assumes "st_cursor st < length (ch_entries c)" "run_stream es c st got = (c', st', got')"
  shows "got' @ pending c' st' = got @ pending c st @ map Some (appended es) \<and>
    st_cursor st' + length got = st_cursor st + length got' \<and>
    st_cursor st' < length (ch_entries c') \<and> ch_entries c' = ch_entries c @ map Some (appended es)"
  using assms
proof (induction es arbitrary: c st got)
  case Nil
  then show ?case by (auto simp: appended_def)
next
  case (Cons e es)
  show ?case
  proof (cases e)
    case (EvAppend cm)
    have "appended (e # es) = (if cm_empty cm then [] else [cm]) @ appended es"
      by (simp add: appended_def EvAppend)
    moreover have "ch_entries (Append cm c) = ch_entries c @ (if cm_empty cm then [] else [Some cm])"
      by (simp add: Append_def)
    moreover from this Cons.prems have "st_cursor st < length (ch_entries (Append cm c))" by simp
    ultimately show ?thesis
      using Cons.IH [of st "Append cm c" got] Cons.prems pending_Append [of st c cm] EvAppend
      by (cases "cm_empty cm") auto
  next
    case EvNext
    have "appended (e # es) = appended es" by (simp add: appended_def EvNext)
    then show ?thesis
      using Cons.IH [of "st\<lparr>st_cursor := Suc (st_cursor st)\<rparr>" c
          "got @ [ch_entries c ! Suc (st_cursor st)]"] Cons.IH [of st c got]
        Cons.prems pending_Next [of st c] EvNext
      by (cases "Suc (st_cursor st) < length (ch_entries c)") (auto simp: Next_def)
  qed
qed

section \<open>Properties\<close>

text \<open>C28: a stream attached to a ready channel reads exactly the ChannelMessages appended after
  the attach, in append order, without a gap or a repeat, however appends and reads
  interleave: what it has read, followed by what it has yet to read, is what was appended;
  its reported position is the serial it last read, or the attach-time watermark.\<close>

theorem stream_no_gap_no_repeat:
  assumes "chan_ok c" "ch_ready c" "Attach False False c = Got st"
    and "run_stream es c st [] = (c', st', got)"
  shows "got @ pending c' st' = map Some (appended es) \<and>
    StreamChannelSerial c' st' =
      (if got = [] then map_option cm_ChannelSerial (last (ch_entries c))
       else map_option cm_ChannelSerial (last got))"
proof -
  have ne: "ch_entries c \<noteq> []" using assms(1) by (simp add: chan_ok_def)
  have st: "st_cursor st = length (ch_entries c) - 1" using assms(2,3) by (auto simp: Attach_def)
  with ne have lt: "st_cursor st < length (ch_entries c)" by simp
  have "pending c st = []" using st by (simp add: pending_def)
  with run_stream_pending [OF lt assms(4)] st
  have r: "got @ pending c' st' = map Some (appended es)"
    "st_cursor st' = length (ch_entries c) - 1 + length got"
    "st_cursor st' < length (ch_entries c')" "ch_entries c' = ch_entries c @ map Some (appended es)"
    by auto
  have "ch_entries c' ! st_cursor st' = (if got = [] then last (ch_entries c) else last got)"
  proof (cases "got = []")
    case True
    with ne r show ?thesis by (simp add: nth_append last_conv_nth)
  next
    case False
    with ne r(2) have "st_cursor st' = length (ch_entries c) + (length got - 1)"
      by (cases got; cases "ch_entries c") auto
    with False r(4) show ?thesis
      by (simp add: r(1) [symmetric] nth_append last_conv_nth)
  qed
  with r show ?thesis by (simp add: StreamChannelSerial_def)
qed


theorem stream_no_gap_no_repeat_witness:
  "let c = Initialize ''s0'' ''s0'' (newChannel ''room'');
       cm1 = zeroChannelMessage\<lparr>cm_ChannelSerial := ''s1'', cm_Messages := [zeroMessage]\<rparr>;
       cm2 = zeroChannelMessage\<lparr>cm_ChannelSerial := ''s2'', cm_Presence := [zeroPresence]\<rparr>
   in case run_stream [EvAppend cm1, EvNext, EvNext, EvAppend cm2, EvNext] c \<lparr>st_cursor = 0\<rparr> [] of
        (c', st', got) \<Rightarrow> got @ pending c' st' = [Some cm1, Some cm2] \<and> got \<noteq> []"
proof -
  let ?c = "Initialize ''s0'' ''s0'' (newChannel ''room'')"
  let ?a = "zeroChannelMessage\<lparr>cm_ChannelSerial := ''s1'', cm_Messages := [zeroMessage]\<rparr>"
  let ?b = "zeroChannelMessage\<lparr>cm_ChannelSerial := ''s2'', cm_Presence := [zeroPresence]\<rparr>"
  let ?es = "[EvAppend ?a, EvNext, EvNext, EvAppend ?b, EvNext]"
  have c: "chan_ok ?c" "ch_ready ?c" "Attach False False ?c = Got \<lparr>st_cursor = 0\<rparr>"
    by (simp_all add: chan_ok_def Initialize_def newChannel_def Attach_def)
  obtain c' st' got where r: "run_stream ?es ?c \<lparr>st_cursor = 0\<rparr> [] = (c', st', got)"
    by (cases "run_stream ?es ?c \<lparr>st_cursor = 0\<rparr> []")
  then have "got \<noteq> []"
    by (auto simp: Next_def Append_def Initialize_def newChannel_def cm_empty_def)
  with stream_no_gap_no_repeat [OF c r] r show ?thesis
    by (simp add: Let_def appended_def cm_empty_def)
qed

text \<open>The channel-name predicate rejects an empty name, a name that starts with a colon, a
  comma, a bracket or ASCII whitespace, and a line break at any later position; but a name that
  starts with a vertical tab, NEL, LS or PS is accepted, although these are line breaks.\<close>

theorem channel_name_first_rune_gap:
  "\<not> ValidChannelName [] \<and>
   (\<forall>r \<in> {0x3A, 0x2C, 0x5B, 0x09, 0x0A, 0x0C, 0x0D, 0x20}. \<forall>rs. \<not> ValidChannelName (r # rs)) \<and>
   (\<forall>r rs. \<forall>x \<in> set lineBreakChars. x \<in> set rs \<longrightarrow> \<not> ValidChannelName (r # rs)) \<and>
   (\<forall>r \<in> {0x0B, 0x85, 0x2028, 0x2029}. r \<in> set lineBreakChars \<and> ValidChannelName [r])"
  by (auto simp: ValidChannelName_def regexp_s_def lineBreakChars_def list_all_iff)

theorem channel_name_first_rune_gap_witness:
  "ValidChannelName [0x2028] \<and> \<not> ValidChannelName [0x66, 0x0A]"
  using channel_name_first_rune_gap by (auto simp: lineBreakChars_def)

end
