(* ===== verification/Memory.thy ===== *)
theory Memory
  imports Core
begin

text \<open>
  Package \<open>internal/storage/memory\<close>: the in-memory backend. One channel's store is a record of
  the ordered log and the indexes kept beside it; every operation runs under the channel
  mutex, so it is one function from the store (and the process-wide serial generator) to the
  store and a result. The clock reading, whether the context is done and the fresh batch id
  are arguments. The appender is the live list of the channel (\<open>Core\<close>).
\<close>

section \<open>Definitions\<close>

record channelStore =
  cs_appender :: "Channel option"
  cs_order :: "string list"
  cs_byCS :: "(string, ChannelMessage) gomap"
  cs_byID :: "(string, string) gomap"
  cs_members :: "(string, PresenceMessage) gomap"
  cs_latest :: "(string, Message) gomap"
  cs_versions :: "(string, Message list) gomap"
  cs_annotations :: "(string, Annotation list) gomap"

definition newChannelStore :: "Channel option \<Rightarrow> channelStore" where
  "newChannelStore app = \<lparr>cs_appender = app, cs_order = [], cs_byCS = [], cs_byID = [],
     cs_members = [], cs_latest = [], cs_versions = [], cs_annotations = []\<rparr>"

type_synonym store_state = "Generator \<times> channelStore"

text \<open>What a write returns: the cm pointer (\<open>None\<close> is nil) and the idempotent flag, or an error.\<close>

type_synonym store_result = "storage_error + (ChannelMessage option \<times> bool)"

text \<open>The idempotency loop: the channelSerial of the first non-empty id already indexed.\<close>

fun seenID :: "(string, string) gomap \<Rightarrow> string list \<Rightarrow> string option" where
  "seenID byID [] = None"
| "seenID byID (i # is) =
     (if i = [] then seenID byID is
      else case map_of byID i of Some cs \<Rightarrow> Some cs | None \<Rightarrow> seenID byID is)"

definition logCM :: "ChannelMessage \<Rightarrow> channelStore \<Rightarrow> channelStore" where
  "logCM cm cs = cs\<lparr>cs_byCS := gput (cm_ChannelSerial cm) cm (cs_byCS cs),
     cs_order := cs_order cs @ [cm_ChannelSerial cm]\<rparr>"

definition deliver :: "ChannelMessage \<Rightarrow> channelStore \<Rightarrow> channelStore" where
  "deliver cm cs = cs\<lparr>cs_appender := map_option (Append cm) (cs_appender cs)\<rparr>"

definition indexID :: "string \<Rightarrow> string \<Rightarrow> channelStore \<Rightarrow> channelStore" where
  "indexID i channelSerial cs =
     (if i \<noteq> [] then cs\<lparr>cs_byID := gput i channelSerial (cs_byID cs)\<rparr> else cs)"

subsection \<open>Store\<close>

fun stampCreates :: "string \<Rightarrow> nat \<Rightarrow> Message list \<Rightarrow> Message list" where
  "stampCreates channelSerial i [] = []"
| "stampCreates channelSerial i (m # ms) =
     StampCreateVersion (m\<lparr>m_Serial := MessageSerial channelSerial (int i),
       m_Action := MessageCreate\<rparr>) # stampCreates channelSerial (Suc i) ms"

definition indexCreate :: "string \<Rightarrow> channelStore \<Rightarrow> Message \<Rightarrow> channelStore" where
  "indexCreate channelSerial cs m =
     (let cs1 = indexID (m_ID m) channelSerial cs
      in cs1\<lparr>cs_latest := gput (m_Serial m) m (cs_latest cs1),
             cs_versions := gput (m_Serial m) [m] (cs_versions cs1)\<rparr>)"

definition Store :: "bool \<Rightarrow> int \<Rightarrow> string \<Rightarrow> Message list \<Rightarrow> store_state \<Rightarrow>
    store_state \<times> store_result" where
  "Store ctxErr now fresh msgs st =
     (case st of (g, cs) \<Rightarrow>
        if msgs = [] then (st, Inl ErrNoItems)
        else if ctxErr then (st, Inl ErrCtx)
        else case StampMessageIDs fresh msgs of
          Inl e \<Rightarrow> (st, Inl e)
        | Inr (batch, msgs1) \<Rightarrow>
            (case seenID (cs_byID cs) (map m_ID msgs1) of
               Some existing \<Rightarrow> (st, Inr (map_of (cs_byCS cs) existing, True))
             | None \<Rightarrow>
                (case Mint now g of (channelSerial, g') \<Rightarrow>
                   let msgs2 = stampCreates channelSerial 0 msgs1;
                       cm = zeroChannelMessage\<lparr>cm_ID := batch, cm_ChannelSerial := channelSerial,
                              cm_Messages := msgs2\<rparr>;
                       cs1 = foldl (indexCreate channelSerial) (logCM cm cs) msgs2
                   in ((g', deliver cm cs1), Inr (Some cm, False)))))"

subsection \<open>Mutate\<close>

definition Mutate :: "bool \<Rightarrow> int \<Rightarrow> Message \<Rightarrow> store_state \<Rightarrow> store_state \<times> store_result" where
  "Mutate ctxErr now mut st =
     (case st of (g, cs) \<Rightarrow>
        if \<not> IsMutation (m_Action mut) then (st, Inl ErrNotMutation)
        else if m_Serial mut = [] then (st, Inl ErrNoTarget)
        else if ctxErr then (st, Inl ErrCtx)
        else case seenID (cs_byID cs) [m_ID mut] of
          Some existing \<Rightarrow> (st, Inr (map_of (cs_byCS cs) existing, True))
        | None \<Rightarrow>
            (case map_of (cs_latest cs) (m_Serial mut) of
               None \<Rightarrow> (st, Inl ErrTargetNotFound)
             | Some current \<Rightarrow>
                (case Mint now g of (channelSerial, g') \<Rightarrow>
                   (case MergeVersion current mut (MessageSerial channelSerial 0) of
                      Inl e \<Rightarrow> ((g', cs), Inl e)
                    | Inr version \<Rightarrow>
                        let cm = zeroChannelMessage\<lparr>cm_ChannelSerial := channelSerial,
                                   cm_Messages := [version]\<rparr>;
                            cs1 = indexID (m_ID mut) channelSerial (logCM cm cs);
                            cs2 = cs1\<lparr>cs_latest := gput (m_Serial mut) version (cs_latest cs1),
                                      cs_versions := gput (m_Serial mut)
                                        (gget [] (cs_versions cs1) (m_Serial mut) @ [version])
                                        (cs_versions cs1)\<rparr>
                        in ((g', deliver cm cs2), Inr (Some cm, False))))))"

definition LatestVersion :: "bool \<Rightarrow> string \<Rightarrow> channelStore \<Rightarrow> storage_error + Message" where
  "LatestVersion ctxErr s cs =
     (if ctxErr then Inl ErrCtx
      else case map_of (cs_latest cs) s of None \<Rightarrow> Inl ErrTargetNotFound | Some m \<Rightarrow> Inr m)"

definition Versions :: "bool \<Rightarrow> string \<Rightarrow> HistoryQuery \<Rightarrow> channelStore \<Rightarrow> storage_error + HistoryPage" where
  "Versions ctxErr s q cs =
     (if ctxErr then Inl ErrCtx
      else case map_of (cs_versions cs) s of
             None \<Rightarrow> Inl ErrTargetNotFound
           | Some all \<Rightarrow> Inr (PaginateVersions (CollapseAppendVersions all) q))"

subsection \<open>Annotations\<close>

definition foldSummary :: "Annotation \<Rightarrow> channelStore \<Rightarrow> Annotation \<times> channelStore" where
  "foldSummary a cs =
     (case map_of (cs_latest cs) (a_MessageSerial a) of
        None \<Rightarrow> (a, cs)
      | Some cur \<Rightarrow>
          let folded = Apply (m_Summary cur) a
          in (a\<lparr>a_Summary := folded\<rparr>,
              cs\<lparr>cs_latest := gput (a_MessageSerial a) (cur\<lparr>m_Summary := folded\<rparr>) (cs_latest cs)\<rparr>))"

fun foldAnnotations :: "string \<Rightarrow> nat \<Rightarrow> Annotation list \<Rightarrow> channelStore \<Rightarrow>
    Annotation list \<times> channelStore" where
  "foldAnnotations channelSerial i [] cs = ([], cs)"
| "foldAnnotations channelSerial i (a # as) cs =
     (case foldSummary (a\<lparr>a_Serial := MessageSerial channelSerial (int i)\<rparr>) cs of
        (a', cs') \<Rightarrow>
          (case foldAnnotations channelSerial (Suc i) as cs' of (as', cs'') \<Rightarrow> (a' # as', cs'')))"

definition indexAnnotation :: "string \<Rightarrow> channelStore \<Rightarrow> Annotation \<Rightarrow> channelStore" where
  "indexAnnotation channelSerial cs a =
     (let cs1 = indexID (a_ID a) channelSerial cs
      in cs1\<lparr>cs_annotations := gput (a_MessageSerial a)
               (gget [] (cs_annotations cs1) (a_MessageSerial a) @ [a]) (cs_annotations cs1)\<rparr>)"

definition StoreAnnotation :: "bool \<Rightarrow> int \<Rightarrow> Annotation list \<Rightarrow> store_state \<Rightarrow>
    store_state \<times> store_result" where
  "StoreAnnotation ctxErr now anns st =
     (case st of (g, cs) \<Rightarrow>
        if anns = [] then (st, Inl ErrNoItems)
        else if ctxErr then (st, Inl ErrCtx)
        else case seenID (cs_byID cs) (map a_ID anns) of
          Some existing \<Rightarrow> (st, Inr (map_of (cs_byCS cs) existing, True))
        | None \<Rightarrow>
            if list_ex (\<lambda>a. map_of (cs_latest cs) (a_MessageSerial a) = None) anns
            then (st, Inl ErrTargetNotFound)
            else (case Mint now g of (channelSerial, g') \<Rightarrow>
               (case foldAnnotations channelSerial 0 anns cs of (anns1, cs1) \<Rightarrow>
                  let cm = zeroChannelMessage\<lparr>cm_ChannelSerial := channelSerial,
                             cm_Annotations := anns1\<rparr>;
                      cs2 = foldl (indexAnnotation channelSerial) (logCM cm cs1) anns1
                  in ((g', deliver cm cs2), Inr (Some cm, False)))))"

definition Annotations :: "bool \<Rightarrow> string \<Rightarrow> HistoryQuery \<Rightarrow> channelStore \<Rightarrow>
    storage_error + HistoryPage" where
  "Annotations ctxErr s q cs =
     (if ctxErr then Inl ErrCtx else Inr (PaginateAnnotations (gget [] (cs_annotations cs) s) q))"

subsection \<open>Presence\<close>

fun stampPresence :: "string \<Rightarrow> nat \<Rightarrow> PresenceMessage list \<Rightarrow> PresenceMessage list" where
  "stampPresence channelSerial i [] = []"
| "stampPresence channelSerial i (p # ps) =
     StampPresenceMember channelSerial (int i) p # stampPresence channelSerial (Suc i) ps"

definition foldMember :: "(string, PresenceMessage) gomap \<Rightarrow> PresenceMessage \<Rightarrow>
    (string, PresenceMessage) gomap" where
  "foldMember ms p =
     (let key = MemberKey (p_ConnectionID p) (p_ClientID p)
      in if p_Action p = PresenceLeave \<or> p_Action p = PresenceAbsent then gdel key ms
         else gput key p ms)"

definition indexPresence :: "string \<Rightarrow> channelStore \<Rightarrow> PresenceMessage \<Rightarrow> channelStore" where
  "indexPresence channelSerial cs p =
     (let cs1 = indexID (p_ID p) channelSerial cs
      in cs1\<lparr>cs_members := foldMember (cs_members cs1) p\<rparr>)"

definition StorePresence :: "bool \<Rightarrow> int \<Rightarrow> PresenceMessage list \<Rightarrow> store_state \<Rightarrow>
    store_state \<times> store_result" where
  "StorePresence ctxErr now ps st =
     (case st of (g, cs) \<Rightarrow>
        if ps = [] then (st, Inl ErrNoItems)
        else if ctxErr then (st, Inl ErrCtx)
        else case seenID (cs_byID cs) (map p_ID ps) of
          Some existing \<Rightarrow> (st, Inr (map_of (cs_byCS cs) existing, True))
        | None \<Rightarrow>
            (case Mint now g of (channelSerial, g') \<Rightarrow>
               let ps1 = stampPresence channelSerial 0 ps;
                   cm = zeroChannelMessage\<lparr>cm_ChannelSerial := channelSerial, cm_Presence := ps1\<rparr>;
                   cs1 = foldl (indexPresence channelSerial) (logCM cm cs) ps1
               in ((g', deliver cm cs1), Inr (Some cm, False))))"

text \<open>\<open>Members\<close>: Go sorts the values of the map by serial; the serials are distinct, so the
  unspecified iteration order does not show.\<close>

definition Members :: "bool \<Rightarrow> channelStore \<Rightarrow> storage_error + (PresenceMessage list \<times> string)" where
  "Members ctxErr cs =
     (if ctxErr then Inl ErrCtx
      else Inr (sort_key p_Serial (map snd (cs_members cs)),
                if cs_order cs = [] then [] else last (cs_order cs)))"

subsection \<open>History\<close>

text \<open>The part of \<open>emit\<close> both scans share: append one item to the trailing ChannelMessage of the
  page when it has that channelSerial, to a fresh one otherwise.\<close>

definition putItem :: "string \<Rightarrow> HistItem \<Rightarrow> ChannelMessage list \<Rightarrow> ChannelMessage list" where
  "putItem channelSerial item cms =
     (if cms \<noteq> [] \<and> cm_ChannelSerial (last cms) = channelSerial
      then butlast cms @ [it_Append item (last cms)]
      else cms @ [it_Append item (zeroChannelMessage\<lparr>cm_ChannelSerial := channelSerial\<rparr>)])"

text \<open>The scan state is the page and the count; \<open>Inl page\<close> is a scan that hit the limit.\<close>

type_synonym scan_state = "HistoryPage + (HistoryPage \<times> int)"

definition emitHist :: "HistoryQuery \<Rightarrow> string \<Rightarrow> HistItem \<Rightarrow> HistoryPage \<Rightarrow> int \<Rightarrow> scan_state" where
  "emitHist q channelSerial item page count =
     (if hq_Limit q > 0 \<and> count \<ge> hq_Limit q then Inl (page\<lparr>hp_HasMore := True\<rparr>)
      else Inr (page\<lparr>hp_ChannelMessages := putItem channelSerial item (hp_ChannelMessages page)\<rparr>,
                count + 1))"

definition inBounds :: "HistoryQuery \<Rightarrow> string \<Rightarrow> bool" where
  "inBounds q s =
     (case TimestampBounds (hq_Start q) (hq_End q) of (lower, upper) \<Rightarrow>
        if lower \<noteq> [] \<and> s < lower then False
        else if upper \<noteq> [] \<and> s \<ge> upper then False
        else if hq_EndChannelSerial q \<noteq> [] \<and> CreateChannelSerial s > hq_EndChannelSerial q then False
        else True)"

fun collapseScan :: "HistoryQuery \<Rightarrow> channelStore \<Rightarrow> string list \<Rightarrow> HistoryPage \<Rightarrow> int \<Rightarrow> scan_state" where
  "collapseScan q cs [] page count = Inr (page, count)"
| "collapseScan q cs (s # ss) page count =
     (if \<not> inBounds q s \<or>
         hq_Cursor q \<noteq> [] \<and> (if forwards q then s \<le> hq_Cursor q else s \<ge> hq_Cursor q)
      then collapseScan q cs ss page count
      else let m = gget zeroMessage (cs_latest cs) s
           in case emitHist q (CreateChannelSerial (m_Serial m)) (ItemMessage m) page count of
                Inl page' \<Rightarrow> Inl page'
              | Inr (page', count') \<Rightarrow> collapseScan q cs ss page' count')"

definition scanPage :: "scan_state \<Rightarrow> HistoryPage" where
  "scanPage r = (case r of Inl page \<Rightarrow> page | Inr (page, _) \<Rightarrow> page)"

definition collapsedHistory :: "HistoryQuery \<Rightarrow> channelStore \<Rightarrow> HistoryPage" where
  "collapsedHistory q cs =
     (let ids = sort (map fst (cs_latest cs))
      in scanPage (collapseScan q cs (if forwards q then ids else rev ids) zeroPage 0))"

text \<open>\<open>sort.SearchStrings\<close>: the smallest index whose element is not below the key.\<close>

definition SearchStrings :: "string list \<Rightarrow> string \<Rightarrow> nat" where
  "SearchStrings xs key = length (takeWhile (\<lambda>x. x < key) xs)"

definition histRange :: "HistoryQuery \<Rightarrow> string list \<Rightarrow> nat \<times> nat" where
  "histRange q order =
     (case TimestampBounds (hq_Start q) (hq_End q) of (lower, upper) \<Rightarrow>
        let lo = (if lower \<noteq> [] then SearchStrings order lower else 0);
            lo = (if hq_AfterChannelSerial q \<noteq> []
                  then let after = SearchStrings order (hq_AfterChannelSerial q @ [CHR 0x00])
                       in if after > lo then after else lo
                  else lo);
            hi = (if upper \<noteq> [] then SearchStrings order upper else length order);
            hi = (if hq_EndChannelSerial q \<noteq> []
                  then let hiExclusive = SearchStrings order (hq_EndChannelSerial q @ [CHR 0x00])
                       in if hiExclusive < hi then hiExclusive else hi
                  else hi)
        in (lo, hi))"

fun scanItems :: "HistoryQuery \<Rightarrow> string \<Rightarrow> HistItem list \<Rightarrow> HistoryPage \<Rightarrow> int \<Rightarrow> scan_state" where
  "scanItems q channelSerial [] page count = Inr (page, count)"
| "scanItems q channelSerial (it # its) page count =
     (if hq_Cursor q \<noteq> [] \<and>
         (if forwards q then it_Serial it \<le> hq_Cursor q else it_Serial it \<ge> hq_Cursor q)
      then scanItems q channelSerial its page count
      else case emitHist q channelSerial it page count of
             Inl page' \<Rightarrow> Inl page'
           | Inr (page', count') \<Rightarrow> scanItems q channelSerial its page' count')"

fun scanCMs :: "HistoryQuery \<Rightarrow> Kind \<Rightarrow> ChannelMessage list \<Rightarrow> HistoryPage \<Rightarrow> int \<Rightarrow> scan_state" where
  "scanCMs q kind [] page count = Inr (page, count)"
| "scanCMs q kind (cm # cms) page count =
     (let items = CMItems cm kind
      in case scanItems q (cm_ChannelSerial cm) (if forwards q then items else rev items) page count of
           Inl page' \<Rightarrow> Inl page'
         | Inr (page', count') \<Rightarrow> scanCMs q kind cms page' count')"

definition cmAt :: "channelStore \<Rightarrow> string \<Rightarrow> ChannelMessage" where
  "cmAt cs s = gget zeroChannelMessage (cs_byCS cs) s"

definition History :: "bool \<Rightarrow> HistoryQuery \<Rightarrow> channelStore \<Rightarrow> storage_error + HistoryPage" where
  "History ctxErr q cs =
     (if ctxErr then Inl ErrCtx
      else let wantKind = Normalize (hq_Kind q)
           in if hq_Collapse q \<and> wantKind = KindMessage then Inr (collapsedHistory q cs)
              else case histRange q (cs_order cs) of (lo, hi) \<Rightarrow>
                let cms = map (cmAt cs) (drop lo (take hi (cs_order cs)))
                in Inr (scanPage (scanCMs q wantKind (if forwards q then cms else rev cms)
                          zeroPage 0)))"

subsection \<open>The storage root\<close>

record MemStorage =
  ms_gen :: Generator
  ms_channels :: "(string, channelStore) gomap"

definition NewStorage :: "string \<Rightarrow> MemStorage" where
  "NewStorage series = \<lparr>ms_gen = NewGenerator series, ms_channels = []\<rparr>"

text \<open>\<open>Storage.Channel\<close>: an existing store is returned and the new appender ignored; a fresh one
  is bound to the appender, which is initialised with a newly minted seed.\<close>

definition StorageChannel :: "int \<Rightarrow> string \<Rightarrow> Channel option \<Rightarrow> MemStorage \<Rightarrow>
    MemStorage \<times> channelStore" where
  "StorageChannel now name app s =
     (case map_of (ms_channels s) name of
        Some cs \<Rightarrow> (s, cs)
      | None \<Rightarrow>
          (case app of
             None \<Rightarrow>
               let cs = newChannelStore None
               in (s\<lparr>ms_channels := gput name cs (ms_channels s)\<rparr>, cs)
           | Some ch \<Rightarrow>
               (case Mint now (ms_gen s) of (seed, g') \<Rightarrow>
                  let cs = newChannelStore (Some (Initialize seed seed ch))
                  in (s\<lparr>ms_gen := g', ms_channels := gput name cs (ms_channels s)\<rparr>, cs))))"

end
