(* ===== verification/MemoryLog.thy ===== *)
theory MemoryLog
  imports Memory
begin

text \<open>
  The abstract specification of a channel store and the refinement to it. A store promises one
  thing: an append-only log of ChannelMessages; everything else it keeps (the presence set, the
  latest-version projection, the version and annotation indexes, the live list its appender
  feeds) is a function of that log. \<open>mem_inv\<close> states it for the in-memory backend, and the
  lemmas show that every operation keeps it.
\<close>

section \<open>The log and what it determines\<close>

definition log_of :: "channelStore \<Rightarrow> ChannelMessage list" where
  "log_of cs = map (cmAt cs) (cs_order cs)"

definition log_messages :: "ChannelMessage list \<Rightarrow> Message list" where
  "log_messages L = concat (map cm_Messages L)"

definition log_presence :: "ChannelMessage list \<Rightarrow> PresenceMessage list" where
  "log_presence L = concat (map cm_Presence L)"

definition log_anns :: "ChannelMessage list \<Rightarrow> Annotation list" where
  "log_anns L = concat (map cm_Annotations L)"

definition log_members :: "ChannelMessage list \<Rightarrow> (string, PresenceMessage) gomap" where
  "log_members L = foldl foldMember [] (log_presence L)"

definition log_versions :: "ChannelMessage list \<Rightarrow> string \<Rightarrow> Message list" where
  "log_versions L s = filter (\<lambda>m. m_Serial m = s) (log_messages L)"

definition log_annotations :: "ChannelMessage list \<Rightarrow> string \<Rightarrow> Annotation list" where
  "log_annotations L s = filter (\<lambda>a. a_MessageSerial a = s) (log_anns L)"

text \<open>The projection: the newest version, with the summary that folding every annotation of the
  message onto the created message's summary gives.\<close>

definition log_latest :: "ChannelMessage list \<Rightarrow> string \<Rightarrow> Message option" where
  "log_latest L s =
     (if log_versions L s = [] then None
      else Some ((last (log_versions L s))\<lparr>m_Summary :=
             foldl Apply (m_Summary (hd (log_versions L s))) (log_annotations L s)\<rparr>))"

lemma log_snoc [simp]:
  "log_messages (L @ [cm]) = log_messages L @ cm_Messages cm"
  "log_presence (L @ [cm]) = log_presence L @ cm_Presence cm"
  "log_anns (L @ [cm]) = log_anns L @ cm_Annotations cm"
  "log_members (L @ [cm]) = foldl foldMember (log_members L) (cm_Presence cm)"
  "log_versions (L @ [cm]) s = log_versions L s @ filter (\<lambda>m. m_Serial m = s) (cm_Messages cm)"
  "log_annotations (L @ [cm]) s =
     log_annotations L s @ filter (\<lambda>a. a_MessageSerial a = s) (cm_Annotations cm)"
  by (simp_all add: log_messages_def log_presence_def log_anns_def log_members_def
      log_versions_def log_annotations_def)

section \<open>The invariant\<close>

definition minted :: "Generator \<Rightarrow> string \<Rightarrow> bool" where
  "minted g s \<longleftrightarrow> (\<exists>t. ts_ok t \<and> ts_series t = seriesID g \<and> t \<le> gen_ts g \<and> s = render t)"

definition order_inv :: "Generator \<Rightarrow> channelStore \<Rightarrow> bool" where
  "order_inv g cs \<longleftrightarrow> sorted_wrt (<) (cs_order cs) \<and> (\<forall>s \<in> set (cs_order cs). minted g s)"

text \<open>The serials of the items of one logged ChannelMessage: each kind is numbered from 0, the
  messages of one cm have distinct identities, each made of a channelSerial of the log.\<close>

definition numbered :: "string \<Rightarrow> string list \<Rightarrow> bool" where
  "numbered s xs \<longleftrightarrow> xs = map (\<lambda>i. MessageSerial s (int i)) [0 ..< length xs]"

definition cm_shape :: "string set \<Rightarrow> ChannelMessage \<Rightarrow> bool" where
  "cm_shape K cm \<longleftrightarrow>
     numbered (cm_ChannelSerial cm) (map p_Serial (cm_Presence cm)) \<and>
     numbered (cm_ChannelSerial cm) (map a_Serial (cm_Annotations cm)) \<and>
     numbered (cm_ChannelSerial cm) (map VersionSerial (cm_Messages cm)) \<and>
     distinct (map m_Serial (cm_Messages cm)) \<and>
     (\<forall>m \<in> set (cm_Messages cm). \<exists>c \<in> K. \<exists>i. m_Serial m = MessageSerial c (int i))"

definition log_inv :: "channelStore \<Rightarrow> bool" where
  "log_inv cs \<longleftrightarrow> (\<forall>s. map_of (cs_byCS cs) s \<noteq> None \<longleftrightarrow> s \<in> set (cs_order cs)) \<and>
     (\<forall>s cm. map_of (cs_byCS cs) s = Some cm \<longrightarrow>
        cm_ChannelSerial cm = s \<and> \<not> cm_empty cm \<and> cm_shape (set (cs_order cs)) cm)"

definition index_inv :: "channelStore \<Rightarrow> bool" where
  "index_inv cs \<longleftrightarrow>
     (\<forall>i s. map_of (cs_byID cs) i = Some s \<longrightarrow> i \<noteq> [] \<and> s \<in> set (cs_order cs))"

definition derived_inv :: "channelStore \<Rightarrow> bool" where
  "derived_inv cs \<longleftrightarrow>
     cs_members cs = log_members (log_of cs) \<and>
     gmap_ok (cs_latest cs) \<and> (\<forall>s. map_of (cs_latest cs) s = log_latest (log_of cs) s) \<and>
     (\<forall>s. map_of (cs_versions cs) s =
        (if log_versions (log_of cs) s = [] then None else Some (log_versions (log_of cs) s))) \<and>
     (\<forall>s. gget [] (cs_annotations cs) s = log_annotations (log_of cs) s) \<and>
     (\<forall>s. log_annotations (log_of cs) s \<noteq> [] \<longrightarrow> log_versions (log_of cs) s \<noteq> [])"

definition app_inv :: "Generator \<Rightarrow> channelStore \<Rightarrow> bool" where
  "app_inv g cs \<longleftrightarrow> (\<forall>ch. cs_appender cs = Some ch \<longrightarrow>
     chan_ok ch \<and> ch_ready ch \<and> live ch = log_of cs \<and> minted g (ch_initialSerial ch) \<and>
     (\<forall>s \<in> set (cs_order cs). ch_initialSerial ch < s) \<and>
     map_option cm_ChannelSerial (hd (ch_entries ch)) = Some (ch_initialSerial ch))"

definition mem_inv :: "store_state \<Rightarrow> bool" where
  "mem_inv st \<longleftrightarrow> (case st of (g, cs) \<Rightarrow>
     order_inv g cs \<and> log_inv cs \<and> index_inv cs \<and> derived_inv cs \<and> app_inv g cs)"

section \<open>Fresh serials\<close>

lemma MessageSerial_nat_inj [simp]:
  "MessageSerial c (int i) = MessageSerial d (int j) \<longleftrightarrow> c = d \<and> i = j"
proof
  assume "MessageSerial c (int i) = MessageSerial d (int j)"
  then have "c @ CHR '':'' # zpad_nat idxWidth i = d @ CHR '':'' # zpad_nat idxWidth j"
    by (simp add: MessageSerial_def zpad_of_nat)
  then have "cut_last (CHR '':'') (c @ CHR '':'' # zpad_nat idxWidth i) = Some (d, zpad_nat idxWidth j)"
    by (simp add: cut_last_append colon_not_digit)
  then show "c = d \<and> i = j" by (auto simp: cut_last_append colon_not_digit dest: zpad_nat_inj)
qed auto

lemma gen_ts_le: "clock_ok now g \<Longrightarrow> t \<le> gen_ts g \<Longrightarrow> t < gen_ts (advance now g)"
  using gen_ts_advance [of now g] by simp

lemma minted_advance: "clock_ok now g \<Longrightarrow> minted g s \<Longrightarrow> minted (advance now g) s"
  unfolding minted_def using gen_ts_le less_imp_le by fastforce

lemma minted_new: "clock_ok now g \<Longrightarrow> minted (advance now g) (render (gen_ts (advance now g)))"
  unfolding minted_def using ts_ok_advance by (fastforce simp: gen_ts_def)

lemma minted_below:
  assumes "clock_ok now g" "minted g s"
  shows "s < render (gen_ts (advance now g))"
  using assms ts_ok_advance [OF assms(1)] gen_ts_le [OF assms(1)]
  by (auto simp: minted_def render_less_iff)

lemma minted_length: "minted g s \<Longrightarrow> length s = 19 + length (seriesID g)"
  by (auto simp: minted_def length_render)

text \<open>What a successful write does to the log part of a store.\<close>

definition extends :: "channelStore \<Rightarrow> ChannelMessage \<Rightarrow> channelStore \<Rightarrow> bool" where
  "extends cs cm cs' \<longleftrightarrow>
     cs_order cs' = cs_order cs @ [cm_ChannelSerial cm] \<and>
     cs_byCS cs' = gput (cm_ChannelSerial cm) cm (cs_byCS cs) \<and>
     cs_appender cs' = map_option (Append cm) (cs_appender cs)"

lemma log_of_extends:
  assumes "extends cs cm cs'" "cm_ChannelSerial cm \<notin> set (cs_order cs)"
  shows "log_of cs' = log_of cs @ [cm]"
proof -
  have "cmAt cs' s = cmAt cs s" if "s \<in> set (cs_order cs)" for s
    using assms that by (auto simp: cmAt_def gget_def extends_def)
  moreover have "cmAt cs' (cm_ChannelSerial cm) = cm"
    using assms by (simp add: cmAt_def gget_def extends_def)
  ultimately show ?thesis using assms(1) by (simp add: log_of_def extends_def)
qed

lemma cm_shape_mono: "cm_shape K cm \<Longrightarrow> K \<subseteq> K' \<Longrightarrow> cm_shape K' cm"
  unfolding cm_shape_def by blast

text \<open>One write at clock \<open>now\<close>: the store is extended by a cm with the freshly minted serial.\<close>

definition ext_step :: "int \<Rightarrow> Generator \<Rightarrow> channelStore \<Rightarrow> ChannelMessage \<Rightarrow> channelStore \<Rightarrow> bool" where
  "ext_step now g cs cm cs' \<longleftrightarrow> clock_ok now g \<and> order_inv g cs \<and>
     cm_ChannelSerial cm = render (gen_ts (advance now g)) \<and> extends cs cm cs'"

lemma ext_stepD:
  assumes "ext_step now g cs cm cs'"
  shows "clock_ok now g" "order_inv g cs"
    "cm_ChannelSerial cm = render (gen_ts (advance now g))" "extends cs cm cs'"
  using assms by (simp_all add: ext_step_def)

lemma ext_above:
  assumes "ext_step now g cs cm cs'" "s \<in> set (cs_order cs)"
  shows "s < cm_ChannelSerial cm"
  using ext_stepD [OF assms(1)] assms(2) minted_below [of now g s] by (auto simp: order_inv_def)

lemma ext_fresh: "ext_step now g cs cm cs' \<Longrightarrow> cm_ChannelSerial cm \<notin> set (cs_order cs)"
  using ext_above by blast

lemma ext_log: "ext_step now g cs cm cs' \<Longrightarrow> log_of cs' = log_of cs @ [cm]"
  using ext_stepD(4) ext_fresh log_of_extends by blast

lemma ext_order:
  assumes "ext_step now g cs cm cs'"
  shows "order_inv (advance now g) cs'"
proof -
  note e = ext_stepD [OF assms]
  show ?thesis
    using e(2,4) ext_above [OF assms] minted_advance [OF e(1)] minted_new [OF e(1)]
    by (auto simp: order_inv_def extends_def sorted_wrt_append e(3))
qed

lemma ext_log_inv:
  assumes "ext_step now g cs cm cs'" "log_inv cs" "\<not> cm_empty cm"
    "cm_shape (set (cs_order cs')) cm"
  shows "log_inv cs'"
  using assms(2,3,4) ext_stepD(4) [OF assms(1)]
    cm_shape_mono [of "set (cs_order cs)" _ "set (cs_order cs')"]
  by (auto simp: log_inv_def extends_def)

lemma ext_app:
  assumes "ext_step now g cs cm cs'" "app_inv g cs" "\<not> cm_empty cm"
  shows "app_inv (advance now g) cs'"
proof -
  note e = ext_stepD [OF assms(1)]
  have "chan_ok (Append cm ch) \<and> ch_ready (Append cm ch) \<and> live (Append cm ch) = log_of cs' \<and>
      minted (advance now g) (ch_initialSerial (Append cm ch)) \<and>
      (\<forall>s \<in> set (cs_order cs'). ch_initialSerial (Append cm ch) < s) \<and>
      map_option cm_ChannelSerial (hd (ch_entries (Append cm ch))) = Some (ch_initialSerial (Append cm ch))"
    if "cs_appender cs = Some ch" for ch
  proof -
    have a: "chan_ok ch" "ch_ready ch" "live ch = log_of cs" "minted g (ch_initialSerial ch)"
      "\<forall>s \<in> set (cs_order cs). ch_initialSerial ch < s"
      "map_option cm_ChannelSerial (hd (ch_entries ch)) = Some (ch_initialSerial ch)"
      using assms(2) that by (auto simp: app_inv_def)
    have i: "ch_initialSerial (Append cm ch) = ch_initialSerial ch"
      "hd (ch_entries (Append cm ch)) = hd (ch_entries ch)"
      using a(1) by (simp_all add: Append_def chan_ok_def)
    from a i show ?thesis
      using channel_appender.app_valid channel_appender.app_ready
        channel_appender.app_delivers [OF a(1) assms(3)] ext_log [OF assms(1)] e(4)
        minted_advance [OF e(1) a(4)] minted_below [OF e(1) a(4)]
      by (auto simp: extends_def e(3))
  qed
  then show ?thesis using e(4) by (auto simp: app_inv_def extends_def)
qed

section \<open>The index loops\<close>

lemma foldl_frame: "(\<And>s x. p (f s x) = p s) \<Longrightarrow> p (foldl f s xs) = p s"
  by (induction xs arbitrary: s) auto

definition putIDs :: "string \<Rightarrow> (string, string) gomap \<Rightarrow> string list \<Rightarrow> (string, string) gomap" where
  "putIDs s m is = foldl (\<lambda>m i. if i \<noteq> [] then gput i s m else m) m is"

lemma map_of_putIDs:
  "map_of (putIDs s m is) i = (if i \<noteq> [] \<and> i \<in> set is then Some s else map_of m i)"
  by (induction "is" arbitrary: m) (auto simp: putIDs_def)

lemma indexID_sel [simp]:
  "cs_appender (indexID i s cs) = cs_appender cs" "cs_order (indexID i s cs) = cs_order cs"
  "cs_byCS (indexID i s cs) = cs_byCS cs" "cs_members (indexID i s cs) = cs_members cs"
  "cs_latest (indexID i s cs) = cs_latest cs" "cs_versions (indexID i s cs) = cs_versions cs"
  "cs_annotations (indexID i s cs) = cs_annotations cs"
  "cs_byID (indexID i s cs) = putIDs s (cs_byID cs) [i]"
  by (simp_all add: indexID_def putIDs_def)

lemma logCM_sel [simp]:
  "cs_appender (logCM cm cs) = cs_appender cs" "cs_byID (logCM cm cs) = cs_byID cs"
  "cs_order (logCM cm cs) = cs_order cs @ [cm_ChannelSerial cm]"
  "cs_byCS (logCM cm cs) = gput (cm_ChannelSerial cm) cm (cs_byCS cs)"
  "cs_members (logCM cm cs) = cs_members cs" "cs_latest (logCM cm cs) = cs_latest cs"
  "cs_versions (logCM cm cs) = cs_versions cs" "cs_annotations (logCM cm cs) = cs_annotations cs"
  by (simp_all add: logCM_def)

lemma deliver_sel [simp]:
  "cs_appender (deliver cm cs) = map_option (Append cm) (cs_appender cs)"
  "cs_byID (deliver cm cs) = cs_byID cs" "cs_order (deliver cm cs) = cs_order cs"
  "cs_byCS (deliver cm cs) = cs_byCS cs" "cs_members (deliver cm cs) = cs_members cs"
  "cs_latest (deliver cm cs) = cs_latest cs" "cs_versions (deliver cm cs) = cs_versions cs"
  "cs_annotations (deliver cm cs) = cs_annotations cs"
  by (simp_all add: deliver_def)

lemma indexCreates_sel [simp]:
  "cs_appender (foldl (indexCreate s) cs ms) = cs_appender cs"
  "cs_order (foldl (indexCreate s) cs ms) = cs_order cs"
  "cs_byCS (foldl (indexCreate s) cs ms) = cs_byCS cs"
  "cs_members (foldl (indexCreate s) cs ms) = cs_members cs"
  "cs_annotations (foldl (indexCreate s) cs ms) = cs_annotations cs"
  by (rule foldl_frame, simp add: indexCreate_def Let_def)+

lemma indexCreates_byID:
  "cs_byID (foldl (indexCreate s) cs ms) = putIDs s (cs_byID cs) (map m_ID ms)"
  by (induction ms arbitrary: cs) (simp_all add: indexCreate_def Let_def putIDs_def)

lemma filter_serial_notin: "s \<notin> m_Serial ` set ms \<Longrightarrow> filter (\<lambda>m. m_Serial m = s) ms = []"
  by (auto simp: filter_empty_conv)

lemma indexCreates_latest:
  "distinct (map m_Serial ms) \<Longrightarrow> map_of (cs_latest (foldl (indexCreate s) cs ms)) x =
     (case filter (\<lambda>m. m_Serial m = x) ms of [] \<Rightarrow> map_of (cs_latest cs) x | m # _ \<Rightarrow> Some m)"
  by (induction ms arbitrary: cs)
    (auto simp: indexCreate_def Let_def filter_serial_notin split: list.split)

lemma indexCreates_versions:
  "distinct (map m_Serial ms) \<Longrightarrow> map_of (cs_versions (foldl (indexCreate s) cs ms)) x =
     (case filter (\<lambda>m. m_Serial m = x) ms of [] \<Rightarrow> map_of (cs_versions cs) x | m # _ \<Rightarrow> Some [m])"
  by (induction ms arbitrary: cs)
    (auto simp: indexCreate_def Let_def filter_serial_notin split: list.split)

lemma indexCreates_gmap_ok:
  "gmap_ok (cs_latest cs) \<Longrightarrow> gmap_ok (cs_latest (foldl (indexCreate s) cs ms))"
  by (induction ms arbitrary: cs) (simp_all add: indexCreate_def Let_def)

lemma indexPresences_sel [simp]:
  "cs_appender (foldl (indexPresence s) cs ps) = cs_appender cs"
  "cs_order (foldl (indexPresence s) cs ps) = cs_order cs"
  "cs_byCS (foldl (indexPresence s) cs ps) = cs_byCS cs"
  "cs_latest (foldl (indexPresence s) cs ps) = cs_latest cs"
  "cs_versions (foldl (indexPresence s) cs ps) = cs_versions cs"
  "cs_annotations (foldl (indexPresence s) cs ps) = cs_annotations cs"
  by (rule foldl_frame, simp add: indexPresence_def Let_def)+

lemma indexPresences_maps:
  "cs_byID (foldl (indexPresence s) cs ps) = putIDs s (cs_byID cs) (map p_ID ps)"
  "cs_members (foldl (indexPresence s) cs ps) = foldl foldMember (cs_members cs) ps"
  by (induction ps arbitrary: cs) (simp_all add: indexPresence_def Let_def putIDs_def)

lemma indexAnnotations_sel [simp]:
  "cs_appender (foldl (indexAnnotation s) cs as) = cs_appender cs"
  "cs_order (foldl (indexAnnotation s) cs as) = cs_order cs"
  "cs_byCS (foldl (indexAnnotation s) cs as) = cs_byCS cs"
  "cs_members (foldl (indexAnnotation s) cs as) = cs_members cs"
  "cs_latest (foldl (indexAnnotation s) cs as) = cs_latest cs"
  "cs_versions (foldl (indexAnnotation s) cs as) = cs_versions cs"
  by (rule foldl_frame, simp add: indexAnnotation_def Let_def)+

lemma gget_gput: "gget z (gput k v m) x = (if x = k then v else gget z m x)"
  by (simp add: gget_def)

lemma indexAnnotations_maps:
  "cs_byID (foldl (indexAnnotation s) cs as) = putIDs s (cs_byID cs) (map a_ID as)"
  "gget [] (cs_annotations (foldl (indexAnnotation s) cs as)) x =
     gget [] (cs_annotations cs) x @ filter (\<lambda>a. a_MessageSerial a = x) as"
  by (induction as arbitrary: cs) (simp_all add: indexAnnotation_def Let_def putIDs_def gget_gput)

subsection \<open>The summary fold\<close>

lemma folds_Summary [simp]:
  "foldDistinct g (a\<lparr>a_Summary := z\<rparr>) v = foldDistinct g a v"
  "foldUnique g (a\<lparr>a_Summary := z\<rparr>) v = foldUnique g a v"
  "foldMultiple g (a\<lparr>a_Summary := z\<rparr>) v = foldMultiple g a v"
  "foldFlag g (a\<lparr>a_Summary := z\<rparr>) = foldFlag g a"
  "foldTotal g (a\<lparr>a_Summary := z\<rparr>) = foldTotal g a"
  by (cases a; hypsubst; unfold fold_defs Annotation.simps; rule refl)+

lemma Apply_Summary [simp]: "Apply s (a\<lparr>a_Summary := z\<rparr>) = Apply s a"
  by (simp add: Apply_def foldAgg_def split: prod.split)

lemma foldSummary_sel:
  assumes "foldSummary a cs = (a', cs')"
  shows "cs_appender cs' = cs_appender cs" "cs_order cs' = cs_order cs" "cs_byCS cs' = cs_byCS cs"
    "cs_byID cs' = cs_byID cs" "cs_members cs' = cs_members cs" "cs_versions cs' = cs_versions cs"
    "cs_annotations cs' = cs_annotations cs" "a_Serial a' = a_Serial a" "a_ID a' = a_ID a"
    "a_MessageSerial a' = a_MessageSerial a" "Apply z a' = Apply z a"
    "gmap_ok (cs_latest cs) \<Longrightarrow> gmap_ok (cs_latest cs')"
  using assms by (auto simp: foldSummary_def Let_def split: option.splits)

lemma foldSummary_latest:
  assumes "foldSummary a cs = (a', cs')"
  shows "map_of (cs_latest cs') x = (if x = a_MessageSerial a
     then map_option (\<lambda>m. m\<lparr>m_Summary := Apply (m_Summary m) a\<rparr>) (map_of (cs_latest cs) x)
     else map_of (cs_latest cs) x)"
  using assms by (auto simp: foldSummary_def Let_def split: option.splits)

lemma foldAnnotations_sel:
  assumes "foldAnnotations s i as cs = (as', cs')"
  shows "cs_appender cs' = cs_appender cs \<and> cs_order cs' = cs_order cs \<and> cs_byCS cs' = cs_byCS cs \<and>
    cs_byID cs' = cs_byID cs \<and> cs_members cs' = cs_members cs \<and> cs_versions cs' = cs_versions cs \<and>
    cs_annotations cs' = cs_annotations cs \<and> map a_ID as' = map a_ID as \<and>
    map a_MessageSerial as' = map a_MessageSerial as \<and>
    map a_Serial as' = map (\<lambda>i. MessageSerial s (int i)) [i ..< i + length as] \<and>
    (gmap_ok (cs_latest cs) \<longrightarrow> gmap_ok (cs_latest cs'))"
  using assms
proof (induction as arbitrary: i cs as')
  case (Cons a as)
  obtain a1 cs1 where f: "foldSummary (a\<lparr>a_Serial := MessageSerial s (int i)\<rparr>) cs = (a1, cs1)"
    by fastforce
  obtain as2 where r: "foldAnnotations s (Suc i) as cs1 = (as2, cs')" "as' = a1 # as2"
    using Cons.prems f by (auto split: prod.splits)
  show ?case
    using Cons.IH [OF r(1)] r(2) foldSummary_sel [OF f]
      map_upt_Cons [of "\<lambda>i. MessageSerial s (int i)" i "length as"] by simp
qed simp

lemma foldAnnotations_latest:
  assumes "foldAnnotations s i as cs = (as', cs')"
  shows "map_of (cs_latest cs') x = map_option (\<lambda>m. m\<lparr>m_Summary :=
      foldl Apply (m_Summary m) (filter (\<lambda>a. a_MessageSerial a = x) as')\<rparr>) (map_of (cs_latest cs) x)"
  using assms
proof (induction as arbitrary: i cs as')
  case Nil
  then show ?case by (cases "map_of (cs_latest cs) x") auto
next
  case (Cons a as)
  obtain a1 cs1 where f: "foldSummary (a\<lparr>a_Serial := MessageSerial s (int i)\<rparr>) cs = (a1, cs1)"
    by fastforce
  obtain as2 where r: "foldAnnotations s (Suc i) as cs1 = (as2, cs')" "as' = a1 # as2"
    using Cons.prems f by (auto split: prod.splits)
  show ?case
    using Cons.IH [OF r(1)] r(2) foldSummary_sel(10,11) [OF f] foldSummary_latest [OF f, of x]
    by (cases "map_of (cs_latest cs) x") auto
qed

section \<open>Every write keeps the invariant\<close>

lemma stampCreates_sel:
  "length (stampCreates s i ms) = length ms \<and> map m_ID (stampCreates s i ms) = map m_ID ms \<and>
   map m_Serial (stampCreates s i ms) = map (\<lambda>i. MessageSerial s (int i)) [i ..< i + length ms] \<and>
   map VersionSerial (stampCreates s i ms) = map (\<lambda>i. MessageSerial s (int i)) [i ..< i + length ms]"
proof (induction ms arbitrary: i)
  case (Cons m ms)
  then show ?case using map_upt_Cons [of "\<lambda>i. MessageSerial s (int i)" i "length ms"]
    by (simp add: StampCreateVersion_def Let_def VersionSerial_def)
qed simp

lemma stampPresence_sel:
  "length (stampPresence s i ps) = length ps \<and> map p_ID (stampPresence s i ps) = map p_ID ps \<and>
   map p_Serial (stampPresence s i ps) = map (\<lambda>i. MessageSerial s (int i)) [i ..< i + length ps]"
proof (induction ps arbitrary: i)
  case (Cons p ps)
  then show ?case using map_upt_Cons [of "\<lambda>i. MessageSerial s (int i)" i "length ps"]
    by (simp add: StampPresenceMember_def Let_def)
qed simp

lemma numbered_upt: "xs = map (\<lambda>i. MessageSerial s (int i)) [0 ..< n] \<Longrightarrow> numbered s xs"
  by (simp add: numbered_def)

lemma numbered_distinct: "numbered s xs \<Longrightarrow> distinct xs"
  unfolding numbered_def by (metis distinct_map distinct_upt inj_onI MessageSerial_nat_inj)

lemma numbered_Nil [simp]: "numbered s []"
  by (simp add: numbered_def)

lemma log_in_order:
  assumes "log_inv cs" "cm \<in> set (log_of cs)"
  shows "cm_ChannelSerial cm \<in> set (cs_order cs)" "\<not> cm_empty cm" "cm_shape (set (cs_order cs)) cm"
    "map_of (cs_byCS cs) (cm_ChannelSerial cm) = Some cm"
proof -
  obtain s where s: "s \<in> set (cs_order cs)" "cm = cmAt cs s" using assms(2) by (auto simp: log_of_def)
  with assms(1) have "map_of (cs_byCS cs) s \<noteq> None" by (simp add: log_inv_def)
  then obtain cm' where "map_of (cs_byCS cs) s = Some cm'" by blast
  moreover from this s have "cm = cm'" by (simp add: cmAt_def gget_def)
  ultimately have "cm_ChannelSerial cm = s \<and> \<not> cm_empty cm \<and> cm_shape (set (cs_order cs)) cm \<and>
      map_of (cs_byCS cs) s = Some cm"
    using assms(1) by (auto simp: log_inv_def)
  with s show "cm_ChannelSerial cm \<in> set (cs_order cs)" "\<not> cm_empty cm"
    "cm_shape (set (cs_order cs)) cm" "map_of (cs_byCS cs) (cm_ChannelSerial cm) = Some cm"
    by auto
qed

lemma fresh_identity:
  assumes "log_inv cs" "s \<notin> set (cs_order cs)"
  shows "log_versions (log_of cs) (MessageSerial s (int i)) = []"
proof -
  have "m_Serial m \<noteq> MessageSerial s (int i)" if m: "m \<in> set (log_messages (log_of cs))" for m
  proof -
    obtain cm where cm: "cm \<in> set (log_of cs)" "m \<in> set (cm_Messages cm)"
      using m by (auto simp: log_messages_def)
    then obtain c j where "c \<in> set (cs_order cs)" "m_Serial m = MessageSerial c (int j)"
      using log_in_order(3) [OF assms(1) cm(1)] unfolding cm_shape_def by blast
    with assms(2) show ?thesis by auto
  qed
  then show ?thesis by (auto simp: log_versions_def filter_empty_conv)
qed

lemma mem_inv_commit:
  assumes inv: "mem_inv (g, cs)" and ext: "ext_step now g cs cm cs'"
    and ne: "\<not> cm_empty cm" and shape: "cm_shape (set (cs_order cs')) cm"
    and ids: "cs_byID cs' = putIDs (cm_ChannelSerial cm) (cs_byID cs) is"
    and derived: "derived_inv cs'"
  shows "mem_inv (advance now g, cs')"
proof -
  have "cs_order cs' = cs_order cs @ [cm_ChannelSerial cm]"
    using ext_stepD(4) [OF ext] by (simp add: extends_def)
  with inv ids have "index_inv cs'"
    by (auto simp: mem_inv_def index_inv_def map_of_putIDs split: if_splits)
  with inv ext_order [OF ext] ext_log_inv [OF ext _ ne shape] ext_app [OF ext _ ne] derived
  show ?thesis by (simp add: mem_inv_def)
qed

lemma mem_inv_burn: "mem_inv (g, cs) \<Longrightarrow> clock_ok now g \<Longrightarrow> mem_inv (advance now g, cs)"
  using minted_advance [of now g] by (auto simp: mem_inv_def order_inv_def app_inv_def)

subsection \<open>Store\<close>

lemma Store_derived:
  assumes inv: "mem_inv (g, cs)" and ext: "ext_step now g cs cm cs'"
    and cm: "cm_Messages cm = ms" "cm_Presence cm = []" "cm_Annotations cm = []"
    and ms: "map m_Serial ms = map (\<lambda>i. MessageSerial (cm_ChannelSerial cm) (int i)) [0 ..< length ms]"
    and cs': "cs_members cs' = cs_members cs" "cs_annotations cs' = cs_annotations cs"
      "\<And>x. map_of (cs_latest cs') x = (case filter (\<lambda>m. m_Serial m = x) ms of
         [] \<Rightarrow> map_of (cs_latest cs) x | m # _ \<Rightarrow> Some m)"
      "\<And>x. map_of (cs_versions cs') x = (case filter (\<lambda>m. m_Serial m = x) ms of
         [] \<Rightarrow> map_of (cs_versions cs) x | m # _ \<Rightarrow> Some [m])"
      "gmap_ok (cs_latest cs')"
  shows "derived_inv cs'"
proof -
  have d: "derived_inv cs" "log_inv cs" using inv by (simp_all add: mem_inv_def)
  note L = ext_log [OF ext]
  have dist: "distinct (map m_Serial ms)" using numbered_distinct numbered_upt ms by blast
  have one: "filter (\<lambda>m. m_Serial m = x) ms = [] \<or> (\<exists>m. filter (\<lambda>m. m_Serial m = x) ms = [m] \<and>
      log_versions (log_of cs) x = [] \<and> log_annotations (log_of cs) x = [])" for x
  proof (cases "filter (\<lambda>m. m_Serial m = x) ms")
    case (Cons m r)
    have "distinct (map m_Serial (filter (\<lambda>m. m_Serial m = x) ms))"
      using dist by (rule distinct_map_filter)
    moreover have "\<forall>m' \<in> set (m # r). m_Serial m' = x" by (simp flip: Cons)
    ultimately have "r = []" using Cons by (cases r) auto
    have "m \<in> set (filter (\<lambda>m. m_Serial m = x) ms)" by (simp add: Cons)
    then have "m \<in> set ms" "m_Serial m = x" by auto
    then have "x \<in> set (map m_Serial ms)" by auto
    then obtain i where "x = MessageSerial (cm_ChannelSerial cm) (int i)" unfolding ms by auto
    then have "log_versions (log_of cs) x = []" using fresh_identity [OF d(2) ext_fresh [OF ext]] by simp
    with \<open>r = []\<close> Cons d(1) show ?thesis by (auto simp: derived_inv_def)
  qed simp
  have "map_of (cs_latest cs') x = log_latest (log_of cs') x" for x
    using one [of x] d(1) by (auto simp: cs'(3) L cm log_latest_def derived_inv_def)
  moreover have "map_of (cs_versions cs') x = (if log_versions (log_of cs') x = [] then None
      else Some (log_versions (log_of cs') x))" for x
    using one [of x] d(1) by (auto simp: cs'(4) L cm derived_inv_def)
  moreover have "log_annotations (log_of cs') x \<noteq> [] \<Longrightarrow> log_versions (log_of cs') x \<noteq> []" for x
    using d(1) by (auto simp: L cm derived_inv_def)
  ultimately show ?thesis using d(1) cs'(1,2,5) by (auto simp: derived_inv_def L cm)
qed

lemma Store_fresh:
  assumes inv: "mem_inv (g, cs)" and clk: "clock_ok now g"
    and r: "Store ctxErr now fresh msgs (g, cs) = (st', Inr (c, False))"
  obtains cm cs' msgs1 where "c = Some cm" "st' = (advance now g, cs')" "ext_step now g cs cm cs'"
    "\<not> cm_empty cm" "mem_inv st'" "StampMessageIDs fresh msgs = Inr (cm_ID cm, msgs1)"
    "cs_byID cs' = putIDs (cm_ChannelSerial cm) (cs_byID cs) (map m_ID msgs1)"
    "cm_Messages cm = stampCreates (cm_ChannelSerial cm) 0 msgs1"
proof -
  from r obtain batch msgs1 where s: "msgs \<noteq> []" "StampMessageIDs fresh msgs = Inr (batch, msgs1)"
    by (auto simp: Store_def split: if_splits sum.splits option.splits prod.splits)
  define ser where "ser = render (gen_ts (advance now g))"
  define ms where "ms = stampCreates ser 0 msgs1"
  define cm where "cm = zeroChannelMessage\<lparr>cm_ID := batch, cm_ChannelSerial := ser, cm_Messages := ms\<rparr>"
  define cs' where "cs' = deliver cm (foldl (indexCreate ser) (logCM cm cs) ms)"
  have st: "st' = (advance now g, cs')" "c = Some cm"
    using r s by (auto simp: Store_def Mint_render [OF clk] Let_def ser_def ms_def cm_def cs'_def
        split: if_splits option.splits)
  have cm_sel [simp]: "cm_ChannelSerial cm = ser" "cm_Messages cm = ms" "cm_Presence cm = []"
    "cm_Annotations cm = []" "cm_ID cm = batch" by (simp_all add: cm_def zeroChannelMessage_def)
  have "msgs1 \<noteq> []" using s by (cases msgs) (auto simp: StampMessageIDs_def split: sum.splits if_splits)
  then have ne: "\<not> cm_empty cm" by (cases msgs1) (simp_all add: cm_empty_def ms_def)
  have ext: "ext_step now g cs cm cs'"
    using inv clk by (simp add: ext_step_def mem_inv_def extends_def cs'_def ser_def [symmetric])
  note sel = stampCreates_sel [of ser 0 msgs1, folded ms_def]
  have "numbered ser (map m_Serial ms)" using sel by (simp add: numbered_def)
  then have dist: "distinct (map m_Serial ms)" by (rule numbered_distinct)
  have ids: "cs_byID cs' = putIDs ser (cs_byID cs) (map m_ID ms)"
    by (simp add: cs'_def indexCreates_byID)
  have "\<forall>m \<in> set ms. \<exists>i. m_Serial m = MessageSerial ser (int i)"
    using sel by (metis (no_types, lifting) imageE image_eqI list.set_map)
  then have shape: "cm_shape (set (cs_order cs')) cm"
    using sel dist by (auto simp: cm_shape_def cs'_def intro!: numbered_upt)
  have "derived_inv cs'"
    by (rule Store_derived [OF inv ext _ _ _ _]) (use sel inv dist in
      \<open>auto simp: cs'_def mem_inv_def derived_inv_def indexCreates_latest indexCreates_versions
        intro!: indexCreates_gmap_ok split: list.split\<close>)
  then have "mem_inv st'" using mem_inv_commit [OF inv ext ne shape] ids st by simp
  with that st ext ne s(2) ids sel show ?thesis by (simp add: ms_def)
qed

subsection \<open>Mutate\<close>

lemma latest_version_facts:
  assumes "derived_inv cs" "log_inv cs" "map_of (cs_latest cs) s = Some cur"
  shows "log_versions (log_of cs) s \<noteq> []" "m_Serial cur = s"
    "m_Summary cur = foldl Apply (m_Summary (hd (log_versions (log_of cs) s)))
       (log_annotations (log_of cs) s)"
    "\<exists>c \<in> set (cs_order cs). \<exists>i. s = MessageSerial c (int i)"
proof -
  let ?vs = "log_versions (log_of cs) s"
  have cur: "?vs \<noteq> []" "cur = (last ?vs)\<lparr>m_Summary :=
      foldl Apply (m_Summary (hd ?vs)) (log_annotations (log_of cs) s)\<rparr>"
    using assms(1,3) by (auto simp: derived_inv_def log_latest_def split: if_splits)
  then have "last ?vs \<in> set ?vs" by simp
  then have last: "m_Serial (last ?vs) = s" "last ?vs \<in> set (log_messages (log_of cs))"
    by (simp_all add: log_versions_def)
  then obtain lm where "lm \<in> set (log_of cs)" "last ?vs \<in> set (cm_Messages lm)"
    by (auto simp: log_messages_def)
  then show "\<exists>c \<in> set (cs_order cs). \<exists>i. s = MessageSerial c (int i)"
    using log_in_order(3) [OF assms(2)] last(1) unfolding cm_shape_def by metis
  from cur last show "?vs \<noteq> []" "m_Serial cur = s"
    "m_Summary cur = foldl Apply (m_Summary (hd ?vs)) (log_annotations (log_of cs) s)" by simp_all
qed

lemma Mutate_derived:
  assumes inv: "mem_inv (g, cs)" and ext: "ext_step now g cs cm cs'"
    and cm: "cm_Messages cm = [version]" "cm_Presence cm = []" "cm_Annotations cm = []"
    and m: "map_of (cs_latest cs) s = Some current"
      "m_Serial version = m_Serial current" "m_Summary version = m_Summary current"
    and cs': "cs_members cs' = cs_members cs" "cs_annotations cs' = cs_annotations cs"
      "cs_latest cs' = gput s version (cs_latest cs)"
      "cs_versions cs' = gput s (gget [] (cs_versions cs) s @ [version]) (cs_versions cs)"
  shows "derived_inv cs'"
proof -
  have d: "derived_inv cs" "log_inv cs" using inv by (simp_all add: mem_inv_def)
  note L = ext_log [OF ext] and f = latest_version_facts [OF d m(1)]
  have ser: "m_Serial version = s" using m(2) f(2) by simp
  have "version\<lparr>m_Summary := m_Summary version\<rparr> = version" by simp
  with f m(3) ser have lat: "log_latest (log_of cs') s = Some version"
    by (simp add: L cm log_latest_def)
  have oth: "x \<noteq> s \<Longrightarrow> log_latest (log_of cs') x = log_latest (log_of cs) x" for x
    using ser by (simp add: L cm log_latest_def)
  have "map_of (cs_versions cs') x = (if log_versions (log_of cs') x = [] then None
      else Some (log_versions (log_of cs') x))" for x
    using d(1) ser f(1) by (auto simp: derived_inv_def L cm cs' gget_def)
  moreover have "map_of (cs_latest cs') x = log_latest (log_of cs') x" for x
    using lat oth [of x] d(1) by (auto simp: cs' derived_inv_def)
  ultimately show ?thesis using d(1) by (auto simp: derived_inv_def L cm cs'(1-3))
qed

lemma Mutate_fresh:
  assumes inv: "mem_inv (g, cs)" and clk: "clock_ok now g"
    and r: "Mutate ctxErr now mut (g, cs) = (st', Inr (c, False))"
  obtains cm cs' current version where "c = Some cm" "st' = (advance now g, cs')"
    "ext_step now g cs cm cs'" "\<not> cm_empty cm" "mem_inv st'"
    "map_of (cs_latest cs) (m_Serial mut) = Some current" "cm_Messages cm = [version]"
    "MergeVersion current mut (MessageSerial (cm_ChannelSerial cm) 0) = Inr version"
    "cs_byID cs' = putIDs (cm_ChannelSerial cm) (cs_byID cs) [m_ID mut]"
    "map_of (cs_latest cs') (m_Serial mut) = Some version"
proof -
  define ser where "ser = render (gen_ts (advance now g))"
  from r obtain current version where m: "map_of (cs_latest cs) (m_Serial mut) = Some current"
    "MergeVersion current mut (MessageSerial ser 0) = Inr version"
    by (auto simp: Mutate_def Mint_render [OF clk] ser_def split: if_splits sum.splits option.splits)
  define cm where "cm = zeroChannelMessage\<lparr>cm_ChannelSerial := ser, cm_Messages := [version]\<rparr>"
  define cs1 where "cs1 = indexID (m_ID mut) ser (logCM cm cs)"
  define cs' where "cs' = deliver cm (cs1\<lparr>cs_latest := gput (m_Serial mut) version (cs_latest cs1),
     cs_versions := gput (m_Serial mut) (gget [] (cs_versions cs1) (m_Serial mut) @ [version])
       (cs_versions cs1)\<rparr>)"
  have st: "st' = (advance now g, cs')" "c = Some cm"
    using r m by (auto simp: Mutate_def Mint_render [OF clk] Let_def ser_def cm_def cs'_def cs1_def
        split: if_splits option.splits)
  have cm_sel [simp]: "cm_ChannelSerial cm = ser" "cm_Messages cm = [version]" "cm_Presence cm = []"
    "cm_Annotations cm = []" by (simp_all add: cm_def zeroChannelMessage_def)
  have ne: "\<not> cm_empty cm" by (simp add: cm_empty_def)
  have ext: "ext_step now g cs cm cs'"
    using inv clk by (simp add: ext_step_def mem_inv_def extends_def cs'_def cs1_def ser_def [symmetric])
  have d: "derived_inv cs" "log_inv cs" using inv by (simp_all add: mem_inv_def)
  note c = MergeVersion_carries [OF m(2)] and f = latest_version_facts [OF d m(1)]
  have "VersionSerial version = MessageSerial ser 0" by (rule VersionSerial_merged [OF m(2)]) simp
  then have shape: "cm_shape (set (cs_order cs')) cm"
    using f c by (auto simp: cm_shape_def cs'_def cs1_def numbered_def)
  have "derived_inv cs'"
    by (rule Mutate_derived [OF inv ext _ _ _ m(1) c(2,6)]) (simp_all add: cs'_def cs1_def)
  then have "mem_inv st'"
    using mem_inv_commit [OF inv ext ne shape, of "[m_ID mut]"] st by (simp add: cs'_def cs1_def)
  with that [OF st(2,1) ext ne _ m(1)] m(2) show ?thesis by (simp add: cs'_def cs1_def)
qed

subsection \<open>Annotations\<close>

lemma Annotation_derived:
  assumes inv: "mem_inv (g, cs)" and ext: "ext_step now g cs cm cs'"
    and cm: "cm_Messages cm = []" "cm_Presence cm = []" "cm_Annotations cm = anns"
    and tgt: "\<forall>a \<in> set anns. map_of (cs_latest cs) (a_MessageSerial a) \<noteq> None"
    and cs': "cs_members cs' = cs_members cs" "cs_versions cs' = cs_versions cs"
      "\<And>x. map_of (cs_latest cs') x = map_option (\<lambda>m. m\<lparr>m_Summary :=
         foldl Apply (m_Summary m) (filter (\<lambda>a. a_MessageSerial a = x) anns)\<rparr>) (map_of (cs_latest cs) x)"
      "\<And>x. gget [] (cs_annotations cs') x =
         gget [] (cs_annotations cs) x @ filter (\<lambda>a. a_MessageSerial a = x) anns"
      "gmap_ok (cs_latest cs')"
  shows "derived_inv cs'"
proof -
  have d: "derived_inv cs" using inv by (simp add: mem_inv_def)
  note L = ext_log [OF ext]
  have "map_of (cs_latest cs') x = log_latest (log_of cs') x" for x
    using d by (simp add: cs'(3) L cm log_latest_def derived_inv_def)
  moreover have "log_annotations (log_of cs') x \<noteq> [] \<Longrightarrow> log_versions (log_of cs') x \<noteq> []" for x
    using d tgt by (fastforce simp: L cm derived_inv_def log_latest_def filter_empty_conv)
  ultimately show ?thesis using d by (auto simp: derived_inv_def L cm cs'(1,2,4,5))
qed

lemma StoreAnnotation_fresh:
  assumes inv: "mem_inv (g, cs)" and clk: "clock_ok now g"
    and r: "StoreAnnotation ctxErr now anns (g, cs) = (st', Inr (c, False))"
  obtains cm cs' where "c = Some cm" "st' = (advance now g, cs')"
    "ext_step now g cs cm cs'" "\<not> cm_empty cm" "mem_inv st'"
    "map a_MessageSerial (cm_Annotations cm) = map a_MessageSerial anns"
    "cs_byID cs' = putIDs (cm_ChannelSerial cm) (cs_byID cs) (map a_ID anns)"
proof -
  define ser where "ser = render (gen_ts (advance now g))"
  obtain anns1 cs1 where f: "foldAnnotations ser 0 anns cs = (anns1, cs1)" by fastforce
  note sel = foldAnnotations_sel [OF f]
  define cm where "cm = zeroChannelMessage\<lparr>cm_ChannelSerial := ser, cm_Annotations := anns1\<rparr>"
  define cs' where "cs' = deliver cm (foldl (indexAnnotation ser) (logCM cm cs1) anns1)"
  from r have t: "anns \<noteq> []" "\<forall>a \<in> set anns. map_of (cs_latest cs) (a_MessageSerial a) \<noteq> None"
    by (auto simp: StoreAnnotation_def list_ex_iff split: if_splits option.splits)
  have st: "st' = (advance now g, cs')" "c = Some cm"
    using r f by (auto simp: StoreAnnotation_def Mint_render [OF clk] Let_def ser_def cm_def cs'_def
        split: if_splits option.splits)
  have cm_sel [simp]: "cm_ChannelSerial cm = ser" "cm_Messages cm = []" "cm_Presence cm = []"
    "cm_Annotations cm = anns1" by (simp_all add: cm_def zeroChannelMessage_def)
  have ne: "\<not> cm_empty cm" using sel t(1) by (auto simp: cm_empty_def)
  have ext: "ext_step now g cs cm cs'"
    using inv clk sel by (simp add: ext_step_def mem_inv_def extends_def cs'_def ser_def [symmetric])
  have shape: "cm_shape (set (cs_order cs')) cm"
    using sel by (simp add: cm_shape_def numbered_upt)
  have tgt: "\<forall>a \<in> set anns1. map_of (cs_latest cs) (a_MessageSerial a) \<noteq> None"
    using t(2) sel by (metis (no_types, lifting) imageE image_eqI list.set_map)
  have "derived_inv cs'"
    by (rule Annotation_derived [OF inv ext _ _ _ tgt])
      (use sel inv foldAnnotations_latest [OF f] in
        \<open>simp_all add: cs'_def indexAnnotations_maps mem_inv_def derived_inv_def\<close>)
  then have "mem_inv st'"
    using mem_inv_commit [OF inv ext ne shape, of "map a_ID anns1"] st sel
    by (simp add: cs'_def indexAnnotations_maps)
  with that [OF st(2,1) ext ne] sel show ?thesis by (simp add: cs'_def indexAnnotations_maps)
qed

subsection \<open>Presence\<close>

lemma StorePresence_fresh:
  assumes inv: "mem_inv (g, cs)" and clk: "clock_ok now g"
    and r: "StorePresence ctxErr now ps (g, cs) = (st', Inr (c, False))"
  obtains cm cs' where "c = Some cm" "st' = (advance now g, cs')"
    "ext_step now g cs cm cs'" "\<not> cm_empty cm" "mem_inv st'"
    "cm_Presence cm = stampPresence (cm_ChannelSerial cm) 0 ps"
    "cs_byID cs' = putIDs (cm_ChannelSerial cm) (cs_byID cs) (map p_ID ps)"
proof -
  define ser where "ser = render (gen_ts (advance now g))"
  define ps1 where "ps1 = stampPresence ser 0 ps"
  note sel = stampPresence_sel [of ser 0 ps, folded ps1_def]
  define cm where "cm = zeroChannelMessage\<lparr>cm_ChannelSerial := ser, cm_Presence := ps1\<rparr>"
  define cs' where "cs' = deliver cm (foldl (indexPresence ser) (logCM cm cs) ps1)"
  have st: "st' = (advance now g, cs')" "c = Some cm" "ps \<noteq> []"
    using r by (auto simp: StorePresence_def Mint_render [OF clk] Let_def ser_def ps1_def cm_def cs'_def
        split: if_splits option.splits)
  have cm_sel [simp]: "cm_ChannelSerial cm = ser" "cm_Messages cm = []" "cm_Presence cm = ps1"
    "cm_Annotations cm = []" by (simp_all add: cm_def zeroChannelMessage_def)
  have ne: "\<not> cm_empty cm" using sel st(3) by (auto simp: cm_empty_def)
  have ext: "ext_step now g cs cm cs'"
    using inv clk by (simp add: ext_step_def mem_inv_def extends_def cs'_def ser_def [symmetric])
  have shape: "cm_shape (set (cs_order cs')) cm"
    using sel by (simp add: cm_shape_def numbered_upt)
  have "derived_inv cs" using inv by (simp add: mem_inv_def)
  then have "derived_inv cs'"
    using ext_log [OF ext]
    by (simp add: derived_inv_def log_latest_def) (simp add: cs'_def indexPresences_maps)
  then have "mem_inv st'"
    using mem_inv_commit [OF inv ext ne shape, of "map p_ID ps1"] st sel
    by (simp add: cs'_def indexPresences_maps)
  with that [OF st(2,1) ext ne] sel show ?thesis by (simp add: cs'_def indexPresences_maps ps1_def)
qed

end
