(* ===== verification/MemoryStore.thy ===== *)
theory MemoryStore
  imports MemoryLog
begin

text \<open>
  The in-memory backend as a whole: its write operations as one transition, the contract a
  channel store offers its callers (the locale \<open>store_backend\<close>, interpreted on the backend), the
  reachable states of a storage root whose channels share one generator, and the properties
  that hold in all of them.
\<close>

section \<open>Operations and reachable states\<close>

datatype store_op =
    OpStore string "Message list"
  | OpMutate Message
  | OpAnnotation "Annotation list"
  | OpPresence "PresenceMessage list"

fun exec :: "bool \<Rightarrow> int \<Rightarrow> store_op \<Rightarrow> store_state \<Rightarrow> store_state \<times> store_result" where
  "exec ctxErr now (OpStore fresh msgs) st = Store ctxErr now fresh msgs st"
| "exec ctxErr now (OpMutate mut) st = Mutate ctxErr now mut st"
| "exec ctxErr now (OpAnnotation anns) st = StoreAnnotation ctxErr now anns st"
| "exec ctxErr now (OpPresence ps) st = StorePresence ctxErr now ps st"

definition putChannel :: "string \<Rightarrow> store_state \<Rightarrow> MemStorage \<Rightarrow> MemStorage" where
  "putChannel name st s = (case st of (g, cs) \<Rightarrow>
     s\<lparr>ms_gen := g, ms_channels := gput name cs (ms_channels s)\<rparr>)"

text \<open>One step of a process: a channel is opened (with a fresh live list, or storage-only), or a
  write runs on one channel. The clock is any reading that leaves room in the 14 digits.\<close>

inductive storage_step :: "MemStorage \<Rightarrow> MemStorage \<Rightarrow> bool" where
  open_channel: "clock_ok now (ms_gen s) \<Longrightarrow> app = None \<or> app = Some (newChannel name) \<Longrightarrow>
    StorageChannel now name app s = (s', cs) \<Longrightarrow> storage_step s s'"
| write_channel: "clock_ok now (ms_gen s) \<Longrightarrow> map_of (ms_channels s) name = Some cs \<Longrightarrow>
    exec ctxErr now op (ms_gen s, cs) = (st', r) \<Longrightarrow> storage_step s (putChannel name st' s)"

inductive_cases storage_stepE: "storage_step s s'"

definition reachable :: "string \<Rightarrow> MemStorage \<Rightarrow> bool" where
  "reachable series s \<longleftrightarrow> storage_step\<^sup>*\<^sup>* (NewStorage series) s"

definition storage_inv :: "MemStorage \<Rightarrow> bool" where
  "storage_inv s \<longleftrightarrow> (\<forall>name cs. map_of (ms_channels s) name = Some cs \<longrightarrow> mem_inv (ms_gen s, cs))"

section \<open>Outcomes of a write\<close>

lemma seenID_indexed:
  "seenID m is = Some s \<Longrightarrow> \<exists>i \<in> set is. i \<noteq> [] \<and> map_of m i = Some s"
  by (induction "is") (auto split: if_splits option.splits)

lemma seenID_None:
  "seenID m is = None \<longleftrightarrow> (\<forall>i \<in> set is. i \<noteq> [] \<longrightarrow> map_of m i = None)"
  by (induction "is") (auto split: option.splits)

lemma exec_error:
  assumes "exec ctxErr now op (g, cs) = (st', Inl e)"
  shows "snd st' = cs \<and> (fst st' = g \<or> fst st' = snd (Mint now g))"
  using assms
  by (cases op)
    (auto simp: Store_def Mutate_def StoreAnnotation_def StorePresence_def Let_def
      split: if_splits sum.splits option.splits prod.splits)

fun dup_ids :: "store_op \<Rightarrow> string list" where
  "dup_ids (OpStore fresh msgs) =
     (case StampMessageIDs fresh msgs of Inr (_, ms) \<Rightarrow> map m_ID ms | Inl _ \<Rightarrow> [])"
| "dup_ids (OpMutate mut) = [m_ID mut]"
| "dup_ids (OpAnnotation anns) = map a_ID anns"
| "dup_ids (OpPresence ps) = map p_ID ps"

lemma exec_duplicate:
  assumes "exec ctxErr now op (g, cs) = (st', Inr (c, True))"
  shows "st' = (g, cs) \<and> (\<exists>s. seenID (cs_byID cs) (dup_ids op) = Some s \<and> c = map_of (cs_byCS cs) s)"
  using assms
  by (cases op)
    (auto simp: Store_def Mutate_def StoreAnnotation_def StorePresence_def Let_def
      split: if_splits sum.splits option.splits prod.splits)

lemma exec_fresh:
  assumes "mem_inv (g, cs)" "clock_ok now g" "exec ctxErr now op (g, cs) = (st', Inr (c, False))"
  obtains cm cs' where "c = Some cm" "st' = (advance now g, cs')" "ext_step now g cs cm cs'"
    "\<not> cm_empty cm" "mem_inv st'"
    "cs_byID cs' = putIDs (cm_ChannelSerial cm) (cs_byID cs) (dup_ids op)"
    "seenID (cs_byID cs) (dup_ids op) = None"
proof (cases op)
  case (OpStore fresh msgs)
  have n: "seenID (cs_byID cs) (dup_ids op) = None"
    using assms(3) OpStore by (auto simp: Store_def split: if_splits sum.splits option.splits prod.splits)
  have "Store ctxErr now fresh msgs (g, cs) = (st', Inr (c, False))" using assms(3) OpStore by simp
  then show ?thesis by (rule Store_fresh [OF assms(1,2)]) (rule that; use n OpStore in simp)
next
  case (OpMutate mut)
  have n: "seenID (cs_byID cs) (dup_ids op) = None"
    using assms(3) OpMutate by (auto simp: Mutate_def split: if_splits option.splits)
  have "Mutate ctxErr now mut (g, cs) = (st', Inr (c, False))" using assms(3) OpMutate by simp
  then show ?thesis by (rule Mutate_fresh [OF assms(1,2)]) (rule that; use n OpMutate in simp)
next
  case (OpAnnotation anns)
  have n: "seenID (cs_byID cs) (dup_ids op) = None"
    using assms(3) OpAnnotation by (auto simp: StoreAnnotation_def split: if_splits option.splits)
  have "StoreAnnotation ctxErr now anns (g, cs) = (st', Inr (c, False))" using assms(3) OpAnnotation by simp
  then show ?thesis by (rule StoreAnnotation_fresh [OF assms(1,2)]) (rule that; use n OpAnnotation in simp)
next
  case (OpPresence ps)
  have n: "seenID (cs_byID cs) (dup_ids op) = None"
    using assms(3) OpPresence by (auto simp: StorePresence_def split: if_splits option.splits)
  have "StorePresence ctxErr now ps (g, cs) = (st', Inr (c, False))" using assms(3) OpPresence by simp
  then show ?thesis by (rule StorePresence_fresh [OF assms(1,2)]) (rule that; use n OpPresence in simp)
qed

lemma dup_logged:
  assumes "mem_inv (g, cs)" "seenID (cs_byID cs) is = Some s"
  shows "\<exists>cm \<in> set (log_of cs). map_of (cs_byCS cs) s = Some cm"
proof -
  from seenID_indexed [OF assms(2)] assms(1) have s: "s \<in> set (cs_order cs)"
    by (auto simp: mem_inv_def index_inv_def)
  then have "map_of (cs_byCS cs) s \<noteq> None" using assms(1) by (simp add: mem_inv_def log_inv_def)
  then obtain cm where "map_of (cs_byCS cs) s = Some cm" by blast
  moreover from this have "cmAt cs s = cm" by (simp add: cmAt_def gget_def)
  ultimately show ?thesis using s by (auto simp: log_of_def)
qed

lemma exec_inv:
  assumes "mem_inv (g, cs)" "clock_ok now g" "exec ctxErr now op (g, cs) = (st', r)"
  shows "mem_inv st' \<and> (fst st' = g \<or> fst st' = advance now g)"
proof -
  consider (err) e where "r = Inl e" | (dup) c where "r = Inr (c, True)"
    | (new) c where "r = Inr (c, False)" by (cases r) auto
  then show ?thesis
  proof cases
    case err
    with exec_error [of ctxErr now op g cs st'] assms mem_inv_burn [OF assms(1,2)]
    show ?thesis by (cases st') (auto simp: Mint_def Let_def)
  next
    case dup
    with exec_duplicate [of ctxErr now op g cs st'] assms show ?thesis by simp
  next
    case new
    with assms(3) have "exec ctxErr now op (g, cs) = (st', Inr (c, False))" by simp
    then show ?thesis by (rule exec_fresh [OF assms(1,2)]) simp
  qed
qed

section \<open>The contract of a channel store\<close>

text \<open>What the callers of a backend rely on: a write answers with a fresh ChannelMessage that is
  now the last of the log, with the logged original of a duplicate, or with an error; only the
  first changes the log, and the log's serials increase.\<close>

fun run_all :: "('c \<Rightarrow> 's \<Rightarrow> 's \<times> store_result) \<Rightarrow> 'c list \<Rightarrow> 's \<Rightarrow> 's \<times> store_result list" where
  "run_all run [] s = (s, [])"
| "run_all run (c # cs) s =
     (case run c s of (s1, r) \<Rightarrow> case run_all run cs s1 of (s2, rs) \<Rightarrow> (s2, r # rs))"

fun may_all :: "('c \<Rightarrow> 's \<Rightarrow> bool) \<Rightarrow> ('c \<Rightarrow> 's \<Rightarrow> 's \<times> store_result) \<Rightarrow> 'c list \<Rightarrow> 's \<Rightarrow> bool" where
  "may_all may run [] s = True"
| "may_all may run (c # cs) s = (may c s \<and> may_all may run cs (fst (run c s)))"

definition fresh_cms :: "store_result list \<Rightarrow> ChannelMessage list" where
  "fresh_cms rs = concat (map (\<lambda>r. case r of Inr (Some cm, False) \<Rightarrow> [cm] | _ \<Rightarrow> []) rs)"

locale store_backend =
  fixes ok :: "'s \<Rightarrow> bool"
    and log :: "'s \<Rightarrow> ChannelMessage list"
    and may :: "'c \<Rightarrow> 's \<Rightarrow> bool"
    and run :: "'c \<Rightarrow> 's \<Rightarrow> 's \<times> store_result"
  assumes run_ok: "ok s \<Longrightarrow> may c s \<Longrightarrow> run c s = (s', r) \<Longrightarrow> ok s'"
    and run_fresh: "ok s \<Longrightarrow> may c s \<Longrightarrow> run c s = (s', Inr (p, False)) \<Longrightarrow>
      \<exists>cm. p = Some cm \<and> log s' = log s @ [cm] \<and> \<not> cm_empty cm \<and>
        (\<forall>x \<in> set (log s). cm_ChannelSerial x < cm_ChannelSerial cm)"
    and run_dup: "ok s \<Longrightarrow> may c s \<Longrightarrow> run c s = (s', Inr (p, True)) \<Longrightarrow>
      log s' = log s \<and> (\<exists>cm \<in> set (log s). p = Some cm)"
    and run_err: "ok s \<Longrightarrow> may c s \<Longrightarrow> run c s = (s', Inl e) \<Longrightarrow> log s' = log s"
begin

lemma run_log:
  assumes "ok s" "may c s" "run c s = (s', r)"
  shows "log s' = log s @ fresh_cms [r]"
proof -
  consider (err) e where "r = Inl e" | (dup) c where "r = Inr (c, True)"
    | (new) c where "r = Inr (c, False)" by (cases r) auto
  then show ?thesis
  proof cases
    case err
    with run_err [OF assms(1,2)] assms(3) show ?thesis by (simp add: fresh_cms_def)
  next
    case dup
    with run_dup [OF assms(1,2)] assms(3) show ?thesis by (auto simp: fresh_cms_def)
  next
    case new
    with run_fresh [OF assms(1,2)] assms(3) show ?thesis by (auto simp: fresh_cms_def)
  qed
qed

text \<open>The log is exactly the fresh answers, in the order they were given.\<close>

lemma runs_log:
  assumes "ok s" "may_all may run cs s" "run_all run cs s = (s', rs)"
  shows "ok s' \<and> log s' = log s @ fresh_cms rs"
  using assms
proof (induction cs arbitrary: s rs)
  case (Cons c cs)
  obtain s1 r where r: "run c s = (s1, r)" by fastforce
  obtain rs1 where rs: "run_all run cs s1 = (s', rs1)" "rs = r # rs1"
    using Cons.prems(3) r by (auto split: prod.splits)
  have "fresh_cms rs = fresh_cms [r] @ fresh_cms rs1" by (simp add: fresh_cms_def rs(2))
  then show ?case
    using Cons.IH [OF run_ok [OF Cons.prems(1) _ r] _ rs(1)] Cons.prems(1,2) r
      run_log [OF Cons.prems(1) _ r] by simp
qed (simp add: fresh_cms_def)

lemma runs_sorted:
  assumes "ok s" "may_all may run cs s" "run_all run cs s = (s', rs)"
    and "sorted_wrt (<) (map cm_ChannelSerial (log s))"
  shows "sorted_wrt (<) (map cm_ChannelSerial (log s'))"
  using assms
proof (induction cs arbitrary: s rs)
  case (Cons c cs)
  obtain s1 r where r: "run c s = (s1, r)" by fastforce
  obtain rs1 where rs: "run_all run cs s1 = (s', rs1)"
    using Cons.prems(3) r by (auto split: prod.splits)
  have "sorted_wrt (<) (map cm_ChannelSerial (log s1))"
  proof (cases "\<exists>p. r = Inr (p, False)")
    case True
    with run_fresh [of s c s1] Cons.prems(1,2,4) r show ?thesis
      by (auto simp: sorted_wrt_append)
  next
    case False
    with run_log [OF Cons.prems(1) _ r] Cons.prems(2,4) show ?thesis
      by (auto simp: fresh_cms_def split: sum.splits option.splits bool.splits)
  qed
  with Cons.IH [OF run_ok [OF Cons.prems(1) _ r] _ rs] Cons.prems(2) r show ?case by simp
qed simp

end

type_synonym store_call = "bool \<times> int \<times> store_op"

definition mem_run :: "store_call \<Rightarrow> store_state \<Rightarrow> store_state \<times> store_result" where
  "mem_run c st = (case c of (ctxErr, now, op) \<Rightarrow> exec ctxErr now op st)"

definition mem_may :: "store_call \<Rightarrow> store_state \<Rightarrow> bool" where
  "mem_may c st = clock_ok (fst (snd c)) (fst st)"

definition mem_log :: "store_state \<Rightarrow> ChannelMessage list" where
  "mem_log st = log_of (snd st)"

interpretation memory: store_backend mem_inv mem_log mem_may mem_run
proof unfold_locales
  fix s :: store_state and c s' r p e
  assume a: "mem_inv s" "mem_may c s"
  obtain g cs where s: "s = (g, cs)" by (cases s)
  obtain ctxErr now op where c: "c = (ctxErr, now, op)" by (cases c)
  have clk: "clock_ok now g" "mem_inv (g, cs)" using a by (simp_all add: s c mem_may_def)
  show "mem_run c s = (s', r) \<Longrightarrow> mem_inv s'"
    using exec_inv [OF clk(2,1)] by (simp add: mem_run_def s c)
  show "mem_run c s = (s', Inr (p, False)) \<Longrightarrow> \<exists>cm. p = Some cm \<and> mem_log s' = mem_log s @ [cm] \<and>
      \<not> cm_empty cm \<and> (\<forall>x \<in> set (mem_log s). cm_ChannelSerial x < cm_ChannelSerial cm)"
  proof -
    assume "mem_run c s = (s', Inr (p, False))"
    then have "exec ctxErr now op (g, cs) = (s', Inr (p, False))" by (simp add: mem_run_def s c)
    then obtain cm cs' where f: "p = Some cm" "s' = (advance now g, cs')" "ext_step now g cs cm cs'"
      "\<not> cm_empty cm" by (rule exec_fresh [OF clk(2,1)])
    have "cm_ChannelSerial x < cm_ChannelSerial cm" if "x \<in> set (log_of cs)" for x
      using ext_above [OF f(3)] log_in_order(1) [OF _ that] clk(2) by (simp add: mem_inv_def)
    with f ext_log [OF f(3)] show ?thesis by (simp add: mem_log_def s)
  qed
  show "mem_run c s = (s', Inr (p, True)) \<Longrightarrow>
      mem_log s' = mem_log s \<and> (\<exists>cm \<in> set (mem_log s). p = Some cm)"
    using exec_duplicate [of ctxErr now op g cs s' p] dup_logged [OF clk(2)]
    by (auto simp: mem_run_def mem_log_def s c)
  show "mem_run c s = (s', Inl e) \<Longrightarrow> mem_log s' = mem_log s"
    using exec_error [of ctxErr now op g cs s' e] by (simp add: mem_run_def mem_log_def s c)
qed

section \<open>Reachable states\<close>

lemma mem_inv_new:
  assumes "clock_ok now g"
  shows "mem_inv (g, newChannelStore None)"
    and "mem_inv (advance now g, newChannelStore (Some
       (Initialize (render (gen_ts (advance now g))) (render (gen_ts (advance now g))) (newChannel name))))"
proof -
  have e: "log_of (newChannelStore app) = []" for app by (simp add: log_of_def newChannelStore_def)
  have d: "order_inv g' (newChannelStore app) \<and> log_inv (newChannelStore app) \<and>
      index_inv (newChannelStore app) \<and> derived_inv (newChannelStore app)" for g' app
    unfolding order_inv_def log_inv_def index_inv_def derived_inv_def e
    by (simp add: newChannelStore_def log_members_def log_presence_def log_latest_def
        log_versions_def log_messages_def log_annotations_def log_anns_def gget_def)
  show "mem_inv (g, newChannelStore None)"
    using d by (simp add: mem_inv_def app_inv_def newChannelStore_def)
  let ?ch = "Initialize (render (gen_ts (advance now g))) (render (gen_ts (advance now g))) (newChannel name)"
  have "chan_ok ?ch" "ch_ready ?ch" "live ?ch = []"
    by (simp_all add: chan_ok_def Initialize_def newChannel_def live_def)
  then have "app_inv (advance now g) (newChannelStore (Some ?ch))"
    using minted_new [OF assms] by (simp add: app_inv_def e)
      (simp add: newChannelStore_def Initialize_def newChannel_def)
  with d show "mem_inv (advance now g, newChannelStore (Some ?ch))" by (simp add: mem_inv_def)
qed

lemma storage_step_inv:
  assumes "storage_step s s'" "storage_inv s"
  shows "storage_inv s'"
  using assms(1)
proof (cases rule: storage_step.cases)
  case (open_channel now app name cs)
  note burn = mem_inv_burn [OF _ open_channel(1)] and new = mem_inv_new [OF open_channel(1)]
  show ?thesis
    using open_channel(2,3) assms(2) burn new
    by (auto simp: StorageChannel_def Mint_render [OF open_channel(1)] Let_def storage_inv_def
        split: option.splits if_splits)
next
  case (write_channel now name cs ctxErr op st' r)
  have "mem_inv (ms_gen s, cs)" using assms(2) write_channel(3) by (simp add: storage_inv_def)
  from exec_inv [OF this write_channel(2,4)]
  have "mem_inv st'" "fst st' = ms_gen s \<or> fst st' = advance now (ms_gen s)" by auto
  then show ?thesis
    using assms(2) mem_inv_burn [OF _ write_channel(2)]
    by (cases st') (auto simp: write_channel(1) putChannel_def storage_inv_def split: if_splits)
qed

lemma steps_inv: "storage_step\<^sup>*\<^sup>* s s' \<Longrightarrow> storage_inv s \<Longrightarrow> storage_inv s'"
  by (induction rule: rtranclp_induct) (auto intro: storage_step_inv)

lemma reachable_inv:
  "reachable series s \<Longrightarrow> map_of (ms_channels s) name = Some cs \<Longrightarrow> mem_inv (ms_gen s, cs)"
  using steps_inv [of "NewStorage series" s] by (simp add: reachable_def storage_inv_def NewStorage_def)

text \<open>An id never loses its ChannelMessage: the id index and the log only grow.\<close>

lemma step_id_stays:
  assumes "storage_step s s'" "storage_inv s" "map_of (ms_channels s) name = Some cs"
    and "map_of (cs_byID cs) i = Some x" "map_of (cs_byCS cs) x = Some cm"
  shows "\<exists>cs'. map_of (ms_channels s') name = Some cs' \<and> map_of (cs_byID cs') i = Some x \<and>
    map_of (cs_byCS cs') x = Some cm"
  using assms(1)
proof (cases rule: storage_step.cases)
  case (open_channel now app name' cs0)
  then show ?thesis
    using assms(3-5) by (auto simp: StorageChannel_def Let_def split: option.splits prod.splits)
next
  case (write_channel now name' cs0 ctxErr op st' r)
  show ?thesis
  proof (cases "name' = name")
    case False
    with write_channel assms(3-5) show ?thesis by (auto simp: putChannel_def split: prod.splits)
  next
    case True
    then have cs0: "cs0 = cs" using write_channel(3) assms(3) by simp
    have inv: "mem_inv (ms_gen s, cs)" using assms(2,3) by (simp add: storage_inv_def)
    note ex = write_channel(4) [unfolded cs0]
    have "map_of (cs_byID (snd st')) i = Some x \<and> map_of (cs_byCS (snd st')) x = Some cm"
    proof (cases "\<exists>p. r = Inr (p, False)")
      case True
      then obtain p where "exec ctxErr now op (ms_gen s, cs) = (st', Inr (p, False))" using ex by auto
      then obtain cm' cs' where f: "st' = (advance now (ms_gen s), cs')"
        "ext_step now (ms_gen s) cs cm' cs'"
        "cs_byID cs' = putIDs (cm_ChannelSerial cm') (cs_byID cs) (dup_ids op)"
        "seenID (cs_byID cs) (dup_ids op) = None" by (rule exec_fresh [OF inv write_channel(2)])
      have "x \<in> set (cs_order cs)" using inv assms(4) by (auto simp: mem_inv_def index_inv_def)
      with ext_fresh [OF f(2)] have "x \<noteq> cm_ChannelSerial cm'" by auto
      with f ext_stepD(4) [OF f(2)] assms(4,5) show ?thesis
        by (auto simp: extends_def map_of_putIDs seenID_None)
    next
      case False
      then have "snd st' = cs"
        using ex exec_error [of ctxErr now op "ms_gen s" cs st'] exec_duplicate [of ctxErr now op "ms_gen s" cs st']
        by (cases r) auto
      with assms(4,5) show ?thesis by simp
    qed
    then show ?thesis by (cases st') (simp add: write_channel(1) True putChannel_def)
  qed
qed

lemma steps_id_stays:
  assumes "storage_step\<^sup>*\<^sup>* s s'" "storage_inv s" "map_of (ms_channels s) name = Some cs"
    and "map_of (cs_byID cs) i = Some x" "map_of (cs_byCS cs) x = Some cm"
  shows "\<exists>cs'. map_of (ms_channels s') name = Some cs' \<and> map_of (cs_byID cs') i = Some x \<and>
    map_of (cs_byCS cs') x = Some cm"
  using assms
proof (induction rule: rtranclp_induct)
  case (step y z)
  then obtain cs1 where "map_of (ms_channels y) name = Some cs1" "map_of (cs_byID cs1) i = Some x"
    "map_of (cs_byCS cs1) x = Some cm" by blast
  then show ?case using step_id_stays [OF step.hyps(2) steps_inv [OF step.hyps(1) assms(2)]] by blast
qed blast

section \<open>A small run\<close>

text \<open>A concrete run for the witnesses: a channel is opened and two messages, one of them with a
  client id, a presence enter and an append are written.\<close>

definition demo0 :: MemStorage where
  "demo0 = fst (StorageChannel 5 ''room'' (Some (newChannel ''room'')) (NewStorage ''ab''))"

definition do_write :: "int \<Rightarrow> store_op \<Rightarrow> MemStorage \<Rightarrow> MemStorage" where
  "do_write now op s = putChannel ''room''
     (fst (exec False now op (ms_gen s, the (map_of (ms_channels s) ''room'')))) s"

definition demo_msg :: Message where
  "demo_msg = zeroMessage\<lparr>m_ID := ''cid'', m_ClientID := ''amy'', m_Data := AnyStr ''Hel''\<rparr>"

definition demo1 :: MemStorage where
  "demo1 = do_write 6 (OpStore ''fresh'' [demo_msg]) demo0"

definition demo_target :: string where
  "demo_target = ''00000000000006-000@ab:000''"

definition demo_append :: Message where
  "demo_append = zeroMessage\<lparr>m_Action := MessageAppend, m_Serial := demo_target, m_Data := AnyStr ''lo''\<rparr>"

definition demo2 :: MemStorage where
  "demo2 = do_write 6 (OpPresence [zeroPresence\<lparr>p_Action := PresenceEnter, p_ClientID := ''amy'',
     p_ConnectionID := ''c1''\<rparr>]) demo1"

definition demo_cs :: "MemStorage \<Rightarrow> channelStore" where
  "demo_cs s = the (map_of (ms_channels s) ''room'')"

lemma do_write_step:
  assumes "clock_ok now (ms_gen s)" "map_of (ms_channels s) ''room'' \<noteq> None"
  shows "storage_step s (do_write now op s)"
proof -
  obtain cs where cs: "map_of (ms_channels s) ''room'' = Some cs" using assms(2) by auto
  obtain st' r where e: "exec False now op (ms_gen s, cs) = (st', r)" by fastforce
  have "do_write now op s = putChannel ''room'' st' s" by (simp add: do_write_def cs e)
  then show ?thesis using storage_step.write_channel [OF assms(1) cs e] by simp
qed

lemma clock_ok_demo: "clock_ok 6 g \<longleftrightarrow> gen_inv g \<and> lastTs g < 99999999999999"
  by (auto simp: clock_ok_def)

lemma demo_gens: "ms_gen demo0 = \<lparr>seriesID = ''ab'', lastTs = 5, lastCounter = 0\<rparr>"
  "ms_gen demo1 = \<lparr>seriesID = ''ab'', lastTs = 6, lastCounter = 0\<rparr>"
  "map_of (ms_channels demo0) ''room'' \<noteq> None" "map_of (ms_channels demo1) ''room'' \<noteq> None"
  by code_simp+

lemma demo_steps: "storage_step (NewStorage ''ab'') demo0" "storage_step demo0 demo1"
  "storage_step demo1 demo2"
proof -
  have "clock_ok 5 (ms_gen (NewStorage ''ab''))"
    by (simp add: clock_ok_def gen_inv_def NewStorage_def NewGenerator_def width_defs)
  then show "storage_step (NewStorage ''ab'') demo0"
    unfolding demo0_def by (rule storage_step.open_channel) (auto simp: prod_eq_iff)
  show "storage_step demo0 demo1"
    unfolding demo1_def by (rule do_write_step) (simp_all add: demo_gens clock_ok_demo gen_inv_def width_defs)
  show "storage_step demo1 demo2"
    unfolding demo2_def by (rule do_write_step) (simp_all add: demo_gens clock_ok_demo gen_inv_def width_defs)
qed

lemma demo_reachable: "reachable ''ab'' demo1" "reachable ''ab'' demo2" "reachable ''ab'' demo0"
  unfolding reachable_def using demo_steps
  by (meson converse_rtranclp_into_rtranclp rtranclp.rtrancl_refl)+

lemma demo_channel: "map_of (ms_channels demo1) ''room'' = Some (demo_cs demo1)"
  "map_of (ms_channels demo2) ''room'' = Some (demo_cs demo2)"
  "map_of (ms_channels demo0) ''room'' = Some (demo_cs demo0)"
  by code_simp+

lemma demo_clock: "clock_ok 6 (ms_gen demo1)" "clock_ok 6 (ms_gen demo0)"
  by (simp_all add: demo_gens clock_ok_demo gen_inv_def width_defs)

section \<open>Lemmas on the presence fold\<close>

definition member_of :: "PresenceMessage \<Rightarrow> string" where
  "member_of p = MemberKey (p_ConnectionID p) (p_ClientID p)"

definition leaves :: "PresenceMessage \<Rightarrow> bool" where
  "leaves p \<longleftrightarrow> p_Action p = PresenceLeave \<or> p_Action p = PresenceAbsent"

lemma foldMember_last:
  "map_of (foldl foldMember [] ps) k =
     (let es = filter (\<lambda>p. member_of p = k) ps
      in if es = [] \<or> leaves (last es) then None else Some (last es))"
  by (induction ps rule: rev_induct)
    (auto simp: foldMember_def member_of_def leaves_def Let_def split: if_splits)

lemma log_serials: "log_inv cs \<Longrightarrow> map cm_ChannelSerial (log_of cs) = cs_order cs"
proof -
  assume l: "log_inv cs"
  have "cm_ChannelSerial (cmAt cs s) = s" if s: "s \<in> set (cs_order cs)" for s
  proof -
    have "map_of (cs_byCS cs) s \<noteq> None" using l s by (simp add: log_inv_def)
    then obtain cm where "map_of (cs_byCS cs) s = Some cm" by blast
    with l show ?thesis by (auto simp: log_inv_def cmAt_def gget_def)
  qed
  then show ?thesis by (simp add: log_of_def map_idI)
qed

section \<open>Properties\<close>

text \<open>C1: in every state the process can reach, a channel's store is determined by its log: the
  log is sorted by strictly increasing channelSerial, the presence set is the replay of the
  logged presence events, the latest-version projection is the newest logged version with the
  fold of the message's logged annotations as its summary, and the version and annotation
  indexes list exactly the logged versions and annotations of each message in log order.\<close>

theorem store_is_function_of_log:
  assumes "reachable series s" "map_of (ms_channels s) name = Some cs"
  shows "sorted_wrt (<) (map cm_ChannelSerial (log_of cs)) \<and>
    cs_members cs = log_members (log_of cs) \<and>
    (\<forall>x. map_of (cs_latest cs) x = log_latest (log_of cs) x) \<and>
    (\<forall>x. gget [] (cs_versions cs) x = log_versions (log_of cs) x) \<and>
    (\<forall>x. gget [] (cs_annotations cs) x = log_annotations (log_of cs) x)"
  using reachable_inv [OF assms]
  by (auto simp: mem_inv_def derived_inv_def order_inv_def log_serials gget_def)

theorem store_is_function_of_log_witness:
  "length (log_of (demo_cs demo2)) = 2 \<and>
   cs_members (demo_cs demo2) = log_members (log_of (demo_cs demo2))"
proof -
  have "length (log_of (demo_cs demo2)) = 2" by code_simp
  with store_is_function_of_log [OF demo_reachable(2) demo_channel(2)] show ?thesis by simp
qed

text \<open>C21: in every reachable state the live list that streams tail holds exactly the persisted
  log, each ChannelMessage once and in log order, and the channel's initial serial sorts
  strictly below all of it, so an attach point at the initial serial covers everything.\<close>

theorem live_list_is_the_log:
  assumes "reachable series s" "map_of (ms_channels s) name = Some cs" "cs_appender cs = Some ch"
  shows "ch_ready ch \<and> live ch = log_of cs \<and>
    (\<forall>cm \<in> set (log_of cs). InitialChannelSerial ch < cm_ChannelSerial cm)"
proof -
  have inv: "mem_inv (ms_gen s, cs)" by (rule reachable_inv [OF assms(1,2)])
  have "cm_ChannelSerial cm \<in> set (cs_order cs)" if "cm \<in> set (log_of cs)" for cm
    using log_in_order(1) [OF _ that] inv by (simp add: mem_inv_def)
  with inv assms(3) show ?thesis by (auto simp: mem_inv_def app_inv_def InitialChannelSerial_def)
qed

theorem live_list_is_the_log_witness:
  "\<exists>ch. cs_appender (demo_cs demo2) = Some ch \<and> live ch = log_of (demo_cs demo2)"
proof -
  have "cs_appender (demo_cs demo2) \<noteq> None" by code_simp
  then obtain ch where "cs_appender (demo_cs demo2) = Some ch" by blast
  with live_list_is_the_log [OF demo_reachable(2) demo_channel(2) this] show ?thesis by simp
qed

text \<open>Over any run of writes on a channel (creates, mutations, annotations, presence, in any
  order, failing ones and duplicates included) the log grows by exactly the ChannelMessages
  the successful fresh writes returned, in order, and stays sorted; errors and duplicates add
  nothing to it.\<close>

theorem log_is_the_fresh_answers:
  assumes "mem_inv st" "may_all mem_may mem_run calls st" "run_all mem_run calls st = (st', rs)"
    and "sorted_wrt (<) (map cm_ChannelSerial (mem_log st))"
  shows "mem_log st' = mem_log st @ fresh_cms rs \<and>
    sorted_wrt (<) (map cm_ChannelSerial (mem_log st'))"
  using memory.runs_log [OF assms(1-3)] memory.runs_sorted [OF assms] by simp

theorem log_is_the_fresh_answers_witness:
  "let st = (ms_gen demo1, demo_cs demo1); calls = [(False, 6, OpMutate demo_append)]
   in mem_log (fst (run_all mem_run calls st)) =
        mem_log st @ fresh_cms (snd (run_all mem_run calls st))"
proof -
  let ?st = "(ms_gen demo1, demo_cs demo1)"
  let ?calls = "[(False, 6, OpMutate demo_append)] :: store_call list"
  have i: "mem_inv ?st" by (rule reachable_inv [OF demo_reachable(1) demo_channel(1)])
  have m: "may_all mem_may mem_run ?calls ?st" by (simp add: mem_may_def demo_clock)
  have s: "sorted_wrt (<) (map cm_ChannelSerial (mem_log ?st))" by code_simp
  show ?thesis
    using log_is_the_fresh_answers [OF i m prod.collapse [symmetric] s] by (simp add: Let_def)
qed

text \<open>C29: publishing is idempotent: once a batch was stored, storing its stamped messages again,
  after any number of other operations on any channels, with any clock, writes nothing and
  returns the original ChannelMessage with the idempotent flag. Hypothesis: the first stamped
  id is not empty, which client-supplied ids and generated base ids are.\<close>

theorem retry_returns_original:
  assumes "reachable series s" "map_of (ms_channels s) name = Some cs" "clock_ok now (ms_gen s)"
    and st: "Store False now fresh msgs (ms_gen s, cs) = (st', Inr (Some cm, False))"
    and ids: "StampMessageIDs fresh msgs = Inr (batch, ms)" "m_ID (hd ms) \<noteq> []"
    and later: "storage_step\<^sup>*\<^sup>* (putChannel name st' s) s2"
      "map_of (ms_channels s2) name = Some cs2"
  shows "Store False now2 fresh2 ms (ms_gen s2, cs2) = ((ms_gen s2, cs2), Inr (Some cm, True))"
proof -
  have inv: "mem_inv (ms_gen s, cs)" by (rule reachable_inv [OF assms(1,2)])
  from st have ne: "msgs \<noteq> []" by (auto simp: Store_def)
  with ids have "ms \<noteq> []"
    by (cases msgs) (auto simp: StampMessageIDs_def split: sum.splits if_splits)
  from st obtain cs' msgs1 where f: "st' = (advance now (ms_gen s), cs')"
    "ext_step now (ms_gen s) cs cm cs'" "StampMessageIDs fresh msgs = Inr (cm_ID cm, msgs1)"
    "cs_byID cs' = putIDs (cm_ChannelSerial cm) (cs_byID cs) (map m_ID msgs1)"
    by (rule Store_fresh [OF inv assms(3)]) auto
  have i: "map_of (cs_byID cs') (m_ID (hd ms)) = Some (cm_ChannelSerial cm)"
    using f(3,4) ids \<open>ms \<noteq> []\<close> by (simp add: map_of_putIDs)
  have c: "map_of (cs_byCS cs') (cm_ChannelSerial cm) = Some cm"
    using ext_stepD(4) [OF f(2)] by (simp add: extends_def)
  have ch: "map_of (ms_channels (putChannel name st' s)) name = Some cs'" by (simp add: putChannel_def f(1))
  have "storage_step s (putChannel name st' s)"
    by (rule storage_step.write_channel [OF assms(3,2), of False "OpStore fresh msgs"]) (simp add: st)
  then have "storage_inv (putChannel name st' s)"
    using assms(1) storage_step_inv steps_inv [of "NewStorage series" s]
    by (simp add: reachable_def storage_inv_def NewStorage_def)
  from steps_id_stays [OF later(1) this ch i c] later(2)
  have "map_of (cs_byID cs2) (m_ID (hd ms)) = Some (cm_ChannelSerial cm)"
    "map_of (cs_byCS cs2) (cm_ChannelSerial cm) = Some cm" by auto
  moreover have "StampMessageIDs fresh2 ms = Inr (batch, ms)"
    using stamped_restamp [OF ids(1) ne] .
  ultimately show ?thesis using \<open>ms \<noteq> []\<close> ids(2) by (cases ms) (simp_all add: Store_def)
qed

theorem retry_returns_original_witness:
  "\<exists>cm. Store False 9 ''other'' [demo_msg] (ms_gen demo2, demo_cs demo2) =
     ((ms_gen demo2, demo_cs demo2), Inr (Some cm, True))"
proof -
  let ?r = "Store False 6 ''fresh'' [demo_msg] (ms_gen demo0, demo_cs demo0)"
  have "case snd ?r of Inr (Some cm, False) \<Rightarrow> True | _ \<Rightarrow> False" by code_simp
  then obtain st' cm where st: "?r = (st', Inr (Some cm, False))"
    by (cases ?r) (auto split: sum.splits prod.splits option.splits bool.splits)
  have "putChannel ''room'' st' demo0 = demo1"
    using st by (simp add: demo1_def do_write_def demo_cs_def)
  then have later: "storage_step\<^sup>*\<^sup>* (putChannel ''room'' st' demo0) demo2" using demo_steps(3) by simp
  have i: "StampMessageIDs ''fresh'' [demo_msg] = Inr (''cid'', [demo_msg])" "m_ID (hd [demo_msg]) \<noteq> []"
    by code_simp+
  from retry_returns_original [OF demo_reachable(3) demo_channel(3) demo_clock(2) st i later
      demo_channel(2), of 9 "''other''"]
  show ?thesis by blast
qed



text \<open>The presence set of a reachable channel is what the last event of each member says: a
  (connection, client) pair is present exactly when its newest logged presence event is not a
  leave or an absent, and then its entry is that event.\<close>

theorem presence_is_last_event:
  assumes "reachable series s" "map_of (ms_channels s) name = Some cs"
  shows "map_of (cs_members cs) k =
    (let es = filter (\<lambda>p. member_of p = k) (log_presence (log_of cs))
     in if es = [] \<or> leaves (last es) then None else Some (last es))"
  using reachable_inv [OF assms]
  by (simp add: mem_inv_def derived_inv_def log_members_def foldMember_last)

theorem presence_is_last_event_witness:
  "map_of (cs_members (demo_cs demo2)) ''c1:amy'' =
     Some (last (filter (\<lambda>p. member_of p = ''c1:amy'') (log_presence (log_of (demo_cs demo2)))))"
proof -
  have "\<not> leaves (last (filter (\<lambda>p. member_of p = ''c1:amy'') (log_presence (log_of (demo_cs demo2))))) \<and>
      filter (\<lambda>p. member_of p = ''c1:amy'') (log_presence (log_of (demo_cs demo2))) \<noteq> []"
    by code_simp
  with presence_is_last_event [OF demo_reachable(2) demo_channel(2), of "''c1:amy''"] show ?thesis
    by (simp add: Let_def)
qed

end
