(* ===== verification/MemoryHistory.thy ===== *)
theory MemoryHistory
  imports MemoryStore
begin

text \<open>
  The history reads of the in-memory backend against their specification: a page is the
  limit-bounded prefix, in scan direction, of the selected items beyond the cursor, and a client
  that follows the next links sees every item once. The paging contract of \<open>Paging\<close> is
  interpreted on the presence history, the collapsed message history, and the version and
  annotation reads.
\<close>

section \<open>What a page holds\<close>

definition of_kind :: "Kind \<Rightarrow> HistItem \<Rightarrow> bool" where
  "of_kind k it = (case it of
     ItemPresence _ \<Rightarrow> Normalize k = KindPresence
   | ItemAnnotation _ \<Rightarrow> Normalize k = KindAnnotation
   | ItemMessage _ \<Rightarrow> Normalize k \<noteq> KindPresence \<and> Normalize k \<noteq> KindAnnotation)"

definition cm_pairs :: "Kind \<Rightarrow> ChannelMessage \<Rightarrow> (string \<times> HistItem) list" where
  "cm_pairs k cm = map (Pair (cm_ChannelSerial cm)) (CMItems cm k)"

text \<open>The items of a page with the channelSerial each is listed under.\<close>

definition page_pairs :: "Kind \<Rightarrow> HistoryPage \<Rightarrow> (string \<times> HistItem) list" where
  "page_pairs k page = concat (map (cm_pairs k) (hp_ChannelMessages page))"

lemma CMItems_of_kind: "it \<in> set (CMItems cm k) \<Longrightarrow> of_kind k it"
  by (auto simp: CMItems_def of_kind_def kind_defs split: if_splits)

lemma it_Append_sel:
  "cm_ChannelSerial (it_Append it cm) = cm_ChannelSerial cm"
  "of_kind k it \<Longrightarrow> CMItems (it_Append it cm) k = CMItems cm k @ [it]"
  by (cases it; auto simp: CMItems_def of_kind_def kind_defs)+

lemma CMItems_zero: "CMItems (zeroChannelMessage\<lparr>cm_ChannelSerial := s\<rparr>) k = []"
  by (simp add: CMItems_def zeroChannelMessage_def)

lemma putItem_pairs:
  assumes "of_kind k it"
  shows "concat (map (cm_pairs k) (putItem s it cms)) = concat (map (cm_pairs k) cms) @ [(s, it)]"
proof (cases cms rule: rev_exhaust)
  case Nil
  with assms show ?thesis by (simp add: putItem_def cm_pairs_def it_Append_sel CMItems_zero)
next
  case (snoc bs b)
  with assms show ?thesis by (simp add: putItem_def cm_pairs_def it_Append_sel CMItems_zero)
qed

section \<open>The scans as one flat scan\<close>

fun flatScan :: "HistoryQuery \<Rightarrow> (string \<times> HistItem) list \<Rightarrow> HistoryPage \<Rightarrow> int \<Rightarrow> scan_state" where
  "flatScan q [] page count = Inr (page, count)"
| "flatScan q ((s, it) # ps) page count =
     (if skips (forwards q) (hq_Cursor q) (it_Serial it) then flatScan q ps page count
      else case emitHist q s it page count of
             Inl page' \<Rightarrow> Inl page'
           | Inr (page', count') \<Rightarrow> flatScan q ps page' count')"

lemma skips_if: "hq_Cursor q \<noteq> [] \<and> (if forwards q then k \<le> hq_Cursor q else k \<ge> hq_Cursor q) \<longleftrightarrow>
    skips (forwards q) (hq_Cursor q) k"
  by (auto simp: skips_def)

lemma scanItems_flat: "scanItems q s its page count = flatScan q (map (Pair s) its) page count"
  by (induction its arbitrary: page count) (auto simp: skips_if split: sum.split)

lemma flatScan_append:
  "flatScan q (as @ bs) page count = (case flatScan q as page count of
     Inl p \<Rightarrow> Inl p | Inr (p, c) \<Rightarrow> flatScan q bs p c)"
  by (induction q as page count rule: flatScan.induct) (auto split: sum.splits)

lemma scanCMs_flat:
  "scanCMs q k cms page count = flatScan q
     (concat (map (\<lambda>cm. if forwards q then cm_pairs k cm else rev (cm_pairs k cm)) cms)) page count"
proof (induction cms arbitrary: page count)
  case (Cons cm cms)
  then show ?case
    by (auto simp: flatScan_append scanItems_flat cm_pairs_def Let_def rev_map split: sum.split)
qed simp

lemma scanPage_flat:
  assumes "\<forall>p \<in> set ps. of_kind k (snd p)" "hq_Limit q > 0 \<longrightarrow> c \<le> hq_Limit q" "0 \<le> c"
  defines "ys \<equiv> filter (\<lambda>p. \<not> skips (forwards q) (hq_Cursor q) (it_Serial (snd p)))"
  shows "page_pairs k (scanPage (flatScan q ps page c)) = page_pairs k page @
      (if hq_Limit q > 0 then take (nat (hq_Limit q - c)) (ys ps) else ys ps) \<and>
    (hp_HasMore (scanPage (flatScan q ps page c)) \<longleftrightarrow>
      hp_HasMore page \<or> hq_Limit q > 0 \<and> nat (hq_Limit q - c) < length (ys ps))"
  using assms(1,2,3)
proof (induction ps arbitrary: page c)
  case Nil
  then show ?case by (simp add: scanPage_def ys_def)
next
  case (Cons p ps)
  obtain s it where p: "p = (s, it)" by (cases p)
  consider (skip) "skips (forwards q) (hq_Cursor q) (it_Serial it)"
    | (stop) "\<not> skips (forwards q) (hq_Cursor q) (it_Serial it)" "hq_Limit q > 0" "c = hq_Limit q"
    | (emit) "\<not> skips (forwards q) (hq_Cursor q) (it_Serial it)" "hq_Limit q > 0 \<longrightarrow> c < hq_Limit q"
    using Cons.prems(2) by fastforce
  then show ?case
  proof cases
    case skip
    with Cons show ?thesis by (simp add: p ys_def)
  next
    case stop
    then show ?thesis by (simp add: p ys_def emitHist_def scanPage_def page_pairs_def)
  next
    case emit
    let ?page = "page\<lparr>hp_ChannelMessages := putItem s it (hp_ChannelMessages page)\<rparr>"
    have "flatScan q (p # ps) page c = flatScan q ps ?page (c + 1)"
      using emit by (auto simp: p emitHist_def)
    moreover have "page_pairs k ?page = page_pairs k page @ [(s, it)]"
      using Cons.prems(1) by (simp add: p page_pairs_def putItem_pairs)
    moreover have "hq_Limit q > 0 \<Longrightarrow> nat (hq_Limit q - c) = Suc (nat (hq_Limit q - (c + 1)))"
      using emit by simp
    moreover have "ys (p # ps) = p # ys ps" using emit by (simp add: p ys_def)
    ultimately show ?thesis
      using Cons.IH [of "c + 1" ?page] Cons.prems emit by (auto simp: p)
  qed
qed

section \<open>The range of a scan\<close>

lemma less_snoc_NUL: "(x :: string) < k @ [CHR 0x00] \<longleftrightarrow> x \<le> k"
proof (induction k arbitrary: x)
  case Nil
  have "\<not> c < (CHR 0x00 :: char)" for c by (simp add: less_char_def)
  then show ?case by (cases x) auto
next
  case (Cons a k)
  then show ?case by (cases x) (auto simp: le_less)
qed

lemma SearchStrings_split:
  assumes "sorted_wrt (<) xs"
  shows "take (SearchStrings xs k) xs = filter (\<lambda>x. x < k) xs"
    and "drop (SearchStrings xs k) xs = filter (\<lambda>x. \<not> x < k) xs"
proof -
  have "takeWhile (\<lambda>x. x < k) xs = filter (\<lambda>x. x < k) xs \<and>
      dropWhile (\<lambda>x. x < k) xs = filter (\<lambda>x. \<not> x < k) xs"
    using assms
  proof (induction xs)
    case (Cons a xs)
    have "filter (\<lambda>x. x < k) xs = []" "filter (\<lambda>x. \<not> x < k) xs = xs" if "\<not> a < k"
      using Cons.prems that by (force simp: filter_empty_conv filter_id_conv)+
    with Cons show ?case by simp
  qed simp
  moreover from this show "take (SearchStrings xs k) xs = filter (\<lambda>x. x < k) xs"
    unfolding SearchStrings_def by (metis takeWhile_eq_take)
  ultimately show
    "drop (SearchStrings xs k) xs = filter (\<lambda>x. \<not> x < k) xs"
    unfolding SearchStrings_def by (metis dropWhile_eq_drop)
qed

text \<open>The specified selection: the time range, strictly after \<open>AfterChannelSerial\<close>, at most
  \<open>EndChannelSerial\<close>.\<close>

definition hist_sel :: "HistoryQuery \<Rightarrow> string \<Rightarrow> bool" where
  "hist_sel q s \<longleftrightarrow>
     in_bounds (fst (TimestampBounds (hq_Start q) (hq_End q)))
       (snd (TimestampBounds (hq_Start q) (hq_End q))) s \<and>
     (hq_AfterChannelSerial q = [] \<or> hq_AfterChannelSerial q < s) \<and>
     (hq_EndChannelSerial q = [] \<or> s \<le> hq_EndChannelSerial q)"

lemma drop_search:
  assumes "sorted_wrt (<) xs"
  shows "i < length xs \<Longrightarrow> SearchStrings xs k \<le> i \<longleftrightarrow> \<not> xs ! i < k"
proof -
  assume i: "i < length xs"
  let ?n = "SearchStrings xs k"
  have n: "?n \<le> length xs" by (simp add: SearchStrings_def length_takeWhile_le)
  show ?thesis
  proof
    assume "?n \<le> i"
    then have "xs ! i \<in> set (drop ?n xs)"
      using i by (metis add_diff_inverse_nat in_set_conv_nth length_drop less_diff_iff not_less nth_drop n)
    then show "\<not> xs ! i < k" unfolding SearchStrings_split(2) [OF assms] by simp
  next
    assume a: "\<not> xs ! i < k"
    show "?n \<le> i"
    proof (rule ccontr)
      assume "\<not> ?n \<le> i"
      then have "take ?n xs ! i = xs ! i" "i < length (take ?n xs)" using n by simp_all
      then have "xs ! i \<in> set (take ?n xs)" by (metis nth_mem)
      with a show False unfolding SearchStrings_split(1) [OF assms] by simp
    qed
  qed
qed

lemma range_filter:
  assumes "\<And>i. i < length xs \<Longrightarrow> P (xs ! i) \<longleftrightarrow> lo \<le> i \<and> i < hi"
  shows "drop lo (take hi xs) = filter P xs"
proof -
  have "xs = take lo (take hi xs) @ drop lo (take hi xs) @ drop hi xs" by (metis append.assoc append_take_drop_id)
  moreover have "filter P (take lo (take hi xs)) = []"
    using assms by (auto simp: filter_empty_conv in_set_conv_nth)
  moreover have "filter P (drop hi xs) = []"
    using assms by (auto simp: filter_empty_conv in_set_conv_nth)
  moreover have "filter P (drop lo (take hi xs)) = drop lo (take hi xs)"
  proof -
    have "drop lo (take hi xs) ! i = xs ! (lo + i)" if "i < min (length xs) hi - lo" for i
      using that by (subst nth_drop) auto
    with assms show ?thesis by (auto simp: filter_id_conv in_set_conv_nth)
  qed
  ultimately show ?thesis by (metis append_Nil append_Nil2 filter_append)
qed

lemma histRange_sel:
  assumes "sorted_wrt (<) order" "histRange q order = (lo, hi)"
  shows "drop lo (take hi order) = filter (hist_sel q) order"
proof (rule range_filter)
  fix i assume i: "i < length order"
  obtain lower upper where b: "TimestampBounds (hq_Start q) (hq_End q) = (lower, upper)" by fastforce
  note d = drop_search [OF assms(1) i]
  have lo: "lo \<le> i \<longleftrightarrow> (lower = [] \<or> lower \<le> order ! i) \<and>
      (hq_AfterChannelSerial q = [] \<or> hq_AfterChannelSerial q < order ! i)"
    using assms(2) d [of lower] d [of "hq_AfterChannelSerial q @ [CHR 0x00]"]
    by (auto simp: histRange_def b Let_def less_snoc_NUL not_le not_less split: if_splits)
  have hi: "i < hi \<longleftrightarrow> (upper = [] \<or> order ! i < upper) \<and>
      (hq_EndChannelSerial q = [] \<or> order ! i \<le> hq_EndChannelSerial q)"
    using assms(2) i d [of upper] d [of "hq_EndChannelSerial q @ [CHR 0x00]"]
    by (auto simp: histRange_def b Let_def less_snoc_NUL not_le not_less split: if_splits)
  show "hist_sel q (order ! i) \<longleftrightarrow> lo \<le> i \<and> i < hi"
    unfolding hist_sel_def lo hi by (auto simp: b in_bounds_def)
qed

section \<open>The raw history\<close>

text \<open>The items a raw query ranges over, in log order, with their channelSerials.\<close>

definition hist_pairs :: "HistoryQuery \<Rightarrow> channelStore \<Rightarrow> (string \<times> HistItem) list" where
  "hist_pairs q cs =
     concat (map (\<lambda>s. cm_pairs (hq_Kind q) (cmAt cs s)) (filter (hist_sel q) (cs_order cs)))"

lemma Normalize_idem: "Normalize (Normalize k) = Normalize k"
  by (simp add: Normalize_def KindMessage_def)

lemma cm_pairs_Normalize: "cm_pairs (Normalize k) cm = cm_pairs k cm"
  by (simp add: cm_pairs_def CMItems_def Normalize_idem)

lemma concat_rev: "concat (map (\<lambda>x. rev (f x)) (rev xs)) = rev (concat (map f xs))"
  by (induction xs) auto

lemma cm_pairs_kind: "p \<in> set (cm_pairs k cm) \<Longrightarrow> of_kind k (snd p)"
  by (auto simp: cm_pairs_def intro: CMItems_of_kind)

lemma History_flat:
  assumes "sorted_wrt (<) (cs_order cs)" "\<not> (hq_Collapse q \<and> Normalize (hq_Kind q) = KindMessage)"
  shows "History False q cs = Inr (scanPage (flatScan q
    (if forwards q then hist_pairs q cs else rev (hist_pairs q cs)) zeroPage 0))"
proof -
  obtain lo hi where r: "histRange q (cs_order cs) = (lo, hi)" by fastforce
  let ?ss = "filter (hist_sel q) (cs_order cs)"
  have "History False q cs = Inr (scanPage (scanCMs q (Normalize (hq_Kind q))
      (if forwards q then map (cmAt cs) ?ss else rev (map (cmAt cs) ?ss)) zeroPage 0))"
    using assms(2) histRange_sel [OF assms(1) r] by (auto simp: History_def r Let_def)
  then show ?thesis
    by (simp add: scanCMs_flat hist_pairs_def cm_pairs_Normalize rev_map
        concat_rev [of "\<lambda>s. cm_pairs (hq_Kind q) (cmAt cs s)"] comp_def)
qed

section \<open>Items are listed in serial order\<close>

text \<open>The three-digit index orders a batch of at most a thousand items.\<close>

definition batches_ok :: "channelStore \<Rightarrow> bool" where
  "batches_ok cs \<longleftrightarrow> (\<forall>cm \<in> set (log_of cs). length (cm_Messages cm) \<le> 1000 \<and>
     length (cm_Presence cm) \<le> 1000 \<and> length (cm_Annotations cm) \<le> 1000)"

lemma numbered_sorted:
  assumes "numbered s xs" "length xs \<le> 1000"
  shows "sorted_wrt (<) xs"
proof -
  have "sorted_wrt (<) (map (\<lambda>i. MessageSerial s (int i)) [0 ..< n])" if "n \<le> 1000" for n
    using that by (auto simp: sorted_wrt_map MessageSerial_idx_less_iff
        intro!: sorted_wrt_mono_rel [OF _ sorted_wrt_upt])
  with assms show ?thesis unfolding numbered_def by metis
qed

lemma concat_sorted:
  assumes "sorted_wrt (<) (map cm_ChannelSerial L)"
    and "\<forall>cm \<in> set L. length (cm_ChannelSerial cm) = n"
    and "\<forall>cm \<in> set L. numbered (cm_ChannelSerial cm) (ks cm) \<and> length (ks cm) \<le> 1000"
  shows "sorted_wrt (<) (concat (map ks L))"
  using assms
proof (induction L)
  case (Cons cm L)
  have "x < y" if x: "x \<in> set (ks cm)" and y: "y \<in> set (concat (map ks L))" for x y
  proof -
    obtain cm' where cm': "cm' \<in> set L" "y \<in> set (ks cm')" using y by auto
    obtain i where "x = MessageSerial (cm_ChannelSerial cm) (int i)"
      using x Cons.prems(3) unfolding numbered_def by (metis (no_types, lifting) imageE list.set_intros(1) list.set_map)
    moreover obtain j where "y = MessageSerial (cm_ChannelSerial cm') (int j)"
      using cm' Cons.prems(3) unfolding numbered_def by (metis (no_types, lifting) imageE list.set_intros(2) list.set_map)
    ultimately show ?thesis using cm'(1) Cons.prems(1,2) by (auto intro: MessageSerial_cs_less)
  qed
  moreover have "sorted_wrt (<) (ks cm)" using numbered_sorted [of "cm_ChannelSerial cm" "ks cm"] Cons.prems(3) by simp
  ultimately show ?case using Cons by (auto simp: sorted_wrt_append)
qed simp

lemma log_items_sorted:
  assumes "mem_inv (g, cs)" "batches_ok cs"
  shows "sorted_wrt (<) (map p_Serial (log_presence (log_of cs)))"
    and "sorted_wrt (<) (map a_Serial (log_anns (log_of cs)))"
    and "sorted_wrt (<) (map VersionSerial (log_messages (log_of cs)))"
proof -
  have inv: "log_inv cs" "order_inv g cs" using assms(1) by (simp_all add: mem_inv_def)
  have s: "sorted_wrt (<) (map cm_ChannelSerial (log_of cs))"
    using inv by (simp add: log_serials order_inv_def)
  have l: "\<forall>cm \<in> set (log_of cs). length (cm_ChannelSerial cm) = 19 + length (seriesID g)"
    using inv log_in_order(1) [OF inv(1)] minted_length by (auto simp: order_inv_def)
  have sh: "cm \<in> set (log_of cs) \<Longrightarrow> cm_shape (set (cs_order cs)) cm" for cm
    using log_in_order(3) [OF inv(1)] by blast
  show "sorted_wrt (<) (map p_Serial (log_presence (log_of cs)))"
    using concat_sorted [OF s l, of "\<lambda>cm. map p_Serial (cm_Presence cm)"] sh assms(2)
    by (simp add: log_presence_def map_concat cm_shape_def batches_ok_def comp_def)
  show "sorted_wrt (<) (map a_Serial (log_anns (log_of cs)))"
    using concat_sorted [OF s l, of "\<lambda>cm. map a_Serial (cm_Annotations cm)"] sh assms(2)
    by (simp add: log_anns_def map_concat cm_shape_def batches_ok_def comp_def)
  show "sorted_wrt (<) (map VersionSerial (log_messages (log_of cs)))"
    using concat_sorted [OF s l, of "\<lambda>cm. map VersionSerial (cm_Messages cm)"] sh assms(2)
    by (simp add: log_messages_def map_concat cm_shape_def batches_ok_def comp_def)
qed

lemma numbered_nonempty: "numbered s xs \<Longrightarrow> x \<in> set xs \<Longrightarrow> x \<noteq> []"
  unfolding numbered_def by (metis (no_types, lifting) MessageSerial_nonempty imageE list.set_map)

lemma log_items_nonempty:
  assumes "log_inv cs"
  shows "p \<in> set (log_presence (log_of cs)) \<Longrightarrow> p_Serial p \<noteq> []"
    and "a \<in> set (log_anns (log_of cs)) \<Longrightarrow> a_Serial a \<noteq> []"
    and "m \<in> set (log_messages (log_of cs)) \<Longrightarrow> VersionSerial m \<noteq> []"
  using log_in_order(3) [OF assms] numbered_nonempty
  by (fastforce simp: log_presence_def log_anns_def log_messages_def cm_shape_def)+

section \<open>The paging contract on the presence history\<close>

fun un_presence :: "HistItem \<Rightarrow> PresenceMessage" where
  "un_presence (ItemPresence p) = p"
| "un_presence _ = zeroPresence"

definition presenceQuery :: "bool \<Rightarrow> string \<Rightarrow> int \<Rightarrow> HistoryQuery" where
  "presenceQuery fw c lim = (pageQuery fw c lim)\<lparr>hq_Kind := KindPresence\<rparr>"

definition presencePage :: "store_state \<Rightarrow> bool \<Rightarrow> string \<Rightarrow> int \<Rightarrow> PresenceMessage list \<times> bool" where
  "presencePage st fw c lim =
     (case History False (presenceQuery fw c lim) (snd st) of
        Inl _ \<Rightarrow> ([], False)
      | Inr page \<Rightarrow> (concat (map cm_Presence (hp_ChannelMessages page)), hp_HasMore page))"

lemma presenceQuery_sel [simp]:
  "forwards (presenceQuery fw c lim) = fw" "hq_Cursor (presenceQuery fw c lim) = c"
  "hq_Limit (presenceQuery fw c lim) = lim" "hq_Kind (presenceQuery fw c lim) = KindPresence"
  "hist_sel (presenceQuery fw c lim) s"
  by (simp_all add: presenceQuery_def pageQuery_def forwards_def zeroQuery_def hist_sel_def
      TimestampBounds_def in_bounds_def)

lemma cm_pairs_presence:
  "map (un_presence \<circ> snd) (cm_pairs KindPresence cm) = cm_Presence cm"
  "p \<in> set (cm_pairs KindPresence cm) \<Longrightarrow> it_Serial (snd p) = p_Serial (un_presence (snd p))"
  by (auto simp: cm_pairs_def CMItems_def kind_defs comp_def)

lemma hist_pairs_presence:
  "map (un_presence \<circ> snd) (hist_pairs (presenceQuery fw c lim) cs) = log_presence (log_of cs)"
  "p \<in> set (hist_pairs (presenceQuery fw c lim) cs) \<Longrightarrow>
     it_Serial (snd p) = p_Serial (un_presence (snd p))"
  by (auto simp: hist_pairs_def map_concat comp_def cm_pairs_presence [unfolded comp_def]
      log_presence_def log_of_def)

lemma presencePage_spec:
  assumes "sorted_wrt (<) (cs_order cs)"
  shows "presencePage (g, cs) fw c lim = page_of p_Serial fw c lim (log_presence (log_of cs))"
proof -
  let ?q = "presenceQuery fw c lim"
  let ?ps = "if fw then hist_pairs ?q cs else rev (hist_pairs ?q cs)"
  let ?f = "un_presence \<circ> snd"
  let ?ys = "filter (\<lambda>p. \<not> skips fw c (it_Serial (snd p))) ?ps"
  have h: "History False ?q cs = Inr (scanPage (flatScan ?q ?ps zeroPage 0))" (is "_ = Inr ?page")
    using History_flat [OF assms, of ?q] by (simp add: kind_defs)
  have k: "\<forall>p \<in> set ?ps. of_kind KindPresence (snd p)"
    by (auto simp: hist_pairs_def intro: cm_pairs_kind)
  from scanPage_flat [OF k, of ?q 0 zeroPage]
  have p: "page_pairs KindPresence ?page = limited lim ?ys" "hp_HasMore ?page = cut_short lim ?ys"
    by (simp_all add: limited_def cut_short_def page_pairs_def zeroPage_def)
  have "map ?f ?ys = filter (\<lambda>p. \<not> skips fw c (p_Serial p)) (map ?f ?ps)"
    unfolding filter_map
    by (rule arg_cong [of _ _ "map ?f"], rule filter_cong) (auto split: if_splits dest: hist_pairs_presence(2))
  also have "map ?f ?ps = (if fw then log_presence (log_of cs) else rev (log_presence (log_of cs)))"
    by (simp add: hist_pairs_presence(1) rev_map [symmetric])
  finally have ys: "map ?f ?ys = filter (\<lambda>p. \<not> skips fw c (p_Serial p))
      (if fw then log_presence (log_of cs) else rev (log_presence (log_of cs)))" .
  have "concat (map cm_Presence (hp_ChannelMessages ?page)) = map ?f (page_pairs KindPresence ?page)"
    by (simp add: page_pairs_def map_concat comp_def cm_pairs_presence(1) [unfolded comp_def])
  also have "\<dots> = limited lim (map ?f ?ys)" by (simp add: p limited_def take_map)
  finally show ?thesis
    using p(2) by (simp add: presencePage_def h page_of_def Let_def ys [symmetric] cut_short_def)
qed

definition history_valid :: "store_state \<Rightarrow> bool" where
  "history_valid st \<longleftrightarrow> mem_inv st \<and> batches_ok (snd st)"

interpretation presence_history: cursor_paging history_valid
    "\<lambda>st. log_presence (log_of (snd st))" p_Serial presencePage
proof unfold_locales
  fix st :: store_state and fw c lim x
  assume v: "history_valid st"
  obtain g cs where st: "st = (g, cs)" by (cases st)
  have inv: "mem_inv (g, cs)" "batches_ok cs" using v by (simp_all add: history_valid_def st)
  show "presencePage st fw c lim = page_of p_Serial fw c lim (log_presence (log_of (snd st)))"
    using presencePage_spec [of cs] inv(1) by (simp add: st mem_inv_def order_inv_def)
  show "sorted_wrt (<) (map p_Serial (log_presence (log_of (snd st))))"
    using log_items_sorted(1) [OF inv] by (simp add: st)
  show "x \<in> set (log_presence (log_of (snd st))) \<Longrightarrow> p_Serial x \<noteq> []"
    using log_items_nonempty(1) [of cs x] inv(1) by (simp add: st mem_inv_def)
qed

section \<open>The paging contract on the collapsed message history\<close>

definition collapsedQuery :: "bool \<Rightarrow> string \<Rightarrow> int \<Rightarrow> HistoryQuery" where
  "collapsedQuery fw c lim = (pageQuery fw c lim)\<lparr>hq_Collapse := True\<rparr>"

definition collapsedPage :: "store_state \<Rightarrow> bool \<Rightarrow> string \<Rightarrow> int \<Rightarrow> Message list \<times> bool" where
  "collapsedPage st fw c lim =
     (case History False (collapsedQuery fw c lim) (snd st) of
        Inl _ \<Rightarrow> ([], False)
      | Inr page \<Rightarrow> (concat (map cm_Messages (hp_ChannelMessages page)), hp_HasMore page))"

text \<open>The specified listing: the latest version of every message, in order of identity.\<close>

definition all_latest :: "channelStore \<Rightarrow> Message list" where
  "all_latest cs = map (\<lambda>s. gget zeroMessage (cs_latest cs) s) (sort (map fst (cs_latest cs)))"

definition collapse_pair :: "channelStore \<Rightarrow> string \<Rightarrow> string \<times> HistItem" where
  "collapse_pair cs s = (let m = gget zeroMessage (cs_latest cs) s
     in (CreateChannelSerial (m_Serial m), ItemMessage m))"

lemma collapsedQuery_sel [simp]:
  "forwards (collapsedQuery fw c lim) = fw" "hq_Cursor (collapsedQuery fw c lim) = c"
  "hq_Limit (collapsedQuery fw c lim) = lim" "inBounds (collapsedQuery fw c lim) s"
  "hq_Collapse (collapsedQuery fw c lim)" "hq_Kind (collapsedQuery fw c lim) = []"
  by (simp_all add: collapsedQuery_def pageQuery_def forwards_def zeroQuery_def inBounds_def
      TimestampBounds_def)

lemma collapseScan_flat:
  assumes "\<forall>s \<in> set ss. m_Serial (gget zeroMessage (cs_latest cs) s) = s" "\<And>s. inBounds q s"
  shows "collapseScan q cs ss page count = flatScan q (map (collapse_pair cs) ss) page count"
  using assms(1)
proof (induction ss arbitrary: page count)
  case (Cons s ss)
  then show ?case
    using assms(2) by (simp add: skips_if collapse_pair_def Let_def split: sum.split)
qed simp

lemma latest_serial:
  assumes "mem_inv (g, cs)" "s \<in> set (map fst (cs_latest cs))"
  shows "m_Serial (gget zeroMessage (cs_latest cs) s) = s" "s \<noteq> []"
proof -
  obtain m where m: "map_of (cs_latest cs) s = Some m"
    using assms(2) by (cases "map_of (cs_latest cs) s") (auto simp: map_of_eq_None_iff)
  have d: "derived_inv cs" "log_inv cs" using assms(1) by (simp_all add: mem_inv_def)
  show "m_Serial (gget zeroMessage (cs_latest cs) s) = s"
    using latest_version_facts(2) [OF d m] by (simp add: gget_def m)
  show "s \<noteq> []" using latest_version_facts(4) [OF d m] by auto
qed

lemma all_latest_mem: "m \<in> set (all_latest cs) \<longleftrightarrow> (\<exists>x. map_of (cs_latest cs) x = Some m)"
proof -
  have "x \<in> fst ` set (cs_latest cs) \<longleftrightarrow> (\<exists>m. map_of (cs_latest cs) x = Some m)" for x
    by (metis map_of_eq_None_iff not_Some_eq)
  then show ?thesis by (force simp: all_latest_def gget_def image_iff)
qed

lemma all_latest_keys:
  assumes "mem_inv (g, cs)"
  shows "map m_Serial (all_latest cs) = sort (map fst (cs_latest cs))"
  using latest_serial(1) [OF assms] by (auto simp: all_latest_def intro!: map_idI)

fun un_message :: "HistItem \<Rightarrow> Message" where
  "un_message (ItemMessage m) = m"
| "un_message _ = zeroMessage"

lemma page_messages:
  "concat (map cm_Messages (hp_ChannelMessages page)) =
     map (un_message \<circ> snd) (page_pairs KindMessage page)"
proof -
  have "map (un_message \<circ> snd) (cm_pairs KindMessage cm) = cm_Messages cm" for cm
    by (simp add: cm_pairs_def CMItems_def kind_defs comp_def)
  then show ?thesis by (simp add: page_pairs_def map_concat comp_def)
qed

lemma collapsedPage_spec:
  assumes "mem_inv (g, cs)"
  shows "collapsedPage (g, cs) fw c lim = page_of m_Serial fw c lim (all_latest cs)"
proof -
  let ?q = "collapsedQuery fw c lim"
  let ?ids = "sort (map fst (cs_latest cs))"
  let ?ss = "if fw then ?ids else rev ?ids"
  let ?ps = "map (collapse_pair cs) ?ss"
  let ?m = "\<lambda>s. gget zeroMessage (cs_latest cs) s"
  let ?ys = "filter (\<lambda>s. \<not> skips fw c s) ?ss"
  let ?zs = "filter (\<lambda>m. \<not> skips fw c (m_Serial m)) (if fw then all_latest cs else rev (all_latest cs))"
  have ser: "\<forall>s \<in> set ?ss. m_Serial (?m s) = s" using latest_serial(1) [OF assms] by auto
  have h: "History False ?q cs = Inr (scanPage (flatScan ?q ?ps zeroPage 0))" (is "_ = Inr ?page")
    using collapseScan_flat [OF ser, of ?q zeroPage 0]
    by (simp add: History_def collapsedHistory_def Let_def kind_defs)
  have k: "\<forall>p \<in> set ?ps. of_kind KindMessage (snd p)"
    by (auto simp: collapse_pair_def of_kind_def kind_defs Let_def)
  have f: "filter (\<lambda>p. \<not> skips fw c (it_Serial (snd p))) ?ps = map (collapse_pair cs) ?ys"
    unfolding filter_map by (rule arg_cong [of _ _ "map (collapse_pair cs)"], rule filter_cong)
      (use ser in \<open>auto simp: collapse_pair_def Let_def\<close>)
  from scanPage_flat [OF k, of ?q 0 zeroPage] f
  have p: "page_pairs KindMessage ?page = limited lim (map (collapse_pair cs) ?ys)"
    "hp_HasMore ?page = cut_short lim ?ys"
    by (simp_all add: limited_def cut_short_def page_pairs_def zeroPage_def)
  have "map ?m ?ys = filter (\<lambda>m. \<not> skips fw c (m_Serial m)) (map ?m ?ss)"
    unfolding filter_map by (rule arg_cong [of _ _ "map ?m"], rule filter_cong) (use ser in auto)
  also have "map ?m ?ss = (if fw then all_latest cs else rev (all_latest cs))"
    by (simp add: all_latest_def rev_map)
  finally have e: "map ?m ?ys = ?zs" .
  have "concat (map cm_Messages (hp_ChannelMessages ?page)) =
      map (un_message \<circ> snd) (page_pairs KindMessage ?page)"
    by (rule page_messages)
  also have "\<dots> = limited lim (map ?m ?ys)"
    by (simp add: p limited_def take_map collapse_pair_def Let_def comp_def)
  also note e
  finally have l: "concat (map cm_Messages (hp_ChannelMessages ?page)) = limited lim ?zs" .
  have "length ?ys = length ?zs" using arg_cong [OF e, of length] by simp
  then show ?thesis
    using p(2) l by (simp add: collapsedPage_def h page_of_def Let_def cut_short_def)
qed

interpretation message_history: cursor_paging mem_inv "\<lambda>st. all_latest (snd st)" m_Serial collapsedPage
proof unfold_locales
  fix st :: store_state and fw c lim x
  assume v: "mem_inv st"
  obtain g cs where st: "st = (g, cs)" by (cases st)
  have inv: "mem_inv (g, cs)" using v by (simp add: st)
  show "collapsedPage st fw c lim = page_of m_Serial fw c lim (all_latest (snd st))"
    using collapsedPage_spec [OF inv] by (simp add: st)
  have "distinct (map fst (cs_latest cs))" using inv by (simp add: mem_inv_def derived_inv_def)
  then show "sorted_wrt (<) (map m_Serial (all_latest (snd st)))"
    by (simp add: st all_latest_keys [OF inv] strict_sorted_iff)
  show "x \<in> set (all_latest (snd st)) \<Longrightarrow> m_Serial x \<noteq> []"
    using latest_serial [OF inv] by (auto simp: st all_latest_def)
qed

section \<open>Version and annotation reads\<close>

definition readVersions :: "channelStore \<Rightarrow> string \<Rightarrow> bool \<Rightarrow> string \<Rightarrow> int \<Rightarrow> Message list \<times> bool" where
  "readVersions cs x fw c lim =
     (case Versions False x (pageQuery fw c lim) cs of
        Inl _ \<Rightarrow> ([], False)
      | Inr page \<Rightarrow> (map (hd \<circ> cm_Messages) (hp_ChannelMessages page), hp_HasMore page))"

definition readAnnotations :: "channelStore \<Rightarrow> string \<Rightarrow> bool \<Rightarrow> string \<Rightarrow> int \<Rightarrow> Annotation list \<times> bool" where
  "readAnnotations cs x fw c lim =
     (case Annotations False x (pageQuery fw c lim) cs of
        Inl _ \<Rightarrow> ([], False)
      | Inr page \<Rightarrow> (map (hd \<circ> cm_Annotations) (hp_ChannelMessages page), hp_HasMore page))"

lemma keyed_filter: "sorted_wrt (<) (map key xs) \<Longrightarrow> sorted_wrt (<) (map key (filter P xs))"
  by (simp add: sorted_wrt_map sorted_wrt_filter)

lemma versions_keyed:
  assumes "mem_inv (g, cs)" "batches_ok cs"
  shows "keyed VersionSerial (CollapseAppendVersions (log_versions (log_of cs) x))"
proof -
  have "sorted_wrt (<) (map VersionSerial (log_versions (log_of cs) x))"
    unfolding log_versions_def using log_items_sorted(3) [OF assms] by (rule keyed_filter)
  then have "sorted_wrt (<) (map VersionSerial (CollapseAppendVersions (log_versions (log_of cs) x)))"
    using Collapse_sorted by (simp add: sorted_wrt_map)
  moreover have "set (CollapseAppendVersions (log_versions (log_of cs) x)) \<subseteq> set (log_messages (log_of cs))"
    using Collapse_subseq [of "log_versions (log_of cs) x"]
    by (auto simp: log_versions_def elim!: list_emb_set)
  moreover have "\<forall>m \<in> set (log_messages (log_of cs)). VersionSerial m \<noteq> []"
    using log_items_nonempty(3) [of cs] assms(1) by (simp add: mem_inv_def)
  ultimately show ?thesis unfolding keyed_def by blast
qed

lemma annotations_keyed:
  assumes "mem_inv (g, cs)" "batches_ok cs"
  shows "keyed a_Serial (log_annotations (log_of cs) x)"
proof -
  have "sorted_wrt (<) (map a_Serial (log_annotations (log_of cs) x))"
    unfolding log_annotations_def using log_items_sorted(2) [OF assms] by (rule keyed_filter)
  moreover have "\<forall>a \<in> set (log_anns (log_of cs)). a_Serial a \<noteq> []"
    using log_items_nonempty(2) [of cs] assms(1) by (simp add: mem_inv_def)
  ultimately show ?thesis by (simp add: keyed_def log_annotations_def)
qed

section \<open>Properties\<close>

text \<open>A raw history read returns exactly the specified items: those of the requested kind in
  the ChannelMessages whose serial is inside the time range, after \<open>AfterChannelSerial\<close> and at
  most \<open>EndChannelSerial\<close>, beyond the cursor, in scan direction, cut at the limit, each listed
  under its own channelSerial; \<open>HasMore\<close> is set iff the limit cut something off.\<close>

theorem history_scan_exact:
  assumes "reachable series s" "map_of (ms_channels s) name = Some cs"
    and "\<not> (hq_Collapse q \<and> Normalize (hq_Kind q) = KindMessage)"
  defines "ys \<equiv> filter (\<lambda>p. \<not> skips (forwards q) (hq_Cursor q) (it_Serial (snd p)))
      (if forwards q then hist_pairs q cs else rev (hist_pairs q cs))"
  shows "\<exists>page. History False q cs = Inr page \<and>
    page_pairs (hq_Kind q) page = limited (hq_Limit q) ys \<and>
    (hp_HasMore page \<longleftrightarrow> cut_short (hq_Limit q) ys)"
proof -
  have "sorted_wrt (<) (cs_order cs)"
    using reachable_inv [OF assms(1,2)] by (simp add: mem_inv_def order_inv_def)
  note h = History_flat [OF this assms(3)]
  have "\<forall>p \<in> set (if forwards q then hist_pairs q cs else rev (hist_pairs q cs)).
      of_kind (hq_Kind q) (snd p)"
    by (auto simp: hist_pairs_def intro: cm_pairs_kind)
  from scanPage_flat [OF this, of q 0 zeroPage] h show ?thesis
    by (simp add: ys_def limited_def cut_short_def page_pairs_def zeroPage_def)
qed

theorem history_scan_exact_witness:
  "\<exists>page. History False (zeroQuery\<lparr>hq_Kind := KindPresence\<rparr>) (demo_cs demo2) = Inr page \<and>
     length (page_pairs KindPresence page) = 1"
proof -
  let ?q = "zeroQuery\<lparr>hq_Kind := KindPresence\<rparr>"
  have k: "\<not> (hq_Collapse ?q \<and> Normalize (hq_Kind ?q) = KindMessage)" by (simp add: zeroQuery_def)
  have l: "length (rev (hist_pairs ?q (demo_cs demo2))) = 1" by code_simp
  from history_scan_exact [OF demo_reachable(2) demo_channel(2) k] l show ?thesis
    by (auto simp: zeroQuery_def forwards_def skips_def limited_def)
qed

text \<open>Paging through the message history shows every message exactly once: a client that
  follows the next links from the first page, in either direction and with any page size, gets
  the latest version of every message of the channel, in order of creation (or its reverse),
  and then the links end.\<close>

theorem message_history_pages_complete:
  assumes "reachable series s" "map_of (ms_channels s) name = Some cs" "lim > 0"
    and "length (cs_latest cs) < n"
  shows "follow (\<lambda>c. collapsedPage (ms_gen s, cs) True c lim) m_Serial n [] = Some (all_latest cs) \<and>
    follow (\<lambda>c. collapsedPage (ms_gen s, cs) False c lim) m_Serial n [] = Some (rev (all_latest cs)) \<and>
    sorted_wrt (<) (map m_Serial (all_latest cs)) \<and>
    (\<forall>m. m \<in> set (all_latest cs) \<longleftrightarrow> (\<exists>x. log_latest (log_of cs) x = Some m))"
proof -
  have inv: "mem_inv (ms_gen s, cs)" by (rule reachable_inv [OF assms(1,2)])
  have l: "length (all_latest (snd (ms_gen s, cs))) < n" using assms(4) by (simp add: all_latest_def)
  show ?thesis
    using message_history.follow_all [OF inv assms(3) l] message_history.items_sorted [OF inv] inv
    by (simp add: all_latest_mem mem_inv_def derived_inv_def)
qed

theorem message_history_pages_complete_witness:
  "follow (\<lambda>c. collapsedPage (ms_gen demo2, demo_cs demo2) True c 1) m_Serial 2 [] =
     Some (all_latest (demo_cs demo2))"
proof -
  have "length (cs_latest (demo_cs demo2)) < 2" by code_simp
  with message_history_pages_complete [OF demo_reachable(2) demo_channel(2), of 1 2] show ?thesis by simp
qed

text \<open>Paging through the presence history shows every logged presence event exactly once and
  in log order, or its reverse, provided no batch has more than a thousand events.\<close>

theorem presence_history_pages_complete:
  assumes "reachable series s" "map_of (ms_channels s) name = Some cs" "batches_ok cs"
    and "lim > 0" "length (log_presence (log_of cs)) < n"
  shows "follow (\<lambda>c. presencePage (ms_gen s, cs) True c lim) p_Serial n [] =
      Some (log_presence (log_of cs)) \<and>
    follow (\<lambda>c. presencePage (ms_gen s, cs) False c lim) p_Serial n [] =
      Some (rev (log_presence (log_of cs)))"
proof -
  have v: "history_valid (ms_gen s, cs)"
    using reachable_inv [OF assms(1,2)] assms(3) by (simp add: history_valid_def)
  show ?thesis using presence_history.follow_all [OF v assms(4)] assms(5) by simp
qed

theorem presence_history_pages_complete_witness:
  "follow (\<lambda>c. presencePage (ms_gen demo2, demo_cs demo2) True c 1) p_Serial 2 [] =
     Some (log_presence (log_of (demo_cs demo2)))"
proof -
  have "batches_ok (demo_cs demo2)" "length (log_presence (log_of (demo_cs demo2))) < 2" by code_simp+
  with presence_history_pages_complete [OF demo_reachable(2) demo_channel(2), of 1 2] show ?thesis by simp
qed

text \<open>Paging through the versions of a message shows every version once, oldest first or
  newest first, with each run of appends collapsed to its last aggregate; paging through its
  annotations shows every annotation once in log order.\<close>

theorem version_and_annotation_pages_complete:
  assumes "reachable series s" "map_of (ms_channels s) name = Some cs" "batches_ok cs"
    and "log_versions (log_of cs) x \<noteq> []" "lim > 0"
    and "length (log_versions (log_of cs) x) < n" "length (log_annotations (log_of cs) x) < n"
  shows "follow (\<lambda>c. readVersions cs x True c lim) VersionSerial n [] =
      Some (CollapseAppendVersions (log_versions (log_of cs) x)) \<and>
    follow (\<lambda>c. readVersions cs x False c lim) VersionSerial n [] =
      Some (rev (CollapseAppendVersions (log_versions (log_of cs) x))) \<and>
    follow (\<lambda>c. readAnnotations cs x True c lim) a_Serial n [] =
      Some (log_annotations (log_of cs) x)"
proof -
  have inv: "mem_inv (ms_gen s, cs)" by (rule reachable_inv [OF assms(1,2)])
  let ?vs = "CollapseAppendVersions (log_versions (log_of cs) x)"
  have v: "(\<lambda>c. readVersions cs x fw c lim) = (\<lambda>c. versionsPage ?vs fw c lim)" for fw
    using inv assms(4) by (simp add: readVersions_def Versions_def versionsPage_def Let_def
        mem_inv_def derived_inv_def)
  have a: "(\<lambda>c. readAnnotations cs x True c lim) =
      (\<lambda>c. annotationsPage (log_annotations (log_of cs) x) True c lim)"
    using inv by (simp add: readAnnotations_def Annotations_def annotationsPage_def Let_def
        mem_inv_def derived_inv_def)
  have "length ?vs < n" using assms(6) list_emb_length [OF Collapse_subseq] by (meson le_less_trans)
  then show ?thesis
    unfolding v a using versions_paging.follow_all [OF versions_keyed [OF inv assms(3)] assms(5)]
      annotations_paging.follow_all [OF annotations_keyed [OF inv assms(3)] assms(5,7)] by simp
qed

theorem version_and_annotation_pages_complete_witness:
  "follow (\<lambda>c. readVersions (demo_cs demo2) demo_target True c 1) VersionSerial 2 [] =
     Some (CollapseAppendVersions (log_versions (log_of (demo_cs demo2)) demo_target))"
proof -
  have "batches_ok (demo_cs demo2)" "log_versions (log_of (demo_cs demo2)) demo_target \<noteq> []"
    "length (log_versions (log_of (demo_cs demo2)) demo_target) < 2"
    "length (log_annotations (log_of (demo_cs demo2)) demo_target) < 2" by code_simp+
  with version_and_annotation_pages_complete [OF demo_reachable(2) demo_channel(2), of demo_target 1 2]
  show ?thesis by simp
qed

end
