(* ===== verification/Bolt.thy ===== *)
theory Bolt
  imports MemoryStore
begin

text \<open>
  Package \<open>internal/storage/bbolt\<close>: the on-disk backend. The key-value library and the msgpack
  codec are parameters, a record of functions: a bucket is a value of an unknown type with
  \<open>Get\<close>, \<open>Put\<close> (which may fail) and the cursor moves, a moved cursor being the key it stands on; a blob
  is a value of an unknown type with its encoders and decoders. A write transaction runs on the
  buckets and is committed as a whole or not at all; minting inside it is not undone.
\<close>

section \<open>The libraries\<close>

record ('b, 'v) boltlib =
  bl_Get :: "'b \<Rightarrow> string \<Rightarrow> 'v option"
  bl_Put :: "string \<Rightarrow> 'v \<Rightarrow> 'b \<Rightarrow> 'b option"
  bl_Seek :: "'b \<Rightarrow> string \<Rightarrow> (string \<times> 'v) option"
  bl_Next :: "'b \<Rightarrow> string \<Rightarrow> (string \<times> 'v) option"
  bl_Prev :: "'b \<Rightarrow> string \<Rightarrow> (string \<times> 'v) option"
  bl_Last :: "'b \<Rightarrow> (string \<times> 'v) option"
  bl_bytes :: "string \<Rightarrow> 'v"
  bl_string :: "'v \<Rightarrow> string"
  bl_encCM :: "ChannelMessage \<Rightarrow> 'v option"
  bl_decCM :: "'v \<Rightarrow> ChannelMessage option"
  bl_encMsg :: "Message \<Rightarrow> 'v option"
  bl_decMsg :: "'v \<Rightarrow> Message option"
  bl_encAnn :: "Annotation \<Rightarrow> 'v option"
  bl_decAnn :: "'v \<Rightarrow> Annotation option"

record 'b boltDB =
  db_messages :: 'b
  db_ids :: 'b
  db_initials :: 'b
  db_latest :: 'b
  db_versions :: 'b
  db_annotations :: 'b

text \<open>The errors of \<open>storage.go\<close> and those of a library call or of a broken file.\<close>

datatype bolt_error =
    BoltErr storage_error
  | ErrBoltPut
  | ErrBoltEncode
  | ErrBoltDecode
  | ErrBoltMissing
  | ErrBoltCommit
  | ErrBoltPath
  | ErrBoltFile

record boltChannel =
  bc_appender :: "Channel option"
  bc_members :: "(string, PresenceMessage) gomap"

record 'b boltStorage =
  bs_db :: "'b boltDB"
  bs_gen :: Generator
  bs_channels :: "(string, boltChannel) gomap"

text \<open>One channel at work: the file, the generator and the channel's own state.\<close>

type_synonym 'b bolt_state = "'b boltDB \<times> Generator \<times> boltChannel"

type_synonym bolt_result = "bolt_error + (ChannelMessage \<times> bool)"

section \<open>Keys\<close>

definition keySep :: char where "keySep = CHR 0x00"

definition channelKey :: "string \<Rightarrow> string \<Rightarrow> string" where
  "channelKey channel rest = channel @ keySep # rest"

definition channelPrefix :: "string \<Rightarrow> string" where
  "channelPrefix channel = channel @ [keySep]"

definition versionKey :: "string \<Rightarrow> string \<Rightarrow> string \<Rightarrow> string" where
  "versionKey channel identity versionSerial = channel @ keySep # identity @ keySep # versionSerial"

definition versionPrefix :: "string \<Rightarrow> string \<Rightarrow> string" where
  "versionPrefix channel identity = channel @ keySep # identity @ [keySep]"

definition annotationKey :: "string \<Rightarrow> string \<Rightarrow> string \<Rightarrow> string" where
  "annotationKey channel target annotationSerial = versionKey channel target annotationSerial"

definition annotationPrefix :: "string \<Rightarrow> string \<Rightarrow> string" where
  "annotationPrefix channel target = versionPrefix channel target"

text \<open>\<open>out[len(out)-1]++\<close> on a byte.\<close>

definition nextPrefix :: "string \<Rightarrow> string" where
  "nextPrefix p = butlast p @ [char_of (of_char (last p) + 1 :: nat)]"

definition has_prefix :: "string \<Rightarrow> string \<Rightarrow> bool" where
  "has_prefix k p \<longleftrightarrow> take (length p) k = p"

section \<open>Transactions\<close>

definition tryE :: "'e + 'a \<Rightarrow> ('a \<Rightarrow> 'e + 'c) \<Rightarrow> 'e + 'c" where
  "tryE x f = (case x of Inl e \<Rightarrow> Inl e | Inr a \<Rightarrow> f a)"

definition orE :: "'e \<Rightarrow> 'a option \<Rightarrow> 'e + 'a" where
  "orE e x = (case x of None \<Rightarrow> Inl e | Some a \<Rightarrow> Inr a)"

fun foldE :: "('s \<Rightarrow> 'a \<Rightarrow> 'e + 's) \<Rightarrow> 's \<Rightarrow> 'a list \<Rightarrow> 'e + 's" where
  "foldE f s [] = Inr s"
| "foldE f s (x # xs) = tryE (f s x) (\<lambda>s'. foldE f s' xs)"

fun mapE :: "('a \<Rightarrow> 'e + 'c) \<Rightarrow> 'a list \<Rightarrow> 'e + 'c list" where
  "mapE f [] = Inr []"
| "mapE f (x # xs) = tryE (f x) (\<lambda>y. tryE (mapE f xs) (\<lambda>ys. Inr (y # ys)))"

text \<open>\<open>db.Update\<close>: the buckets change only when the function and the commit succeed.\<close>

definition dbUpdate :: "bool \<Rightarrow> ('b boltDB \<Rightarrow> Generator \<Rightarrow> Generator \<times> (bolt_error + ('b boltDB \<times> 'r))) \<Rightarrow>
    'b boltDB \<Rightarrow> Generator \<Rightarrow> 'b boltDB \<times> Generator \<times> (bolt_error + 'r)" where
  "dbUpdate commitErr tx db g =
     (case tx db g of
        (g', Inl e) \<Rightarrow> (db, g', Inl e)
      | (g', Inr (db', r)) \<Rightarrow> if commitErr then (db, g', Inl ErrBoltCommit) else (db', g', Inr r))"

text \<open>A cursor that walks from where it stands while its keys pass the test. \<open>None\<close> is a walk that
  does not end.\<close>

partial_function (option) walk :: "(string \<Rightarrow> (string \<times> 'v) option) \<Rightarrow> (string \<Rightarrow> bool) \<Rightarrow>
    (string \<times> 'v) option \<Rightarrow> (string \<times> 'v) list option" where
  [code]: "walk move go p =
     (case p of
        None \<Rightarrow> Some []
      | Some (k, v) \<Rightarrow>
          if go k then Option.bind (walk move go (move k)) (\<lambda>kvs. Some ((k, v) # kvs)) else Some [])"

text \<open>\<open>Seek\<close> past the range and step back: \<open>Last\<close> when nothing follows, \<open>Prev\<close> otherwise.\<close>

definition seekBefore :: "('b, 'v) boltlib \<Rightarrow> 'b \<Rightarrow> string \<Rightarrow> (string \<times> 'v) option" where
  "seekBefore L b upper =
     (case bl_Seek L b upper of None \<Rightarrow> bl_Last L b | Some (k, _) \<Rightarrow> bl_Prev L b k)"

definition walkPrefix :: "('b, 'v) boltlib \<Rightarrow> 'b \<Rightarrow> string \<Rightarrow> (string \<times> 'v) list option" where
  "walkPrefix L b p = walk (bl_Next L b) (\<lambda>k. has_prefix k p) (bl_Seek L b p)"

section \<open>Writes\<close>

text \<open>The idempotency loop: the logged original of the first non-empty id already indexed.\<close>

fun boltSeen :: "('b, 'v) boltlib \<Rightarrow> string \<Rightarrow> 'b boltDB \<Rightarrow> string list \<Rightarrow> bolt_error + ChannelMessage option" where
  "boltSeen L name db [] = Inr None"
| "boltSeen L name db (i # is) =
     (if i = [] then boltSeen L name db is
      else case bl_Get L (db_ids db) (channelKey name i) of
             None \<Rightarrow> boltSeen L name db is
           | Some existing \<Rightarrow>
               tryE (orE ErrBoltMissing (bl_Get L (db_messages db) (channelKey name (bl_string L existing)))) (\<lambda>blob.
               tryE (orE ErrBoltDecode (bl_decCM L blob)) (\<lambda>cm. Inr (Some cm))))"

definition putCM :: "('b, 'v) boltlib \<Rightarrow> string \<Rightarrow> ChannelMessage \<Rightarrow> 'b boltDB \<Rightarrow> bolt_error + 'b boltDB" where
  "putCM L name cm db =
     tryE (orE ErrBoltEncode (bl_encCM L cm)) (\<lambda>blob.
     tryE (orE ErrBoltPut (bl_Put L (channelKey name (cm_ChannelSerial cm)) blob (db_messages db))) (\<lambda>b.
     Inr (db\<lparr>db_messages := b\<rparr>)))"

definition putID :: "('b, 'v) boltlib \<Rightarrow> string \<Rightarrow> string \<Rightarrow> string \<Rightarrow> 'b boltDB \<Rightarrow> bolt_error + 'b boltDB" where
  "putID L name channelSerial i db =
     (if i = [] then Inr db
      else tryE (orE ErrBoltPut (bl_Put L (channelKey name i) (bl_bytes L channelSerial) (db_ids db))) (\<lambda>b.
           Inr (db\<lparr>db_ids := b\<rparr>)))"

definition putVersion :: "('b, 'v) boltlib \<Rightarrow> string \<Rightarrow> Message \<Rightarrow> 'b boltDB \<Rightarrow> bolt_error + 'b boltDB" where
  "putVersion L name m db =
     tryE (orE ErrBoltEncode (bl_encMsg L m)) (\<lambda>blob.
     tryE (orE ErrBoltPut (bl_Put L (channelKey name (m_Serial m)) blob (db_latest db))) (\<lambda>b1.
     tryE (orE ErrBoltPut (bl_Put L (versionKey name (m_Serial m) (VersionSerial m)) blob (db_versions db))) (\<lambda>b2.
     Inr (db\<lparr>db_latest := b1, db_versions := b2\<rparr>))))"

text \<open>After the transaction: a fresh ChannelMessage is handed to the appender.\<close>

definition boltDeliver :: "bolt_result \<Rightarrow> boltChannel \<Rightarrow> boltChannel" where
  "boltDeliver r bc = (case r of
     Inr (cm, False) \<Rightarrow> bc\<lparr>bc_appender := map_option (Append cm) (bc_appender bc)\<rparr>
   | _ \<Rightarrow> bc)"

definition boltStoreTx :: "('b, 'v) boltlib \<Rightarrow> string \<Rightarrow> int \<Rightarrow> string \<Rightarrow> Message list \<Rightarrow> 'b boltDB \<Rightarrow> Generator \<Rightarrow>
    Generator \<times> (bolt_error + ('b boltDB \<times> ChannelMessage \<times> bool))" where
  "boltStoreTx L name now batch msgs db g =
     (case boltSeen L name db (map m_ID msgs) of
        Inl e \<Rightarrow> (g, Inl e)
      | Inr (Some original) \<Rightarrow> (g, Inr (db, original, True))
      | Inr None \<Rightarrow>
         (case Mint now g of (channelSerial, g') \<Rightarrow>
            let msgs2 = stampCreates channelSerial 0 msgs;
                cm = zeroChannelMessage\<lparr>cm_ID := batch, cm_ChannelSerial := channelSerial, cm_Messages := msgs2\<rparr>
            in (g', tryE (putCM L name cm db) (\<lambda>db1.
                    tryE (foldE (\<lambda>d m. tryE (putID L name channelSerial (m_ID m) d) (putVersion L name m)) db1 msgs2) (\<lambda>db2.
                    Inr (db2, cm, False))))))"

definition boltStore :: "('b, 'v) boltlib \<Rightarrow> bool \<Rightarrow> bool \<Rightarrow> int \<Rightarrow> string \<Rightarrow> string \<Rightarrow> Message list \<Rightarrow> 'b bolt_state \<Rightarrow>
    'b bolt_state \<times> bolt_result" where
  "boltStore L ctxErr commitErr now fresh name msgs st =
     (case st of (db, g, bc) \<Rightarrow>
        if msgs = [] then (st, Inl (BoltErr ErrNoItems))
        else if ctxErr then (st, Inl (BoltErr ErrCtx))
        else case StampMessageIDs fresh msgs of
          Inl e \<Rightarrow> (st, Inl (BoltErr e))
        | Inr (batch, msgs1) \<Rightarrow>
           (case dbUpdate commitErr (boltStoreTx L name now batch msgs1) db g of (db', g', r) \<Rightarrow>
              ((db', g', boltDeliver r bc), r)))"

definition boltMutateTx :: "('b, 'v) boltlib \<Rightarrow> string \<Rightarrow> int \<Rightarrow> Message \<Rightarrow> 'b boltDB \<Rightarrow> Generator \<Rightarrow>
    Generator \<times> (bolt_error + ('b boltDB \<times> ChannelMessage \<times> bool))" where
  "boltMutateTx L name now mut db g =
     (case boltSeen L name db [m_ID mut] of
        Inl e \<Rightarrow> (g, Inl e)
      | Inr (Some original) \<Rightarrow> (g, Inr (db, original, True))
      | Inr None \<Rightarrow>
         (case bl_Get L (db_latest db) (channelKey name (m_Serial mut)) of
            None \<Rightarrow> (g, Inl (BoltErr ErrTargetNotFound))
          | Some curBlob \<Rightarrow>
             (case bl_decMsg L curBlob of
                None \<Rightarrow> (g, Inl ErrBoltDecode)
              | Some current \<Rightarrow>
                 (case Mint now g of (channelSerial, g') \<Rightarrow>
                    (case MergeVersion current mut (MessageSerial channelSerial 0) of
                       Inl e \<Rightarrow> (g', Inl (BoltErr e))
                     | Inr version \<Rightarrow>
                         let cm = zeroChannelMessage\<lparr>cm_ChannelSerial := channelSerial, cm_Messages := [version]\<rparr>
                         in (g', tryE (putCM L name cm db) (\<lambda>db1.
                                 tryE (putID L name channelSerial (m_ID mut) db1) (\<lambda>db2.
                                 tryE (putVersion L name version db2) (\<lambda>db3. Inr (db3, cm, False)))))))))) "

definition boltMutate :: "('b, 'v) boltlib \<Rightarrow> bool \<Rightarrow> bool \<Rightarrow> int \<Rightarrow> string \<Rightarrow> Message \<Rightarrow> 'b bolt_state \<Rightarrow>
    'b bolt_state \<times> bolt_result" where
  "boltMutate L ctxErr commitErr now name mut st =
     (case st of (db, g, bc) \<Rightarrow>
        if \<not> IsMutation (m_Action mut) then (st, Inl (BoltErr ErrNotMutation))
        else if m_Serial mut = [] then (st, Inl (BoltErr ErrNoTarget))
        else if ctxErr then (st, Inl (BoltErr ErrCtx))
        else (case dbUpdate commitErr (boltMutateTx L name now mut) db g of (db', g', r) \<Rightarrow>
           ((db', g', boltDeliver r bc), r)))"

text \<open>The fold of one annotation into its target, and of a batch; the annotation is given its
  serial first.\<close>

definition foldSummaryTx :: "('b, 'v) boltlib \<Rightarrow> string \<Rightarrow> Annotation \<Rightarrow> 'b \<Rightarrow> bolt_error + ('b \<times> Annotation)" where
  "foldSummaryTx L name a latest =
     (case bl_Get L latest (channelKey name (a_MessageSerial a)) of
        None \<Rightarrow> Inr (latest, a)
      | Some blob \<Rightarrow>
          tryE (orE ErrBoltDecode (bl_decMsg L blob)) (\<lambda>m.
            let folded = Apply (m_Summary m) a
            in tryE (orE ErrBoltEncode (bl_encMsg L (m\<lparr>m_Summary := folded\<rparr>))) (\<lambda>updated.
               tryE (orE ErrBoltPut (bl_Put L (channelKey name (a_MessageSerial a)) updated latest)) (\<lambda>latest'.
               Inr (latest', a\<lparr>a_Summary := folded\<rparr>)))))"

fun foldAllTx :: "('b, 'v) boltlib \<Rightarrow> string \<Rightarrow> string \<Rightarrow> nat \<Rightarrow> Annotation list \<Rightarrow> 'b \<Rightarrow> bolt_error + ('b \<times> Annotation list)" where
  "foldAllTx L name channelSerial i [] latest = Inr (latest, [])"
| "foldAllTx L name channelSerial i (a # as) latest =
     tryE (foldSummaryTx L name (a\<lparr>a_Serial := MessageSerial channelSerial (int i)\<rparr>) latest) (\<lambda>(latest1, a1).
     tryE (foldAllTx L name channelSerial (Suc i) as latest1) (\<lambda>(latest2, as1). Inr (latest2, a1 # as1)))"

definition putAnnotation :: "('b, 'v) boltlib \<Rightarrow> string \<Rightarrow> string \<Rightarrow> 'b boltDB \<Rightarrow> Annotation \<Rightarrow> bolt_error + 'b boltDB" where
  "putAnnotation L name channelSerial db a =
     tryE (putID L name channelSerial (a_ID a) db) (\<lambda>db1.
     tryE (orE ErrBoltEncode (bl_encAnn L a)) (\<lambda>blob.
     tryE (orE ErrBoltPut (bl_Put L (annotationKey name (a_MessageSerial a) (a_Serial a)) blob (db_annotations db1))) (\<lambda>b.
     Inr (db1\<lparr>db_annotations := b\<rparr>))))"

definition boltAnnotationTx :: "('b, 'v) boltlib \<Rightarrow> string \<Rightarrow> int \<Rightarrow> Annotation list \<Rightarrow> 'b boltDB \<Rightarrow> Generator \<Rightarrow>
    Generator \<times> (bolt_error + ('b boltDB \<times> ChannelMessage \<times> bool))" where
  "boltAnnotationTx L name now anns db g =
     (case boltSeen L name db (map a_ID anns) of
        Inl e \<Rightarrow> (g, Inl e)
      | Inr (Some original) \<Rightarrow> (g, Inr (db, original, True))
      | Inr None \<Rightarrow>
         if list_ex (\<lambda>a. bl_Get L (db_latest db) (channelKey name (a_MessageSerial a)) = None) anns
         then (g, Inl (BoltErr ErrTargetNotFound))
         else (case Mint now g of (channelSerial, g') \<Rightarrow>
            (g', tryE (foldAllTx L name channelSerial 0 anns (db_latest db)) (\<lambda>(latest, anns1).
                 let cm = zeroChannelMessage\<lparr>cm_ChannelSerial := channelSerial, cm_Annotations := anns1\<rparr>
                 in tryE (putCM L name cm (db\<lparr>db_latest := latest\<rparr>)) (\<lambda>db1.
                    tryE (foldE (putAnnotation L name channelSerial) db1 anns1) (\<lambda>db2.
                    Inr (db2, cm, False)))))))"

definition boltStoreAnnotation :: "('b, 'v) boltlib \<Rightarrow> bool \<Rightarrow> bool \<Rightarrow> int \<Rightarrow> string \<Rightarrow> Annotation list \<Rightarrow> 'b bolt_state \<Rightarrow>
    'b bolt_state \<times> bolt_result" where
  "boltStoreAnnotation L ctxErr commitErr now name anns st =
     (case st of (db, g, bc) \<Rightarrow>
        if anns = [] then (st, Inl (BoltErr ErrNoItems))
        else if ctxErr then (st, Inl (BoltErr ErrCtx))
        else (case dbUpdate commitErr (boltAnnotationTx L name now anns) db g of (db', g', r) \<Rightarrow>
           ((db', g', boltDeliver r bc), r)))"

definition boltPresenceTx :: "('b, 'v) boltlib \<Rightarrow> string \<Rightarrow> int \<Rightarrow> PresenceMessage list \<Rightarrow> 'b boltDB \<Rightarrow> Generator \<Rightarrow>
    Generator \<times> (bolt_error + ('b boltDB \<times> ChannelMessage \<times> bool))" where
  "boltPresenceTx L name now ps db g =
     (case boltSeen L name db (map p_ID ps) of
        Inl e \<Rightarrow> (g, Inl e)
      | Inr (Some original) \<Rightarrow> (g, Inr (db, original, True))
      | Inr None \<Rightarrow>
         (case Mint now g of (channelSerial, g') \<Rightarrow>
            let ps1 = stampPresence channelSerial 0 ps;
                cm = zeroChannelMessage\<lparr>cm_ChannelSerial := channelSerial, cm_Presence := ps1\<rparr>
            in (g', tryE (putCM L name cm db) (\<lambda>db1.
                    tryE (foldE (\<lambda>d p. putID L name channelSerial (p_ID p) d) db1 ps1) (\<lambda>db2.
                    Inr (db2, cm, False))))))"

text \<open>The members are folded after the transaction, under the channel's mutex.\<close>

definition boltStorePresence :: "('b, 'v) boltlib \<Rightarrow> bool \<Rightarrow> bool \<Rightarrow> int \<Rightarrow> string \<Rightarrow> PresenceMessage list \<Rightarrow> 'b bolt_state \<Rightarrow>
    'b bolt_state \<times> bolt_result" where
  "boltStorePresence L ctxErr commitErr now name ps st =
     (case st of (db, g, bc) \<Rightarrow>
        if ps = [] then (st, Inl (BoltErr ErrNoItems))
        else if ctxErr then (st, Inl (BoltErr ErrCtx))
        else (case dbUpdate commitErr (boltPresenceTx L name now ps) db g of (db', g', r) \<Rightarrow>
           let bc' = (case r of
                        Inr (cm, False) \<Rightarrow> bc\<lparr>bc_members := foldl foldMember (bc_members bc) (cm_Presence cm)\<rparr>
                      | _ \<Rightarrow> bc)
           in ((db', g', boltDeliver r bc'), r)))"

section \<open>Reads\<close>

definition boltLatestVersion :: "('b, 'v) boltlib \<Rightarrow> bool \<Rightarrow> string \<Rightarrow> string \<Rightarrow> 'b boltDB \<Rightarrow> bolt_error + Message" where
  "boltLatestVersion L ctxErr name s db =
     (if ctxErr then Inl (BoltErr ErrCtx)
      else tryE (orE (BoltErr ErrTargetNotFound) (bl_Get L (db_latest db) (channelKey name s))) (\<lambda>blob.
           orE ErrBoltDecode (bl_decMsg L blob)))"

definition boltVersions :: "('b, 'v) boltlib \<Rightarrow> bool \<Rightarrow> string \<Rightarrow> string \<Rightarrow> HistoryQuery \<Rightarrow> 'b boltDB \<Rightarrow>
    (bolt_error + HistoryPage) option" where
  "boltVersions L ctxErr name s q db =
     (if ctxErr then Some (Inl (BoltErr ErrCtx))
      else map_option (\<lambda>kvs.
             tryE (mapE (\<lambda>(k, v). orE ErrBoltDecode (bl_decMsg L v)) kvs) (\<lambda>all.
             if all = [] then Inl (BoltErr ErrTargetNotFound)
             else Inr (PaginateVersions (CollapseAppendVersions all) q)))
           (walkPrefix L (db_versions db) (versionPrefix name s)))"

definition boltAnnotations :: "('b, 'v) boltlib \<Rightarrow> bool \<Rightarrow> string \<Rightarrow> string \<Rightarrow> HistoryQuery \<Rightarrow> 'b boltDB \<Rightarrow>
    (bolt_error + HistoryPage) option" where
  "boltAnnotations L ctxErr name s q db =
     (if ctxErr then Some (Inl (BoltErr ErrCtx))
      else map_option (\<lambda>kvs.
             tryE (mapE (\<lambda>(k, v). orE ErrBoltDecode (bl_decAnn L v)) kvs) (\<lambda>all.
             Inr (PaginateAnnotations all q)))
           (walkPrefix L (db_annotations db) (annotationPrefix name s)))"

text \<open>The last channelSerial logged for a channel.\<close>

definition lastSerial :: "('b, 'v) boltlib \<Rightarrow> string \<Rightarrow> 'b boltDB \<Rightarrow> string option" where
  "lastSerial L name db =
     (case seekBefore L (db_messages db) (nextPrefix (channelPrefix name)) of
        None \<Rightarrow> None
      | Some (k, _) \<Rightarrow> if has_prefix k (channelPrefix name) then Some (drop (length (channelPrefix name)) k) else None)"

definition boltMembers :: "('b, 'v) boltlib \<Rightarrow> bool \<Rightarrow> string \<Rightarrow> 'b boltDB \<Rightarrow> boltChannel \<Rightarrow>
    bolt_error + (PresenceMessage list \<times> string)" where
  "boltMembers L ctxErr name db bc =
     (if ctxErr then Inl (BoltErr ErrCtx)
      else Inr (sort_key p_Serial (map snd (bc_members bc)),
                case lastSerial L name db of None \<Rightarrow> [] | Some s \<Rightarrow> s))"

text \<open>The bounds of a history scan as keys.\<close>

definition historyBounds :: "string \<Rightarrow> HistoryQuery \<Rightarrow> string \<times> string" where
  "historyBounds name q =
     (case TimestampBounds (hq_Start q) (hq_End q) of (timeLower, timeUpper) \<Rightarrow>
        let lowerKey = (if timeLower \<noteq> [] then channelKey name timeLower else channelPrefix name);
            lowerKey = (if hq_AfterChannelSerial q \<noteq> []
                        then let afterKey = channelKey name (hq_AfterChannelSerial q) @ [CHR 0x00]
                             in if afterKey > lowerKey then afterKey else lowerKey
                        else lowerKey);
            upperKey = (if timeUpper \<noteq> [] then channelKey name timeUpper else nextPrefix (channelPrefix name));
            upperKey = (if hq_EndChannelSerial q \<noteq> []
                        then let endKey = channelKey name (hq_EndChannelSerial q) @ [CHR 0x00]
                             in if endKey < upperKey then endKey else upperKey
                        else upperKey)
        in (lowerKey, upperKey))"

text \<open>Decoding and emitting one entry after the other; \<open>emit\<close> and the item loop are the code of the
  in-memory backend.\<close>

fun boltScan :: "('b, 'v) boltlib \<Rightarrow> HistoryQuery \<Rightarrow> Kind \<Rightarrow> (string \<times> 'v) list \<Rightarrow> HistoryPage \<Rightarrow> int \<Rightarrow>
    bolt_error + HistoryPage" where
  "boltScan L q kind [] page count = Inr page"
| "boltScan L q kind ((k, v) # kvs) page count =
     tryE (orE ErrBoltDecode (bl_decCM L v)) (\<lambda>cm.
       let items = CMItems cm kind
       in case scanItems q (cm_ChannelSerial cm) (if forwards q then items else rev items) page count of
            Inl page' \<Rightarrow> Inr page'
          | Inr (page', count') \<Rightarrow> boltScan L q kind kvs page' count')"

fun boltCollapse :: "('b, 'v) boltlib \<Rightarrow> string \<Rightarrow> HistoryQuery \<Rightarrow> (string \<times> 'v) list \<Rightarrow> HistoryPage \<Rightarrow> int \<Rightarrow>
    bolt_error + HistoryPage" where
  "boltCollapse L name q [] page count = Inr page"
| "boltCollapse L name q ((k, v) # kvs) page count =
     tryE (orE ErrBoltDecode (bl_decMsg L v)) (\<lambda>m.
       let identity = drop (length (channelPrefix name)) k
       in if \<not> inBounds q identity \<or>
             hq_Cursor q \<noteq> [] \<and> (if forwards q then identity \<le> hq_Cursor q else identity \<ge> hq_Cursor q)
          then boltCollapse L name q kvs page count
          else case emitHist q (CreateChannelSerial (m_Serial m)) (ItemMessage m) page count of
                 Inl page' \<Rightarrow> Inr page'
               | Inr (page', count') \<Rightarrow> boltCollapse L name q kvs page' count')"

definition boltCollapsedHistory :: "('b, 'v) boltlib \<Rightarrow> string \<Rightarrow> HistoryQuery \<Rightarrow> 'b boltDB \<Rightarrow>
    (bolt_error + HistoryPage) option" where
  "boltCollapsedHistory L name q db =
     (let p = channelPrefix name; b = db_latest db
      in map_option (\<lambda>kvs. boltCollapse L name q kvs zeroPage 0)
           (if forwards q then walkPrefix L b p
            else walk (bl_Prev L b) (\<lambda>k. has_prefix k p) (seekBefore L b (nextPrefix p))))"

definition boltHistory :: "('b, 'v) boltlib \<Rightarrow> bool \<Rightarrow> string \<Rightarrow> HistoryQuery \<Rightarrow> 'b boltDB \<Rightarrow>
    (bolt_error + HistoryPage) option" where
  "boltHistory L ctxErr name q db =
     (if ctxErr then Some (Inl (BoltErr ErrCtx))
      else let wantKind = Normalize (hq_Kind q)
           in if hq_Collapse q \<and> wantKind = KindMessage then boltCollapsedHistory L name q db
              else case historyBounds name q of (lowerKey, upperKey) \<Rightarrow>
                let p = channelPrefix name; b = db_messages db
                in map_option (\<lambda>kvs. boltScan L q wantKind kvs zeroPage 0)
                     (if forwards q
                      then walk (bl_Next L b) (\<lambda>k. has_prefix k p \<and> k < upperKey) (bl_Seek L b lowerKey)
                      else walk (bl_Prev L b) (\<lambda>k. has_prefix k p \<and> lowerKey \<le> k) (seekBefore L b upperKey)))"

section \<open>The storage root\<close>

text \<open>\<open>Open\<close> on the buckets of the file, empty or left by an earlier process.\<close>

definition boltOpen :: "string \<Rightarrow> 'b boltDB \<Rightarrow> 'b boltStorage" where
  "boltOpen series db = \<lparr>bs_db = db, bs_gen = NewGenerator series, bs_channels = []\<rparr>"

text \<open>The whole of \<open>Open\<close>: \<open>file\<close> is what opening the path gives, \<open>bootErr\<close> a failure of the
  transaction that creates the six buckets.\<close>

definition boltOpenPath :: "string \<Rightarrow> 'b boltDB option \<Rightarrow> bool \<Rightarrow> string \<Rightarrow> bolt_error + 'b boltStorage" where
  "boltOpenPath path file bootErr series =
     (if path = [] then Inl ErrBoltPath
      else case file of
             None \<Rightarrow> Inl ErrBoltFile
           | Some db \<Rightarrow> if bootErr then Inl ErrBoltFile else Inr (boltOpen series db))"

definition loadOrMintInitialTx :: "('b, 'v) boltlib \<Rightarrow> string \<Rightarrow> int \<Rightarrow> 'b boltDB \<Rightarrow> Generator \<Rightarrow>
    Generator \<times> (bolt_error + ('b boltDB \<times> string \<times> string))" where
  "loadOrMintInitialTx L name now db g =
     (case bl_Get L (db_initials db) name of
        Some v \<Rightarrow>
          (let initial = bl_string L v
           in (g, Inr (db, case lastSerial L name db of None \<Rightarrow> initial | Some s \<Rightarrow> s, initial)))
      | None \<Rightarrow>
         (case Mint now g of (initial, g') \<Rightarrow>
            (g', tryE (orE ErrBoltPut (bl_Put L name (bl_bytes L initial) (db_initials db))) (\<lambda>b.
                 let db' = db\<lparr>db_initials := b\<rparr>
                 in Inr (db', case lastSerial L name db' of None \<Rightarrow> initial | Some s \<Rightarrow> s, initial)))))"

definition boltStorageChannel :: "('b, 'v) boltlib \<Rightarrow> bool \<Rightarrow> int \<Rightarrow> string \<Rightarrow> Channel option \<Rightarrow> 'b boltStorage \<Rightarrow>
    'b boltStorage \<times> (bolt_error + boltChannel)" where
  "boltStorageChannel L commitErr now name app s =
     (case map_of (bs_channels s) name of
        Some bc \<Rightarrow> (s, Inr bc)
      | None \<Rightarrow>
          (case app of
             None \<Rightarrow>
               let bc = \<lparr>bc_appender = None, bc_members = []\<rparr>
               in (s\<lparr>bs_channels := gput name bc (bs_channels s)\<rparr>, Inr bc)
           | Some ch \<Rightarrow>
               (case dbUpdate commitErr (loadOrMintInitialTx L name now) (bs_db s) (bs_gen s) of
                  (db', g', Inl e) \<Rightarrow> (s\<lparr>bs_gen := g'\<rparr>, Inl e)
                | (db', g', Inr (current, initial)) \<Rightarrow>
                    let bc = \<lparr>bc_appender = Some (Initialize current initial ch), bc_members = []\<rparr>
                    in (s\<lparr>bs_db := db', bs_gen := g', bs_channels := gput name bc (bs_channels s)\<rparr>, Inr bc))))"

end
