(* ===== verification/BoltScan.thy ===== *)
theory BoltScan
  imports Bolt MemoryHistory
begin

text \<open>
  What the backend relies on of the key-value library, and what follows for its cursor loops:
  every loop ends, and yields the entries of a channel, or of a message, in key order.
\<close>

section \<open>The library\<close>

definition first_of :: "'a list \<Rightarrow> 'a option" where
  "first_of xs = (case xs of [] \<Rightarrow> None | x # _ \<Rightarrow> Some x)"

definition last_of :: "'a list \<Rightarrow> 'a option" where
  "last_of xs = (if xs = [] then None else Some (last xs))"

text \<open>The documented behaviour of bbolt: a bucket is a list of entries in strictly increasing byte
  order of their keys; \<open>Get\<close> and \<open>Put\<close> are those of a map; \<open>Seek\<close> moves to the key or the next one;
  \<open>Next\<close>, \<open>Prev\<close> and \<open>Last\<close> move along the order. A string survives the conversion to bytes.\<close>

definition bolt_laws :: "('b, 'v) boltlib \<Rightarrow> ('b \<Rightarrow> (string \<times> 'v) list) \<Rightarrow> bool" where
  "bolt_laws L items \<longleftrightarrow>
     (\<forall>b. sorted_wrt (<) (map fst (items b))) \<and>
     (\<forall>b k. bl_Get L b k = map_of (items b) k) \<and>
     (\<forall>k v b b'. bl_Put L k v b = Some b' \<longrightarrow> map_of (items b') = (map_of (items b))(k \<mapsto> v)) \<and>
     (\<forall>b k. bl_Seek L b k = first_of (filter (\<lambda>x. k \<le> fst x) (items b))) \<and>
     (\<forall>b k. bl_Next L b k = first_of (filter (\<lambda>x. k < fst x) (items b))) \<and>
     (\<forall>b k. bl_Prev L b k = last_of (filter (\<lambda>x. fst x < k) (items b))) \<and>
     (\<forall>b. bl_Last L b = last_of (items b)) \<and>
     (\<forall>s. bl_string L (bl_bytes L s) = s)"

lemma bolt_lawsD:
  assumes "bolt_laws L items"
  shows "sorted_wrt (<) (map fst (items b))" "bl_Get L b k = map_of (items b) k"
    "bl_Put L k v b = Some b' \<Longrightarrow> map_of (items b') = (map_of (items b))(k \<mapsto> v)"
    "bl_Seek L b k = first_of (filter (\<lambda>x. k \<le> fst x) (items b))"
    "bl_Next L b k = first_of (filter (\<lambda>x. k < fst x) (items b))"
    "bl_Prev L b k = last_of (filter (\<lambda>x. fst x < k) (items b))"
    "bl_Last L b = last_of (items b)" "bl_string L (bl_bytes L s) = s"
  using assms unfolding bolt_laws_def by blast+

section \<open>Walks\<close>

lemma filter_cut:
  "\<forall>x \<in> set us. P x \<Longrightarrow> \<forall>x \<in> set vs. \<not> P x \<Longrightarrow> filter P (us @ vs) = us"
  "\<forall>x \<in> set us. \<not> P x \<Longrightarrow> \<forall>x \<in> set vs. P x \<Longrightarrow> filter P (us @ vs) = vs"
  by (simp_all add: filter_empty_conv filter_id_conv)

lemma sorted_split_at:
  fixes xs :: "(string \<times> 'v) list"
  assumes "sorted_wrt (<) (map fst xs)"
  shows "filter (\<lambda>x. fst x < k) xs @ filter (\<lambda>x. k \<le> fst x) xs = xs"
  using assms
proof (induction xs)
  case (Cons x xs)
  show ?case
  proof (cases "fst x < k")
    case True
    with Cons show ?thesis by simp
  next
    case False
    with Cons.prems have "\<forall>y \<in> set xs. k < fst y" by (auto simp: not_less)
    then have "filter (\<lambda>x. fst x < k) xs = []" "filter (\<lambda>x. k \<le> fst x) xs = xs"
      by (auto simp: filter_empty_conv filter_id_conv)
    with False show ?thesis by simp
  qed
qed simp

lemma walk_next:
  assumes "bolt_laws L items" "items b = zs @ ys"
  shows "walk (bl_Next L b) go (first_of ys) = Some (takeWhile (\<lambda>x. go (fst x)) ys)"
  using assms(2)
proof (induction ys arbitrary: zs)
  case Nil
  show ?case by (subst walk.simps) (simp add: first_of_def)
next
  case (Cons y ys)
  have "sorted_wrt (<) (map fst (zs @ y # ys))" using bolt_lawsD(1) [OF assms(1), of b] Cons.prems by simp
  then have "filter (\<lambda>x. fst y < fst x) ((zs @ [y]) @ ys) = ys"
    by (intro filter_cut(2)) (auto simp: sorted_wrt_append)
  then have "bl_Next L b (fst y) = first_of ys" using bolt_lawsD(5) [OF assms(1)] Cons.prems by simp
  with Cons.IH [of "zs @ [y]"] Cons.prems show ?case
    by (cases y) (subst walk.simps, simp add: first_of_def [of "_ # _"])
qed

lemma walk_prev:
  assumes "bolt_laws L items" "items b = ys @ zs"
  shows "walk (bl_Prev L b) go (last_of ys) = Some (takeWhile (\<lambda>x. go (fst x)) (rev ys))"
  using assms(2)
proof (induction ys arbitrary: zs rule: rev_induct)
  case Nil
  show ?case by (subst walk.simps) (simp add: last_of_def)
next
  case (snoc y ys)
  have "sorted_wrt (<) (map fst (ys @ y # zs))" using bolt_lawsD(1) [OF assms(1), of b] snoc.prems by simp
  then have "filter (\<lambda>x. fst x < fst y) (ys @ y # zs) = ys"
    by (intro filter_cut(1)) (auto simp: sorted_wrt_append)
  then have "bl_Prev L b (fst y) = last_of ys" using bolt_lawsD(6) [OF assms(1)] snoc.prems by simp
  with snoc.IH [of "y # zs"] snoc.prems show ?case
    by (cases y) (subst walk.simps, simp add: last_of_def [of "_ @ _"])
qed

lemma seekBefore_eq:
  assumes "bolt_laws L items"
  shows "seekBefore L b upper = last_of (filter (\<lambda>x. fst x < upper) (items b))"
proof -
  let ?lo = "filter (\<lambda>x. fst x < upper) (items b)" and ?hi = "filter (\<lambda>x. upper \<le> fst x) (items b)"
  have split: "?lo @ ?hi = items b" by (rule sorted_split_at) (rule bolt_lawsD(1) [OF assms])
  show ?thesis
  proof (cases ?hi)
    case Nil
    with split have "?lo = items b" by simp
    with Nil show ?thesis by (simp add: seekBefore_def bolt_lawsD(4,7) [OF assms] first_of_def)
  next
    case (Cons y ys)
    have "sorted_wrt (<) (map fst (?lo @ y # ys))" using bolt_lawsD(1) [OF assms, of b] split Cons by metis
    then have "\<forall>x \<in> set ?lo. fst x < fst y" "\<forall>x \<in> set (y # ys). \<not> fst x < fst y"
      unfolding map_append sorted_wrt_append by auto
    then have "filter (\<lambda>x. fst x < fst y) (?lo @ y # ys) = ?lo" by (rule filter_cut(1))
    then have "filter (\<lambda>x. fst x < fst y) (items b) = ?lo" using split Cons by metis
    then show ?thesis by (cases y) (simp add: seekBefore_def bolt_lawsD(4,6) [OF assms] first_of_def Cons)
  qed
qed

text \<open>On a sorted list a test that fails from some key on selects an initial segment.\<close>

lemma takeWhile_closed:
  assumes "sorted_wrt R ys" "\<And>x y. x \<in> set ys \<Longrightarrow> y \<in> set ys \<Longrightarrow> R x y \<Longrightarrow> P y \<Longrightarrow> P x"
  shows "takeWhile P ys = filter P ys"
  using assms
proof (induction ys)
  case (Cons y ys)
  show ?case
  proof (cases "P y")
    case True
    have "takeWhile P ys = filter P ys" using Cons.prems by (intro Cons.IH) auto
    with True show ?thesis by simp
  next
    case False
    with Cons.prems have "\<forall>x \<in> set ys. \<not> P x" by auto
    with False show ?thesis by (simp add: filter_empty_conv)
  qed
qed simp

section \<open>Prefixes\<close>

lemma has_prefix_iff: "has_prefix k p \<longleftrightarrow> (\<exists>t. k = p @ t)"
  unfolding has_prefix_def by (metis append_eq_conv_conj append_take_drop_id)

lemma le_append: "(p :: string) \<le> p @ t"
  using append_le_cancel [of p "[]" t] by simp

lemma prefix_between: "(p :: string) \<le> k \<Longrightarrow> k \<le> p @ t \<Longrightarrow> has_prefix k p"
proof (induction p arbitrary: k)
  case (Cons c p)
  then obtain d k' where "k = d # k'" by (cases k) auto
  with Cons show ?case by (auto simp: has_prefix_def less_imp_not_less split: if_splits)
qed (simp add: has_prefix_def)

lemma prefix_down: "(p :: string) \<le> k \<Longrightarrow> k < k' \<Longrightarrow> has_prefix k' p \<Longrightarrow> has_prefix k p"
  by (auto simp: has_prefix_iff [of k'] intro: prefix_between [OF _ less_imp_le])

lemma nul_succ: "char_of (of_char CHR 0x00 + 1 :: nat) = CHR 0x01" "char_of (0 :: nat) = CHR 0x00"
  by code_simp+

lemma nextPrefix_channel: "nextPrefix (channelPrefix n) = n @ [CHR 0x01]"
  unfolding nextPrefix_def channelPrefix_def keySep_def last_snoc nul_succ(1) by simp

lemma below_nextPrefix:
  "has_prefix k (channelPrefix n) \<Longrightarrow> k < nextPrefix (channelPrefix n)"
  "channelPrefix n \<le> k \<Longrightarrow> k < nextPrefix (channelPrefix n) \<Longrightarrow> has_prefix k (channelPrefix n)"
proof -
  have one: "CHR 0x00 < CHR 0x01" by (simp add: less_char_def)
  have two: "c = CHR 0x00" if "CHR 0x00 \<le> c" "c < CHR 0x01" for c :: char
  proof -
    have "of_char c < (1 :: nat)" using that(2) by (simp add: less_char_def)
    then show ?thesis by (metis char_of_char less_one nul_succ(2))
  qed
  show "has_prefix k (channelPrefix n) \<Longrightarrow> k < nextPrefix (channelPrefix n)"
    unfolding has_prefix_iff nextPrefix_channel using one by (auto simp: channelPrefix_def keySep_def)
  show "channelPrefix n \<le> k \<Longrightarrow> k < nextPrefix (channelPrefix n) \<Longrightarrow> has_prefix k (channelPrefix n)"
    unfolding nextPrefix_channel unfolding channelPrefix_def keySep_def has_prefix_iff
  proof (induction n arbitrary: k)
    case Nil
    then show ?case using two by (cases k) auto
  next
    case (Cons c n)
    then show ?case by (cases k) auto
  qed
qed

section \<open>Scans\<close>

text \<open>The entries whose keys continue a prefix, and the map they form.\<close>

definition under :: "('b \<Rightarrow> (string \<times> 'v) list) \<Rightarrow> 'b \<Rightarrow> string \<Rightarrow> (string \<times> 'v) list" where
  "under items b p = filter (\<lambda>x. has_prefix (fst x) p) (items b)"

definition view :: "('b \<Rightarrow> (string \<times> 'v) list) \<Rightarrow> 'b \<Rightarrow> string \<Rightarrow> string \<Rightarrow> 'v option" where
  "view items b p t = map_of (items b) (p @ t)"

lemma sorted_alist_unique:
  fixes xs :: "(string \<times> 'v) list"
  assumes "sorted_wrt (<) (map fst xs)" "sorted_wrt (<) (map fst ys)" "map_of xs = map_of ys"
  shows "xs = ys"
proof -
  have d: "sorted (map fst xs)" "distinct (map fst xs)" "sorted (map fst ys)" "distinct (map fst ys)"
    using assms(1,2) by (simp_all add: strict_sorted_iff)
  have s: "set xs = set ys" using map_of_eqI assms(3) d by (metis map_of_inject_set)
  then have "inj_on fst (set xs \<union> set ys)" using d by (simp add: distinct_map)
  with d s show ?thesis by (metis map_sorted_distinct_set_unique)
qed

lemma map_of_filter_key: "map_of (filter (\<lambda>x. P (fst x)) xs) k = (if P k then map_of xs k else None)"
  by (induction xs) auto

lemma under_eq:
  assumes "bolt_laws L items" "sorted_wrt (<) ts" "\<And>t. view items b p t \<noteq> None \<longleftrightarrow> t \<in> set ts"
  shows "under items b p = map (\<lambda>t. (p @ t, the (view items b p t))) ts"
proof (rule sorted_alist_unique)
  show "sorted_wrt (<) (map fst (under items b p))"
    using bolt_lawsD(1) [OF assms(1), of b] by (simp add: under_def sorted_wrt_map sorted_wrt_filter)
  show "sorted_wrt (<) (map fst (map (\<lambda>t. (p @ t, the (view items b p t))) ts))"
    using assms(2) by (simp add: sorted_wrt_map)
  have "map_of (under items b p) k = map_of (map (\<lambda>t. (p @ t, the (view items b p t))) ts) k" for k
  proof (cases "\<exists>t. k = p @ t")
    case True
    then obtain t where k: "k = p @ t" by blast
    have "map_of (map (\<lambda>t. (p @ t, f t)) ts) (p @ t) = (if t \<in> set ts then Some (f t) else None)" for f :: "string \<Rightarrow> 'b"
      by (induction ts) auto
    then have "map_of (map (\<lambda>t. (p @ t, the (view items b p t))) ts) k = view items b p t"
      using assms(3) [of t] by (auto simp: k)
    moreover have "map_of (under items b p) k = view items b p t"
      unfolding under_def view_def k map_of_filter_key [of "\<lambda>k. has_prefix k p"] by (auto simp: has_prefix_iff)
    ultimately show ?thesis by simp
  next
    case False
    then have "k \<notin> fst ` set (under items b p)" by (auto simp: under_def has_prefix_iff)
    moreover have "k \<notin> fst ` set (map (\<lambda>t. (p @ t, the (view items b p t))) ts)" using False by auto
    ultimately show ?thesis by (metis map_of_eq_None_iff)
  qed
  then show "map_of (under items b p) = map_of (map (\<lambda>t. (p @ t, the (view items b p t))) ts)" by blast
qed

lemma walkPrefix_eq:
  assumes "bolt_laws L items"
  shows "walkPrefix L b p = Some (under items b p)"
proof -
  let ?ys = "filter (\<lambda>x. p \<le> fst x) (items b)"
  have "items b = filter (\<lambda>x. fst x < p) (items b) @ ?ys"
    using sorted_split_at [OF bolt_lawsD(1) [OF assms]] by metis
  from walk_next [OF assms this] have "walkPrefix L b p = Some (takeWhile (\<lambda>x. has_prefix (fst x) p) ?ys)"
    by (simp add: walkPrefix_def bolt_lawsD(4) [OF assms])
  also have "takeWhile (\<lambda>x. has_prefix (fst x) p) ?ys = filter (\<lambda>x. has_prefix (fst x) p) ?ys"
  proof (rule takeWhile_closed [where R = "\<lambda>x y. fst x < fst y"])
    show "sorted_wrt (\<lambda>x y. fst x < fst y) ?ys"
      using bolt_lawsD(1) [OF assms, of b] by (simp add: sorted_wrt_map sorted_wrt_filter)
  qed (auto intro: prefix_down)
  also have "\<dots> = under items b p"
    by (auto simp: under_def has_prefix_iff le_append intro!: filter_cong)
  finally show ?thesis .
qed

lemma history_walks:
  fixes b :: 'b
  assumes "bolt_laws (L :: ('b, 'v) boltlib) items" "channelPrefix n \<le> lower" "upper \<le> nextPrefix (channelPrefix n)"
  defines "sel \<equiv> filter (\<lambda>x. lower \<le> fst x \<and> fst x < upper) (under items b (channelPrefix n))"
  shows "walk (bl_Next L b) (\<lambda>k. has_prefix k (channelPrefix n) \<and> k < upper) (bl_Seek L b lower) = Some sel"
    and "walk (bl_Prev L b) (\<lambda>k. has_prefix k (channelPrefix n) \<and> lower \<le> k) (seekBefore L b upper) = Some (rev sel)"
proof -
  let ?p = "channelPrefix n"
  have srt: "sorted_wrt (\<lambda>x y. fst x < fst y) (filter P (items b))" for P
    using bolt_lawsD(1) [OF assms(1), of b] by (simp add: sorted_wrt_map sorted_wrt_filter)
  let ?ys = "filter (\<lambda>x. lower \<le> fst x) (items b)"
  have "items b = filter (\<lambda>x. fst x < lower) (items b) @ ?ys"
    using sorted_split_at [OF bolt_lawsD(1) [OF assms(1)]] by metis
  note w = walk_next [OF assms(1) this, of "\<lambda>k. has_prefix k ?p \<and> k < upper"]
  have "takeWhile (\<lambda>x. has_prefix (fst x) ?p \<and> fst x < upper) ?ys = filter (\<lambda>x. has_prefix (fst x) ?p \<and> fst x < upper) ?ys"
    by (rule takeWhile_closed [OF srt])
      (use assms(2) in \<open>auto intro: prefix_down order_trans\<close>)
  also have "\<dots> = sel" unfolding sel_def under_def filter_filter by (rule filter_cong) auto
  finally show "walk (bl_Next L b) (\<lambda>k. has_prefix k ?p \<and> k < upper) (bl_Seek L b lower) = Some sel"
    using w by (simp add: bolt_lawsD(4) [OF assms(1)])
  let ?zs = "filter (\<lambda>x. fst x < upper) (items b)"
  have "items b = ?zs @ filter (\<lambda>x. upper \<le> fst x) (items b)"
    using sorted_split_at [OF bolt_lawsD(1) [OF assms(1)]] by metis
  note w = walk_prev [OF assms(1) this, of "\<lambda>k. has_prefix k ?p \<and> lower \<le> k"]
  have "takeWhile (\<lambda>x. has_prefix (fst x) ?p \<and> lower \<le> fst x) (rev ?zs) =
      filter (\<lambda>x. has_prefix (fst x) ?p \<and> lower \<le> fst x) (rev ?zs)"
  proof (rule takeWhile_closed [where R = "\<lambda>x y. fst y < fst x"])
    show "sorted_wrt (\<lambda>x y. fst y < fst x) (rev ?zs)" using srt by (simp add: sorted_wrt_rev)
    fix x y assume a: "x \<in> set (rev ?zs)" "fst y < fst x" "has_prefix (fst y) ?p \<and> lower \<le> fst y"
    have "?p \<le> fst x" using a(2,3) le_append [of ?p] by (metis has_prefix_iff less_imp_le order_trans)
    moreover have "fst x < nextPrefix ?p" using a(1) assms(3) by auto
    ultimately show "has_prefix (fst x) ?p \<and> lower \<le> fst x" using below_nextPrefix(2) a(2,3) by auto
  qed
  also have "\<dots> = rev sel" unfolding sel_def under_def rev_filter [symmetric] filter_filter
    by (rule arg_cong [of _ _ rev], rule filter_cong) auto
  finally show "walk (bl_Prev L b) (\<lambda>k. has_prefix k ?p \<and> lower \<le> k) (seekBefore L b upper) = Some (rev sel)"
    using w by (simp add: seekBefore_eq [OF assms(1)])
qed

end
