(* ===== verification/BoltLaws.thy ===== *)
theory BoltLaws
  imports BoltScan
begin

text \<open>
  The on-disk backend refines the in-memory one: while the library reports no failure, both
  give the same answers to any sequence of writes and reads, up to the summary snapshots on
  logged annotations, which are not persisted.
\<close>

section \<open>What is persisted\<close>

definition strip_ann :: "Annotation \<Rightarrow> Annotation" where
  "strip_ann a = a\<lparr>a_Summary := []\<rparr>"

definition strip_cm :: "ChannelMessage \<Rightarrow> ChannelMessage" where
  "strip_cm cm = cm\<lparr>cm_Annotations := map strip_ann (cm_Annotations cm)\<rparr>"

text \<open>The msgpack codec on canonical values \<open>K\<close>: what it encodes it decodes to the same value, with
  any summary on a message and without the one on an annotation.\<close>

definition codec_keeps :: "('b, 'v) boltlib \<Rightarrow> (ChannelMessage \<Rightarrow> bool) \<Rightarrow> bool" where
  "codec_keeps L K \<longleftrightarrow>
     (\<forall>cm v. K cm \<longrightarrow> bl_encCM L cm = Some v \<longrightarrow> bl_decCM L v = Some (strip_cm cm)) \<and>
     (\<forall>cm m s v. K cm \<longrightarrow> m \<in> set (cm_Messages cm) \<longrightarrow> bl_encMsg L (m\<lparr>m_Summary := s\<rparr>) = Some v \<longrightarrow>
        bl_decMsg L v = Some (m\<lparr>m_Summary := s\<rparr>)) \<and>
     (\<forall>cm a v. K cm \<longrightarrow> a \<in> set (cm_Annotations cm) \<longrightarrow> bl_encAnn L a = Some v \<longrightarrow> bl_decAnn L v = Some (strip_ann a))"

lemma codec_keepsD:
  assumes "codec_keeps L K" "K cm"
  shows "bl_encCM L cm = Some v \<Longrightarrow> bl_decCM L v = Some (strip_cm cm)"
    "m \<in> set (cm_Messages cm) \<Longrightarrow> bl_encMsg L (m\<lparr>m_Summary := s\<rparr>) = Some v \<Longrightarrow> bl_decMsg L v = Some (m\<lparr>m_Summary := s\<rparr>)"
    "a \<in> set (cm_Annotations cm) \<Longrightarrow> bl_encAnn L a = Some v \<Longrightarrow> bl_decAnn L v = Some (strip_ann a)"
  using assms unfolding codec_keeps_def by blast+

text \<open>The failures of a library call. A broken index and a blob that does not decode are not among
  them: they never occur.\<close>

fun lib_error :: "bolt_error \<Rightarrow> bool" where
  "lib_error ErrBoltPut = True"
| "lib_error ErrBoltEncode = True"
| "lib_error ErrBoltCommit = True"
| "lib_error _ = False"

section \<open>Keys\<close>

lemma key_prefix: "channelKey n t = channelPrefix n @ t" "versionKey n s t = versionPrefix n s @ t"
  "versionPrefix n s @ t = channelPrefix n @ s @ keySep # t"
  by (simp_all add: channelKey_def channelPrefix_def versionKey_def versionPrefix_def)

definition plain_name :: "string \<Rightarrow> bool" where
  "plain_name n \<longleftrightarrow> CHR 0x00 \<notin> set n"

lemma split_at_sep: "c \<notin> set a \<Longrightarrow> c \<notin> set a' \<Longrightarrow> a @ c # t = a' @ c # t' \<longleftrightarrow> a = a' \<and> t = t'"
proof (induction a arbitrary: a')
  case (Cons x a)
  then show ?case by (cases a') auto
qed (auto simp: Cons_eq_append_conv)

lemma channels_apart: "plain_name n \<Longrightarrow> plain_name n' \<Longrightarrow> channelPrefix n @ t = channelPrefix n' @ t' \<longleftrightarrow> n = n' \<and> t = t'"
  using split_at_sep [of keySep n n' t t'] by (simp add: channelPrefix_def plain_name_def keySep_def)

lemma versions_apart:
  "plain_name s \<Longrightarrow> plain_name t \<Longrightarrow> versionPrefix n s @ t = versionPrefix n s' @ t' \<longleftrightarrow> s = s' \<and> t = t'"
  using append_Cons_eq_iff [of keySep s t] by (simp add: versionPrefix_def plain_name_def keySep_def)

section \<open>Buckets as maps\<close>

definition vrel :: "('b \<Rightarrow> (string \<times> 'v) list) \<Rightarrow> ('x \<Rightarrow> 'v \<Rightarrow> bool) \<Rightarrow> (string \<Rightarrow> 'x option) \<Rightarrow> 'b \<Rightarrow> string \<Rightarrow> bool" where
  "vrel items R m b p \<longleftrightarrow> (\<forall>t. rel_option R (m t) (view items b p t))"

lemma view_put:
  assumes "bolt_laws L items" "bl_Put L k v b = Some b'"
  shows "view items b' p t = (if p @ t = k then Some v else view items b p t)"
  using bolt_lawsD(3) [OF assms] by (simp add: view_def)

lemma vrel_put:
  assumes "bolt_laws L items" "bl_Put L (p @ t) v b = Some b'" "vrel items R m b p" "R x v"
  shows "vrel items R (m(t \<mapsto> x)) b' p"
  using assms(3,4) by (simp add: vrel_def view_put [OF assms(1,2)])

lemma vrel_cong: "vrel items R m b p \<Longrightarrow> (\<And>t. view items b' p t = view items b p t) \<Longrightarrow> vrel items R m b' p"
  by (simp add: vrel_def)

lemma vrel_get:
  assumes "bolt_laws L items" "vrel items R m b p"
  shows "rel_option R (m t) (bl_Get L b (p @ t))"
  using assms by (simp add: vrel_def view_def bolt_lawsD(2))

text \<open>The buckets against the maps of an in-memory store.\<close>

definition holdsCM :: "('b, 'v) boltlib \<Rightarrow> ChannelMessage \<Rightarrow> 'v \<Rightarrow> bool" where
  "holdsCM L cm v \<longleftrightarrow> bl_decCM L v = Some (strip_cm cm)"

definition holdsStr :: "('b, 'v) boltlib \<Rightarrow> string \<Rightarrow> 'v \<Rightarrow> bool" where
  "holdsStr L s v \<longleftrightarrow> bl_string L v = s"

definition holdsMsg :: "('b, 'v) boltlib \<Rightarrow> Message \<Rightarrow> 'v \<Rightarrow> bool" where
  "holdsMsg L m v \<longleftrightarrow> bl_decMsg L v = Some m"

definition holdsAnn :: "('b, 'v) boltlib \<Rightarrow> Annotation \<Rightarrow> 'v \<Rightarrow> bool" where
  "holdsAnn L a v \<longleftrightarrow> bl_decAnn L v = Some (strip_ann a)"

definition db_maps :: "('b, 'v) boltlib \<Rightarrow> ('b \<Rightarrow> (string \<times> 'v) list) \<Rightarrow> string \<Rightarrow> 'b boltDB \<Rightarrow>
    (string \<Rightarrow> ChannelMessage option) \<Rightarrow> (string \<Rightarrow> string option) \<Rightarrow> (string \<Rightarrow> Message option) \<Rightarrow>
    (string \<Rightarrow> string \<Rightarrow> Message option) \<Rightarrow> (string \<Rightarrow> string \<Rightarrow> Annotation option) \<Rightarrow> bool" where
  "db_maps L items n db M I La V A \<longleftrightarrow>
     vrel items (holdsCM L) M (db_messages db) (channelPrefix n) \<and>
     vrel items (holdsStr L) I (db_ids db) (channelPrefix n) \<and>
     vrel items (holdsMsg L) La (db_latest db) (channelPrefix n) \<and>
     (\<forall>s. vrel items (holdsMsg L) (V s) (db_versions db) (versionPrefix n s)) \<and>
     (\<forall>s. vrel items (holdsAnn L) (A s) (db_annotations db) (versionPrefix n s))"

definition by_serial :: "('a \<Rightarrow> string) \<Rightarrow> 'a list \<Rightarrow> string \<Rightarrow> 'a option" where
  "by_serial key xs = map_of (rev (map (\<lambda>x. (key x, x)) xs))"

lemma by_serial_simps [simp]: "by_serial key [] = Map.empty"
  "by_serial key (xs @ [x]) = (by_serial key xs)(key x \<mapsto> x)" "by_serial key [x] = [key x \<mapsto> x]"
  by (simp_all add: by_serial_def)

definition db_rel :: "('b, 'v) boltlib \<Rightarrow> ('b \<Rightarrow> (string \<times> 'v) list) \<Rightarrow> string \<Rightarrow> 'b boltDB \<Rightarrow> channelStore \<Rightarrow> bool" where
  "db_rel L items n db cs = db_maps L items n db (map_of (cs_byCS cs)) (map_of (cs_byID cs)) (map_of (cs_latest cs))
     (\<lambda>s. by_serial VersionSerial (gget [] (cs_versions cs) s)) (\<lambda>s. by_serial a_Serial (gget [] (cs_annotations cs) s))"

text \<open>What other channels see of a write: nothing.\<close>

definition same_views :: "('b \<Rightarrow> (string \<times> 'v) list) \<Rightarrow> string \<Rightarrow> 'b boltDB \<Rightarrow> 'b boltDB \<Rightarrow> bool" where
  "same_views items n db db' \<longleftrightarrow> (\<forall>t. \<forall>f \<in> {db_messages, db_ids, db_latest, db_versions, db_annotations}.
     view items (f db') (channelPrefix n) t = view items (f db) (channelPrefix n) t)"

lemma same_views_rel: "same_views items n db db' \<Longrightarrow> db_rel L items n db cs \<Longrightarrow> db_rel L items n db' cs"
  unfolding same_views_def db_rel_def db_maps_def vrel_def view_def key_prefix(3) by simp

lemma same_views_refl: "same_views items n db db"
  by (simp add: same_views_def)

lemma same_views_trans: "same_views items n d1 d2 \<Longrightarrow> same_views items n d2 d3 \<Longrightarrow> same_views items n d1 d3"
  by (simp add: same_views_def)

section \<open>The primitive writes\<close>

lemma orE_simps [simp]: "orE e x = Inr a \<longleftrightarrow> x = Some a" "orE e x = Inl e' \<longleftrightarrow> x = None \<and> e' = e"
  by (auto simp: orE_def split: option.splits)

lemma tryE_simps [simp]: "tryE x f = Inr b \<longleftrightarrow> (\<exists>a. x = Inr a \<and> f a = Inr b)"
  "tryE x f = Inl e \<longleftrightarrow> x = Inl e \<or> (\<exists>a. x = Inr a \<and> f a = Inl e)"
  by (auto simp: tryE_def split: sum.splits)

lemma putCM_rel:
  assumes "bolt_laws L items" "putCM L n cm db = Inr db'" "\<And>v. bl_encCM L cm = Some v \<Longrightarrow> holdsCM L cm v"
    and "db_maps L items n db M I La V A"
  shows "db_maps L items n db' (M(cm_ChannelSerial cm \<mapsto> cm)) I La V A"
proof -
  obtain v b where b: "bl_encCM L cm = Some v" "bl_Put L (channelPrefix n @ cm_ChannelSerial cm) v (db_messages db) = Some b"
    "db' = db\<lparr>db_messages := b\<rparr>" using assms(2) by (auto simp: putCM_def key_prefix)
  with assms(3,4) show ?thesis by (auto simp: db_maps_def intro: vrel_put [OF assms(1) b(2)])
qed

lemma putID_rel:
  assumes "bolt_laws L items" "putID L n s i db = Inr db'" "db_maps L items n db M I La V A"
  shows "db_maps L items n db' M (if i = [] then I else I(i \<mapsto> s)) La V A"
proof (cases "i = []")
  case False
  obtain b where b: "bl_Put L (channelPrefix n @ i) (bl_bytes L s) (db_ids db) = Some b" "db' = db\<lparr>db_ids := b\<rparr>"
    using assms(2) False by (auto simp: putID_def key_prefix)
  have "holdsStr L s (bl_bytes L s)" by (simp add: holdsStr_def bolt_lawsD(8) [OF assms(1)])
  with assms(3) False b(2) show ?thesis by (auto simp: db_maps_def intro: vrel_put [OF assms(1) b(1)])
qed (use assms in \<open>simp add: putID_def\<close>)

lemma nested_put:
  assumes "bolt_laws L items" "bl_Put L (versionPrefix n s @ t) v b = Some b'" "plain_name s" "plain_name t"
    and "\<forall>s. vrel items R (V s) b (versionPrefix n s)" "R x v"
  shows "vrel items R ((V(s := (V s)(t \<mapsto> x))) s') b' (versionPrefix n s')"
proof (cases "s' = s")
  case True
  with assms(5,6) show ?thesis by (simp add: vrel_put [OF assms(1,2)])
next
  case False
  then have "view items b' (versionPrefix n s') t' = view items b (versionPrefix n s') t'" for t'
    using versions_apart [OF assms(3,4), of n s' t'] by (auto simp: view_put [OF assms(1,2)])
  with assms(5) have "vrel items R (V s') b' (versionPrefix n s')" by (auto intro: vrel_cong)
  with False show ?thesis by simp
qed

definition tripping :: "('b, 'v) boltlib \<Rightarrow> Message \<Rightarrow> bool" where
  "tripping L m \<longleftrightarrow> (\<forall>s v. bl_encMsg L (m\<lparr>m_Summary := s\<rparr>) = Some v \<longrightarrow> bl_decMsg L v = Some (m\<lparr>m_Summary := s\<rparr>))"

lemma tripping_upd: "tripping L m \<Longrightarrow> tripping L (m\<lparr>m_Summary := s\<rparr>)"
  by (simp add: tripping_def)

lemma tripping_self: "tripping L m \<Longrightarrow> bl_encMsg L m = Some v \<Longrightarrow> bl_decMsg L v = Some m"
  unfolding tripping_def by (metis (no_types, lifting) MessageBody.surjective MessageBody.update_convs(13))

lemma putVersion_rel:
  assumes "bolt_laws L items" "putVersion L n m db = Inr db'" "tripping L m"
    and "plain_name (m_Serial m)" "plain_name (VersionSerial m)" "db_maps L items n db M I La V A"
  shows "db_maps L items n db' M I (La(m_Serial m \<mapsto> m)) (V(m_Serial m := (V (m_Serial m))(VersionSerial m \<mapsto> m))) A"
proof -
  obtain v b1 b2 where b: "bl_encMsg L m = Some v" "bl_Put L (channelPrefix n @ m_Serial m) v (db_latest db) = Some b1"
    "bl_Put L (versionPrefix n (m_Serial m) @ VersionSerial m) v (db_versions db) = Some b2"
    "db' = db\<lparr>db_latest := b1, db_versions := b2\<rparr>" using assms(2) by (auto simp: putVersion_def key_prefix(1,2))
  have d: "holdsMsg L m v" by (simp add: holdsMsg_def tripping_self [OF assms(3) b(1)])
  have "\<forall>s. vrel items (holdsMsg L) (V s) (db_versions db) (versionPrefix n s)"
    using assms(6) by (simp add: db_maps_def)
  note nv = nested_put [OF assms(1) b(3) assms(4,5) this d]
  have "vrel items (holdsMsg L) (La(m_Serial m \<mapsto> m)) b1 (channelPrefix n)"
    using assms(6) d by (auto simp: db_maps_def intro: vrel_put [OF assms(1) b(2)])
  with nv assms(6) show ?thesis unfolding db_maps_def b(4) by simp
qed

lemma putAnnotation_rel:
  assumes "bolt_laws L items" "putAnnotation L n s db a = Inr db'"
    and "\<And>v. bl_encAnn L a = Some v \<Longrightarrow> holdsAnn L a v"
    and "plain_name (a_MessageSerial a)" "plain_name (a_Serial a)" "db_maps L items n db M I La V A"
  shows "db_maps L items n db' M (if a_ID a = [] then I else I(a_ID a \<mapsto> s)) La V
    (A(a_MessageSerial a := (A (a_MessageSerial a))(a_Serial a \<mapsto> a)))"
proof -
  obtain db1 v b where b: "putID L n s (a_ID a) db = Inr db1" "bl_encAnn L a = Some v"
    "bl_Put L (versionPrefix n (a_MessageSerial a) @ a_Serial a) v (db_annotations db1) = Some b"
    "db' = db1\<lparr>db_annotations := b\<rparr>"
    using assms(2) by (auto simp: putAnnotation_def annotationKey_def key_prefix(2))
  note r = putID_rel [OF assms(1) b(1) assms(6)]
  then have "\<forall>s. vrel items (holdsAnn L) (A s) (db_annotations db1) (versionPrefix n s)"
    by (simp add: db_maps_def)
  note nested_put [OF assms(1) b(3) assms(4,5) this assms(3) [OF b(2)]]
  with r show ?thesis unfolding db_maps_def b(4) by simp
qed

end
