(* ===== verification/BoltSim.thy ===== *)
theory BoltSim
  imports BoltLaws
begin

text \<open>
  One write on the file against the same write in memory: either the library failed and neither
  the file nor the channel changed, or both backends answer alike and stay related.
\<close>

section \<open>Serials hold no separator\<close>

lemma plain_append [simp]: "plain_name (a @ b) \<longleftrightarrow> plain_name a \<and> plain_name b"
  by (simp add: plain_name_def)

lemma plain_digits: "plain_name (zpad_nat w n)"
proof -
  have "\<not> is_dig (CHR 0x00)" by (simp add: is_dig_def)
  then show ?thesis
    using nat_dec_digits [of n] is_dig_dig [of 0] by (auto simp: plain_name_def zpad_nat_def list_all_iff)
qed

lemma plain_MessageSerial: "plain_name (MessageSerial s (int i)) \<longleftrightarrow> plain_name s"
  using plain_digits [of idxWidth i] by (simp add: MessageSerial_def zpad_of_nat plain_name_def)

lemma plain_render: "ts_ok t \<Longrightarrow> plain_name (render t) \<longleftrightarrow> plain_name (ts_series t)"
  using plain_digits [of 14 "ts_time t"] plain_digits [of 3 "ts_ctr t"] by (auto simp: render_alt plain_name_def)

lemma plain_minted: "minted g s \<Longrightarrow> plain_name (seriesID g) \<Longrightarrow> plain_name s"
  by (auto simp: minted_def plain_render)

lemma plain_new: "clock_ok now g \<Longrightarrow> plain_name (seriesID g) \<Longrightarrow> plain_name (render (gen_ts (advance now g)))"
  using plain_minted [OF minted_new] by (simp add: advance_def Let_def)

lemma plain_latest:
  assumes "mem_inv (g, cs)" "plain_name (seriesID g)" "map_of (cs_latest cs) s = Some m"
  shows "plain_name s"
proof -
  have "derived_inv cs" "log_inv cs" "order_inv g cs" using assms(1) by (simp_all add: mem_inv_def)
  then obtain c i where "c \<in> set (cs_order cs)" "s = MessageSerial c (int i)" "minted g c"
    using latest_version_facts(4) assms(3) by (metis order_inv_def)
  with plain_minted assms(2) show ?thesis by (simp add: plain_MessageSerial)
qed

section \<open>Failures of the primitive writes\<close>

lemma put_errors:
  "putCM L n cm db = Inl e \<Longrightarrow> lib_error e" "putID L n s i db = Inl e \<Longrightarrow> lib_error e"
  "putVersion L n m db = Inl e \<Longrightarrow> lib_error e" "putAnnotation L n s db a = Inl e \<Longrightarrow> lib_error e"
  by (auto simp: putCM_def putID_def putVersion_def putAnnotation_def split: if_splits)

lemma foldE_error:
  "(\<And>s x e. f s x = Inl e \<Longrightarrow> lib_error e) \<Longrightarrow> foldE f s xs = Inl e \<Longrightarrow> lib_error e"
  by (induction xs arbitrary: s) auto

lemma loop_errors:
  "foldE (\<lambda>d m. tryE (putID L n s (m_ID m) d) (putVersion L n m)) db ms = Inl e \<Longrightarrow> lib_error e"
  "foldE (putAnnotation L n s) db as = Inl e \<Longrightarrow> lib_error e"
  "foldE (\<lambda>d p. putID L n s (p_ID p) d) db ps = Inl e \<Longrightarrow> lib_error e"
proof -
  have "tryE (putID L n s (m_ID m) d) (putVersion L n m) = Inl e \<Longrightarrow> lib_error e" for d m e
    using put_errors(2,3) by auto
  note l = foldE_error [of "\<lambda>d m. tryE (putID L n s (m_ID m) d) (putVersion L n m)", OF this]
  show "foldE (\<lambda>d m. tryE (putID L n s (m_ID m) d) (putVersion L n m)) db ms = Inl e \<Longrightarrow> lib_error e" by (rule l)
  show "foldE (putAnnotation L n s) db as = Inl e \<Longrightarrow> lib_error e" by (rule foldE_error [OF put_errors(4)])
  show "foldE (\<lambda>d p. putID L n s (p_ID p) d) db ps = Inl e \<Longrightarrow> lib_error e" by (rule foldE_error [OF put_errors(2)])
qed

section \<open>The write loops\<close>

lemma gget_alt: "gget z m k = (case map_of m k of None \<Rightarrow> z | Some v \<Rightarrow> v)"
  by (simp add: gget_def)

lemma logCM_rel:
  assumes "bolt_laws L items" "codec_keeps L K" "K cm" "putCM L n cm db = Inr db'" "db_rel L items n db cs"
  shows "db_rel L items n db' (logCM cm cs)"
  using putCM_rel [OF assms(1,4)] codec_keepsD(1) [OF assms(2,3)] assms(5) by (simp add: db_rel_def holdsCM_def)

lemma deliver_rel [simp]: "db_rel L items n db (deliver cm cs) = db_rel L items n db cs"
  by (simp add: db_rel_def)

lemma indexID_rel:
  assumes "bolt_laws L items" "putID L n s i db = Inr db'" "db_rel L items n db cs"
  shows "db_rel L items n db' (indexID i s cs)"
  using putID_rel [OF assms(1,2) assms(3) [unfolded db_rel_def]] by (auto simp: db_rel_def putIDs_def split: if_splits)

lemma create_rel:
  assumes "bolt_laws L items" "tryE (putID L n s (m_ID m) db) (putVersion L n m) = Inr db'" "db_rel L items n db cs"
    and "tripping L m" "plain_name (m_Serial m)" "plain_name (VersionSerial m)" "gget [] (cs_versions cs) (m_Serial m) = []"
  shows "db_rel L items n db' (indexCreate s cs m)"
proof -
  obtain db1 where d: "putID L n s (m_ID m) db = Inr db1" "putVersion L n m db1 = Inr db'" using assms(2) by auto
  have "(\<lambda>x. by_serial VersionSerial (gget [] (gput (m_Serial m) [m] (cs_versions cs)) x)) =
      (\<lambda>x. by_serial VersionSerial (gget [] (cs_versions cs) x))(m_Serial m := [VersionSerial m \<mapsto> m])"
    by (auto simp: gget_gput)
  with putVersion_rel [OF assms(1) d(2) assms(4-6) indexID_rel [OF assms(1) d(1) assms(3), unfolded db_rel_def]] assms(7)
  show ?thesis by (simp add: db_rel_def indexCreate_def Let_def)
qed

lemma creates_rel:
  assumes "bolt_laws L items" "foldE (\<lambda>d m. tryE (putID L n s (m_ID m) d) (putVersion L n m)) db ms = Inr db'"
    "db_rel L items n db cs" "distinct (map m_Serial ms)"
    "\<forall>m \<in> set ms. tripping L m \<and> plain_name (m_Serial m) \<and> plain_name (VersionSerial m) \<and> gget [] (cs_versions cs) (m_Serial m) = []"
  shows "db_rel L items n db' (foldl (indexCreate s) cs ms)"
  using assms(2-5)
proof (induction ms arbitrary: db cs)
  case (Cons m ms)
  obtain db1 where d: "tryE (putID L n s (m_ID m) db) (putVersion L n m) = Inr db1"
    "foldE (\<lambda>d m. tryE (putID L n s (m_ID m) d) (putVersion L n m)) db1 ms = Inr db'"
    using Cons.prems(1) unfolding foldE.simps tryE_simps(1) by blast
  have "db_rel L items n db1 (indexCreate s cs m)"
    using create_rel [OF assms(1) d(1) Cons.prems(2)] Cons.prems(4) by simp
  then have "db_rel L items n db' (foldl (indexCreate s) (indexCreate s cs m) ms)"
    by (rule Cons.IH [OF d(2)])
      (use Cons.prems(3,4) in \<open>auto simp: indexCreate_def Let_def gget_gput image_iff\<close>)
  then show ?case by simp
qed simp

lemma annotation_rel:
  assumes "bolt_laws L items" "putAnnotation L n s db a = Inr db'" "db_rel L items n db cs"
    and "\<And>v. bl_encAnn L a = Some v \<Longrightarrow> holdsAnn L a v" "plain_name (a_MessageSerial a)" "plain_name (a_Serial a)"
  shows "db_rel L items n db' (indexAnnotation s cs a)"
proof -
  let ?G = "\<lambda>x. by_serial a_Serial (gget [] (cs_annotations cs) x)"
  have "(\<lambda>x. by_serial a_Serial (gget [] (gput (a_MessageSerial a) (gget [] (cs_annotations cs) (a_MessageSerial a) @ [a])
      (cs_annotations cs)) x)) = ?G(a_MessageSerial a := (?G (a_MessageSerial a))(a_Serial a \<mapsto> a))"
    by (auto simp: gget_gput)
  with putAnnotation_rel [OF assms(1,2,4-6) assms(3) [unfolded db_rel_def]]
  show ?thesis by (auto simp: db_rel_def indexAnnotation_def Let_def putIDs_def split: if_splits)
qed

lemma annotations_rel:
  assumes "bolt_laws L items" "foldE (putAnnotation L n s) db as = Inr db'" "db_rel L items n db cs"
    "\<And>a v. a \<in> set as \<Longrightarrow> bl_encAnn L a = Some v \<Longrightarrow> holdsAnn L a v"
    "\<forall>a \<in> set as. plain_name (a_MessageSerial a) \<and> plain_name (a_Serial a)"
  shows "db_rel L items n db' (foldl (indexAnnotation s) cs as)"
  using assms(2-5)
proof (induction as arbitrary: db cs)
  case (Cons a as)
  obtain db1 where d: "putAnnotation L n s db a = Inr db1" "foldE (putAnnotation L n s) db1 as = Inr db'"
    using Cons.prems(1) by auto
  have "db_rel L items n db1 (indexAnnotation s cs a)"
    using annotation_rel [OF assms(1) d(1) Cons.prems(2)] Cons.prems(3,4) by simp
  with Cons.IH [OF d(2)] Cons.prems(3,4) show ?case by simp
qed simp

lemma presences_rel:
  assumes "bolt_laws L items" "foldE (\<lambda>d p. putID L n s (p_ID p) d) db ps = Inr db'" "db_rel L items n db cs"
  shows "db_rel L items n db' (foldl (indexPresence s) cs ps)"
  using assms(2,3)
proof (induction ps arbitrary: db cs)
  case (Cons p ps)
  obtain db1 where d: "putID L n s (p_ID p) db = Inr db1" "foldE (\<lambda>d p. putID L n s (p_ID p) d) db1 ps = Inr db'"
    using Cons.prems(1) by auto
  have "db_rel L items n db1 (indexPresence s cs p)"
    using indexID_rel [OF assms(1) d(1) Cons.prems(2)] by (simp add: db_rel_def indexPresence_def Let_def)
  with Cons.IH [OF d(2)] show ?case by simp
qed simp

text \<open>The summary fold. The projection holds what the memory's holds, so it decodes.\<close>

definition all_trip :: "('b, 'v) boltlib \<Rightarrow> channelStore \<Rightarrow> bool" where
  "all_trip L cs \<longleftrightarrow> (\<forall>s m. map_of (cs_latest cs) s = Some m \<longrightarrow> tripping L m)"

abbreviation latest_rel :: "('b, 'v) boltlib \<Rightarrow> ('b \<Rightarrow> (string \<times> 'v) list) \<Rightarrow> string \<Rightarrow> 'b \<Rightarrow> channelStore \<Rightarrow> bool" where
  "latest_rel L items n b cs \<equiv> vrel items (holdsMsg L) (map_of (cs_latest cs)) b (channelPrefix n)"

lemma foldSummary_sim:
  assumes "bolt_laws L items" "latest_rel L items n b cs" "all_trip L cs" "foldSummary a cs = (a1, cs1)"
  shows "(\<exists>e. foldSummaryTx L n a b = Inl e \<and> lib_error e) \<or>
    (\<exists>b1. foldSummaryTx L n a b = Inr (b1, a1) \<and> latest_rel L items n b1 cs1 \<and> all_trip L cs1)"
proof (cases "map_of (cs_latest cs) (a_MessageSerial a)")
  case None
  then have "bl_Get L b (channelKey n (a_MessageSerial a)) = None"
    using vrel_get [OF assms(1,2), of "a_MessageSerial a"] by (simp add: key_prefix(1))
  with None assms show ?thesis by (simp add: foldSummaryTx_def foldSummary_def)
next
  case (Some m)
  then obtain v where v: "bl_Get L b (channelKey n (a_MessageSerial a)) = Some v" "bl_decMsg L v = Some m"
    using vrel_get [OF assms(1,2), of "a_MessageSerial a"] by (auto simp: key_prefix(1) option_rel_Some1 holdsMsg_def)
  let ?m = "m\<lparr>m_Summary := Apply (m_Summary m) a\<rparr>"
  have t: "tripping L ?m" using Some assms(3) unfolding all_trip_def by (intro tripping_upd) blast
  have f: "a1 = a\<lparr>a_Summary := Apply (m_Summary m) a\<rparr>"
    "cs1 = cs\<lparr>cs_latest := gput (a_MessageSerial a) ?m (cs_latest cs)\<rparr>"
    using assms(4) Some by (simp_all add: foldSummary_def Let_def)
  have tr: "all_trip L cs1" using t assms(3) by (simp add: all_trip_def f(2))
  show ?thesis
  proof (cases "Option.bind (bl_encMsg L ?m) (\<lambda>u. bl_Put L (channelPrefix n @ a_MessageSerial a) u b)")
    case None
    then show ?thesis
      by (auto simp: foldSummaryTx_def v [unfolded key_prefix(1)] key_prefix(1) tryE_def orE_def Let_def split: option.splits)
  next
    case (Some b1)
    then obtain u where u: "bl_encMsg L ?m = Some u" "bl_Put L (channelPrefix n @ a_MessageSerial a) u b = Some b1"
      by (auto simp: bind_eq_Some_conv)
    have "holdsMsg L ?m u" using tripping_self [OF t u(1)] by (simp add: holdsMsg_def)
    with vrel_put [OF assms(1) u(2) assms(2)] have "latest_rel L items n b1 cs1" by (simp add: f(2))
    with tr show ?thesis using v u by (simp add: foldSummaryTx_def f(1) key_prefix(1) tryE_def orE_def Let_def)
  qed
qed

lemma foldAnnotations_sim:
  assumes "bolt_laws L items" "latest_rel L items n b cs" "all_trip L cs" "foldAnnotations s i as cs = (as1, cs1)"
  shows "(\<exists>e. foldAllTx L n s i as b = Inl e \<and> lib_error e) \<or>
    (\<exists>b1. foldAllTx L n s i as b = Inr (b1, as1) \<and> latest_rel L items n b1 cs1)"
  using assms(2-4)
proof (induction as arbitrary: i b cs as1)
  case (Cons a as)
  let ?a = "a\<lparr>a_Serial := MessageSerial s (int i)\<rparr>"
  obtain a1 cs2 where f: "foldSummary ?a cs = (a1, cs2)" by fastforce
  obtain as2 where r: "foldAnnotations s (Suc i) as cs2 = (as2, cs1)" "as1 = a1 # as2"
    using Cons.prems(3) f by (auto split: prod.splits)
  from foldSummary_sim [OF assms(1) Cons.prems(1,2) f] show ?case
  proof (elim disjE exE conjE)
    fix b1 assume b1: "foldSummaryTx L n ?a b = Inr (b1, a1)" "latest_rel L items n b1 cs2" "all_trip L cs2"
    from Cons.IH [OF b1(2,3) r(1)] show ?thesis by (auto simp: b1(1) r(2) tryE_def)
  qed (auto simp: tryE_def)
qed simp

text \<open>The idempotency loop.\<close>

lemma boltSeen_sim:
  assumes "bolt_laws L items" "db_rel L items n db cs" "mem_inv (g, cs)"
  shows "boltSeen L n db is = Inr (case seenID (cs_byID cs) is of None \<Rightarrow> None
    | Some s \<Rightarrow> map_option strip_cm (map_of (cs_byCS cs) s))"
proof (induction "is")
  case (Cons i "is")
  have I: "rel_option (holdsStr L) (map_of (cs_byID cs) i) (bl_Get L (db_ids db) (channelKey n i))"
    using assms(2) by (auto simp: db_rel_def db_maps_def key_prefix(1) intro: vrel_get [OF assms(1)])
  have M: "rel_option (holdsCM L) (map_of (cs_byCS cs) s) (bl_Get L (db_messages db) (channelKey n s))" for s
    using assms(2) by (auto simp: db_rel_def db_maps_def key_prefix(1) intro: vrel_get [OF assms(1)])
  show ?case
  proof (cases "map_of (cs_byID cs) i")
    case (Some s)
    then obtain v where v: "bl_Get L (db_ids db) (channelKey n i) = Some v" "bl_string L v = s"
      using I by (auto simp: option_rel_Some1 holdsStr_def)
    have "i \<noteq> []" "s \<in> set (cs_order cs)" using Some assms(3) by (auto simp: mem_inv_def index_inv_def)
    then obtain cm where cm: "map_of (cs_byCS cs) s = Some cm" using assms(3) by (fastforce simp: mem_inv_def log_inv_def)
    with M [of s] obtain w where "bl_Get L (db_messages db) (channelKey n s) = Some w" "bl_decCM L w = Some (strip_cm cm)"
      by (auto simp: option_rel_Some1 holdsCM_def)
    with v cm Some \<open>i \<noteq> []\<close> show ?thesis by (simp add: tryE_def orE_def)
  qed (use I Cons in auto)
qed simp

section \<open>One write\<close>

text \<open>Both channels at work: the generator is shared, the file holds the store's maps, and the
  presence set and the live list are equal.\<close>

definition chan_rel :: "('b, 'v) boltlib \<Rightarrow> ('b \<Rightarrow> (string \<times> 'v) list) \<Rightarrow> string \<Rightarrow> 'b bolt_state \<Rightarrow> store_state \<Rightarrow> bool" where
  "chan_rel L items n st st2 \<longleftrightarrow> (case st of (db, g, bc) \<Rightarrow> case st2 of (g2, cs) \<Rightarrow>
     g = g2 \<and> db_rel L items n db cs \<and> bc_members bc = cs_members cs \<and> bc_appender bc = cs_appender cs)"

text \<open>A fresh ChannelMessage is answered as it is, the original of a duplicate as it was persisted.\<close>

fun agree :: "bolt_result \<Rightarrow> store_result \<Rightarrow> bool" where
  "agree (Inl (BoltErr e)) (Inl e2) = (e = e2)"
| "agree (Inr (cm, b)) (Inr (Some cm2, b2)) = (b = b2 \<and> cm = (if b then strip_cm cm2 else cm2))"
| "agree _ _ = False"

text \<open>A library failure leaves the file and the channel as they were; a serial may have been minted.\<close>

definition failed :: "int \<Rightarrow> 'b bolt_state \<Rightarrow> 'b bolt_state \<times> bolt_result \<Rightarrow> bool" where
  "failed now st x \<longleftrightarrow> (case st of (db, g, bc) \<Rightarrow>
     \<exists>e g1. x = ((db, g1, bc), Inl e) \<and> lib_error e \<and> (g1 = g \<or> g1 = advance now g))"

definition outcome :: "('b, 'v) boltlib \<Rightarrow> ('b \<Rightarrow> (string \<times> 'v) list) \<Rightarrow> string \<Rightarrow> int \<Rightarrow> 'b bolt_state \<Rightarrow>
    'b bolt_state \<times> bolt_result \<Rightarrow> store_state \<times> store_result \<Rightarrow> bool" where
  "outcome L items n now st x y \<longleftrightarrow>
     failed now st x \<or> agree (snd x) (snd y) \<and> chan_rel L items n (fst x) (fst y)"

text \<open>What is known when a write starts, and the result of its transaction.\<close>

definition ready :: "('b, 'v) boltlib \<Rightarrow> ('b \<Rightarrow> (string \<times> 'v) list) \<Rightarrow> (ChannelMessage \<Rightarrow> bool) \<Rightarrow> string \<Rightarrow> int \<Rightarrow>
    'b bolt_state \<Rightarrow> channelStore \<Rightarrow> bool" where
  "ready L items K n now st cs \<longleftrightarrow> (case st of (db, g, bc) \<Rightarrow>
     bolt_laws L items \<and> codec_keeps L K \<and> chan_rel L items n st (g, cs) \<and> mem_inv (g, cs) \<and> clock_ok now g \<and>
     plain_name (seriesID g) \<and> (\<forall>cm \<in> set (log_of cs). K cm))"

lemma readyD:
  assumes "ready L items K n now (db, g, bc) cs"
  shows "bolt_laws L items" "codec_keeps L K" "db_rel L items n db cs" "bc_members bc = cs_members cs"
    "bc_appender bc = cs_appender cs" "mem_inv (g, cs)" "clock_ok now g" "plain_name (seriesID g)"
    "cm \<in> set (log_of cs) \<Longrightarrow> K cm"
  using assms by (auto simp: ready_def chan_rel_def)

lemma ready_trip: "ready L items K n now (db, g, bc) cs \<Longrightarrow> all_trip L cs"
proof -
  assume a: "ready L items K n now (db, g, bc) cs"
  have "tripping L m" if m: "map_of (cs_latest cs) s = Some m" for s m
  proof -
    let ?vs = "log_versions (log_of cs) s"
    obtain z where z: "?vs \<noteq> []" "m = (last ?vs)\<lparr>m_Summary := z\<rparr>"
      using readyD(6) [OF a] m by (auto simp: mem_inv_def derived_inv_def log_latest_def split: if_splits)
    then have "last ?vs \<in> set (log_messages (log_of cs))" using last_in_set [of ?vs] by (auto simp: log_versions_def)
    then obtain cm where "cm \<in> set (log_of cs)" "last ?vs \<in> set (cm_Messages cm)" by (auto simp: log_messages_def)
    with codec_keepsD(2) [OF readyD(2,9) [OF a]] have "tripping L (last ?vs)" unfolding tripping_def by blast
    with z(2) show ?thesis by (simp add: tripping_upd)
  qed
  then show ?thesis by (simp add: all_trip_def)
qed

text \<open>The common end of a write: the transaction, the fold of the members, the delivery.\<close>

definition settle :: "(ChannelMessage \<Rightarrow> (string, PresenceMessage) gomap) \<Rightarrow> bool \<Rightarrow>
    ('b boltDB \<Rightarrow> Generator \<Rightarrow> Generator \<times> (bolt_error + ('b boltDB \<times> ChannelMessage \<times> bool))) \<Rightarrow>
    'b bolt_state \<Rightarrow> 'b bolt_state \<times> bolt_result" where
  "settle M commitErr tx st = (case st of (db, g, bc) \<Rightarrow>
     case dbUpdate commitErr tx db g of (db', g', r) \<Rightarrow> ((db', g', boltDeliver r
       (case r of Inr (cm, False) \<Rightarrow> bc\<lparr>bc_members := M cm\<rparr> | _ \<Rightarrow> bc)), r))"

lemma settle_plain: "(case dbUpdate commitErr tx db g of (db', g', r) \<Rightarrow> ((db', g', boltDeliver r bc), r)) =
    settle (\<lambda>_. bc_members bc) commitErr tx (db, g, bc)"
proof -
  have "(case r of Inr (cm, False) \<Rightarrow> bc\<lparr>bc_members := bc_members bc\<rparr> | _ \<Rightarrow> bc) = bc" for r :: bolt_result
    by (auto split: sum.splits bool.splits)
  then show ?thesis by (simp add: settle_def)
qed

lemma settle_cases:
  assumes "tx db g = (g1, t)"
  shows "settle M commitErr tx (db, g, bc) = (case t of
      Inl e \<Rightarrow> ((db, g1, bc), Inl e)
    | Inr (db1, cm, b) \<Rightarrow> if commitErr then ((db, g1, bc), Inl ErrBoltCommit)
        else ((db1, g1, if b then bc else bc\<lparr>bc_members := M cm, bc_appender := map_option (Append cm) (bc_appender bc)\<rparr>),
              Inr (cm, b)))"
  using assms by (auto simp: settle_def dbUpdate_def boltDeliver_def split: sum.splits bool.splits)

lemma err_outcome:
  assumes "tx db g = (g1, Inl (BoltErr e))" "chan_rel L items n (db, g, bc) (g, cs)"
  shows "outcome L items n now (db, g, bc) (settle M commitErr tx (db, g, bc)) ((g1, cs), Inl e)"
  using assms(2) by (simp add: settle_cases [where tx = tx, OF assms(1)] outcome_def chan_rel_def)

lemma lib_outcome:
  assumes "tx db g = (g1, Inl e)" "lib_error e" "g1 = g \<or> g1 = advance now g"
  shows "outcome L items n now (db, g, bc) (settle M commitErr tx (db, g, bc)) y"
  using assms(2,3) by (auto simp: settle_cases [where tx = tx, OF assms(1)] outcome_def failed_def)

lemma dup_outcome:
  assumes "tx db g = (g, Inr (db, strip_cm cm, True))" "chan_rel L items n (db, g, bc) (g, cs)"
  shows "outcome L items n now (db, g, bc) (settle M commitErr tx (db, g, bc)) ((g, cs), Inr (Some cm, True))"
  using assms(2) by (simp add: settle_cases [where tx = tx, OF assms(1)] outcome_def chan_rel_def failed_def)

lemma new_outcome:
  assumes "tx db g = (g1, Inr (db1, cm, False))" "g1 = advance now g" "db_rel L items n db1 cs2"
    "M cm = cs_members cs2" "map_option (Append cm) (bc_appender bc) = cs_appender cs2"
  shows "outcome L items n now (db, g, bc) (settle M commitErr tx (db, g, bc)) ((g1, cs2), Inr (Some cm, False))"
  using assms(2-) by (simp add: settle_cases [where tx = tx, OF assms(1)] outcome_def chan_rel_def failed_def)

lemma fresh_outcome:
  assumes "tx db g = (advance now g, t)" "\<And>e. t = Inl e \<Longrightarrow> lib_error e"
    "\<And>u. t = Inr u \<Longrightarrow> \<exists>db1. u = (db1, cm, False) \<and> (K cm \<longrightarrow> db_rel L items n db1 cs2)"
    "M cm = cs_members cs2" "map_option (Append cm) (bc_appender bc) = cs_appender cs2"
    "\<forall>cm. snd (settle M commitErr tx (db, g, bc)) = Inr (cm, False) \<longrightarrow> K cm"
  shows "outcome L items n now (db, g, bc) (settle M commitErr tx (db, g, bc)) ((advance now g, cs2), Inr (Some cm, False))"
proof (cases t)
  case (Inl e)
  with lib_outcome [where tx = tx] assms(1,2) show ?thesis by fastforce
next
  case (Inr u)
  then obtain db1 where u: "u = (db1, cm, False)" "K cm \<longrightarrow> db_rel L items n db1 cs2" using assms(3) by blast
  show ?thesis
  proof (cases commitErr)
    case True
    with u Inr show ?thesis by (simp add: settle_cases [where tx = tx, OF assms(1)] outcome_def failed_def)
  next
    case False
    with assms(6) u Inr have "K cm" by (simp add: settle_cases [where tx = tx, OF assms(1)])
    with new_outcome [where tx = tx] u Inr assms(1,4,5) show ?thesis by fastforce
  qed
qed

lemma seen_cases:
  assumes "ready L items K n now (db, g, bc) cs"
  obtains "seenID (cs_byID cs) is = None" "boltSeen L n db is = Inr None"
  | s cm where "seenID (cs_byID cs) is = Some s" "map_of (cs_byCS cs) s = Some cm" "boltSeen L n db is = Inr (Some (strip_cm cm))"
proof (cases "seenID (cs_byID cs) is")
  case None
  with boltSeen_sim [OF readyD(1,3,6) [OF assms], of "is"] that(1) show ?thesis by simp
next
  case (Some s)
  then obtain cm where "map_of (cs_byCS cs) s = Some cm" using dup_logged [OF readyD(6) [OF assms]] by blast
  with Some boltSeen_sim [OF readyD(1,3,6) [OF assms], of "is"] that(2) show ?thesis by simp
qed

lemma ready_rel: "ready L items K n now (db, g, bc) cs \<Longrightarrow> chan_rel L items n (db, g, bc) (g, cs)"
  by (simp add: ready_def)

text \<open>A fresh write appends a ChannelMessage with a fresh serial.\<close>

lemma fresh_serial:
  assumes "ready L items K n now (db, g, bc) cs" "exec ctxErr now op (g, cs) = ((g1, cs1), Inr (Some cm, False))"
  shows "cm_ChannelSerial cm \<notin> set (cs_order cs)" "plain_name (cm_ChannelSerial cm)"
proof -
  have e: "ext_step now g cs cm cs1" by (rule exec_fresh [OF readyD(6,7) [OF assms(1)] assms(2)]) simp
  note c = ext_stepD(3) [OF e]
  from ext_fresh [OF e] show "cm_ChannelSerial cm \<notin> set (cs_order cs)" .
  show "plain_name (cm_ChannelSerial cm)" unfolding c by (rule plain_new [OF readyD(7,8) [OF assms(1)]])
qed

subsection \<open>Presence\<close>

lemma Presence_sim:
  assumes r: "ready L items K n now (db, g, bc) cs" and x: "StorePresence ctxErr now ps (g, cs) = (st2, r2)"
    and K: "\<forall>cm. snd (boltStorePresence L ctxErr commitErr now n ps (db, g, bc)) = Inr (cm, False) \<longrightarrow> K cm"
  shows "outcome L items n now (db, g, bc) (boltStorePresence L ctxErr commitErr now n ps (db, g, bc)) (st2, r2)"
proof (cases "ps = [] \<or> ctxErr")
  case True
  with x ready_rel [OF r] show ?thesis by (auto simp: StorePresence_def boltStorePresence_def outcome_def)
next
  case False
  let ?M = "\<lambda>cm. foldl foldMember (bc_members bc) (cm_Presence cm)"
  have b: "boltStorePresence L ctxErr commitErr now n ps (db, g, bc) =
      settle ?M commitErr (boltPresenceTx L n now ps) (db, g, bc)"
    using False by (simp add: boltStorePresence_def settle_def Let_def)
  note mint = Mint_render [OF readyD(7) [OF r]]
  show ?thesis unfolding b
  proof (rule seen_cases [OF r, of "map p_ID ps"])
    fix s cm assume "seenID (cs_byID cs) (map p_ID ps) = Some s" "map_of (cs_byCS cs) s = Some cm"
      "boltSeen L n db (map p_ID ps) = Inr (Some (strip_cm cm))"
    then show "outcome L items n now (db, g, bc) (settle ?M commitErr (boltPresenceTx L n now ps) (db, g, bc)) (st2, r2)"
      using dup_outcome [where tx = "boltPresenceTx L n now ps", OF _ ready_rel [OF r]] False x
      by (auto simp: StorePresence_def boltPresenceTx_def)
  next
    assume s: "seenID (cs_byID cs) (map p_ID ps) = None" "boltSeen L n db (map p_ID ps) = Inr None"
    define ser where "ser = render (gen_ts (advance now g))"
    define ps1 where "ps1 = stampPresence ser 0 ps"
    define cm where "cm = zeroChannelMessage\<lparr>cm_ChannelSerial := ser, cm_Presence := ps1\<rparr>"
    define cs2 where "cs2 = deliver cm (foldl (indexPresence ser) (logCM cm cs) ps1)"
    have y: "st2 = (advance now g, cs2)" "r2 = Inr (Some cm, False)"
      using x False s by (auto simp: StorePresence_def mint Let_def ser_def ps1_def cm_def cs2_def)
    have pres: "cm_Presence cm = ps1" by (simp add: cm_def)
    let ?t = "tryE (putCM L n cm db) (\<lambda>db1. tryE (foldE (\<lambda>d p. putID L n ser (p_ID p) d) db1 ps1) (\<lambda>db2. Inr (db2, cm, False)))"
    have tx: "boltPresenceTx L n now ps db g = (advance now g, ?t)"
      using s by (simp add: boltPresenceTx_def mint Let_def ser_def ps1_def cm_def)
    show "outcome L items n now (db, g, bc) (settle ?M commitErr (boltPresenceTx L n now ps) (db, g, bc)) (st2, r2)"
      unfolding y
    proof (rule fresh_outcome [where tx = "boltPresenceTx L n now ps", OF tx])
      show "?t = Inl e \<Longrightarrow> lib_error e" for e unfolding tryE_simps using put_errors(1) loop_errors(3) by blast
      show "\<exists>db1. u = (db1, cm, False) \<and> (K cm \<longrightarrow> db_rel L items n db1 cs2)" if "?t = Inr u" for u
        using that presences_rel [OF readyD(1) [OF r] _ logCM_rel [OF readyD(1,2) [OF r] _ _ readyD(3) [OF r]]]
        by (auto simp: cs2_def)
    qed (use readyD(4,5) [OF r] in \<open>simp_all add: cs2_def pres indexPresences_maps K [unfolded b]\<close>)
  qed
qed

subsection \<open>Store\<close>

lemma Store_sim:
  assumes r: "ready L items K n now (db, g, bc) cs" and x: "Store ctxErr now fresh msgs (g, cs) = (st2, r2)"
    and K: "\<forall>cm. snd (boltStore L ctxErr commitErr now fresh n msgs (db, g, bc)) = Inr (cm, False) \<longrightarrow> K cm"
  shows "outcome L items n now (db, g, bc) (boltStore L ctxErr commitErr now fresh n msgs (db, g, bc)) (st2, r2)"
proof (cases "msgs = [] \<or> ctxErr \<or> (\<exists>e. StampMessageIDs fresh msgs = Inl e)")
  case True
  with x ready_rel [OF r] show ?thesis by (auto simp: Store_def boltStore_def outcome_def)
next
  case False
  then obtain batch msgs1 where st: "StampMessageIDs fresh msgs = Inr (batch, msgs1)"
    by (metis old.sum.exhaust surj_pair)
  let ?M = "\<lambda>_ :: ChannelMessage. bc_members bc" and ?tx = "boltStoreTx L n now batch msgs1"
  have b: "boltStore L ctxErr commitErr now fresh n msgs (db, g, bc) = settle ?M commitErr ?tx (db, g, bc)"
    using False st by (simp add: boltStore_def settle_plain)
  note mint = Mint_render [OF readyD(7) [OF r]]
  show ?thesis unfolding b
  proof (rule seen_cases [OF r, of "map m_ID msgs1"])
    fix s cm assume "seenID (cs_byID cs) (map m_ID msgs1) = Some s" "map_of (cs_byCS cs) s = Some cm"
      "boltSeen L n db (map m_ID msgs1) = Inr (Some (strip_cm cm))"
    then show "outcome L items n now (db, g, bc) (settle ?M commitErr ?tx (db, g, bc)) (st2, r2)"
      using dup_outcome [where tx = ?tx, OF _ ready_rel [OF r]] False st x
      by (auto simp: Store_def boltStoreTx_def)
  next
    assume s: "seenID (cs_byID cs) (map m_ID msgs1) = None" "boltSeen L n db (map m_ID msgs1) = Inr None"
    define ser where "ser = render (gen_ts (advance now g))"
    define ms where "ms = stampCreates ser 0 msgs1"
    define cm where "cm = zeroChannelMessage\<lparr>cm_ID := batch, cm_ChannelSerial := ser, cm_Messages := ms\<rparr>"
    define cs2 where "cs2 = deliver cm (foldl (indexCreate ser) (logCM cm cs) ms)"
    have y: "st2 = (advance now g, cs2)" "r2 = Inr (Some cm, False)"
      using x False st s by (auto simp: Store_def mint Let_def ser_def ms_def cm_def cs2_def)
    have "exec ctxErr now (OpStore fresh msgs) (g, cs) = ((advance now g, cs2), Inr (Some cm, False))" using x y by simp
    note c = fresh_serial [OF r this]
    have sel: "cm_Messages cm = ms" "cm_ChannelSerial cm = ser" by (simp_all add: cm_def)
    have new: "ser \<notin> set (cs_order cs)" "plain_name ser" using c sel by simp_all
    note st = stampCreates_sel [of ser 0 msgs1, folded ms_def]
    have num: "numbered ser (map m_Serial ms)" "numbered ser (map VersionSerial ms)"
      using st by (simp_all add: numbered_def)
    have "tripping L m \<and> plain_name (m_Serial m) \<and> plain_name (VersionSerial m) \<and> gget [] (cs_versions (logCM cm cs)) (m_Serial m) = []"
      if m: "m \<in> set ms" and Kcm: "K cm" for m
    proof -
      obtain i j where ij: "m_Serial m = MessageSerial ser (int i)" "VersionSerial m = MessageSerial ser (int j)"
        using num m unfolding numbered_def by (metis (no_types, lifting) imageE image_eqI list.set_map)
      have "log_versions (log_of cs) (m_Serial m) = []"
        using fresh_identity [OF _ new(1)] readyD(6) [OF r] by (simp add: ij mem_inv_def)
      then have "gget [] (cs_versions cs) (m_Serial m) = []"
        using readyD(6) [OF r] by (simp add: mem_inv_def derived_inv_def gget_def)
      with new(2) m codec_keepsD(2) [OF readyD(2) [OF r] Kcm] show ?thesis
        by (simp add: ij plain_MessageSerial tripping_def sel)
    qed
    then have ok: "K cm \<Longrightarrow> \<forall>m \<in> set ms. tripping L m \<and> plain_name (m_Serial m) \<and> plain_name (VersionSerial m) \<and>
        gget [] (cs_versions (logCM cm cs)) (m_Serial m) = []" by blast
    let ?t = "tryE (putCM L n cm db) (\<lambda>db1. tryE (foldE (\<lambda>d m. tryE (putID L n ser (m_ID m) d) (putVersion L n m)) db1 ms)
      (\<lambda>db2. Inr (db2, cm, False)))"
    have tx: "?tx db g = (advance now g, ?t)"
      using s by (simp add: boltStoreTx_def mint Let_def ser_def ms_def cm_def)
    show "outcome L items n now (db, g, bc) (settle ?M commitErr ?tx (db, g, bc)) (st2, r2)" unfolding y
    proof (rule fresh_outcome [where tx = ?tx, OF tx])
      show "?t = Inl e \<Longrightarrow> lib_error e" for e unfolding tryE_simps using put_errors(1) loop_errors(1) by blast
      show "\<exists>db1. u = (db1, cm, False) \<and> (K cm \<longrightarrow> db_rel L items n db1 cs2)" if "?t = Inr u" for u
        using that creates_rel [OF readyD(1) [OF r] _ logCM_rel [OF readyD(1,2) [OF r] _ _ readyD(3) [OF r]]
          numbered_distinct [OF num(1)]] ok unfolding cs2_def tryE_simps deliver_rel by auto
    qed (use readyD(4,5) [OF r] in \<open>simp_all add: cs2_def K [unfolded b]\<close>)
  qed
qed

subsection \<open>Mutate\<close>

lemma mutate_rel:
  assumes "bolt_laws L items" "putVersion L n v db = Inr db'" "db_rel L items n db cs" "tripping L v"
    "plain_name (m_Serial v)" "plain_name (VersionSerial v)"
  shows "db_rel L items n db' (cs\<lparr>cs_latest := gput (m_Serial v) v (cs_latest cs),
    cs_versions := gput (m_Serial v) (gget [] (cs_versions cs) (m_Serial v) @ [v]) (cs_versions cs)\<rparr>)"
proof -
  let ?G = "\<lambda>x. by_serial VersionSerial (gget [] (cs_versions cs) x)"
  have "(\<lambda>x. by_serial VersionSerial (gget [] (gput (m_Serial v) (gget [] (cs_versions cs) (m_Serial v) @ [v])
      (cs_versions cs)) x)) = ?G(m_Serial v := (?G (m_Serial v))(VersionSerial v \<mapsto> v))"
    by (auto simp: gget_gput)
  with putVersion_rel [OF assms(1,2,4-6) assms(3) [unfolded db_rel_def]] show ?thesis by (simp add: db_rel_def)
qed

lemma get_latest:
  assumes "bolt_laws L items" "db_rel L items n db cs"
  obtains "map_of (cs_latest cs) s = None" "bl_Get L (db_latest db) (channelKey n s) = None"
  | m v where "map_of (cs_latest cs) s = Some m" "bl_Get L (db_latest db) (channelKey n s) = Some v" "bl_decMsg L v = Some m"
proof -
  have "rel_option (holdsMsg L) (map_of (cs_latest cs) s) (bl_Get L (db_latest db) (channelKey n s))"
    using assms(2) by (auto simp: db_rel_def db_maps_def key_prefix(1) intro: vrel_get [OF assms(1)])
  with that show ?thesis by (cases "map_of (cs_latest cs) s") (auto simp: option_rel_Some1 holdsMsg_def)
qed

lemma Mutate_sim:
  assumes r: "ready L items K n now (db, g, bc) cs" and x: "Mutate ctxErr now mut (g, cs) = (st2, r2)"
    and K: "\<forall>cm. snd (boltMutate L ctxErr commitErr now n mut (db, g, bc)) = Inr (cm, False) \<longrightarrow> K cm"
  shows "outcome L items n now (db, g, bc) (boltMutate L ctxErr commitErr now n mut (db, g, bc)) (st2, r2)"
proof (cases "\<not> IsMutation (m_Action mut) \<or> m_Serial mut = [] \<or> ctxErr")
  case True
  with x ready_rel [OF r] show ?thesis by (auto simp: Mutate_def boltMutate_def outcome_def)
next
  case False
  let ?M = "\<lambda>_ :: ChannelMessage. bc_members bc" and ?tx = "boltMutateTx L n now mut"
  have b: "boltMutate L ctxErr commitErr now n mut (db, g, bc) = settle ?M commitErr ?tx (db, g, bc)"
    using False by (simp add: boltMutate_def settle_plain)
  note mint = Mint_render [OF readyD(7) [OF r]]
  note dup = dup_outcome [where tx = ?tx, OF _ ready_rel [OF r]] and err = err_outcome [where tx = ?tx, OF _ ready_rel [OF r]]
  define ser where "ser = render (gen_ts (advance now g))"
  show ?thesis unfolding b
  proof (rule seen_cases [OF r, of "[m_ID mut]"])
    fix s cm assume "seenID (cs_byID cs) [m_ID mut] = Some s" "map_of (cs_byCS cs) s = Some cm"
      "boltSeen L n db [m_ID mut] = Inr (Some (strip_cm cm))"
    then show "outcome L items n now (db, g, bc) (settle ?M commitErr ?tx (db, g, bc)) (st2, r2)"
      using dup False x unfolding Mutate_def boltMutateTx_def by auto
  next
    assume s: "seenID (cs_byID cs) [m_ID mut] = None" "boltSeen L n db [m_ID mut] = Inr None"
    show "outcome L items n now (db, g, bc) (settle ?M commitErr ?tx (db, g, bc)) (st2, r2)"
    proof (rule get_latest [OF readyD(1,3) [OF r], of "m_Serial mut"])
      assume "map_of (cs_latest cs) (m_Serial mut) = None" "bl_Get L (db_latest db) (channelKey n (m_Serial mut)) = None"
      with s False x err show ?thesis unfolding Mutate_def boltMutateTx_def by auto
    next
      fix cur v
      assume cur: "map_of (cs_latest cs) (m_Serial mut) = Some cur"
        and v: "bl_Get L (db_latest db) (channelKey n (m_Serial mut)) = Some v" "bl_decMsg L v = Some cur"
      show ?thesis
      proof (cases "MergeVersion cur mut (MessageSerial ser 0)")
        case (Inl e)
        then have "?tx db g = (advance now g, Inl (BoltErr e))" using s v by (simp add: boltMutateTx_def mint ser_def)
        moreover have "st2 = (advance now g, cs)" "r2 = Inl e"
          using x False s cur Inl by (simp_all add: Mutate_def mint ser_def)
        ultimately show ?thesis using err by simp
      next
        case (Inr version)
        define cm where "cm = zeroChannelMessage\<lparr>cm_ChannelSerial := ser, cm_Messages := [version]\<rparr>"
        define cs1 where "cs1 = indexID (m_ID mut) ser (logCM cm cs)"
        define cs2 where "cs2 = deliver cm (cs1\<lparr>cs_latest := gput (m_Serial mut) version (cs_latest cs1),
          cs_versions := gput (m_Serial mut) (gget [] (cs_versions cs1) (m_Serial mut) @ [version]) (cs_versions cs1)\<rparr>)"
        have y: "st2 = (advance now g, cs2)" "r2 = Inr (Some cm, False)"
          using x False s cur Inr by (simp_all add: Mutate_def mint Let_def ser_def cm_def cs1_def cs2_def)
        have "exec ctxErr now (OpMutate mut) (g, cs) = ((advance now g, cs2), Inr (Some cm, False))" using x y by simp
        note c = fresh_serial [OF r this]
        have sel: "cm_Messages cm = [version]" "cm_ChannelSerial cm = ser" by (simp_all add: cm_def)
        have new: "plain_name ser" using c sel by simp_all
        have d: "derived_inv cs" "log_inv cs" using readyD(6) [OF r] by (simp_all add: mem_inv_def)
        have ser: "m_Serial version = m_Serial mut"
          using MergeVersion_carries(2) [OF Inr] latest_version_facts(2) [OF d cur] by simp
        have "VersionSerial version = MessageSerial ser (int 0)" using VersionSerial_merged [OF Inr] by simp
        then have ok: "plain_name (m_Serial version)" "plain_name (VersionSerial version)"
          using new plain_latest [OF readyD(6,8) [OF r] cur] by (simp_all only: plain_MessageSerial ser)
        have trip: "K cm \<Longrightarrow> tripping L version"
          using codec_keepsD(2) [OF readyD(2) [OF r]] by (simp add: tripping_def sel)
        let ?t = "tryE (putCM L n cm db) (\<lambda>db1. tryE (putID L n ser (m_ID mut) db1) (\<lambda>db2.
          tryE (putVersion L n version db2) (\<lambda>db3. Inr (db3, cm, False))))"
        have tx: "?tx db g = (advance now g, ?t)"
          using s v Inr by (simp add: boltMutateTx_def mint Let_def ser_def cm_def)
        show ?thesis unfolding y
        proof (rule fresh_outcome [where tx = ?tx, OF tx])
          show "?t = Inl e \<Longrightarrow> lib_error e" for e unfolding tryE_simps using put_errors by blast
          show "\<exists>db1. u = (db1, cm, False) \<and> (K cm \<longrightarrow> db_rel L items n db1 cs2)" if "?t = Inr u" for u
            using that mutate_rel [OF readyD(1) [OF r] _ indexID_rel [OF readyD(1) [OF r] _
              logCM_rel [OF readyD(1,2) [OF r] _ _ readyD(3) [OF r]]] _ ok] trip
            unfolding cs2_def cs1_def tryE_simps deliver_rel ser by auto
        qed (use readyD(4,5) [OF r] in \<open>simp_all add: cs2_def cs1_def K [unfolded b]\<close>)
      qed
    qed
  qed
qed

subsection \<open>Annotations\<close>

lemma foldAnnotations_rel:
  assumes "foldAnnotations s i as cs = (as1, cs1)" "db_rel L items n db cs" "latest_rel L items n b cs1"
  shows "db_rel L items n (db\<lparr>db_latest := b\<rparr>) cs1"
  using assms(2,3) foldAnnotations_sel [OF assms(1)] by (simp add: db_rel_def db_maps_def)

lemma targets_plain:
  assumes "ready L items K n now (db, g, bc) cs" "foldAnnotations s 0 anns cs = (anns1, cs1)" "plain_name s"
    and "\<forall>a \<in> set anns. map_of (cs_latest cs) (a_MessageSerial a) \<noteq> None"
  shows "\<forall>a \<in> set anns1. plain_name (a_MessageSerial a) \<and> plain_name (a_Serial a)"
proof
  fix a assume a: "a \<in> set anns1"
  note sel = foldAnnotations_sel [OF assms(2)]
  have "a_MessageSerial a \<in> set (map a_MessageSerial anns)" using a sel by (metis image_eqI list.set_map)
  then obtain m where "map_of (cs_latest cs) (a_MessageSerial a) = Some m" using assms(4) by fastforce
  moreover have "a_Serial a \<in> set (map (\<lambda>i. MessageSerial s (int i)) [0 ..< 0 + length anns])"
    using a sel by (metis image_eqI list.set_map)
  ultimately show "plain_name (a_MessageSerial a) \<and> plain_name (a_Serial a)"
    using plain_latest [OF readyD(6,8) [OF assms(1)]] assms(3) by (auto simp: plain_MessageSerial)
qed

lemma Annotation_sim:
  assumes r: "ready L items K n now (db, g, bc) cs" and x: "StoreAnnotation ctxErr now anns (g, cs) = (st2, r2)"
    and K: "\<forall>cm. snd (boltStoreAnnotation L ctxErr commitErr now n anns (db, g, bc)) = Inr (cm, False) \<longrightarrow> K cm"
  shows "outcome L items n now (db, g, bc) (boltStoreAnnotation L ctxErr commitErr now n anns (db, g, bc)) (st2, r2)"
proof (cases "anns = [] \<or> ctxErr")
  case True
  with x ready_rel [OF r] show ?thesis by (auto simp: StoreAnnotation_def boltStoreAnnotation_def outcome_def)
next
  case False
  let ?M = "\<lambda>_ :: ChannelMessage. bc_members bc" and ?tx = "boltAnnotationTx L n now anns"
  have eq: "boltStoreAnnotation L ctxErr commitErr now n anns (db, g, bc) = settle ?M commitErr ?tx (db, g, bc)"
    using False by (simp add: boltStoreAnnotation_def settle_plain)
  note mint = Mint_render [OF readyD(7) [OF r]]
  have get: "bl_Get L (db_latest db) (channelKey n t) = None \<longleftrightarrow> map_of (cs_latest cs) t = None" for t
    by (rule get_latest [OF readyD(1,3) [OF r], of t]) simp_all
  let ?missing = "list_ex (\<lambda>a. map_of (cs_latest cs) (a_MessageSerial a) = None) anns"
  show ?thesis unfolding eq
  proof (rule seen_cases [OF r, of "map a_ID anns"])
    fix s cm assume "seenID (cs_byID cs) (map a_ID anns) = Some s" "map_of (cs_byCS cs) s = Some cm"
      "boltSeen L n db (map a_ID anns) = Inr (Some (strip_cm cm))"
    then show "outcome L items n now (db, g, bc) (settle ?M commitErr ?tx (db, g, bc)) (st2, r2)"
      using dup_outcome [where tx = ?tx, OF _ ready_rel [OF r]] False x
      unfolding StoreAnnotation_def boltAnnotationTx_def by auto
  next
    assume s: "seenID (cs_byID cs) (map a_ID anns) = None" "boltSeen L n db (map a_ID anns) = Inr None"
    show "outcome L items n now (db, g, bc) (settle ?M commitErr ?tx (db, g, bc)) (st2, r2)"
    proof (cases ?missing)
      case True
      then have "?tx db g = (g, Inl (BoltErr ErrTargetNotFound))" using s by (simp add: boltAnnotationTx_def get)
      moreover have "st2 = (g, cs)" "r2 = Inl ErrTargetNotFound" using x False s True by (simp_all add: StoreAnnotation_def)
      ultimately show ?thesis using err_outcome [where tx = ?tx, OF _ ready_rel [OF r]] by simp
    next
      case tgt: False
      define ser where "ser = render (gen_ts (advance now g))"
      obtain anns1 cs1 where f: "foldAnnotations ser 0 anns cs = (anns1, cs1)" by fastforce
      define cm where "cm = zeroChannelMessage\<lparr>cm_ChannelSerial := ser, cm_Annotations := anns1\<rparr>"
      define cs2 where "cs2 = deliver cm (foldl (indexAnnotation ser) (logCM cm cs1) anns1)"
      have y: "st2 = (advance now g, cs2)" "r2 = Inr (Some cm, False)"
        using x False s tgt f by (simp_all add: StoreAnnotation_def mint Let_def ser_def cm_def cs2_def)
      have "exec ctxErr now (OpAnnotation anns) (g, cs) = ((advance now g, cs2), Inr (Some cm, False))" using x y by simp
      note c = fresh_serial [OF r this]
      have sel: "cm_Annotations cm = anns1" "cm_ChannelSerial cm = ser" by (simp_all add: cm_def)
      have new: "plain_name ser" using c sel by simp_all
      have pl: "\<forall>a \<in> set anns1. plain_name (a_MessageSerial a) \<and> plain_name (a_Serial a)"
        by (rule targets_plain [OF r f new]) (use tgt in \<open>auto simp: list_ex_iff\<close>)
      have ann: "K cm \<Longrightarrow> a \<in> set anns1 \<Longrightarrow> bl_encAnn L a = Some v \<Longrightarrow> holdsAnn L a v" for a v
        using codec_keepsD(3) [OF readyD(2) [OF r]] by (simp add: sel holdsAnn_def)
      let ?put = "\<lambda>b. tryE (putCM L n cm (db\<lparr>db_latest := b\<rparr>)) (\<lambda>db1.
        tryE (foldE (putAnnotation L n ser) db1 anns1) (\<lambda>db2. Inr (db2, cm, False)))"
      have lr: "latest_rel L items n (db_latest db) cs" using readyD(3) [OF r] by (simp add: db_rel_def db_maps_def)
      from foldAnnotations_sim [OF readyD(1) [OF r] lr ready_trip [OF r] f] show ?thesis
      proof (elim disjE exE conjE)
        fix e assume e: "foldAllTx L n ser 0 anns (db_latest db) = Inl e" "lib_error e"
        then have "?tx db g = (advance now g, Inl e)"
          using s tgt by (simp add: boltAnnotationTx_def get mint ser_def tryE_def)
        with lib_outcome [where tx = ?tx] e(2) show ?thesis by blast
      next
        fix b assume b: "foldAllTx L n ser 0 anns (db_latest db) = Inr (b, anns1)" "latest_rel L items n b cs1"
        then have tx: "?tx db g = (advance now g, ?put b)"
          using s tgt by (simp add: boltAnnotationTx_def get mint ser_def cm_def Let_def tryE_def [of "Inr _"])
        note d = foldAnnotations_rel [OF f readyD(3) [OF r] b(2)]
        show ?thesis unfolding y
        proof (rule fresh_outcome [where tx = ?tx, OF tx])
          show "?put b = Inl e \<Longrightarrow> lib_error e" for e unfolding tryE_simps using put_errors(1) loop_errors(2) by blast
          show "\<exists>db1. u = (db1, cm, False) \<and> (K cm \<longrightarrow> db_rel L items n db1 cs2)" if "?put b = Inr u" for u
            using that annotations_rel [OF readyD(1) [OF r] _ logCM_rel [OF readyD(1,2) [OF r] _ _ d] _ pl] ann
            unfolding cs2_def tryE_simps deliver_rel by auto
        qed (use readyD(4,5) [OF r] foldAnnotations_sel [OF f] in \<open>simp_all add: cs2_def K [unfolded eq]\<close>)
      qed
    qed
  qed
qed

section \<open>Any write\<close>

fun boltExec :: "('b, 'v) boltlib \<Rightarrow> bool \<Rightarrow> bool \<Rightarrow> int \<Rightarrow> string \<Rightarrow> store_op \<Rightarrow> 'b bolt_state \<Rightarrow> 'b bolt_state \<times> bolt_result" where
  "boltExec L ctxErr commitErr now n (OpStore fresh msgs) st = boltStore L ctxErr commitErr now fresh n msgs st"
| "boltExec L ctxErr commitErr now n (OpMutate mut) st = boltMutate L ctxErr commitErr now n mut st"
| "boltExec L ctxErr commitErr now n (OpAnnotation anns) st = boltStoreAnnotation L ctxErr commitErr now n anns st"
| "boltExec L ctxErr commitErr now n (OpPresence ps) st = boltStorePresence L ctxErr commitErr now n ps st"

lemma exec_sim:
  assumes "ready L items K n now (db, g, bc) cs" "exec ctxErr now op (g, cs) = (st2, r2)"
    "\<forall>cm. snd (boltExec L ctxErr commitErr now n op (db, g, bc)) = Inr (cm, False) \<longrightarrow> K cm"
  shows "outcome L items n now (db, g, bc) (boltExec L ctxErr commitErr now n op (db, g, bc)) (st2, r2)"
  using assms Store_sim [OF assms(1)] Mutate_sim [OF assms(1)] Annotation_sim [OF assms(1)] Presence_sim [OF assms(1)]
  by (cases op) simp_all

end
