(* ===== verification/BoltReads.thy ===== *)
theory BoltReads
  imports BoltSim
begin

text \<open>
  The reads of the on-disk backend against those of the in-memory one, on related channels: every
  cursor loop ends, no index is broken and no blob fails to decode, and the pages are the same,
  less the summary snapshots on annotations.
\<close>

section \<open>Pages without annotation summaries\<close>

definition strip_page :: "HistoryPage \<Rightarrow> HistoryPage" where
  "strip_page page = page\<lparr>hp_ChannelMessages := map strip_cm (hp_ChannelMessages page)\<rparr>"

fun strip_item :: "HistItem \<Rightarrow> HistItem" where
  "strip_item (ItemAnnotation a) = ItemAnnotation (strip_ann a)"
| "strip_item it = it"

definition strip_scan :: "scan_state \<Rightarrow> scan_state" where
  "strip_scan r = (case r of Inl page \<Rightarrow> Inl (strip_page page) | Inr (page, c) \<Rightarrow> Inr (strip_page page, c))"

lemma strip_sels [simp]: "cm_ChannelSerial (strip_cm cm) = cm_ChannelSerial cm" "a_Serial (strip_ann a) = a_Serial a"
  "strip_page zeroPage = zeroPage" "scanPage (strip_scan r) = strip_page (scanPage r)"
  by (auto simp: strip_cm_def strip_ann_def strip_page_def zeroPage_def strip_scan_def scanPage_def split: sum.split)

lemma it_Serial_strip [simp]: "it_Serial (strip_item it) = it_Serial it"
  by (cases it) simp_all

lemma CMItems_strip: "CMItems (strip_cm cm) k = map strip_item (CMItems cm k)"
  by (simp add: CMItems_def strip_cm_def)

lemma it_Append_strip: "it_Append (strip_item it) (strip_cm cm) = strip_cm (it_Append it cm)"
  by (cases it) (simp_all add: strip_cm_def)

lemma putItem_strip: "putItem s (strip_item it) (map strip_cm cms) = map strip_cm (putItem s it cms)"
proof -
  have "strip_cm (zeroChannelMessage\<lparr>cm_ChannelSerial := s\<rparr>) = zeroChannelMessage\<lparr>cm_ChannelSerial := s\<rparr>"
    by (simp add: strip_cm_def zeroChannelMessage_def)
  with it_Append_strip [of it "zeroChannelMessage\<lparr>cm_ChannelSerial := s\<rparr>"] show ?thesis
    by (cases cms rule: rev_exhaust) (simp_all add: putItem_def it_Append_strip)
qed

lemma emitHist_strip: "emitHist q s (strip_item it) (strip_page page) c = strip_scan (emitHist q s it page c)"
  using putItem_strip [of s it "hp_ChannelMessages page"] by (simp add: emitHist_def strip_page_def strip_scan_def)

lemma scanItems_strip: "scanItems q s (map strip_item its) (strip_page page) c = strip_scan (scanItems q s its page c)"
proof (induction its arbitrary: page c)
  case (Cons it its)
  have "emitHist q s (strip_item it) (strip_page page) c = strip_scan (emitHist q s it page c)" by (rule emitHist_strip)
  with Cons show ?case by (auto simp: strip_scan_def split: sum.splits)
qed (simp add: strip_scan_def)

lemma scanCMs_strip: "scanCMs q k (map strip_cm cms) (strip_page page) c = strip_scan (scanCMs q k cms page c)"
proof (induction cms arbitrary: page c)
  case (Cons cm cms)
  let ?its = "if forwards q then CMItems cm k else rev (CMItems cm k)"
  have i: "(if forwards q then CMItems (strip_cm cm) k else rev (CMItems (strip_cm cm) k)) = map strip_item ?its"
    by (simp add: CMItems_strip rev_map)
  have s: "scanCMs q k (strip_cm cm # map strip_cm cms) (strip_page page) c =
      (case strip_scan (scanItems q (cm_ChannelSerial cm) ?its page c) of
         Inl page' \<Rightarrow> Inl page' | Inr (page', c') \<Rightarrow> scanCMs q k (map strip_cm cms) page' c')"
    unfolding scanCMs.simps Let_def i by (simp add: scanItems_strip)
  have r: "scanCMs q k (cm # cms) page c = (case scanItems q (cm_ChannelSerial cm) ?its page c of
      Inl page' \<Rightarrow> Inl page' | Inr (page', c') \<Rightarrow> scanCMs q k cms page' c')" by (simp add: Let_def)
  show ?case
    unfolding list.map s r using Cons.IH
    by (cases "scanItems q (cm_ChannelSerial cm) ?its page c") (auto simp: strip_scan_def)
qed (simp add: strip_scan_def)

lemma collapseScan_strip: "collapseScan q cs ss (strip_page page) c = strip_scan (collapseScan q cs ss page c)"
proof (induction ss arbitrary: page c)
  case (Cons s ss)
  have "emitHist q t (ItemMessage m) (strip_page page) c = strip_scan (emitHist q t (ItemMessage m) page c)" for t m
    using emitHist_strip [of q t "ItemMessage m"] by simp
  with Cons show ?case by (auto simp: strip_scan_def Let_def split: sum.splits)
qed (simp add: strip_scan_def)

lemma PaginateAnnotations_strip: "PaginateAnnotations (map strip_ann as) q = strip_page (PaginateAnnotations as q)"
proof -
  have cm: "annotationCM (strip_ann a) = strip_cm (annotationCM a)" for a
    by (simp add: annotationCM_def strip_cm_def zeroChannelMessage_def)
  have "emitEach a_Serial annotationCM q c (map strip_ann as) (strip_page page) =
      strip_page (emitEach a_Serial annotationCM q c as page)" for c as page
  proof (induction as arbitrary: c page)
    case (Cons a as)
    have "strip_page (page\<lparr>hp_ChannelMessages := hp_ChannelMessages page @ [annotationCM a]\<rparr>) =
        (strip_page page)\<lparr>hp_ChannelMessages := hp_ChannelMessages (strip_page page) @ [annotationCM (strip_ann a)]\<rparr>"
      by (simp add: strip_page_def cm)
    moreover have "strip_page (page\<lparr>hp_HasMore := True\<rparr>) = (strip_page page)\<lparr>hp_HasMore := True\<rparr>"
      by (simp add: strip_page_def)
    ultimately show ?case by (auto simp: Cons [symmetric])
  qed simp
  from this [of 0 _ zeroPage] show ?thesis by (simp add: PaginateAnnotations_def rev_map)
qed

section \<open>Decoding\<close>

lemma mapE_dec:
  assumes "\<And>t. t \<in> set ts \<Longrightarrow> f (g t) = Inr (h t)"
  shows "mapE f (map g ts) = Inr (map h ts)"
  using assms by (induction ts) (simp_all add: tryE_def)

lemma boltScan_eq:
  assumes "\<And>t. t \<in> set ts \<Longrightarrow> bl_decCM L (v t) = Some (f t)"
  shows "boltScan L q k (map (\<lambda>t. (p @ t, v t)) ts) page c = Inr (scanPage (scanCMs q k (map f ts) page c))"
  using assms
proof (induction ts arbitrary: page c)
  case (Cons t ts)
  then show ?case by (auto simp: tryE_def orE_def Let_def scanPage_def split: sum.split)
qed (simp add: scanPage_def)

lemma boltCollapse_eq:
  assumes "\<And>t. t \<in> set ts \<Longrightarrow> bl_decMsg L (v t) = Some (gget zeroMessage (cs_latest cs) t)"
  shows "boltCollapse L n q (map (\<lambda>t. (channelPrefix n @ t, v t)) ts) page c =
    Inr (scanPage (collapseScan q cs ts page c))"
  using assms
proof (induction ts arbitrary: page c)
  case (Cons t ts)
  then show ?case by (auto simp: tryE_def orE_def Let_def scanPage_def split: sum.split)
qed (simp add: scanPage_def)

section \<open>The rows of a channel\<close>

lemma vrel_rows:
  assumes "bolt_laws L items" "vrel items R m b p" "sorted_wrt (<) ts" "\<And>t. m t \<noteq> None \<longleftrightarrow> t \<in> set ts"
  obtains v where "under items b p = map (\<lambda>t. (p @ t, v t)) ts" "\<And>t. t \<in> set ts \<Longrightarrow> R (the (m t)) (v t)"
proof
  have rel: "rel_option R (m t) (view items b p t)" for t using assms(2) by (simp add: vrel_def)
  have "view items b p t \<noteq> None \<longleftrightarrow> t \<in> set ts" for t
    using rel [of t] assms(4) [of t] by (cases "m t"; cases "view items b p t") auto
  then show "under items b p = map (\<lambda>t. (p @ t, the (view items b p t))) ts"
    by (rule under_eq [OF assms(1,3)])
  show "R (the (m t)) (the (view items b p t))" if "t \<in> set ts" for t
    using rel [of t] assms(4) [of t] that by (cases "m t"; cases "view items b p t") auto
qed

lemma message_rows:
  assumes "bolt_laws L items" "db_rel L items n db cs" "mem_inv (g, cs)"
  obtains v where "under items (db_messages db) (channelPrefix n) = map (\<lambda>t. (channelPrefix n @ t, v t)) (cs_order cs)"
    "\<And>t. t \<in> set (cs_order cs) \<Longrightarrow> bl_decCM L (v t) = Some (strip_cm (cmAt cs t))"
proof -
  have inv: "sorted_wrt (<) (cs_order cs)" "\<And>t. map_of (cs_byCS cs) t \<noteq> None \<longleftrightarrow> t \<in> set (cs_order cs)"
    using assms(3) by (simp_all add: mem_inv_def order_inv_def log_inv_def)
  have "vrel items (holdsCM L) (map_of (cs_byCS cs)) (db_messages db) (channelPrefix n)"
    using assms(2) by (simp add: db_rel_def db_maps_def)
  then obtain v where v: "under items (db_messages db) (channelPrefix n) = map (\<lambda>t. (channelPrefix n @ t, v t)) (cs_order cs)"
    "\<And>t. t \<in> set (cs_order cs) \<Longrightarrow> holdsCM L (the (map_of (cs_byCS cs) t)) (v t)"
    using vrel_rows [OF assms(1) _ inv] by blast
  have "cmAt cs t = the (map_of (cs_byCS cs) t)" if "t \<in> set (cs_order cs)" for t
    using inv(2) [of t] that by (auto simp: cmAt_def gget_def)
  with v(2) have "\<And>t. t \<in> set (cs_order cs) \<Longrightarrow> bl_decCM L (v t) = Some (strip_cm (cmAt cs t))"
    by (simp add: holdsCM_def)
  with that v(1) show ?thesis by blast
qed

lemma latest_rows:
  assumes "bolt_laws L items" "db_rel L items n db cs" "mem_inv (g, cs)"
  obtains v where "under items (db_latest db) (channelPrefix n) =
      map (\<lambda>t. (channelPrefix n @ t, v t)) (sort (map fst (cs_latest cs)))"
    "\<And>t. t \<in> set (map fst (cs_latest cs)) \<Longrightarrow> bl_decMsg L (v t) = Some (gget zeroMessage (cs_latest cs) t)"
proof -
  have "distinct (map fst (cs_latest cs))" using assms(3) by (simp add: mem_inv_def derived_inv_def)
  then have srt: "sorted_wrt (<) (sort (map fst (cs_latest cs)))" by (simp add: strict_sorted_iff)
  have dom: "map_of (cs_latest cs) t \<noteq> None \<longleftrightarrow> t \<in> set (sort (map fst (cs_latest cs)))" for t
    by (simp add: map_of_eq_None_iff)
  have "vrel items (holdsMsg L) (map_of (cs_latest cs)) (db_latest db) (channelPrefix n)"
    using assms(2) by (simp add: db_rel_def db_maps_def)
  then obtain v where v: "under items (db_latest db) (channelPrefix n) =
      map (\<lambda>t. (channelPrefix n @ t, v t)) (sort (map fst (cs_latest cs)))"
    "\<And>t. t \<in> set (sort (map fst (cs_latest cs))) \<Longrightarrow> holdsMsg L (the (map_of (cs_latest cs) t)) (v t)"
    using vrel_rows [OF assms(1) _ srt dom] by blast
  have "bl_decMsg L (v t) = Some (gget zeroMessage (cs_latest cs) t)" if "t \<in> set (map fst (cs_latest cs))" for t
    using v(2) [of t] dom [of t] that by (auto simp: holdsMsg_def gget_def)
  with that v(1) show ?thesis by blast
qed

section \<open>History\<close>

text \<open>The keys bound the scan as the search indexes of the in-memory log do.\<close>

lemma historyBounds_sel:
  assumes "historyBounds n q = (lower, upper)"
  shows "channelPrefix n \<le> lower" "upper \<le> nextPrefix (channelPrefix n)"
    "lower \<le> channelPrefix n @ t \<and> channelPrefix n @ t < upper \<longleftrightarrow> hist_sel q t"
proof -
  obtain lo hi where b: "TimestampBounds (hq_Start q) (hq_End q) = (lo, hi)" by fastforce
  let ?p = "channelPrefix n"
  have below: "?p @ x < nextPrefix ?p" for x using below_nextPrefix(1) has_prefix_iff by blast
  have above: "\<not> ?p @ x @ [CHR 0x00] \<le> ?p" for x using append_le_cancel [of ?p "x @ [CHR 0x00]" "[]"] by simp
  have low: "lower = max (?p @ lo) (if hq_AfterChannelSerial q = [] then ?p else ?p @ hq_AfterChannelSerial q @ [CHR 0x00])"
    using assms le_append [of ?p lo] above [of "hq_AfterChannelSerial q"]
    by (auto simp: historyBounds_def b Let_def key_prefix(1) max_def not_le not_less split: if_splits)
  have up: "upper = min (if hi = [] then nextPrefix ?p else ?p @ hi)
      (if hq_EndChannelSerial q = [] then nextPrefix ?p else ?p @ hq_EndChannelSerial q @ [CHR 0x00])"
    using assms below [of hi] below [of "hq_EndChannelSerial q @ [CHR 0x00]"]
    by (auto simp: historyBounds_def b Let_def key_prefix(1) min_def not_le not_less split: if_splits)
  show "?p \<le> lower" by (simp add: low le_append le_max_iff_disj)
  show "upper \<le> nextPrefix ?p" using less_imp_le [OF below] by (simp add: up min_le_iff_disj)
  have l: "lower \<le> ?p @ t \<longleftrightarrow> (lo = [] \<or> lo \<le> t) \<and> (hq_AfterChannelSerial q = [] \<or> hq_AfterChannelSerial q < t)"
  proof -
    have "hq_AfterChannelSerial q @ [CHR 0x00] \<le> t \<longleftrightarrow> hq_AfterChannelSerial q < t"
      using less_snoc_NUL [of t "hq_AfterChannelSerial q"] by (metis not_less)
    then show ?thesis by (auto simp: low le_append)
  qed
  have u: "?p @ t < upper \<longleftrightarrow> (hi = [] \<or> t < hi) \<and> (hq_EndChannelSerial q = [] \<or> t \<le> hq_EndChannelSerial q)"
    using less_snoc_NUL [of t "hq_EndChannelSerial q"] below by (auto simp: up)
  show "lower \<le> ?p @ t \<and> ?p @ t < upper \<longleftrightarrow> hist_sel q t"
    unfolding l u hist_sel_def by (auto simp: b in_bounds_def)
qed

lemma rows_between:
  "filter (\<lambda>x. lower \<le> fst x \<and> fst x < upper) (map (\<lambda>t. (p @ t, v t)) ts) =
   map (\<lambda>t. (p @ t, v t)) (filter (\<lambda>t. lower \<le> p @ t \<and> p @ t < upper) ts)"
  by (simp add: filter_map comp_def)

lemma boltHistory_raw:
  assumes "bolt_laws L items" "db_rel L items n db cs" "mem_inv (g, cs)"
    and "\<not> (hq_Collapse q \<and> Normalize (hq_Kind q) = KindMessage)" "History False q cs = Inr page"
  shows "boltHistory L False n q db = Some (Inr (strip_page page))"
proof -
  obtain lower upper where b: "historyBounds n q = (lower, upper)" by fastforce
  note h = historyBounds_sel [OF b]
  obtain v where v: "under items (db_messages db) (channelPrefix n) = map (\<lambda>t. (channelPrefix n @ t, v t)) (cs_order cs)"
    "\<And>t. t \<in> set (cs_order cs) \<Longrightarrow> bl_decCM L (v t) = Some (strip_cm (cmAt cs t))"
    using message_rows [OF assms(1-3)] by blast
  let ?ts = "filter (hist_sel q) (cs_order cs)" and ?f = "\<lambda>t. (channelPrefix n @ t, v t)"
  let ?ds = "if forwards q then ?ts else rev ?ts"
  have "filter (\<lambda>x. lower \<le> fst x \<and> fst x < upper) (under items (db_messages db) (channelPrefix n)) = map ?f ?ts"
    unfolding v(1) rows_between h(3) ..
  with history_walks [OF assms(1) h(1,2), of "db_messages db"]
  have "boltHistory L False n q db = Some (boltScan L q (Normalize (hq_Kind q)) (map ?f ?ds) zeroPage 0)"
    using assms(4) by (auto simp: boltHistory_def Let_def b rev_map)
  also have "boltScan L q (Normalize (hq_Kind q)) (map ?f ?ds) zeroPage 0 =
      Inr (scanPage (scanCMs q (Normalize (hq_Kind q)) (map (\<lambda>t. strip_cm (cmAt cs t)) ?ds) zeroPage 0))"
    by (rule boltScan_eq) (use v(2) in \<open>auto split: if_splits\<close>)
  also have "scanCMs q (Normalize (hq_Kind q)) (map (\<lambda>t. strip_cm (cmAt cs t)) ?ds) zeroPage 0 =
      strip_scan (scanCMs q (Normalize (hq_Kind q)) (map (cmAt cs) ?ds) zeroPage 0)"
    using scanCMs_strip [of q _ "map (cmAt cs) ?ds" zeroPage] by (simp add: comp_def)
  finally have "boltHistory L False n q db =
      Some (Inr (strip_page (scanPage (scanCMs q (Normalize (hq_Kind q)) (map (cmAt cs) ?ds) zeroPage 0))))" by simp
  moreover have "scanPage (scanCMs q (Normalize (hq_Kind q)) (map (cmAt cs) ?ds) zeroPage 0) = page"
  proof -
    obtain lo hi where r: "histRange q (cs_order cs) = (lo, hi)" by fastforce
    have "sorted_wrt (<) (cs_order cs)" using assms(3) by (simp add: mem_inv_def order_inv_def)
    from histRange_sel [OF this r] assms(4,5) show ?thesis
      by (auto simp: History_def r Let_def rev_map split: if_splits)
  qed
  ultimately show ?thesis by simp
qed

lemma boltHistory_collapsed:
  assumes "bolt_laws L items" "db_rel L items n db cs" "mem_inv (g, cs)"
  shows "boltCollapsedHistory L n q db = Some (Inr (strip_page (collapsedHistory q cs)))"
proof -
  let ?p = "channelPrefix n" and ?ids = "sort (map fst (cs_latest cs))"
  obtain v where v: "under items (db_latest db) ?p = map (\<lambda>t. (?p @ t, v t)) ?ids"
    "\<And>t. t \<in> set (map fst (cs_latest cs)) \<Longrightarrow> bl_decMsg L (v t) = Some (gget zeroMessage (cs_latest cs) t)"
    using latest_rows [OF assms] by blast
  have all: "has_prefix k ?p \<Longrightarrow> ?p \<le> k \<and> k < nextPrefix ?p" for k
    using below_nextPrefix(1) le_append by (auto simp: has_prefix_iff)
  have "filter (\<lambda>x. ?p \<le> fst x \<and> fst x < nextPrefix ?p) (under items (db_latest db) ?p) = under items (db_latest db) ?p"
    by (rule filter_True) (auto simp: under_def dest: all)
  with history_walks(2) [OF assms(1), of n ?p "nextPrefix ?p" "db_latest db"] all
  have bwd: "walk (bl_Prev L (db_latest db)) (\<lambda>k. has_prefix k ?p) (seekBefore L (db_latest db) (nextPrefix ?p)) =
      Some (rev (under items (db_latest db) ?p))" by (simp add: conj_absorb cong: conj_cong)
  let ?ds = "if forwards q then ?ids else rev ?ids"
  have "boltCollapsedHistory L n q db = Some (boltCollapse L n q (map (\<lambda>t. (?p @ t, v t)) ?ds) zeroPage 0)"
    unfolding boltCollapsedHistory_def Let_def bwd walkPrefix_eq [OF assms(1)] v(1) by (simp add: rev_map)
  also have "boltCollapse L n q (map (\<lambda>t. (?p @ t, v t)) ?ds) zeroPage 0 = Inr (scanPage (collapseScan q cs ?ds zeroPage 0))"
    by (rule boltCollapse_eq) (use v(2) in \<open>auto split: if_splits\<close>)
  also have "scanPage (collapseScan q cs ?ds zeroPage 0) = strip_page (collapsedHistory q cs)"
    using collapseScan_strip [of q cs ?ds zeroPage 0] unfolding collapsedHistory_def Let_def
    by (metis (full_types) strip_sels(3,4))
  finally show ?thesis .
qed

text \<open>How a read of the file answers: the error of the memory, or its page less the snapshots.\<close>

fun read_agrees :: "(bolt_error + HistoryPage) option \<Rightarrow> storage_error + HistoryPage \<Rightarrow> bool" where
  "read_agrees (Some (Inl (BoltErr e))) (Inl e2) = (e = e2)"
| "read_agrees (Some (Inr page)) (Inr page2) = (page = strip_page page2)"
| "read_agrees _ _ = False"

lemma boltHistory_sim:
  assumes "bolt_laws L items" "db_rel L items n db cs" "mem_inv (g, cs)"
  shows "read_agrees (boltHistory L ctxErr n q db) (History ctxErr q cs)"
proof (cases ctxErr)
  case True
  then show ?thesis by (simp add: boltHistory_def History_def)
next
  case False
  show ?thesis
  proof (cases "hq_Collapse q \<and> Normalize (hq_Kind q) = KindMessage")
    case True
    with False boltHistory_collapsed [OF assms, of q] show ?thesis by (simp add: boltHistory_def History_def Let_def)
  next
    case c: False
    obtain lo hi where "histRange q (cs_order cs) = (lo, hi)" by fastforce
    then obtain page where "History False q cs = Inr page" using c by (auto simp: History_def Let_def)
    with boltHistory_raw [OF assms c this] False show ?thesis by simp
  qed
qed

section \<open>Versions and annotations\<close>

lemma by_serial_sorted:
  assumes "sorted_wrt (<) (map key xs)"
  shows "by_serial key xs t \<noteq> None \<longleftrightarrow> t \<in> set (map key xs)" "x \<in> set xs \<Longrightarrow> by_serial key xs (key x) = Some x"
proof -
  have d: "distinct (map key xs)" using assms by (simp add: strict_sorted_iff)
  show "by_serial key xs t \<noteq> None \<longleftrightarrow> t \<in> set (map key xs)"
    unfolding by_serial_def by (simp add: map_of_eq_None_iff image_image)
  show "x \<in> set xs \<Longrightarrow> by_serial key xs (key x) = Some x"
    unfolding by_serial_def by (rule map_of_is_SomeI) (auto simp: comp_def rev_map [symmetric] d)
qed

lemma serial_rows:
  assumes "bolt_laws L items" "vrel items R (by_serial key xs) b p" "sorted_wrt (<) (map key xs)"
    and "\<And>x v. x \<in> set xs \<Longrightarrow> R x v \<Longrightarrow> dec v = Some (h x)"
  shows "mapE (\<lambda>(k, v). orE e (dec v)) (under items b p) = Inr (map h xs)"
proof -
  note s = by_serial_sorted [OF assms(3)]
  obtain v where v: "under items b p = map (\<lambda>t. (p @ t, v t)) (map key xs)"
    "\<And>t. t \<in> set (map key xs) \<Longrightarrow> R (the (by_serial key xs t)) (v t)"
    using vrel_rows [OF assms(1-3) s(1)] by blast
  have "under items b p = map (\<lambda>x. (p @ key x, v (key x))) xs" unfolding v(1) by simp
  moreover have "mapE (\<lambda>(k, v). orE e (dec v)) (map (\<lambda>x. (p @ key x, v (key x))) xs) = Inr (map h xs)"
  proof (rule mapE_dec)
    fix x assume x: "x \<in> set xs"
    then have "R x (v (key x))" using v(2) [of "key x"] s(2) [of x] by simp
    with x assms(4) show "(\<lambda>(k, v). orE e (dec v)) (p @ key x, v (key x)) = Inr (h x)" by simp
  qed
  ultimately show ?thesis by simp
qed

lemma boltVersions_sim:
  assumes "bolt_laws L items" "db_rel L items n db cs" "mem_inv (g, cs)" "batches_ok cs"
  shows "read_agrees (boltVersions L ctxErr n s q db) (Versions ctxErr s q cs)"
proof -
  have d: "derived_inv cs" using assms(3) by (simp add: mem_inv_def)
  have g: "gget [] (cs_versions cs) s = log_versions (log_of cs) s" using d by (simp add: derived_inv_def gget_def)
  have "vrel items (holdsMsg L) (by_serial VersionSerial (log_versions (log_of cs) s)) (db_versions db) (versionPrefix n s)"
    using assms(2) unfolding db_rel_def db_maps_def by (simp flip: g)
  moreover have "sorted_wrt (<) (map VersionSerial (log_versions (log_of cs) s))"
    unfolding log_versions_def using log_items_sorted(3) [OF assms(3,4)] by (rule keyed_filter)
  ultimately have "mapE (\<lambda>(k, v). orE ErrBoltDecode (bl_decMsg L v)) (under items (db_versions db) (versionPrefix n s)) =
      Inr (map (\<lambda>m. m) (log_versions (log_of cs) s))"
    by (rule serial_rows [OF assms(1)]) (simp add: holdsMsg_def)
  moreover have "strip_page (PaginateVersions ms q) = PaginateVersions ms q" for ms
  proof -
    have "strip_cm (versionCM m) = versionCM m" for m by (simp add: strip_cm_def versionCM_def zeroChannelMessage_def)
    then have "map strip_cm (hp_ChannelMessages (emitEach VersionSerial versionCM q c ms page)) =
        hp_ChannelMessages (emitEach VersionSerial versionCM q c ms page)"
      if "map strip_cm (hp_ChannelMessages page) = hp_ChannelMessages page" for c ms page
      using that by (induction ms arbitrary: c page) simp_all
    then show ?thesis by (simp add: PaginateVersions_def strip_page_def zeroPage_def)
  qed
  ultimately show ?thesis
    using d by (auto simp: boltVersions_def Versions_def walkPrefix_eq [OF assms(1)] tryE_def derived_inv_def)
qed

lemma boltAnnotations_sim:
  assumes "bolt_laws L items" "db_rel L items n db cs" "mem_inv (g, cs)" "batches_ok cs"
  shows "read_agrees (boltAnnotations L ctxErr n s q db) (Annotations ctxErr s q cs)"
proof -
  have g: "gget [] (cs_annotations cs) s = log_annotations (log_of cs) s"
    using assms(3) by (simp add: mem_inv_def derived_inv_def)
  have "vrel items (holdsAnn L) (by_serial a_Serial (log_annotations (log_of cs) s)) (db_annotations db) (versionPrefix n s)"
    using assms(2) unfolding db_rel_def db_maps_def by (simp flip: g)
  moreover have "sorted_wrt (<) (map a_Serial (log_annotations (log_of cs) s))"
    unfolding log_annotations_def using log_items_sorted(2) [OF assms(3,4)] by (rule keyed_filter)
  ultimately have "mapE (\<lambda>(k, v). orE ErrBoltDecode (bl_decAnn L v)) (under items (db_annotations db) (versionPrefix n s)) =
      Inr (map strip_ann (log_annotations (log_of cs) s))"
    by (rule serial_rows [OF assms(1)]) (simp add: holdsAnn_def)
  then show ?thesis
    by (simp add: boltAnnotations_def Annotations_def annotationPrefix_def walkPrefix_eq [OF assms(1)] g tryE_def
        PaginateAnnotations_strip)
qed

section \<open>Members\<close>

lemma lastSerial_eq:
  assumes "bolt_laws L items" "db_rel L items n db cs" "mem_inv (g, cs)"
  shows "lastSerial L n db = (if cs_order cs = [] then None else Some (last (cs_order cs)))"
proof -
  let ?p = "channelPrefix n" and ?b = "db_messages db"
  let ?A = "filter (\<lambda>x. fst x < ?p) (items ?b)"
  obtain v where v: "under items ?b ?p = map (\<lambda>t. (?p @ t, v t)) (cs_order cs)"
    using message_rows [OF assms] by blast
  have le: "?p < nextPrefix ?p" using below_nextPrefix(1) [of ?p n] by (simp add: has_prefix_def)
  have "filter (\<lambda>x. fst x < nextPrefix ?p) (items ?b) =
      filter (\<lambda>x. fst x < nextPrefix ?p) (?A @ filter (\<lambda>x. ?p \<le> fst x) (items ?b))"
    using sorted_split_at [OF bolt_lawsD(1) [OF assms(1)]] by metis
  also have "\<dots> = ?A @ under items ?b ?p"
    unfolding filter_append filter_filter under_def
    using le below_nextPrefix le_append
    by (intro arg_cong2 [of _ _ _ _ append] filter_cong) (auto simp: has_prefix_iff intro: less_trans)
  finally have s: "seekBefore L ?b (nextPrefix ?p) = last_of (?A @ under items ?b ?p)"
    by (simp add: seekBefore_eq [OF assms(1)])
  show ?thesis
  proof (cases "cs_order cs = []")
    case True
    have "\<not> has_prefix (fst x) ?p" if "x \<in> set ?A" for x
      using that le_append [of ?p] by (auto simp: has_prefix_iff leD)
    moreover have "last ?A \<in> set ?A" if "?A \<noteq> []" using that by (rule last_in_set)
    ultimately show ?thesis using True
      by (auto simp: lastSerial_def s v last_of_def split: prod.split) fastforce
  next
    case False
    then have "last (?A @ under items ?b ?p) = (?p @ last (cs_order cs), v (last (cs_order cs)))"
      by (simp add: v last_map)
    with False show ?thesis by (simp add: lastSerial_def s v last_of_def has_prefix_def)
  qed
qed

fun result_agrees :: "bolt_error + 'a \<Rightarrow> storage_error + 'a \<Rightarrow> bool" where
  "result_agrees (Inl (BoltErr e)) (Inl e2) = (e = e2)"
| "result_agrees (Inr x) (Inr y) = (x = y)"
| "result_agrees _ _ = False"

lemma boltMembers_sim:
  assumes "bolt_laws L items" "chan_rel L items n (db, g, bc) (g, cs)" "mem_inv (g, cs)"
  shows "result_agrees (boltMembers L ctxErr n db bc) (Members ctxErr cs)"
  using lastSerial_eq [OF assms(1) _ assms(3)] assms(2) by (simp add: boltMembers_def Members_def chan_rel_def)

lemma boltLatest_sim:
  assumes "bolt_laws L items" "db_rel L items n db cs"
  shows "result_agrees (boltLatestVersion L ctxErr n s db) (LatestVersion ctxErr s cs)"
  by (rule get_latest [OF assms, of s]) (simp_all add: boltLatestVersion_def LatestVersion_def tryE_def orE_def)

end
