(* ===== verification/BoltStore.thy ===== *)
theory BoltStore
  imports BoltReads
begin

text \<open>
  The on-disk storage as a whole: channels do not see each other's rows, every run of the storage
  is a run of the in-memory one in which the writes the library refused did nothing, and all
  reads agree on the way.
\<close>

section \<open>Channels do not interfere\<close>

definition untouched :: "('b \<Rightarrow> (string \<times> 'v) list) \<Rightarrow> string \<Rightarrow> 'b boltDB \<Rightarrow> 'b boltDB \<Rightarrow> bool" where
  "untouched items n db db' \<longleftrightarrow> same_views items n db db' \<and> db_initials db' = db_initials db"

lemma untouched_refl [simp]: "untouched items n db db"
  by (simp add: untouched_def same_views_refl)

lemma untouched_trans: "untouched items n d1 d2 \<Longrightarrow> untouched items n d2 d3 \<Longrightarrow> untouched items n d1 d3"
  unfolding untouched_def using same_views_trans by metis

lemma view_other:
  assumes "bolt_laws L items" "bl_Put L (channelPrefix n @ t) v b = Some b'" "plain_name n" "plain_name n'" "n' \<noteq> n"
  shows "view items b' (channelPrefix n') t' = view items b (channelPrefix n') t'"
  using channels_apart [OF assms(4,3), of t' t] assms(5) by (simp add: view_put [OF assms(1,2)])

lemma puts_untouched:
  assumes "bolt_laws L items" "plain_name n" "plain_name n'" "n' \<noteq> n"
  shows "putCM L n cm db = Inr db' \<Longrightarrow> untouched items n' db db'"
    "putID L n s i db = Inr db' \<Longrightarrow> untouched items n' db db'"
    "putVersion L n m db = Inr db' \<Longrightarrow> untouched items n' db db'"
    "putAnnotation L n s db a = Inr db' \<Longrightarrow> untouched items n' db db'"
proof -
  note o = view_other [OF assms(1) _ assms(2-4)]
  show "putCM L n cm db = Inr db' \<Longrightarrow> untouched items n' db db'"
    by (auto simp: putCM_def untouched_def same_views_def key_prefix(1) dest: o)
  show id: "putID L n s i db = Inr db' \<Longrightarrow> untouched items n' db db'" for db'
    by (auto simp: putID_def untouched_def same_views_def key_prefix(1) dest: o split: if_splits)
  show "putVersion L n m db = Inr db' \<Longrightarrow> untouched items n' db db'"
    by (auto simp: putVersion_def untouched_def same_views_def key_prefix dest: o)
  assume "putAnnotation L n s db a = Inr db'"
  then obtain db1 v b where b: "putID L n s (a_ID a) db = Inr db1"
    "bl_Put L (channelPrefix n @ a_MessageSerial a @ keySep # a_Serial a) v (db_annotations db1) = Some b"
    "db' = db1\<lparr>db_annotations := b\<rparr>" by (auto simp: putAnnotation_def annotationKey_def key_prefix)
  have "untouched items n' db1 db'" using o [OF b(2)] by (auto simp: b(3) untouched_def same_views_def)
  moreover have "untouched items n' db db1"
    using b(1) by (auto simp: putID_def untouched_def same_views_def key_prefix(1) dest: o split: if_splits)
  ultimately show "untouched items n' db db'" using untouched_trans by blast
qed

lemma foldE_untouched:
  assumes "\<And>d x d'. f d x = Inr d' \<Longrightarrow> untouched items n d d'" "foldE f db xs = Inr db'"
  shows "untouched items n db db'"
  using assms(2)
proof (induction xs arbitrary: db)
  case (Cons x xs)
  then obtain d where "f db x = Inr d" "foldE f d xs = Inr db'" by auto
  with Cons.IH assms(1) untouched_trans show ?case by blast
qed simp

lemma foldAll_untouched:
  assumes "bolt_laws L items" "plain_name n" "plain_name n'" "n' \<noteq> n" "foldAllTx L n s i as b = Inr (b', as')"
  shows "view items b' (channelPrefix n') t = view items b (channelPrefix n') t"
  using assms(5)
proof (induction as arbitrary: i b as')
  case (Cons a as)
  then obtain b1 a1 as1 where f: "foldSummaryTx L n (a\<lparr>a_Serial := MessageSerial s (int i)\<rparr>) b = Inr (b1, a1)"
    "foldAllTx L n s (Suc i) as b1 = Inr (b', as1)" by auto
  have "view items b1 (channelPrefix n') t = view items b (channelPrefix n') t"
    using f(1) by (auto simp: foldSummaryTx_def Let_def key_prefix(1) dest: view_other [OF assms(1) _ assms(2-4)] split: option.splits)
  with Cons.IH [OF f(2)] show ?case by simp
qed simp

lemma txs_untouched:
  assumes "bolt_laws L items" "plain_name n" "plain_name n'" "n' \<noteq> n"
  shows "boltStoreTx L n now batch msgs db g = (g1, Inr (db1, u)) \<Longrightarrow> untouched items n' db db1"
    "boltMutateTx L n now mut db g = (g1, Inr (db1, u)) \<Longrightarrow> untouched items n' db db1"
    "boltAnnotationTx L n now anns db g = (g1, Inr (db1, u)) \<Longrightarrow> untouched items n' db db1"
    "boltPresenceTx L n now ps db g = (g1, Inr (db1, u)) \<Longrightarrow> untouched items n' db db1"
proof -
  note p = puts_untouched [OF assms] and t = untouched_trans [of items n']
  have m: "tryE (putID L n s (m_ID m) d) (putVersion L n m) = Inr d' \<Longrightarrow> untouched items n' d d'" for s m d d'
    unfolding tryE_simps by (elim exE conjE) (rule t [OF p(2) p(3)])
  have fm: "foldE (\<lambda>d m. tryE (putID L n s (m_ID m) d) (putVersion L n m)) d ms = Inr d' \<Longrightarrow> untouched items n' d d'" for s d ms d'
    by (erule foldE_untouched [rotated]) (rule m)
  have fp: "foldE (\<lambda>d p. putID L n s (p_ID p) d) d ps = Inr d' \<Longrightarrow> untouched items n' d d'" for s d ps d'
    by (erule foldE_untouched [rotated]) (rule p(2))
  have c: "untouched items n' d0 d2" if "tryE (putCM L n cm d0) (\<lambda>d. tryE (F d) (\<lambda>d'. Inr (d', w))) = Inr (d2, u)"
      "\<And>d d'. F d = Inr d' \<Longrightarrow> untouched items n' d d'" for d0 d2 cm F w
  proof -
    note h = that
    obtain d where "putCM L n cm d0 = Inr d" "F d = Inr d2" using h(1) by auto
    then show ?thesis using t [OF p(1) h(2)] by blast
  qed
  show "boltStoreTx L n now batch msgs db g = (g1, Inr (db1, u)) \<Longrightarrow> untouched items n' db db1"
    by (auto simp: boltStoreTx_def Let_def simp del: tryE_simps split: sum.splits option.splits prod.splits
        elim!: c fm)
  show "boltPresenceTx L n now ps db g = (g1, Inr (db1, u)) \<Longrightarrow> untouched items n' db db1"
    by (auto simp: boltPresenceTx_def Let_def simp del: tryE_simps split: sum.splits option.splits prod.splits
        elim!: c fp)
  have "tryE (putID L n s i d) (putVersion L n v) = Inr d' \<Longrightarrow> untouched items n' d d'" for s i v d d'
    unfolding tryE_simps by (elim exE conjE) (rule t [OF p(2) p(3)])
  moreover have "tryE (putID L n s i d) (\<lambda>d2. tryE (putVersion L n v d2) (\<lambda>d3. Inr (d3, w))) =
      tryE (tryE (putID L n s i d) (putVersion L n v)) (\<lambda>d3. Inr (d3, w))" for s i v d and w :: "ChannelMessage \<times> bool"
    by (simp add: tryE_def split: sum.split)
  ultimately show "boltMutateTx L n now mut db g = (g1, Inr (db1, u)) \<Longrightarrow> untouched items n' db db1"
    by (auto simp: boltMutateTx_def Let_def simp del: tryE_simps split: sum.splits option.splits prod.splits elim!: c)
  have l: "foldAllTx L n s 0 anns (db_latest db) = Inr (b, as) \<Longrightarrow> untouched items n' db (db\<lparr>db_latest := b\<rparr>)" for s b as
    using foldAll_untouched [OF assms] by (simp add: untouched_def same_views_def)
  show "boltAnnotationTx L n now anns db g = (g1, Inr (db1, u)) \<Longrightarrow> untouched items n' db db1"
  proof -
    assume "boltAnnotationTx L n now anns db g = (g1, Inr (db1, u))"
    then consider "db1 = db" | s cm b as where "foldAllTx L n s 0 anns (db_latest db) = Inr (b, as)"
      "tryE (putCM L n cm (db\<lparr>db_latest := b\<rparr>)) (\<lambda>d. tryE (foldE (putAnnotation L n s) d as) (\<lambda>d'. Inr (d', cm, False))) =
        Inr (db1, u)"
      by (auto simp: boltAnnotationTx_def Let_def tryE_simps(1) [of "foldAllTx L n _ _ _ _"] simp del: tryE_simps
          split: sum.splits option.splits prod.splits if_splits)
    then show ?thesis
    proof cases
      case (2 s cm b as)
      have "untouched items n' (db\<lparr>db_latest := b\<rparr>) db1"
        by (rule c [OF 2(2)]) (erule foldE_untouched [rotated], rule p(4))
      with l [OF 2(1)] t show ?thesis by blast
    qed simp
  qed
qed

lemma settle_untouched:
  assumes "\<And>g1 db1 u. tx db g = (g1, Inr (db1, u)) \<Longrightarrow> untouched items n' db db1"
    "settle M commitErr tx (db, g, bc) = ((db', g', bc'), r)"
  shows "untouched items n' db db'"
proof -
  obtain g1 t where t: "tx db g = (g1, t)" by fastforce
  show ?thesis
    using assms t settle_cases [where tx = tx and M = M and commitErr = commitErr and bc = bc, OF t]
    by (auto split: sum.splits if_splits)
qed

lemma exec_untouched:
  assumes "bolt_laws L items" "plain_name n" "plain_name n'" "n' \<noteq> n"
    "boltExec L ctxErr commitErr now n op (db, g, bc) = ((db', g', bc'), r)"
  shows "untouched items n' db db'"
proof (cases op)
  case (OpStore fresh msgs)
  with assms(5) show ?thesis
    using settle_untouched [OF txs_untouched(1) [OF assms(1-4)]]
    by (auto simp: boltStore_def settle_plain split: if_splits sum.splits)
next
  case (OpMutate mut)
  with assms(5) show ?thesis
    using settle_untouched [OF txs_untouched(2) [OF assms(1-4)]]
    by (auto simp: boltMutate_def settle_plain split: if_splits)
next
  case (OpAnnotation anns)
  with assms(5) show ?thesis
    using settle_untouched [OF txs_untouched(3) [OF assms(1-4)]]
    by (auto simp: boltStoreAnnotation_def settle_plain split: if_splits)
next
  case (OpPresence ps)
  have "(db', g', bc') = (db, g, bc) \<or> settle (\<lambda>cm. foldl foldMember (bc_members bc) (cm_Presence cm)) commitErr
      (boltPresenceTx L n now ps) (db, g, bc) = ((db', g', bc'), r)"
    using OpPresence assms(5) by (auto simp: boltStorePresence_def settle_def Let_def split: if_splits)
  then show ?thesis using settle_untouched [OF txs_untouched(4) [OF assms(1-4)]] by auto
qed

lemma settle_initial:
  assumes "settle M commitErr tx (db, g, bc) = ((db', g', bc'), r)"
  shows "map_option ch_initialSerial (bc_appender bc') = map_option ch_initialSerial (bc_appender bc)"
proof -
  obtain g1 t where t: "tx db g = (g1, t)" by fastforce
  have "ch_initialSerial (Append cm ch) = ch_initialSerial ch" for cm ch by (simp add: Append_def)
  then show ?thesis
    using assms settle_cases [where tx = tx and M = M and commitErr = commitErr and bc = bc, OF t]
    by (auto simp: option.map_comp comp_def split: sum.splits if_splits)
qed

lemma exec_initials:
  assumes "bolt_laws L items" "plain_name n" "boltExec L ctxErr commitErr now n op (db, g, bc) = ((db', g', bc'), r)"
  shows "db_initials db' = db_initials db"
    and "map_option ch_initialSerial (bc_appender bc') = map_option ch_initialSerial (bc_appender bc)"
proof -
  have "plain_name (n @ ''x'')" using assms(2) by (simp add: plain_name_def)
  from exec_untouched [OF assms(1,2) this _ assms(3)] show "db_initials db' = db_initials db"
    by (simp add: untouched_def)
  have "bc' = bc \<or> (\<exists>M tx. settle M commitErr tx (db, g, bc) = ((db', g', bc'), r))"
  proof (cases op)
    case (OpPresence ps)
    have "boltStorePresence L ctxErr commitErr now n ps (db, g, bc) = ((db, g, bc), r) \<or>
        boltStorePresence L ctxErr commitErr now n ps (db, g, bc) =
          settle (\<lambda>cm. foldl foldMember (bc_members bc) (cm_Presence cm)) commitErr (boltPresenceTx L n now ps) (db, g, bc)"
      using OpPresence assms(3) by (auto simp: boltStorePresence_def settle_def Let_def split: if_splits)
    with OpPresence assms(3) have "bc' = bc \<or> settle (\<lambda>cm. foldl foldMember (bc_members bc) (cm_Presence cm)) commitErr
        (boltPresenceTx L n now ps) (db, g, bc) = ((db', g', bc'), r)" by auto
    then show ?thesis by blast
  qed (use assms(3) in \<open>auto simp: boltStore_def boltMutate_def boltStoreAnnotation_def settle_plain split: if_splits sum.splits\<close>)
  with settle_initial show "map_option ch_initialSerial (bc_appender bc') = map_option ch_initialSerial (bc_appender bc)"
    by metis
qed

section \<open>Runs of the storage\<close>

datatype storage_event =
    Opened string
  | Refused string bolt_error
  | Wrote string store_op bolt_result

text \<open>One process on one file: channels are opened, with a live list or without, and written. Names
  hold no separator, the clock leaves room in the 14 digits, and every ChannelMessage answered as
  fresh is canonical for the codec.\<close>

inductive bolt_steps :: "('b, 'v) boltlib \<Rightarrow> (ChannelMessage \<Rightarrow> bool) \<Rightarrow> 'b boltStorage \<Rightarrow> storage_event list \<Rightarrow>
    'b boltStorage \<Rightarrow> bool" for L K S where
  bolt_start: "bolt_steps L K S [] S"
| bolt_open: "bolt_steps L K S evs S1 \<Longrightarrow> plain_name name \<Longrightarrow> clock_ok now (bs_gen S1) \<Longrightarrow>
    app = None \<or> app = Some (newChannel name) \<Longrightarrow> boltStorageChannel L commitErr now name app S1 = (S2, Inr bc) \<Longrightarrow>
    bolt_steps L K S (evs @ [Opened name]) S2"
| bolt_refused: "bolt_steps L K S evs S1 \<Longrightarrow> plain_name name \<Longrightarrow> clock_ok now (bs_gen S1) \<Longrightarrow>
    app = None \<or> app = Some (newChannel name) \<Longrightarrow> boltStorageChannel L commitErr now name app S1 = (S2, Inl e) \<Longrightarrow>
    bolt_steps L K S (evs @ [Refused name e]) S2"
| bolt_write: "bolt_steps L K S evs S1 \<Longrightarrow> clock_ok now (bs_gen S1) \<Longrightarrow> map_of (bs_channels S1) name = Some bc \<Longrightarrow>
    boltExec L ctxErr commitErr now name op (bs_db S1, bs_gen S1, bc) = ((db, g, bc'), r) \<Longrightarrow>
    (\<And>cm. r = Inr (cm, False) \<Longrightarrow> K cm) \<Longrightarrow>
    bolt_steps L K S (evs @ [Wrote name op r])
      (S1\<lparr>bs_db := db, bs_gen := g, bs_channels := gput name bc' (bs_channels S1)\<rparr>)"

text \<open>The same events on the in-memory storage. What the library refused may have minted a serial
  and has done nothing else.\<close>

inductive spec_steps :: "MemStorage \<Rightarrow> storage_event list \<Rightarrow> MemStorage \<Rightarrow> bool" for M where
  spec_start: "spec_steps M [] M"
| spec_open: "spec_steps M evs M1 \<Longrightarrow> clock_ok now (ms_gen M1) \<Longrightarrow> app = None \<or> app = Some (newChannel name) \<Longrightarrow>
    StorageChannel now name app M1 = (M2, cs) \<Longrightarrow> spec_steps M (evs @ [Opened name]) M2"
| spec_refused: "spec_steps M evs M1 \<Longrightarrow> clock_ok now (ms_gen M1) \<Longrightarrow> lib_error e \<Longrightarrow> g = ms_gen M1 \<or> g = advance now (ms_gen M1) \<Longrightarrow>
    spec_steps M (evs @ [Refused name e]) (M1\<lparr>ms_gen := g\<rparr>)"
| spec_write: "spec_steps M evs M1 \<Longrightarrow> clock_ok now (ms_gen M1) \<Longrightarrow> map_of (ms_channels M1) name = Some cs \<Longrightarrow>
    exec ctxErr now op (ms_gen M1, cs) = (st, r2) \<Longrightarrow> agree r r2 \<Longrightarrow>
    spec_steps M (evs @ [Wrote name op r]) (putChannel name st M1)"
| spec_failed: "spec_steps M evs M1 \<Longrightarrow> clock_ok now (ms_gen M1) \<Longrightarrow> lib_error e \<Longrightarrow> g = ms_gen M1 \<or> g = advance now (ms_gen M1) \<Longrightarrow>
    spec_steps M (evs @ [Wrote name op (Inl e)]) (M1\<lparr>ms_gen := g\<rparr>)"

text \<open>The simulation relation on whole storages.\<close>

definition channel_rel :: "('b, 'v) boltlib \<Rightarrow> ('b \<Rightarrow> (string \<times> 'v) list) \<Rightarrow> (ChannelMessage \<Rightarrow> bool) \<Rightarrow> 'b boltStorage \<Rightarrow>
    MemStorage \<Rightarrow> string \<Rightarrow> bool" where
  "channel_rel L items K S M n \<longleftrightarrow> (case map_of (bs_channels S) n of
     None \<Rightarrow> map_of (ms_channels M) n = None \<and> (plain_name n \<longrightarrow> db_rel L items n (bs_db S) (newChannelStore None) \<and>
       map_of (items (db_initials (bs_db S))) n = None)
   | Some bc \<Rightarrow> plain_name n \<and> (\<exists>cs. map_of (ms_channels M) n = Some cs \<and>
       chan_rel L items n (bs_db S, bs_gen S, bc) (ms_gen M, cs) \<and> (\<forall>cm \<in> set (log_of cs). K cm)) \<and>
       (\<forall>ch. bc_appender bc = Some ch \<longrightarrow> (\<exists>v. map_of (items (db_initials (bs_db S))) n = Some v \<and>
          bl_string L v = ch_initialSerial ch)))"

definition storage_rel :: "('b, 'v) boltlib \<Rightarrow> ('b \<Rightarrow> (string \<times> 'v) list) \<Rightarrow> (ChannelMessage \<Rightarrow> bool) \<Rightarrow> 'b boltStorage \<Rightarrow>
    MemStorage \<Rightarrow> bool" where
  "storage_rel L items K S M \<longleftrightarrow> bs_gen S = ms_gen M \<and> storage_inv M \<and> plain_name (seriesID (ms_gen M)) \<and>
     (\<forall>n. channel_rel L items K S M n)"

definition empty_file :: "('b \<Rightarrow> (string \<times> 'v) list) \<Rightarrow> 'b boltDB \<Rightarrow> bool" where
  "empty_file items db \<longleftrightarrow> (\<forall>f \<in> {db_messages, db_ids, db_initials, db_latest, db_versions, db_annotations}. items (f db) = [])"

lemma db_rel_new: "db_rel L items n db (newChannelStore app) = db_rel L items n db (newChannelStore None)"
  by (simp add: db_rel_def newChannelStore_def)

lemma open_rel:
  assumes "empty_file items db" "plain_name series"
  shows "storage_rel L items K (boltOpen series db) (NewStorage series)"
proof -
  have "db_rel L items n db (newChannelStore None)" for n
    using assms(1) by (simp add: db_rel_def db_maps_def newChannelStore_def vrel_def view_def empty_file_def gget_def)
  with assms show ?thesis
    by (simp add: storage_rel_def boltOpen_def NewStorage_def NewGenerator_def storage_inv_def channel_rel_def empty_file_def)
qed

lemma burn_rel:
  assumes "storage_rel L items K S M" "clock_ok now (bs_gen S)" "g = bs_gen S \<or> g = advance now (bs_gen S)"
  shows "storage_rel L items K (S\<lparr>bs_gen := g\<rparr>) (M\<lparr>ms_gen := g\<rparr>)"
proof -
  have r: "bs_gen S = ms_gen M" "storage_inv M" "plain_name (seriesID (ms_gen M))" "\<And>n. channel_rel L items K S M n"
    using assms(1) by (auto simp: storage_rel_def)
  have "storage_inv (M\<lparr>ms_gen := g\<rparr>)"
    using r(1,2) assms(2,3) mem_inv_burn by (auto simp: storage_inv_def)
  moreover have "channel_rel L items K (S\<lparr>bs_gen := g\<rparr>) (M\<lparr>ms_gen := g\<rparr>) n" for n
    using r(4) [of n] by (auto simp: channel_rel_def chan_rel_def split: option.splits)
  ultimately show ?thesis using r(1,3) assms(3) by (auto simp: storage_rel_def advance_def Let_def)
qed

lemma storage_ready:
  assumes "bolt_laws L items" "codec_keeps L K" "storage_rel L items K S M" "clock_ok now (bs_gen S)"
    "map_of (bs_channels S) n = Some bc"
  obtains cs where "plain_name n" "map_of (ms_channels M) n = Some cs" "ready L items K n now (bs_db S, bs_gen S, bc) cs"
proof -
  have r: "bs_gen S = ms_gen M" "storage_inv M" "plain_name (seriesID (ms_gen M))" "channel_rel L items K S M n"
    using assms(3) by (auto simp: storage_rel_def)
  then obtain cs where cs: "plain_name n" "map_of (ms_channels M) n = Some cs"
    "chan_rel L items n (bs_db S, bs_gen S, bc) (ms_gen M, cs)" "\<forall>cm \<in> set (log_of cs). K cm"
    using assms(5) by (auto simp: channel_rel_def)
  have "ready L items K n now (bs_db S, bs_gen S, bc) cs"
    using r(1-3) cs assms by (simp add: ready_def storage_inv_def)
  with that cs show ?thesis by blast
qed

lemma exec_canonical:
  assumes "mem_inv (g, cs)" "clock_ok now g" "exec ctxErr now op (g, cs) = ((g1, cs1), r2)" "agree r r2"
    "\<And>cm. r = Inr (cm, False) \<Longrightarrow> K cm" "\<forall>cm \<in> set (log_of cs). K cm"
  shows "\<forall>cm \<in> set (log_of cs1). K cm"
proof -
  have "mem_log (g1, cs1) = mem_log (g, cs) @ fresh_cms [r2]"
    by (rule memory.run_log [of _ "(ctxErr, now, op)"]) (use assms(1-3) in \<open>simp_all add: mem_may_def mem_run_def\<close>)
  moreover have "\<forall>cm \<in> set (fresh_cms [r2]). K cm"
    using assms(4,5) by (cases "(r, r2)" rule: agree.cases) (auto simp: fresh_cms_def split: bool.splits)
  ultimately show ?thesis using assms(6) by (auto simp: mem_log_def)
qed

lemma write_rel:
  assumes "bolt_laws L items" "codec_keeps L K" "storage_rel L items K S M" "clock_ok now (bs_gen S)"
    "map_of (bs_channels S) n = Some bc" "boltExec L ctxErr commitErr now n op (bs_db S, bs_gen S, bc) = ((db, g, bc'), r)"
    "\<forall>cm. r = Inr (cm, False) \<longrightarrow> K cm"
  defines "S' \<equiv> S\<lparr>bs_db := db, bs_gen := g, bs_channels := gput n bc' (bs_channels S)\<rparr>"
  shows "(\<exists>e. r = Inl e \<and> lib_error e \<and> g \<in> {bs_gen S, advance now (bs_gen S)} \<and> storage_rel L items K S' (M\<lparr>ms_gen := g\<rparr>)) \<or>
    (\<exists>cs st r2. map_of (ms_channels M) n = Some cs \<and> exec ctxErr now op (ms_gen M, cs) = (st, r2) \<and> agree r r2 \<and>
       storage_rel L items K S' (putChannel n st M))"
proof -
  have r: "bs_gen S = ms_gen M" "storage_inv M" "plain_name (seriesID (ms_gen M))" "\<And>n. channel_rel L items K S M n"
    using assms(3) by (auto simp: storage_rel_def)
  obtain cs where cs: "plain_name n" "map_of (ms_channels M) n = Some cs" "ready L items K n now (bs_db S, bs_gen S, bc) cs"
    by (rule storage_ready [OF assms(1-5)])
  obtain st r2 where x: "exec ctxErr now op (bs_gen S, cs) = (st, r2)" by fastforce
  have "outcome L items n now (bs_db S, bs_gen S, bc) ((db, g, bc'), r) (st, r2)"
    using exec_sim [OF cs(3) x, of commitErr] assms(6,7) by simp
  then consider (bad) e where "r = Inl e" "lib_error e" "db = bs_db S" "bc' = bc" "g = bs_gen S \<or> g = advance now (bs_gen S)"
    | (good) "agree r r2" "chan_rel L items n (db, g, bc') st" by (auto simp: outcome_def failed_def)
  then show ?thesis
  proof cases
    case bad
    have "channel_rel L items K S' (M\<lparr>ms_gen := g\<rparr>) x \<longleftrightarrow> channel_rel L items K (S\<lparr>bs_gen := g\<rparr>) (M\<lparr>ms_gen := g\<rparr>) x" for x
      using bad(3,4) assms(5) by (auto simp: S'_def channel_rel_def split: option.splits)
    with burn_rel [OF assms(3,4) bad(5)] have "storage_rel L items K S' (M\<lparr>ms_gen := g\<rparr>)"
      by (simp add: storage_rel_def S'_def)
    with bad show ?thesis by auto
  next
    case good
    obtain cs1 where st: "st = (g, cs1)" using good(2) by (cases st) (simp add: chan_rel_def)
    have inv: "mem_inv (bs_gen S, cs)" "clock_ok now (ms_gen M)" "\<forall>cm \<in> set (log_of cs). K cm"
      using readyD(6,9) [OF cs(3)] assms(4) r(1) by auto
    have K: "\<forall>cm \<in> set (log_of cs1). K cm"
      by (rule exec_canonical [OF inv(1) assms(4) x [unfolded st] good(1) assms(7) [rule_format] inv(3)])
    have step: "storage_step M (putChannel n st M)" by (rule write_channel [OF inv(2) cs(2)]) (use x r(1) in simp)
    have "fst st = bs_gen S \<or> fst st = advance now (bs_gen S)" using exec_inv [OF inv(1) assms(4) x] by blast
    then have plain: "plain_name (seriesID g)" using r(1,3) by (auto simp: st advance_def Let_def)
    have "channel_rel L items K S' (putChannel n st M) x" for x
    proof (cases "x = n")
      case True
      have i: "db_initials db = db_initials (bs_db S)"
        "map_option ch_initialSerial (bc_appender bc') = map_option ch_initialSerial (bc_appender bc)"
        using exec_initials [OF assms(1) cs(1) assms(6)] by simp_all
      have "\<exists>v. map_of (items (db_initials (bs_db S))) n = Some v \<and> bl_string L v = ch_initialSerial ch"
        if "bc_appender bc' = Some ch" for ch
        using r(4) [of n] assms(5) i(2) that by (cases "bc_appender bc") (auto simp: channel_rel_def)
      with True cs(1) good(2) K i(1) show ?thesis by (simp add: channel_rel_def S'_def putChannel_def st)
    next
      case False
      have "plain_name x \<Longrightarrow> untouched items x (bs_db S) db" using exec_untouched [OF assms(1) cs(1) _ False assms(6)] .
      with r(4) [of x] False same_views_rel show ?thesis
        by (fastforce simp: channel_rel_def S'_def putChannel_def st chan_rel_def untouched_def split: option.splits)
    qed
    with storage_step_inv [OF step r(2)] plain have "storage_rel L items K S' (putChannel n st M)"
      by (simp add: storage_rel_def S'_def putChannel_def st)
    with cs(2) x [unfolded r(1)] good(1) show ?thesis by blast
  qed
qed

text \<open>Opening a channel, with the file untouched so far by that name.\<close>

lemma first_open:
  assumes "bolt_laws L items" "db_rel L items n db (newChannelStore None)" "map_of (items (db_initials db)) n = None"
    "clock_ok now g"
  defines "ser \<equiv> render (gen_ts (advance now g))"
  shows "loadOrMintInitialTx L n now db g = (advance now g, case bl_Put L n (bl_bytes L ser) (db_initials db) of
      None \<Rightarrow> Inl ErrBoltPut | Some b \<Rightarrow> Inr (db\<lparr>db_initials := b\<rparr>, ser, ser))"
proof -
  have none: "lastSerial L n (db\<lparr>db_initials := b\<rparr>) = None" for b
    using lastSerial_eq [OF assms(1) _ mem_inv_new(1) [OF assms(4)], of n "db\<lparr>db_initials := b\<rparr>"] assms(2)
    by (simp add: db_rel_def db_maps_def) (simp add: newChannelStore_def)
  show ?thesis
    using assms(3) by (simp add: loadOrMintInitialTx_def bolt_lawsD(2) [OF assms(1)] Mint_render [OF assms(4)] ser_def
        tryE_def orE_def Let_def none split: option.split)
qed

lemma new_channel_rel:
  assumes "bolt_laws L items" "storage_rel L items K S M" "map_of (bs_channels S) n = None" "plain_name n"
    and "storage_inv (M\<lparr>ms_gen := g, ms_channels := gput n (newChannelStore app) (ms_channels M)\<rparr>)"
    and "plain_name (seriesID g)" "bs_db S' = bs_db S\<lparr>db_initials := b\<rparr>" "bs_gen S' = g"
    "bs_channels S' = gput n \<lparr>bc_appender = app, bc_members = []\<rparr> (bs_channels S)"
    "\<And>x. x \<noteq> n \<Longrightarrow> map_of (items b) x = map_of (items (db_initials (bs_db S))) x"
    "\<And>ch. app = Some ch \<Longrightarrow> \<exists>v. map_of (items b) n = Some v \<and> bl_string L v = ch_initialSerial ch"
  shows "storage_rel L items K S' (M\<lparr>ms_gen := g, ms_channels := gput n (newChannelStore app) (ms_channels M)\<rparr>)"
proof -
  have r: "\<And>x. channel_rel L items K S M x" using assms(2) by (auto simp: storage_rel_def)
  have d: "db_rel L items x (bs_db S') cs = db_rel L items x (bs_db S) cs" for x cs
    by (simp add: assms(7) db_rel_def db_maps_def)
  have e: "log_of (newChannelStore app) = []" by (simp add: log_of_def newChannelStore_def)
  have "db_rel L items n (bs_db S) (newChannelStore app)"
    using r [of n] assms(3,4) by (simp add: channel_rel_def db_rel_new [of _ _ _ _ app])
  then have "channel_rel L items K S' (M\<lparr>ms_gen := g, ms_channels := gput n (newChannelStore app) (ms_channels M)\<rparr>) n"
    using assms(4,8,9,11) by (simp add: channel_rel_def chan_rel_def d e) (simp add: newChannelStore_def assms(7))
  moreover have "channel_rel L items K S' (M\<lparr>ms_gen := g, ms_channels := gput n (newChannelStore app) (ms_channels M)\<rparr>) x"
    if "x \<noteq> n" for x
    using r [of x] that assms(8-10) by (auto simp: channel_rel_def chan_rel_def d split: option.splits) (simp_all add: assms(7))
  ultimately have "\<forall>x. channel_rel L items K S' (M\<lparr>ms_gen := g, ms_channels := gput n (newChannelStore app) (ms_channels M)\<rparr>) x" by metis
  with assms(5,6,8) show ?thesis by (simp add: storage_rel_def)
qed

lemma opened_rel:
  assumes "bolt_laws L items" "storage_rel L items K S M" "clock_ok now (bs_gen S)" "plain_name n"
    "app = None \<or> app = Some (newChannel n)" "boltStorageChannel L commitErr now n app S = (S', res)"
  shows "(\<exists>e g. res = Inl e \<and> lib_error e \<and> (g = ms_gen M \<or> g = advance now (ms_gen M)) \<and> storage_rel L items K S' (M\<lparr>ms_gen := g\<rparr>)) \<or>
    (\<exists>bc M' cs. res = Inr bc \<and> StorageChannel now n app M = (M', cs) \<and> storage_rel L items K S' M')"
proof -
  have r: "bs_gen S = ms_gen M" "storage_inv M" "plain_name (seriesID (ms_gen M))" "channel_rel L items K S M n"
    using assms(2) by (auto simp: storage_rel_def)
  obtain M' cs where m: "StorageChannel now n app M = (M', cs)" by fastforce
  have step: "storage_step M M'" by (rule open_channel [OF _ assms(5) m]) (use assms(3) r(1) in simp)
  note inv = storage_step_inv [OF step r(2)]
  show ?thesis
  proof (cases "map_of (bs_channels S) n")
    case (Some bc)
    with r(4) obtain c where "map_of (ms_channels M) n = Some c" by (auto simp: channel_rel_def)
    with Some m assms(2,6) show ?thesis by (auto simp: boltStorageChannel_def StorageChannel_def)
  next
    case None
    with r(4) assms(4) have n: "map_of (ms_channels M) n = None" "db_rel L items n (bs_db S) (newChannelStore None)"
      "map_of (items (db_initials (bs_db S))) n = None" by (auto simp: channel_rel_def)
    from assms(5) show ?thesis
    proof
      assume a: "app = None"
      have M': "M' = M\<lparr>ms_gen := ms_gen M, ms_channels := gput n (newChannelStore None) (ms_channels M)\<rparr>"
        using m n(1) a by (auto simp: StorageChannel_def Let_def)
      have "storage_rel L items K S' M'" unfolding M'
        by (rule new_channel_rel [OF assms(1,2) None assms(4) inv [unfolded M'] r(3), where b = "db_initials (bs_db S)"])
          (use assms(6) None a r(1) in \<open>auto simp: boltStorageChannel_def Let_def\<close>)
      with assms(6) None a m show ?thesis by (auto simp: boltStorageChannel_def Let_def)
    next
      assume a: "app = Some (newChannel n)"
      define ser where "ser = render (gen_ts (advance now (bs_gen S)))"
      let ?app = "Some (Initialize ser ser (newChannel n))" and ?g = "advance now (ms_gen M)"
      note tx = first_open [OF assms(1) n(2,3) assms(3), folded ser_def]
      have mint: "Mint now (ms_gen M) = (ser, ?g)" using Mint_render assms(3) r(1) by (simp add: ser_def)
      have M': "M' = M\<lparr>ms_gen := ?g, ms_channels := gput n (newChannelStore ?app) (ms_channels M)\<rparr>"
        using m n(1) a mint by (auto simp: StorageChannel_def Let_def)
      show ?thesis
      proof (cases "commitErr \<or> bl_Put L n (bl_bytes L ser) (db_initials (bs_db S)) = None")
        case True
        then have "S' = S\<lparr>bs_gen := ?g\<rparr> \<and> (\<exists>e. res = Inl e \<and> lib_error e)"
          using assms(6) None a r(1) by (auto simp: boltStorageChannel_def dbUpdate_def tx [unfolded r(1)] split: option.splits)
        with burn_rel [OF assms(2,3), of ?g] r(1) show ?thesis by auto
      next
        case False
        then obtain b where b: "bl_Put L n (bl_bytes L ser) (db_initials (bs_db S)) = Some b" by blast
        have S': "S' = S\<lparr>bs_db := bs_db S\<lparr>db_initials := b\<rparr>, bs_gen := ?g,
            bs_channels := gput n \<lparr>bc_appender = ?app, bc_members = []\<rparr> (bs_channels S)\<rparr>"
          "res = Inr \<lparr>bc_appender = ?app, bc_members = []\<rparr>"
          using assms(6) None a r(1) b False by (auto simp: boltStorageChannel_def dbUpdate_def tx [unfolded r(1)] Let_def)
        have "storage_rel L items K S' M'" unfolding M'
          by (rule new_channel_rel [OF assms(1,2) None assms(4) inv [unfolded M'], where b = b])
            (use r(3) bolt_lawsD(3) [OF assms(1) b] bolt_lawsD(8) [OF assms(1)] in
              \<open>auto simp: S'(1) advance_def Let_def Initialize_def newChannel_def\<close>)
        with S'(2) m show ?thesis by blast
      qed
    qed
  qed
qed

lemma steps_rel:
  assumes "bolt_laws L items" "codec_keeps L K" "bolt_steps L K S evs S'" "storage_rel L items K S M"
  shows "\<exists>M'. spec_steps M evs M' \<and> storage_rel L items K S' M'"
  using assms(3)
proof induction
  case bolt_start
  with assms(4) spec_start show ?case by blast
next
  case (bolt_open evs S1 name now app commitErr S2 bc)
  then obtain M1 where M1: "spec_steps M evs M1" "storage_rel L items K S1 M1" by blast
  then have "ms_gen M1 = bs_gen S1" by (simp add: storage_rel_def)
  with opened_rel [OF assms(1) M1(2) bolt_open.hyps(3,2,4,5)] spec_open [OF M1(1)] bolt_open.hyps(3,4) show ?case by fastforce
next
  case (bolt_refused evs S1 name now app commitErr S2 e)
  then obtain M1 where M1: "spec_steps M evs M1" "storage_rel L items K S1 M1" by blast
  then have "ms_gen M1 = bs_gen S1" by (simp add: storage_rel_def)
  with opened_rel [OF assms(1) M1(2) bolt_refused.hyps(3,2,4,5)] spec_refused [OF M1(1)] bolt_refused.hyps(3) show ?case by fastforce
next
  case (bolt_write evs S1 now name bc ctxErr commitErr op db g bc' r)
  then obtain M1 where M1: "spec_steps M evs M1" "storage_rel L items K S1 M1" by blast
  then have gen: "ms_gen M1 = bs_gen S1" by (simp add: storage_rel_def)
  have "\<forall>cm. r = Inr (cm, False) \<longrightarrow> K cm" using bolt_write.hyps(5) by blast
  from write_rel [OF assms(1,2) M1(2) bolt_write.hyps(2-4) this] show ?case
  proof (elim disjE exE conjE)
    fix e assume "r = Inl e" "lib_error e" "g \<in> {bs_gen S1, advance now (bs_gen S1)}"
      "storage_rel L items K (S1\<lparr>bs_db := db, bs_gen := g, bs_channels := gput name bc' (bs_channels S1)\<rparr>) (M1\<lparr>ms_gen := g\<rparr>)"
    with spec_failed [OF M1(1)] gen bolt_write.hyps(2) show ?thesis by (metis empty_iff insert_iff)
  next
    fix cs st r2 assume "map_of (ms_channels M1) name = Some cs" "exec ctxErr now op (ms_gen M1, cs) = (st, r2)" "agree r r2"
      "storage_rel L items K (S1\<lparr>bs_db := db, bs_gen := g, bs_channels := gput name bc' (bs_channels S1)\<rparr>) (putChannel name st M1)"
    with spec_write [OF M1(1)] gen bolt_write.hyps(2) show ?thesis by metis
  qed
qed

end
