(* ===== verification/Runes.thy ===== *)
theory Runes
  imports Prelude
begin

text \<open>
  What the sources use of Go's Unicode support. A Go string is its bytes (\<open>string\<close>, a char
  list); \<open>runes\<close> is the decoding \<open>for range s\<close> and \<open>regexp\<close> perform, in which a byte that starts
  no valid UTF-8 sequence becomes U+FFFD. \<open>trimSpace\<close> and \<open>lowerRune\<close> give
  \<open>strings.TrimSpace\<close> and \<open>strings.ToLower\<close> on runes, as far as a comparison with an ASCII
  token can tell: of the runes outside ASCII only U+0130 and U+212A have an ASCII lower case,
  and every other one is left as it is.
\<close>

section \<open>Definitions\<close>

definition runeError :: int where "runeError = 0xFFFD"

definition cont :: "int \<Rightarrow> bool" where "cont b \<longleftrightarrow> 0x80 \<le> b \<and> b \<le> 0xBF"

text \<open>\<open>utf8.DecodeRune\<close> on a non-empty byte string: the rune and its width. The bounds on the
  second byte exclude overlong forms, surrogates and values above U+10FFFF.\<close>

definition decodeRune :: "int \<Rightarrow> int list \<Rightarrow> int \<times> nat" where
  "decodeRune b bs =
     (if b < 0x80 then (b, 1)
      else if 0xC2 \<le> b \<and> b \<le> 0xDF then
        (case bs of b1 # _ \<Rightarrow>
           if cont b1 then ((b - 0xC0) * 64 + (b1 - 0x80), 2) else (runeError, 1)
         | _ \<Rightarrow> (runeError, 1))
      else if 0xE0 \<le> b \<and> b \<le> 0xEF then
        (case bs of b1 # b2 # _ \<Rightarrow>
           if (if b = 0xE0 then 0xA0 else 0x80) \<le> b1 \<and> b1 \<le> (if b = 0xED then 0x9F else 0xBF) \<and> cont b2
           then ((b - 0xE0) * 4096 + (b1 - 0x80) * 64 + (b2 - 0x80), 3) else (runeError, 1)
         | _ \<Rightarrow> (runeError, 1))
      else if 0xF0 \<le> b \<and> b \<le> 0xF4 then
        (case bs of b1 # b2 # b3 # _ \<Rightarrow>
           if (if b = 0xF0 then 0x90 else 0x80) \<le> b1 \<and> b1 \<le> (if b = 0xF4 then 0x8F else 0xBF) \<and>
              cont b2 \<and> cont b3
           then ((b - 0xF0) * 262144 + (b1 - 0x80) * 4096 + (b2 - 0x80) * 64 + (b3 - 0x80), 4)
           else (runeError, 1)
         | _ \<Rightarrow> (runeError, 1))
      else (runeError, 1))"

lemma decodeRune_width: "0 < snd (decodeRune b bs)"
  by (auto simp: decodeRune_def split: list.split)

function decodeRunes :: "int list \<Rightarrow> int list" where
  "decodeRunes [] = []"
| "decodeRunes (b # bs) =
     (case decodeRune b bs of (r, w) \<Rightarrow> r # decodeRunes (drop (w - 1) bs))"
  by pat_completeness auto
termination by (relation "measure length") (auto simp: less_Suc_eq_le)

definition bytes :: "string \<Rightarrow> int list" where "bytes s = map of_char s"

definition runes :: "string \<Rightarrow> int list" where "runes s = decodeRunes (bytes s)"

text \<open>\<open>unicode.IsSpace\<close>.\<close>

definition isSpace :: "int \<Rightarrow> bool" where
  "isSpace r \<longleftrightarrow> r \<in> set [0x09, 0x0A, 0x0B, 0x0C, 0x0D, 0x20, 0x85, 0xA0, 0x1680, 0x2028, 0x2029,
     0x202F, 0x205F, 0x3000] \<or> 0x2000 \<le> r \<and> r \<le> 0x200A"

definition trimSpace :: "int list \<Rightarrow> int list" where
  "trimSpace rs = rev (dropWhile isSpace (rev (dropWhile isSpace rs)))"

definition lowerRune :: "int \<Rightarrow> int" where
  "lowerRune r =
     (if 0x41 \<le> r \<and> r \<le> 0x5A then r + 32
      else if r = 0x0130 then 0x69 else if r = 0x212A then 0x6B else r)"

section \<open>Lemmas\<close>

lemma decodeRunes_ascii: "\<forall>b \<in> set bs. b < 0x80 \<Longrightarrow> decodeRunes bs = bs"
  by (induction bs) (simp_all add: decodeRune_def)

definition ascii :: "string \<Rightarrow> bool" where "ascii s \<longleftrightarrow> list_all (\<lambda>c. (of_char c :: int) < 0x80) s"

lemma runes_ascii: "ascii s \<Longrightarrow> runes s = bytes s"
  unfolding runes_def by (rule decodeRunes_ascii) (auto simp: ascii_def bytes_def list_all_iff)

text \<open>A lower-case ASCII token without spaces is its own normal form.\<close>

definition token :: "string \<Rightarrow> bool" where
  "token s \<longleftrightarrow> ascii s \<and> list_all (\<lambda>c. \<not> isSpace (of_char c) \<and> lowerRune (of_char c) = of_char c) s"

lemma dropWhile_none: "\<forall>x \<in> set xs. \<not> P x \<Longrightarrow> dropWhile P xs = xs"
  by (cases xs) auto

lemma trimSpace_none: "\<forall>x \<in> set rs. \<not> isSpace x \<Longrightarrow> trimSpace rs = rs"
  by (simp add: trimSpace_def dropWhile_none)

lemma token_normal: "token s \<Longrightarrow> map lowerRune (trimSpace (runes s)) = bytes s"
proof -
  assume t: "token s"
  then have "\<forall>x \<in> set (bytes s). \<not> isSpace x" by (auto simp: token_def bytes_def list_all_iff)
  with t have "trimSpace (runes s) = bytes s" by (simp add: runes_ascii token_def trimSpace_none)
  moreover have "map lowerRune (bytes s) = bytes s"
    using t unfolding bytes_def token_def list_all_iff map_map by (intro map_cong) auto
  ultimately show ?thesis by simp
qed

lemma bytes_inj: "bytes s = bytes t \<longleftrightarrow> s = t"
  by (simp add: bytes_def inj_map_eq_map inj_on_def)

end
