(* ===== verification/BoltFile.thy ===== *)
theory BoltFile
  imports BoltStore Runes
begin

text \<open>
  The properties of the on-disk backend, and an executable library on which its code runs: a
  bucket is an association list read in key order, a blob is the encoded value itself.
\<close>

section \<open>An executable library\<close>

datatype blob = BStr string | BCM ChannelMessage | BMsg Message | BAnn Annotation

type_synonym bucket = "(string \<times> blob) list"

definition rows :: "(string \<times> 'v) list \<Rightarrow> (string \<times> 'v) list" where
  "rows b = map (\<lambda>k. (k, the (map_of b k))) (sort (remdups (map fst b)))"

definition listLib :: "(bucket, blob) boltlib" where
  "listLib = \<lparr>bl_Get = map_of, bl_Put = (\<lambda>k v b. Some ((k, v) # b)),
     bl_Seek = (\<lambda>b k. first_of (filter (\<lambda>x. k \<le> fst x) (rows b))),
     bl_Next = (\<lambda>b k. first_of (filter (\<lambda>x. k < fst x) (rows b))),
     bl_Prev = (\<lambda>b k. last_of (filter (\<lambda>x. fst x < k) (rows b))),
     bl_Last = (\<lambda>b. last_of (rows b)), bl_bytes = BStr,
     bl_string = (\<lambda>v. case v of BStr s \<Rightarrow> s | _ \<Rightarrow> []),
     bl_encCM = (\<lambda>cm. Some (BCM (strip_cm cm))), bl_decCM = (\<lambda>v. case v of BCM cm \<Rightarrow> Some cm | _ \<Rightarrow> None),
     bl_encMsg = (\<lambda>m. Some (BMsg m)), bl_decMsg = (\<lambda>v. case v of BMsg m \<Rightarrow> Some m | _ \<Rightarrow> None),
     bl_encAnn = (\<lambda>a. Some (BAnn (strip_ann a))), bl_decAnn = (\<lambda>v. case v of BAnn a \<Rightarrow> Some a | _ \<Rightarrow> None)\<rparr>"

definition newFile :: "bucket boltDB" where
  "newFile = \<lparr>db_messages = [], db_ids = [], db_initials = [], db_latest = [], db_versions = [], db_annotations = []\<rparr>"

lemma map_of_rows: "map_of (rows b) = map_of b"
proof -
  have "map_of (map (\<lambda>k. (k, the (map_of b k))) ks) k = (if k \<in> set ks then Some (the (map_of b k)) else None)" for ks k
    by (induction ks) auto
  moreover have "k \<in> set (map fst b) \<longleftrightarrow> map_of b k \<noteq> None" for k by (simp add: map_of_eq_None_iff)
  ultimately show ?thesis by (auto simp: rows_def fun_eq_iff)
qed

lemma rows_sorted: "sorted_wrt (<) (map fst (rows b))"
  by (simp add: rows_def comp_def strict_sorted_iff)

lemma listLib_laws: "bolt_laws listLib rows"
  unfolding bolt_laws_def by (simp add: listLib_def map_of_rows rows_sorted)

lemma listLib_codec: "codec_keeps listLib (\<lambda>_. True)"
  by (simp add: codec_keeps_def listLib_def)

lemma newFile_empty: "empty_file rows newFile"
  by (simp add: empty_file_def newFile_def rows_def)

definition bolt0 :: "bucket boltStorage" where
  "bolt0 = boltOpen ''ab'' newFile"

definition bolt1 :: "bucket boltStorage" where
  "bolt1 = fst (boltStorageChannel listLib False 5 ''room'' (Some (newChannel ''room'')) bolt0)"

definition bolt_op :: store_op where
  "bolt_op = OpStore ''f'' [demo_msg]"

definition bolt_write_at :: "int \<Rightarrow> string \<Rightarrow> store_op \<Rightarrow> bucket boltStorage \<Rightarrow> bucket boltStorage \<times> bolt_result" where
  "bolt_write_at now n op S = (case boltExec listLib False False now n op
       (bs_db S, bs_gen S, the (map_of (bs_channels S) n)) of
     ((db, g, bc), r) \<Rightarrow> (S\<lparr>bs_db := db, bs_gen := g, bs_channels := gput n bc (bs_channels S)\<rparr>, r))"

definition bolt2 :: "bucket boltStorage" where
  "bolt2 = fst (bolt_write_at 6 ''room'' bolt_op bolt1)"

lemma bolt1_facts: "map_of (bs_channels bolt1) ''room'' \<noteq> None" "bs_gen bolt1 = \<lparr>seriesID = ''ab'', lastTs = 5, lastCounter = 0\<rparr>"
  "\<not> isl (snd (boltStorageChannel listLib False 5 ''room'' (Some (newChannel ''room'')) bolt0))"
  by code_simp+

lemma bolt0_clock: "clock_ok 5 (bs_gen bolt0)"
  by (simp add: bolt0_def boltOpen_def NewGenerator_def clock_ok_def gen_inv_def maxCounter_def)

lemma bolt1_clock: "clock_ok 6 (bs_gen bolt1)"
  by (simp add: bolt1_facts clock_ok_demo gen_inv_def maxCounter_def)

definition bolt_evs :: "storage_event list" where
  "bolt_evs = [Opened ''room'', Wrote ''room'' bolt_op (snd (bolt_write_at 6 ''room'' bolt_op bolt1))]"

lemma write_step:
  assumes "bolt_steps listLib (\<lambda>_. True) S evs S1" "clock_ok now (bs_gen S1)" "map_of (bs_channels S1) n \<noteq> None"
    "bolt_write_at now n op S1 = (S2, r)"
  shows "bolt_steps listLib (\<lambda>_. True) S (evs @ [Wrote n op r]) S2"
proof -
  obtain bc where bc: "map_of (bs_channels S1) n = Some bc" using assms(3) by blast
  obtain db g bc' r' where x: "boltExec listLib False False now n op (bs_db S1, bs_gen S1, bc) = ((db, g, bc'), r')"
    by (metis prod.exhaust)
  from bolt_write [OF assms(1,2) bc x] assms(4) show ?thesis by (simp add: bolt_write_at_def bc x)
qed

lemma bolt_demo_steps: "bolt_steps listLib (\<lambda>_. True) bolt0 [Opened ''room''] bolt1" "bolt_steps listLib (\<lambda>_. True) bolt0 bolt_evs bolt2"
proof -
  obtain bc where "boltStorageChannel listLib False 5 ''room'' (Some (newChannel ''room'')) bolt0 = (bolt1, Inr bc)"
    using bolt1_facts(3) unfolding bolt1_def by (metis isl_def prod.collapse sum.exhaust_sel)
  from bolt_open [OF bolt_start _ bolt0_clock _ this, where K = "\<lambda>_. True"]
  show one: "bolt_steps listLib (\<lambda>_. True) bolt0 [Opened ''room''] bolt1" by (simp add: plain_name_def)
  from write_step [OF one bolt1_clock bolt1_facts(1), of bolt_op]
  show "bolt_steps listLib (\<lambda>_. True) bolt0 bolt_evs bolt2" unfolding bolt_evs_def bolt2_def by (metis append.simps prod.collapse)
qed

section \<open>The log of a run\<close>

text \<open>The ChannelMessages a channel answered as fresh, in order.\<close>

definition answered :: "string \<Rightarrow> storage_event \<Rightarrow> ChannelMessage list" where
  "answered n ev = (case ev of Wrote n' op (Inr (cm, False)) \<Rightarrow> if n' = n then [cm] else [] | _ \<Rightarrow> [])"

definition answers :: "string \<Rightarrow> storage_event list \<Rightarrow> ChannelMessage list" where
  "answers n evs = concat (map (answered n) evs)"

lemma answers_snoc [simp]: "answers n (evs @ [ev]) = answers n evs @ answered n ev" "answers n [] = []"
  by (simp_all add: answers_def)

definition channel_log :: "MemStorage \<Rightarrow> string \<Rightarrow> ChannelMessage list" where
  "channel_log M n = (case map_of (ms_channels M) n of None \<Rightarrow> [] | Some cs \<Rightarrow> log_of cs)"

lemma agree_answered: "agree r r2 \<Longrightarrow> fresh_cms [r2] = answered n (Wrote n op r)"
  by (cases "(r, r2)" rule: agree.cases) (auto simp: fresh_cms_def answered_def split: bool.split)

lemma spec_log:
  assumes "spec_steps (NewStorage series) evs M"
  shows "storage_inv M \<and> (\<forall>n. channel_log M n = answers n evs)"
  using assms
proof induction
  case spec_start
  show ?case by (simp add: storage_inv_def NewStorage_def channel_log_def)
next
  case (spec_open evs M1 now app name M2 cs)
  have "storage_step M1 M2" by (rule open_channel [OF spec_open.hyps(2-4)])
  moreover have "log_of (newChannelStore a) = []" for a by (simp add: log_of_def newChannelStore_def)
  moreover have "ms_channels M2 = ms_channels M1 \<or> map_of (ms_channels M1) name = None \<and>
      (\<exists>a. ms_channels M2 = gput name (newChannelStore a) (ms_channels M1))"
    using spec_open.hyps(4) by (auto simp: StorageChannel_def Let_def split: option.splits prod.splits)
  ultimately have "storage_step M1 M2" "channel_log M2 n = channel_log M1 n" for n
    by (auto simp: channel_log_def)
  then show ?case using spec_open.IH storage_step_inv by (auto simp: answered_def)
next
  case (spec_refused evs M1 now e g name)
  then have "storage_inv (M1\<lparr>ms_gen := g\<rparr>)" using mem_inv_burn by (auto simp: storage_inv_def)
  with spec_refused.IH show ?case by (simp add: channel_log_def answered_def)
next
  case (spec_write evs M1 now name cs ctxErr op st r2 r)
  obtain g1 cs1 where st: "st = (g1, cs1)" by (cases st)
  have inv: "mem_inv (ms_gen M1, cs)" using spec_write.IH spec_write.hyps(3) by (simp add: storage_inv_def)
  have "storage_step M1 (putChannel name st M1)" by (rule write_channel [OF spec_write.hyps(2-4)])
  moreover have "mem_log (g1, cs1) = mem_log (ms_gen M1, cs) @ fresh_cms [r2]"
    by (rule memory.run_log [of _ "(ctxErr, now, op)"])
      (use inv spec_write.hyps(2,4) st in \<open>simp_all add: mem_may_def mem_run_def\<close>)
  ultimately have l: "storage_inv (putChannel name st M1)" "log_of cs1 = log_of cs @ answered name (Wrote name op r)"
    using spec_write.IH agree_answered [OF spec_write.hyps(5)] storage_step_inv by (auto simp: mem_log_def)
  have "answered n (Wrote name op r) = []" if "n \<noteq> name" for n
    using that by (auto simp: answered_def split: sum.splits bool.splits)
  moreover have "log_of cs = answers name evs" using spec_write.IH spec_write.hyps(3) by (auto simp: channel_log_def split: option.splits)
  ultimately show ?case using l spec_write.IH by (auto simp: channel_log_def putChannel_def st)
next
  case (spec_failed evs M1 now e g name op)
  then have "storage_inv (M1\<lparr>ms_gen := g\<rparr>)" using mem_inv_burn by (auto simp: storage_inv_def)
  with spec_failed.IH show ?case by (simp add: channel_log_def answered_def)
qed

lemma run_channel:
  assumes "bolt_laws L items" "codec_keeps L K" "empty_file items db" "plain_name series"
    "bolt_steps L K (boltOpen series db) evs S" "map_of (bs_channels S) n = Some bc"
  obtains M cs where "spec_steps (NewStorage series) evs M" "storage_rel L items K S M" "map_of (ms_channels M) n = Some cs"
    "chan_rel L items n (bs_db S, bs_gen S, bc) (bs_gen S, cs)" "mem_inv (bs_gen S, cs)" "log_of cs = answers n evs"
proof -
  obtain M where M: "spec_steps (NewStorage series) evs M" "storage_rel L items K S M"
    using steps_rel [OF assms(1,2,5) open_rel [OF assms(3,4)]] by blast
  then have r: "channel_rel L items K S M n" "bs_gen S = ms_gen M" by (auto simp: storage_rel_def)
  then obtain cs where cs: "map_of (ms_channels M) n = Some cs" "chan_rel L items n (bs_db S, bs_gen S, bc) (ms_gen M, cs)"
    "bs_gen S = ms_gen M" using assms(6) by (auto simp: channel_rel_def)
  have "mem_inv (bs_gen S, cs)" "log_of cs = answers n evs"
    using spec_log [OF M(1), THEN conjunct1] spec_log [OF M(1), THEN conjunct2, rule_format, of n] cs(1,3)
    by (auto simp: storage_inv_def channel_log_def)
  with that M cs show ?thesis by metis
qed

section \<open>When no library call fails\<close>

definition lib_accepts :: "('b, 'v) boltlib \<Rightarrow> bool" where
  "lib_accepts L \<longleftrightarrow> (\<forall>k v b. k \<noteq> [] \<longrightarrow> bl_Put L k v b \<noteq> None) \<and> (\<forall>cm. bl_encCM L cm \<noteq> None) \<and>
     (\<forall>m. bl_encMsg L m \<noteq> None) \<and> (\<forall>a. bl_encAnn L a \<noteq> None)"

lemma accepted:
  assumes "lib_accepts L"
  shows "bl_Put L (channelKey n t) v b \<noteq> None" "bl_Put L (versionKey n s t) v b \<noteq> None" "bl_Put L (annotationKey n s t) v b \<noteq> None"
    "bl_encCM L cm \<noteq> None" "bl_encMsg L m \<noteq> None" "bl_encAnn L a \<noteq> None"
proof -
  have "channelKey n t \<noteq> []" "versionKey n s t \<noteq> []" "annotationKey n s t \<noteq> []"
    by (simp_all add: channelKey_def versionKey_def annotationKey_def)
  with assms show "bl_Put L (channelKey n t) v b \<noteq> None" "bl_Put L (versionKey n s t) v b \<noteq> None"
    "bl_Put L (annotationKey n s t) v b \<noteq> None" "bl_encCM L cm \<noteq> None" "bl_encMsg L m \<noteq> None" "bl_encAnn L a \<noteq> None"
    unfolding lib_accepts_def by blast+
qed

lemma puts_accepted:
  assumes "lib_accepts L"
  shows "putCM L n cm db \<noteq> Inl e" "putID L n s i db \<noteq> Inl e" "putVersion L n m db \<noteq> Inl e" "putAnnotation L n s db a \<noteq> Inl e"
  by (simp_all add: putCM_def putID_def putVersion_def putAnnotation_def accepted [OF assms] del: not_None_eq)

lemma foldE_accepted: "(\<And>d x e. f d x \<noteq> Inl e) \<Longrightarrow> foldE f s xs \<noteq> Inl e"
  by (induction xs arbitrary: s) auto

lemma loops_accepted:
  assumes "lib_accepts L"
  shows "foldE (\<lambda>d m. tryE (putID L n s (m_ID m) d) (putVersion L n m)) db ms \<noteq> Inl e"
    "foldE (\<lambda>d p. putID L n s (p_ID p) d) db ps \<noteq> Inl e" "foldE (putAnnotation L n s) db as \<noteq> Inl e"
  by (rule foldE_accepted; simp add: puts_accepted [OF assms])+

lemma folds_accepted:
  assumes "lib_accepts L"
  shows "foldAllTx L n s i as b = Inl e \<Longrightarrow> \<not> lib_error e"
proof (induction as arbitrary: i b)
  case (Cons a as)
  have "foldSummaryTx L n x b = Inl e \<Longrightarrow> \<not> lib_error e" for x b
    by (auto simp: foldSummaryTx_def Let_def accepted [OF assms] simp del: not_None_eq split: option.splits)
  with Cons show ?case by auto
qed simp

lemma seen_accepted: "boltSeen L n db is = Inl e \<Longrightarrow> \<not> lib_error e"
  by (induction "is") (auto split: if_splits option.splits)

lemma exec_accepted:
  assumes "lib_accepts L" "boltExec L ctxErr False now n op (db, g, bc) = (st, Inl e)"
  shows "\<not> lib_error e"
proof -
  have tx: "boltStoreTx L n now batch msgs db g = (g1, Inl e) \<Longrightarrow> \<not> lib_error e"
      "boltMutateTx L n now mut db g = (g1, Inl e) \<Longrightarrow> \<not> lib_error e"
      "boltAnnotationTx L n now anns db g = (g1, Inl e) \<Longrightarrow> \<not> lib_error e"
      "boltPresenceTx L n now ps db g = (g1, Inl e) \<Longrightarrow> \<not> lib_error e" for g1 batch msgs mut anns ps
    by (auto dest: seen_accepted folds_accepted [OF assms(1)]
        simp: boltStoreTx_def boltMutateTx_def boltAnnotationTx_def boltPresenceTx_def Let_def
        puts_accepted [OF assms(1)] loops_accepted [OF assms(1)]
        split: sum.splits option.splits prod.splits if_splits)
  show ?thesis
    using assms(2) tx by (cases op) (auto simp: boltStore_def boltMutate_def boltStoreAnnotation_def boltStorePresence_def
        dbUpdate_def Let_def split: if_splits sum.splits prod.splits)
qed

section \<open>Properties\<close>

text \<open>The on-disk storage refines the in-memory one. Take any run of a process on a new file:
  channels opened and written in any order, each call with its own context and clock, and any
  library call (an encode, a \<open>Put\<close>, the commit) failing at any point. The same calls make a run of
  the in-memory storage with the same answers, in which each call that failed in the library did
  nothing (a serial may have been minted); at the end both storages hold the same channels: file
  and maps, presence sets, live lists and generator. A write answers with a library error, a
  storage error or a result, never with a broken index or a blob that does not decode.\<close>

theorem bolt_refines_memory:
  assumes "bolt_laws L items" "codec_keeps L K" "empty_file items db" "plain_name series"
    and "bolt_steps L K (boltOpen series db) evs S"
  shows "\<exists>M. spec_steps (NewStorage series) evs M \<and> storage_rel L items K S M"
  by (rule steps_rel [OF assms(1,2,5) open_rel [OF assms(3,4)]])

theorem bolt_refines_memory_witness:
  "bolt_steps listLib (\<lambda>_. True) (boltOpen ''ab'' newFile) bolt_evs bolt2 \<and>
   (\<exists>M. spec_steps (NewStorage ''ab'') bolt_evs M \<and> storage_rel listLib rows (\<lambda>_. True) bolt2 M)"
  using bolt_demo_steps(2) bolt_refines_memory [OF listLib_laws listLib_codec newFile_empty, of "''ab''" bolt_evs bolt2]
  by (simp add: plain_name_def bolt0_def)

text \<open>C16: after any such run, the file holds exactly the ChannelMessages that were answered as
  fresh on the channel, in the order of the answers, each under its channelSerial and decoding to
  what was answered, less the summary snapshots on annotations. So no acknowledged message is lost
  or stored twice, no refused one is stored, and a scan of the channel's rows is in log order.\<close>

theorem bolt_file_is_acknowledged_log:
  assumes "bolt_laws L items" "codec_keeps L K" "empty_file items db" "plain_name series"
    and "bolt_steps L K (boltOpen series db) evs S" "map_of (bs_channels S) n = Some bc"
  shows "map_option (map (\<lambda>(k, v). (k, bl_decCM L v))) (walkPrefix L (db_messages (bs_db S)) (channelPrefix n)) =
    Some (map (\<lambda>cm. (channelKey n (cm_ChannelSerial cm), Some (strip_cm cm))) (answers n evs))"
proof -
  obtain M cs where cs: "chan_rel L items n (bs_db S, bs_gen S, bc) (bs_gen S, cs)" "mem_inv (bs_gen S, cs)" "log_of cs = answers n evs"
    by (rule run_channel [OF assms])
  have d: "db_rel L items n (bs_db S) cs" using cs(1) by (simp add: chan_rel_def)
  obtain v where v: "under items (db_messages (bs_db S)) (channelPrefix n) = map (\<lambda>t. (channelPrefix n @ t, v t)) (cs_order cs)"
    "\<And>t. t \<in> set (cs_order cs) \<Longrightarrow> bl_decCM L (v t) = Some (strip_cm (cmAt cs t))"
    using message_rows [OF assms(1) d cs(2)] by blast
  have inv: "log_inv cs" using cs(2) by (simp add: mem_inv_def)
  have "cm_ChannelSerial (cmAt cs t) = t" if t: "t \<in> set (cs_order cs)" for t
  proof -
    obtain cm where "map_of (cs_byCS cs) t = Some cm" using inv t by (fastforce simp: log_inv_def)
    with inv show ?thesis by (simp add: log_inv_def cmAt_def gget_def)
  qed
  then show ?thesis
    unfolding walkPrefix_eq [OF assms(1)] option.map v(1) cs(3) [symmetric] log_of_def using v(2)
    by (simp add: key_prefix(1))
qed

lemma bolt2_live: "map_option (\<lambda>bc. bc_appender bc = None) (map_of (bs_channels bolt2) ''room'') = Some False"
  by code_simp

lemma bolt2_facts: "map_of (bs_channels bolt2) ''room'' \<noteq> None" "length (answers ''room'' bolt_evs) = 1"
  using bolt2_live by auto code_simp

lemmas bolt2_run = bolt_demo_steps(2) [unfolded bolt0_def]

lemma ab_plain: "plain_name ''ab''"
  by (simp add: plain_name_def)

theorem bolt_file_is_acknowledged_log_witness:
  "length (answers ''room'' bolt_evs) = 1 \<and>
   map_option (map (\<lambda>(k, v). (k, bl_decCM listLib v))) (walkPrefix listLib (db_messages (bs_db bolt2)) (channelPrefix ''room'')) =
     Some (map (\<lambda>cm. (channelKey ''room'' (cm_ChannelSerial cm), Some (strip_cm cm))) (answers ''room'' bolt_evs))"
proof -
  obtain bc where "map_of (bs_channels bolt2) ''room'' = Some bc" using bolt2_facts(1) by blast
  with bolt_file_is_acknowledged_log [OF listLib_laws listLib_codec newFile_empty ab_plain bolt2_run] bolt2_facts(2)
  show ?thesis by blast
qed



text \<open>C36: a restart resumes where the process stopped. Reopen the file a run has left, under any new
  series, and a channel that had a live list: its initial serial is the one minted when it was
  first opened, its current serial is that of the last acknowledged ChannelMessage (or the initial
  one), nothing is written, and the presence set starts empty.\<close>

theorem bolt_restart_resumes:
  assumes "bolt_laws L items" "codec_keeps L K" "empty_file items db" "plain_name series"
    and "bolt_steps L K (boltOpen series db) evs S" "map_of (bs_channels S) n = Some bc" "bc_appender bc = Some ch"
    and "boltStorageChannel L False now n (Some ch2) (boltOpen series2 (bs_db S)) = (S2, res)"
  shows "bs_db S2 = bs_db S \<and> res = Inr \<lparr>bc_appender = Some (Initialize
      (if answers n evs = [] then ch_initialSerial ch else cm_ChannelSerial (last (answers n evs)))
      (ch_initialSerial ch) ch2), bc_members = []\<rparr>"
proof -
  obtain M cs where s: "storage_rel L items K S M"
    and cs: "chan_rel L items n (bs_db S, bs_gen S, bc) (bs_gen S, cs)" "mem_inv (bs_gen S, cs)" "log_of cs = answers n evs"
    by (rule run_channel [OF assms(1-6)])
  have "channel_rel L items K S M n" using s by (simp add: storage_rel_def)
  then obtain v where v: "bl_Get L (db_initials (bs_db S)) n = Some v" "bl_string L v = ch_initialSerial ch"
    using assms(6,7) by (auto simp: channel_rel_def bolt_lawsD(2) [OF assms(1)])
  have d: "db_rel L items n (bs_db S) cs" using cs(1) by (simp add: chan_rel_def)
  have "map cm_ChannelSerial (answers n evs) = cs_order cs" using log_serials [of cs] cs(2,3) by (simp add: mem_inv_def)
  then have "lastSerial L n (bs_db S) = (if answers n evs = [] then None else Some (cm_ChannelSerial (last (answers n evs))))"
    unfolding lastSerial_eq [OF assms(1) d cs(2)] by (metis last_map map_is_Nil_conv)
  with assms(8) v show ?thesis
    by (auto simp: boltStorageChannel_def boltOpen_def dbUpdate_def loadOrMintInitialTx_def Let_def)
qed

theorem bolt_restart_resumes_witness:
  "\<exists>bc ch. map_of (bs_channels bolt2) ''room'' = Some bc \<and> bc_appender bc = Some ch \<and>
    snd (boltStorageChannel listLib False 9 ''room'' (Some (newChannel ''room'')) (boltOpen ''cd'' (bs_db bolt2))) =
      Inr \<lparr>bc_appender = Some (Initialize (cm_ChannelSerial (last (answers ''room'' bolt_evs))) (ch_initialSerial ch)
        (newChannel ''room'')), bc_members = []\<rparr>"
proof -
  obtain bc where bc: "map_of (bs_channels bolt2) ''room'' = Some bc" using bolt2_facts(1) by blast
  then obtain ch where ch: "bc_appender bc = Some ch" using bolt2_live by auto
  obtain S2 res where r: "boltStorageChannel listLib False 9 ''room'' (Some (newChannel ''room'')) (boltOpen ''cd'' (bs_db bolt2)) = (S2, res)"
    by fastforce
  from bolt_restart_resumes [OF listLib_laws listLib_codec newFile_empty ab_plain bolt2_run bc ch r] bolt2_facts(2) bc ch r
  show ?thesis by auto
qed


lemma listLib_accepts: "lib_accepts listLib"
  by (simp add: lib_accepts_def listLib_def)


section \<open>A name that holds the separator\<close>

definition nul_name :: string where
  "nul_name = ''a'' @ [CHR 0x00] @ ''b''"

definition nul_storage :: "bucket boltStorage" where
  "nul_storage = fst (bolt_write_at 6 nul_name bolt_op (fst (boltStorageChannel listLib False 5 nul_name (Some (newChannel nul_name)) bolt0)))"

text \<open>Without the hypothesis that names hold no NUL the channels are not isolated. \<open>a\<close> and
  \<open>a\0b\<close> are valid channel names; after one publish on the second, the history of the first, to
  which nothing was ever published, returns that message.\<close>

theorem bolt_nul_name_leaks:
  "ValidChannelName (runes ''a'') \<and> ValidChannelName (runes nul_name) \<and> map_of (bs_channels nul_storage) ''a'' = None \<and>
   (case boltHistory listLib False ''a'' zeroQuery (bs_db nul_storage) of
      Some (Inr page) \<Rightarrow> map (\<lambda>cm. map m_Data (cm_Messages cm)) (hp_ChannelMessages page) = [[AnyStr ''Hel'']]
    | _ \<Rightarrow> False)"
  by code_simp

section \<open>Deliveries that overtake\<close>

text \<open>A write delivers to the live list after its transaction, outside every lock (\<open>boltDeliver\<close>). When
  two writes on a channel commit one after the other and deliver in the other order, the live list
  is not in log order: its serials decrease.\<close>

definition late_live :: "ChannelMessage option list" where
  "late_live =
     (let S = bolt1; r1 = snd (bolt_write_at 6 ''room'' bolt_op S); S2 = fst (bolt_write_at 6 ''room'' bolt_op S);
          r2 = snd (bolt_write_at 7 ''room'' (OpStore ''g'' [zeroMessage]) S2);
          bc = boltDeliver r1 (boltDeliver r2 (the (map_of (bs_channels S) ''room'')))
      in ch_entries (the (bc_appender bc)))"

theorem bolt_deliveries_overtake:
  "length late_live = 3 \<and> \<not> sorted (map (\<lambda>e. case e of None \<Rightarrow> [] | Some cm \<Rightarrow> cm_ChannelSerial cm) late_live)"
  by code_simp

end
