(* ===== verification/Base64.thy ===== *)
theory Base64
  imports Prelude
begin

text \<open>
  \<open>base64.StdEncoding\<close> of the standard library, as the sources use it: the encoder with padding,
  and the decoder, which skips line breaks, requires the padding and ignores the unused bits.
\<close>

definition b64std :: string where
  "b64std = ''ABCDEFGHIJKLMNOPQRSTUVWXYZabcdefghijklmnopqrstuvwxyz0123456789+/''"

fun index_in :: "'a list \<Rightarrow> 'a \<Rightarrow> nat option" where
  "index_in [] x = None"
| "index_in (y # ys) x = (if x = y then Some 0 else map_option Suc (index_in ys x))"

fun b64quads :: "string \<Rightarrow> string option" where
  "b64quads [] = Some []"
| "b64quads (a # b # c # d # rest) =
     (case (index_in b64std a, index_in b64std b) of
        (Some w, Some x) \<Rightarrow>
          if c = CHR ''='' \<and> d = CHR ''='' then
            if rest = [] then Some [char_of (w * 4 + x div 16)] else None
          else (case index_in b64std c of
                  None \<Rightarrow> None
                | Some y \<Rightarrow>
                    if d = CHR ''='' then
                      if rest = [] then Some [char_of (w * 4 + x div 16), char_of (x mod 16 * 16 + y div 4)] else None
                    else (case index_in b64std d of
                            None \<Rightarrow> None
                          | Some z \<Rightarrow> map_option (\<lambda>bs. char_of (w * 4 + x div 16) #
                              char_of (x mod 16 * 16 + y div 4) # char_of (y mod 4 * 64 + z) # bs) (b64quads rest)))
      | _ \<Rightarrow> None)"
| "b64quads xs = None"

definition b64decode :: "string \<Rightarrow> string option" where
  "b64decode s = b64quads (filter (\<lambda>c. c \<noteq> CHR 0x0A \<and> c \<noteq> CHR 0x0D) s)"

definition b64digit :: "nat \<Rightarrow> char" where
  "b64digit n = b64std ! (n mod 64)"

fun b64groups :: "nat list \<Rightarrow> string" where
  "b64groups [] = []"
| "b64groups [a] = [b64digit (a div 4), b64digit (a mod 4 * 16), CHR ''='', CHR ''='']"
| "b64groups [a, b] = [b64digit (a div 4), b64digit (a mod 4 * 16 + b div 16), b64digit (b mod 16 * 4), CHR ''='']"
| "b64groups (a # b # c # xs) = b64digit (a div 4) # b64digit (a mod 4 * 16 + b div 16) #
     b64digit (b mod 16 * 4 + c div 64) # b64digit (c mod 64) # b64groups xs"

definition b64text :: "string \<Rightarrow> string" where
  "b64text s = b64groups (map of_char s)"

lemma b64_alphabet: "list_all (\<lambda>n. index_in b64std (b64std ! n) = Some n \<and> b64std ! n \<noteq> CHR ''='' \<and>
    b64std ! n \<noteq> CHR 0x0A \<and> b64std ! n \<noteq> CHR 0x0D) [0 ..< 64]"
  by code_simp

lemma b64digit_index [simp]: "n < 64 \<Longrightarrow> index_in b64std (b64digit n) = Some n"
  "b64digit n \<noteq> CHR ''=''" "b64digit n \<noteq> CHR 0x0A" "b64digit n \<noteq> CHR 0x0D"
  using b64_alphabet by (simp_all add: list_all_iff b64digit_def)

lemma b64groups_lines: "filter (\<lambda>c. c \<noteq> CHR 0x0A \<and> c \<noteq> CHR 0x0D) (b64groups ns) = b64groups ns"
  by (induction ns rule: b64groups.induct) simp_all

lemma b64quads_groups:
  assumes "\<forall>n \<in> set ns. n < 256"
  shows "b64quads (b64groups ns) = Some (map char_of ns)"
  using assms
proof (induction ns rule: b64groups.induct)
  case (2 a)
  then have "a div 4 < 64" "a mod 4 * 16 < 64" "a div 4 * 4 + a mod 4 * 16 div 16 = a" by auto
  then show ?case by simp
next
  case (3 a b)
  have m: "a mod 4 < 4" "b mod 16 < 16" by simp_all
  with 3 have l: "a div 4 < 64" "a mod 4 * 16 + b div 16 < 64" "b mod 16 * 4 < 64" by auto
  have "a div 4 * 4 + (a mod 4 * 16 + b div 16) div 16 = a"
    "(a mod 4 * 16 + b div 16) mod 16 * 16 + b mod 16 * 4 div 4 = b" using 3 by auto
  with l show ?case by simp
next
  case (4 a b c xs)
  have m: "a mod 4 < 4" "b mod 16 < 16" "c mod 64 < 64" by simp_all
  with 4 have l: "a div 4 < 64" "a mod 4 * 16 + b div 16 < 64" "b mod 16 * 4 + c div 64 < 64" by auto
  have "a div 4 * 4 + (a mod 4 * 16 + b div 16) div 16 = a"
    "(a mod 4 * 16 + b div 16) mod 16 * 16 + (b mod 16 * 4 + c div 64) div 4 = b"
    "(b mod 16 * 4 + c div 64) mod 4 * 64 + c mod 64 = c" using 4 by auto
  with l m 4 show ?case by simp
qed simp

lemma b64decode_text [simp]: "b64decode (b64text s) = Some s"
proof -
  have "\<forall>n \<in> set (map of_char s). (n :: nat) < 256" by auto
  from b64quads_groups [OF this] show ?thesis by (simp add: b64decode_def b64text_def b64groups_lines comp_def)
qed

end
