(* ===== verification/Msgpack.thy ===== *)
theory Msgpack
  imports Base64 Runes "HOL-Library.Word"
begin

text \<open>
  \<open>internal/protocol/msgpack.go\<close>: the transcoder from msgpack to JSON text. The decoder's input is
  a list of bytes; a read returns what it read and the rest. The text is built as the source
  appends it. A float prints as \<open>strconv.AppendFloat\<close> prints its bits, a parameter. The recursion on
  nested arrays and maps runs on fuel, and twice the input and one is shown to be enough.
\<close>

unbundle bit_operations_syntax

section \<open>Reads\<close>

type_synonym byte = "8 word"

datatype mp_error = ErrInvalidMsgpack | ErrPeek | OutOfFuel

type_synonym 'a reader = "byte list \<Rightarrow> mp_error + ('a \<times> byte list)"

record floatfmt =
  ff32 :: "32 word \<Rightarrow> string"
  ff64 :: "64 word \<Rightarrow> string"

definition ret :: "'a \<Rightarrow> 'a reader" where
  "ret x bs = Inr (x, bs)"

definition andThen :: "'a reader \<Rightarrow> ('a \<Rightarrow> 'c reader) \<Rightarrow> 'c reader" where
  "andThen m f bs = (case m bs of Inl e \<Rightarrow> Inl e | Inr (x, r) \<Rightarrow> f x r)"

definition byteChar :: "byte \<Rightarrow> char" where
  "byteChar b = char_of (unat b)"

definition mpReadByte :: "byte reader" where
  "mpReadByte bs = (case bs of [] \<Rightarrow> Inl ErrInvalidMsgpack | b # r \<Rightarrow> Inr (b, r))"

definition readN :: "nat \<Rightarrow> byte list reader" where
  "readN n bs = (if length bs < n then Inl ErrInvalidMsgpack else Inr (take n bs, drop n bs))"

text \<open>\<open>dec.PeekCode\<close>.\<close>

definition peekCode :: "byte reader" where
  "peekCode bs = (case bs of [] \<Rightarrow> Inl ErrPeek | b # _ \<Rightarrow> Inr (b, bs))"

definition bigEndian :: "byte list \<Rightarrow> nat" where
  "bigEndian bs = foldl (\<lambda>n b. n * 256 + unat b) 0 bs"

definition readUint8 :: "8 word reader" where
  "readUint8 = mpReadByte"

definition readUint16 :: "16 word reader" where
  "readUint16 = andThen (readN 2) (\<lambda>b. ret (of_nat (bigEndian b)))"

definition readUint32 :: "32 word reader" where
  "readUint32 = andThen (readN 4) (\<lambda>b. ret (of_nat (bigEndian b)))"

definition readUint64 :: "64 word reader" where
  "readUint64 = andThen (readN 8) (\<lambda>b. ret (of_nat (bigEndian b)))"

section \<open>Codes\<close>

definition isFixedString :: "byte \<Rightarrow> bool" where
  "isFixedString code \<longleftrightarrow> 0xa0 \<le> code \<and> code \<le> 0xbf"

definition isFixedArray :: "byte \<Rightarrow> bool" where
  "isFixedArray code \<longleftrightarrow> 0x90 \<le> code \<and> code \<le> 0x9f"

definition isFixedMap :: "byte \<Rightarrow> bool" where
  "isFixedMap code \<longleftrightarrow> 0x80 \<le> code \<and> code \<le> 0x8f"

text \<open>\<open>readBytes\<close>: the size of each code, computed at the width of the field it is read from, and a
  size of zero for a code that has none.\<close>

definition sizeOf :: "byte \<Rightarrow> nat reader" where
  "sizeOf code =
     (if isFixedString code then ret (unat (code AND 0x1f))
      else if code = 0xd9 \<or> code = 0xc4 then andThen readUint8 (\<lambda>n. ret (unat n))
      else if code = 0xda \<or> code = 0xc5 then andThen readUint16 (\<lambda>n. ret (unat n))
      else if code = 0xdb \<or> code = 0xc6 then andThen readUint32 (\<lambda>n. ret (unat n))
      else if code = 0xd4 then ret 2
      else if code = 0xd5 then ret 3
      else if code = 0xd6 then ret 5
      else if code = 0xd7 then ret 9
      else if code = 0xd8 then ret 17
      else if code = 0xc7 then andThen readUint8 (\<lambda>n. ret (unat (n + 1)))
      else if code = 0xc8 then andThen readUint16 (\<lambda>n. ret (unat (n + 1)))
      else if code = 0xc9 then andThen readUint32 (\<lambda>n. ret (unat (n + 1)))
      else ret 0)"

definition readBytes :: "byte \<Rightarrow> byte list reader" where
  "readBytes code = andThen (sizeOf code) readN"

definition arraySize :: "byte \<Rightarrow> nat reader" where
  "arraySize code =
     (if isFixedArray code then ret (unat (code AND 0xf))
      else if code = 0xdc then andThen readUint16 (\<lambda>n. ret (unat n))
      else andThen readUint32 (\<lambda>n. ret (unat n)))"

definition mapSize :: "byte \<Rightarrow> nat reader" where
  "mapSize code =
     (if isFixedMap code then ret (unat (code AND 0xf))
      else if code = 0xde then andThen readUint16 (\<lambda>n. ret (unat n))
      else andThen readUint32 (\<lambda>n. ret (unat n)))"

section \<open>Text\<close>

definition hexDigit :: "nat \<Rightarrow> char" where
  "hexDigit n = ''0123456789abcdef'' ! n"

definition escapeASCII :: "byte \<Rightarrow> string" where
  "escapeASCII b =
     (if 0x20 \<le> b \<and> b \<noteq> 0x5c \<and> b \<noteq> 0x22 \<and> b \<noteq> 0x3c \<and> b \<noteq> 0x3e \<and> b \<noteq> 0x26 then [byteChar b]
      else if b = 0x5c \<or> b = 0x22 then [CHR 0x5c, byteChar b]
      else if b = 0x08 then [CHR 0x5c, CHR ''b'']
      else if b = 0x0c then [CHR 0x5c, CHR ''f'']
      else if b = 0x0a then [CHR 0x5c, CHR ''n'']
      else if b = 0x0d then [CHR 0x5c, CHR ''r'']
      else if b = 0x09 then [CHR 0x5c, CHR ''t'']
      else CHR 0x5c # ''u00'' @ [hexDigit (unat (drop_bit 4 b)), hexDigit (unat (b AND 0xf))])"

function appendString :: "byte list \<Rightarrow> string" where
  "appendString [] = []"
| "appendString (b # bs) =
     (if b < 0x80 then escapeASCII b @ appendString bs
      else case decodeRune (uint b) (map uint (take 3 bs)) of (c, w) \<Rightarrow>
        (if c = runeError \<and> w = 1 then CHR 0x5c # ''ufffd''
         else if c = 0x2028 \<or> c = 0x2029 then CHR 0x5c # ''u202'' @ [hexDigit (nat (c mod 16))]
         else map byteChar (b # take (w - 1) bs)) @ appendString (drop (w - 1) bs))"
  by pat_completeness auto
termination by (relation "measure length") (auto simp: less_Suc_eq_le)

definition quoted :: "string \<Rightarrow> string" where
  "quoted s = CHR 0x22 # s @ [CHR 0x22]"

definition appendBase64 :: "byte list \<Rightarrow> string" where
  "appendBase64 bs = b64groups (map unat bs)"

definition appendInt :: "int \<Rightarrow> string" where
  "appendInt n = itoa n"

text \<open>\<open>appendExt\<close> after the code.\<close>

definition appendExt :: "byte \<Rightarrow> string reader" where
  "appendExt code = andThen (readBytes code) (\<lambda>b rest.
     if length b < 2 then Inl ErrInvalidMsgpack
     else Inr (CHR ''['' # appendInt (uint (hd b)) @ CHR '','' #
            (if code = 0xd4 then appendInt (uint (b ! 1)) else quoted (appendBase64 (tl b))) @ '']'', rest))"

section \<open>Values\<close>

definition isExt :: "byte \<Rightarrow> bool" where
  "isExt code \<longleftrightarrow> code \<in> set [0xd4, 0xd5, 0xd6, 0xd7, 0xd8, 0xc7, 0xc8, 0xc9]"

text \<open>The codes that hold no value inside; \<open>None\<close> for the others.\<close>

definition appendScalar :: "floatfmt \<Rightarrow> byte \<Rightarrow> string reader option" where
  "appendScalar F code =
     (if code = 0xc0 then Some (ret ''null'')
      else if code = 0xc2 then Some (ret ''false'')
      else if code = 0xc3 then Some (ret ''true'')
      else if code \<le> 0x7f then Some (ret (appendInt (uint code)))
      else if code \<ge> 0xe0 then Some (ret (appendInt (sint code)))
      else if code = 0xcc then Some (andThen readUint8 (\<lambda>n. ret (appendInt (uint n))))
      else if code = 0xcd then Some (andThen readUint16 (\<lambda>n. ret (appendInt (uint n))))
      else if code = 0xce then Some (andThen readUint32 (\<lambda>n. ret (appendInt (uint n))))
      else if code = 0xcf then Some (andThen readUint64 (\<lambda>n. ret (appendInt (uint n))))
      else if code = 0xd0 then Some (andThen readUint8 (\<lambda>n. ret (appendInt (sint n))))
      else if code = 0xd1 then Some (andThen readUint16 (\<lambda>n. ret (appendInt (sint n))))
      else if code = 0xd2 then Some (andThen readUint32 (\<lambda>n. ret (appendInt (sint n))))
      else if code = 0xd3 then Some (andThen readUint64 (\<lambda>n. ret (appendInt (sint n))))
      else if code = 0xca then Some (andThen readUint32 (\<lambda>n. ret (ff32 F n)))
      else if code = 0xcb then Some (andThen readUint64 (\<lambda>n. ret (ff64 F n)))
      else if isFixedString code \<or> code = 0xd9 \<or> code = 0xda \<or> code = 0xdb
        then Some (andThen (readBytes code) (\<lambda>s. ret (quoted (appendString s))))
      else if code = 0xc4 \<or> code = 0xc5 \<or> code = 0xc6
        then Some (andThen (readBytes code) (\<lambda>s. ret (quoted (appendBase64 s))))
      else if isExt code then Some (appendExt code)
      else None)"

definition comma :: "nat \<Rightarrow> string" where
  "comma i = (if i > 0 then '','' else [])"

text \<open>\<open>appendElems i n\<close> and \<open>appendEntries i n\<close> are the loops from the index \<open>i\<close> with \<open>n\<close> items to go.\<close>

fun appendValue :: "floatfmt \<Rightarrow> nat \<Rightarrow> string reader"
  and appendElems :: "floatfmt \<Rightarrow> nat \<Rightarrow> nat \<Rightarrow> nat \<Rightarrow> string reader"
  and appendEntries :: "floatfmt \<Rightarrow> nat \<Rightarrow> nat \<Rightarrow> nat \<Rightarrow> string reader" where
  "appendValue F 0 = (\<lambda>bs. Inl OutOfFuel)"
| "appendValue F (Suc f) = andThen mpReadByte (\<lambda>code.
     case appendScalar F code of
       Some r \<Rightarrow> r
     | None \<Rightarrow>
         if isFixedArray code \<or> code = 0xdc \<or> code = 0xdd
         then andThen (arraySize code) (\<lambda>n. andThen (appendElems F f 0 n) (\<lambda>s. ret (''['' @ s @ '']'')))
         else if isFixedMap code \<or> code = 0xde \<or> code = 0xdf
         then andThen (mapSize code) (\<lambda>n. andThen (appendEntries F f 0 n) (\<lambda>s. ret (''{'' @ s @ ''}'')))
         else (\<lambda>bs. Inl ErrInvalidMsgpack))"
| "appendElems F f i 0 = ret []"
| "appendElems F 0 i (Suc n) = (\<lambda>bs. Inl OutOfFuel)"
| "appendElems F (Suc f) i (Suc n) = andThen (appendValue F f) (\<lambda>s.
     andThen (appendElems F f (Suc i) n) (\<lambda>t. ret (comma i @ s @ t)))"
| "appendEntries F f i 0 = ret []"
| "appendEntries F 0 i (Suc n) = (\<lambda>bs. Inl OutOfFuel)"
| "appendEntries F (Suc f) i (Suc n) = andThen mpReadByte (\<lambda>code. andThen (readBytes code) (\<lambda>key.
     andThen peekCode (\<lambda>nextCode.
       if nextCode = 0xd4 then andThen (readN 3) (\<lambda>fx.
         if fx ! 1 = 0 \<and> fx ! 2 = 0 then appendEntries F f (Suc i) n
         else andThen (appendEntries F f (Suc i) n) (\<lambda>t.
           ret (comma i @ quoted (map byteChar key) @ '':'' @
             ''['' @ appendInt (uint (fx ! 1)) @ '','' @ appendInt (uint (fx ! 2)) @ '']'' @ t)))
       else andThen (appendValue F f) (\<lambda>v. andThen (appendEntries F f (Suc i) n) (\<lambda>t.
         ret (comma i @ quoted (map byteChar key) @ '':'' @ v @ t))))))"

definition MsgpackToJSON :: "floatfmt \<Rightarrow> string reader" where
  "MsgpackToJSON F bs = appendValue F (2 * length bs + 1) bs"

end
