(* ===== verification/Json.thy ===== *)
theory Json
  imports Msgpack "HOL-Library.Monad_Syntax"
begin

text \<open>
  A reference reader of JSON text (RFC 8259, without white space between tokens), against which the
  texts the transcoder writes are judged: a string reads as its UTF-8 bytes, a number as its token.
  An escape of half a surrogate pair is refused; the transcoder writes none.
\<close>

section \<open>Strings\<close>

definition charByte :: "char \<Rightarrow> byte" where
  "charByte c = of_nat (of_char c)"

definition hexval :: "char \<Rightarrow> nat option" where
  "hexval c = index_in ''0123456789abcdef'' c"

definition encodeRune :: "nat \<Rightarrow> byte list option" where
  "encodeRune n =
     (if n < 0x80 then Some [of_nat n]
      else if n < 0x800 then Some [of_nat (0xC0 + n div 64), of_nat (0x80 + n mod 64)]
      else if 0xD800 \<le> n \<and> n \<le> 0xDFFF then None
      else Some [of_nat (0xE0 + n div 4096), of_nat (0x80 + n div 64 mod 64), of_nat (0x80 + n mod 64)])"

definition hex4 :: "char \<Rightarrow> char \<Rightarrow> char \<Rightarrow> char \<Rightarrow> byte list option" where
  "hex4 a b c d = do {
     w \<leftarrow> hexval a; x \<leftarrow> hexval b; y \<leftarrow> hexval c; z \<leftarrow> hexval d;
     encodeRune (((w * 16 + x) * 16 + y) * 16 + z) }"

definition shortEscape :: "char \<Rightarrow> byte option" where
  "shortEscape c = map_of [(CHR 0x22, 0x22), (CHR 0x5c, 0x5c), (CHR ''/'', 0x2f), (CHR ''b'', 0x08),
     (CHR ''f'', 0x0c), (CHR ''n'', 0x0a), (CHR ''r'', 0x0d), (CHR ''t'', 0x09)] c"

text \<open>The body of a string, to its closing quote.\<close>

definition pre :: "byte list \<Rightarrow> (byte list \<times> string) option \<Rightarrow> (byte list \<times> string) option" where
  "pre bs = map_option (\<lambda>(b, s). (bs @ b, s))"

fun jstring :: "string \<Rightarrow> (byte list \<times> string) option" where
  "jstring [] = None"
| "jstring (c # s) =
     (if c = CHR 0x22 then Some ([], s)
      else if c \<noteq> CHR 0x5c then (if charByte c < 0x20 then None else pre [charByte c] (jstring s))
      else case s of
        [] \<Rightarrow> None
      | e # t \<Rightarrow>
          if e = CHR ''u'' then
            (case t of p # q # x # y # w \<Rightarrow> (case hex4 p q x y of None \<Rightarrow> None | Some bs \<Rightarrow> pre bs (jstring w)) | _ \<Rightarrow> None)
          else (case shortEscape e of None \<Rightarrow> None | Some b \<Rightarrow> pre [b] (jstring t)))"

section \<open>Numbers\<close>

definition numChar :: "char \<Rightarrow> bool" where
  "numChar c \<longleftrightarrow> c \<in> set ''0123456789+-.eE''"

definition intPart :: "string \<Rightarrow> bool" where
  "intPart s \<longleftrightarrow> s \<noteq> [] \<and> (hd s = CHR ''0'' \<longrightarrow> s = ''0'')"

definition expPart :: "string \<Rightarrow> bool" where
  "expPart s = (case s of [] \<Rightarrow> True
     | e # r \<Rightarrow> e \<in> set ''eE'' \<and> (let d = (case r of c # q \<Rightarrow> if c \<in> set ''+-'' then q else r | [] \<Rightarrow> r) in d \<noteq> [] \<and> list_all is_dig d))"

definition fracExp :: "string \<Rightarrow> bool" where
  "fracExp s =
     (if s \<noteq> [] \<and> hd s = CHR ''.'' then takeWhile is_dig (tl s) \<noteq> [] \<and> expPart (dropWhile is_dig (tl s)) else expPart s)"

definition jnumber :: "string \<Rightarrow> bool" where
  "jnumber t \<longleftrightarrow> (let u = (if t \<noteq> [] \<and> hd t = CHR ''-'' then tl t else t) in
     intPart (takeWhile is_dig u) \<and> fracExp (dropWhile is_dig u))"

section \<open>Values\<close>

datatype jval = JNull | JBool bool | JNum string | JStr "byte list" | JArr "jval list" | JObj "(byte list \<times> jval) list"

type_synonym 'a jreader = "string \<Rightarrow> ('a \<times> string) option"

definition jscalar :: "jval jreader" where
  "jscalar s =
     (if take 4 s = ''null'' then Some (JNull, drop 4 s)
      else if take 4 s = ''true'' then Some (JBool True, drop 4 s)
      else if take 5 s = ''false'' then Some (JBool False, drop 5 s)
      else if jnumber (takeWhile numChar s) then Some (JNum (takeWhile numChar s), dropWhile numChar s)
      else None)"

text \<open>\<open>jitems\<close> and \<open>jmembers\<close> read what follows an item: the end, or a comma and the next ones.\<close>

fun jvalue :: "nat \<Rightarrow> jval jreader" and jitems :: "nat \<Rightarrow> jval list jreader"
  and jmembers :: "nat \<Rightarrow> (byte list \<times> jval) list jreader" and jmember :: "nat \<Rightarrow> (byte list \<times> jval) jreader" where
  "jvalue 0 s = None"
| "jvalue (Suc f) s =
     (if s = [] then None
      else if hd s = CHR 0x22 then map_option (apfst JStr) (jstring (tl s))
      else if take 2 s = ''[]'' then Some (JArr [], drop 2 s)
      else if hd s = CHR ''['' then do {
        (v, r) \<leftarrow> jvalue f (tl s); (vs, q) \<leftarrow> jitems f r; Some (JArr (v # vs), q) }
      else if take 2 s = ''{}'' then Some (JObj [], drop 2 s)
      else if hd s = CHR ''{'' then do {
        (e, r) \<leftarrow> jmember f (tl s); (es, q) \<leftarrow> jmembers f r; Some (JObj (e # es), q) }
      else jscalar s)"
| "jitems 0 s = None"
| "jitems (Suc f) s =
     (if s = [] then None
      else if hd s = CHR '']'' then Some ([], tl s)
      else if hd s = CHR '','' then do {
        (v, r) \<leftarrow> jvalue f (tl s); (vs, q) \<leftarrow> jitems f r; Some (v # vs, q) }
      else None)"
| "jmembers 0 s = None"
| "jmembers (Suc f) s =
     (if s = [] then None
      else if hd s = CHR ''}'' then Some ([], tl s)
      else if hd s = CHR '','' then do {
        (e, r) \<leftarrow> jmember f (tl s); (es, q) \<leftarrow> jmembers f r; Some (e # es, q) }
      else None)"
| "jmember 0 s = None"
| "jmember (Suc f) s =
     (if s = [] \<or> hd s \<noteq> CHR 0x22 then None
      else do {
        (k, r) \<leftarrow> jstring (tl s);
        if r = [] \<or> hd r \<noteq> CHR '':'' then None
        else do { (v, q) \<leftarrow> jvalue f (tl r); Some ((k, v), q) } })"

definition parseJSON :: "string \<Rightarrow> jval option" where
  "parseJSON s = (case jvalue (length s) s of Some (v, []) \<Rightarrow> Some v | _ \<Rightarrow> None)"

section \<open>What the texts read as\<close>

definition plainByte :: "byte \<Rightarrow> bool" where
  "plainByte b \<longleftrightarrow> 0x20 \<le> b \<and> b \<noteq> 0x22 \<and> b \<noteq> 0x5c"

lemma byte_lt: "unat (b :: byte) < 256"
  using unsigned_less[of b] by simp

lemma charByte_byteChar [simp]: "charByte (byteChar b) = b"
  using byte_lt[of b] by (simp add: charByte_def byteChar_def)

lemma byteChar_charByte [simp]: "byteChar (charByte c) = c"
  by (simp add: charByte_def byteChar_def unat_of_nat take_bit_eq_mod)

lemma byteChar_eq: "byteChar b = c \<longleftrightarrow> b = charByte c"
  by auto

lemma pre_pre [simp]: "pre a (pre b r) = pre (a @ b) r" "pre [] r = r"
  by (cases r; simp add: pre_def split_beta)+

lemma pre_Some [simp]: "pre a (Some (b, s)) = Some (a @ b, s)"
  by (simp add: pre_def)

lemma jstring_plain: "plainByte b \<Longrightarrow> jstring (byteChar b # s) = pre [b] (jstring s)"
proof -
  have "charByte CHR 0x22 = 0x22" "charByte CHR 0x5c = 0x5c" by (simp_all add: charByte_def)
  then show "plainByte b \<Longrightarrow> jstring (byteChar b # s) = pre [b] (jstring s)"
    by (auto simp: plainByte_def byteChar_eq not_less[symmetric])
qed

declare jstring.simps(2) [simp del]

lemma jstring_quote [simp]: "jstring (CHR 0x22 # s) = Some ([], s)"
  by (simp add: jstring.simps(2))

lemma jstring_plains: "list_all plainByte bs \<Longrightarrow> jstring (map byteChar bs @ s) = pre bs (jstring s)"
  by (induction bs) (auto simp: jstring_plain)

lemma hexval_hexDigit [simp]: "n < 16 \<Longrightarrow> hexval (hexDigit n) = Some n"
proof -
  have "list_all (\<lambda>n. hexval (hexDigit n) = Some n) [0 ..< 16]" by code_simp
  then show "n < 16 \<Longrightarrow> hexval (hexDigit n) = Some n" by (simp add: list_all_iff)
qed

lemma hexval_zero [simp]: "hexval CHR ''0'' = Some 0" "hexval CHR ''2'' = Some 2"
  by (simp_all add: hexval_def)

lemma jstring_hex: "hex4 p q x y = Some bs \<Longrightarrow> jstring (CHR 0x5c # CHR ''u'' # p # q # x # y # s) = pre bs (jstring s)"
  by (simp add: jstring.simps(2))

lemma jstring_short: "e \<noteq> CHR ''u'' \<Longrightarrow> shortEscape e = Some b \<Longrightarrow> jstring (CHR 0x5c # e # s) = pre [b] (jstring s)"
  by (simp add: jstring.simps(2))

lemma hex_byte: "b < 0x80 \<Longrightarrow> hex4 CHR ''0'' CHR ''0'' (hexDigit (unat (drop_bit 4 b))) (hexDigit (unat (b AND 0xf))) = Some [b :: byte]"
proof -
  assume b: "b < 0x80"
  have h: "unat (drop_bit 4 b) = unat b div 16" by (simp add: drop_bit_eq_div unat_div)
  have l: "unat (b AND 0xf) = unat b mod 16"
  proof -
    have "b AND 0xf = take_bit 4 b" by (simp add: take_bit_eq_mask mask_eq_exp_minus_1)
    then show ?thesis by (simp add: take_bit_eq_mod unat_mod)
  qed
  have "unat b < 128" using b by (simp add: word_less_nat_alt)
  then show ?thesis by (simp add: h l hex4_def encodeRune_def)
qed

lemma char_specials: "byteChar 0x5c = CHR 0x5c" "byteChar 0x22 = CHR 0x22"
  by code_simp+

lemma jstring_ascii: "b < 0x80 \<Longrightarrow> jstring (escapeASCII b @ s) = pre [b] (jstring s)"
  unfolding escapeASCII_def
  by (auto simp: jstring_plain plainByte_def jstring_hex hex_byte char_specials
      intro!: jstring_short) (auto simp: shortEscape_def)

text \<open>A multi-byte rune is bytes from 0x80 up; U+2028 and U+2029 have one encoding each.\<close>

lemma rune_valid:
  assumes "decodeRune b bs = (c, w)" "0x80 \<le> b" "c \<noteq> runeError \<or> w \<noteq> 1"
  shows "w - 1 \<le> length bs" "list_all (\<lambda>x. 0x80 \<le> x) (take (w - 1) bs)"
  using assms by (auto simp: decodeRune_def cont_def split: if_splits list.splits)

lemma separator_digits:
  fixes b x y :: int
  assumes "b * 4096 + (x * 64 + y) = 934056 + k" "0 \<le> k" "k \<le> 1" "128 \<le> x" "x \<le> 191" "128 \<le> y" "y \<le> 191"
  shows "b = 226 \<and> x = 128 \<and> y = 168 + k"
proof -
  have "4096 * b \<le> 925737" using assms by linarith
  moreover have "921600 < 4096 * b" using assms by linarith
  ultimately have b: "b = 226" by linarith
  then have "64 * x \<le> 8233" using assms by linarith
  then have x: "x = 128" using assms by linarith
  have "y = 168 + k" using assms(1) unfolding b x by linarith
  with b x show ?thesis by blast
qed

lemma rune_separator:
  assumes "decodeRune b bs = (c, w)" "c = 0x2028 \<or> c = 0x2029"
  shows "w = 3 \<and> b = 0xE2 \<and> take 2 bs = [0x80, c - 0x2028 + 0xA8]"
  using assms by (auto simp: decodeRune_def runeError_def cont_def split: if_splits list.splits
      dest: separator_digits[where k = 0, simplified] separator_digits[where k = 1, simplified])

section \<open>Valid UTF-8\<close>

text \<open>Each byte that starts no rune becomes U+FFFD.\<close>

function toValid :: "byte list \<Rightarrow> byte list" where
  "toValid [] = []"
| "toValid (b # bs) =
     (if b < 0x80 then b # toValid bs
      else case decodeRune (uint b) (map uint (take 3 bs)) of (c, w) \<Rightarrow>
        (if c = runeError \<and> w = 1 then [0xEF, 0xBF, 0xBD] else b # take (w - 1) bs) @ toValid (drop (w - 1) bs))"
  by pat_completeness auto
termination by (relation "measure length") (auto simp: less_Suc_eq_le)

lemma hex4_separator: "hex4 CHR ''2'' CHR ''0'' CHR ''2'' (hexDigit 8) = Some [0xE2, 0x80, 0xA8]"
  "hex4 CHR ''2'' CHR ''0'' CHR ''2'' (hexDigit 9) = Some [0xE2, 0x80, 0xA9]"
  "hex4 CHR ''f'' CHR ''f'' CHR ''f'' CHR ''d'' = Some [0xEF, 0xBF, 0xBD]"
  by (simp_all add: hex4_def hexval_def encodeRune_def hexDigit_def)

lemma jstring_separator: "decodeRune (uint b) (map uint (take 3 bs)) = (c, w) \<Longrightarrow> c = 0x2028 \<or> c = 0x2029 \<Longrightarrow>
   jstring (CHR 0x5c # ''u202'' @ hexDigit (nat (c mod 16)) # s) = pre (b # take (w - 1) bs) (jstring s)"
proof -
  assume d: "decodeRune (uint b) (map uint (take 3 bs)) = (c, w)" and c: "c = 0x2028 \<or> c = 0x2029"
  from rune_separator[OF d c] have w: "w = 3" "uint b = 0xE2" and
    t: "map uint (take 2 bs) = [0x80, c - 0x2028 + 0xA8]"
    by (auto simp: take_map min_def)
  have "b = 0xE2" using w(2) by (simp add: word_eq_iff_unsigned[where 'a = int])
  moreover have "take 2 bs = [0x80, word_of_int (c - 0x2028 + 0xA8)]"
    using arg_cong[OF t, of "map (word_of_int :: int \<Rightarrow> byte)"] by (simp add: comp_def)
  ultimately show ?thesis using c w(1) by (auto simp: jstring_hex hex4_separator)
qed

theorem jstring_appendString: "jstring (appendString bs @ CHR 0x22 # s) = Some (toValid bs, s)"
proof (induction bs rule: appendString.induct)
  case (2 b bs)
  show ?case
  proof (cases "b < 0x80")
    case True
    with 2(1) show ?thesis by (simp add: jstring_ascii)
  next
    case False
    obtain c w where d: "decodeRune (uint b) (map uint (take 3 bs)) = (c, w)" by fastforce
    note IH = 2(2)[OF False d[symmetric]]
    consider "c = runeError \<and> w = 1" | "c = 0x2028 \<or> c = 0x2029" |
      "\<not> (c = runeError \<and> w = 1)" "\<not> (c = 0x2028 \<or> c = 0x2029)" by blast
    then show ?thesis
    proof cases
      case 1
      with False d IH show ?thesis by (simp add: jstring_hex hex4_separator)
    next
      case 2
      then have "\<not> (c = runeError \<and> w = 1)" by (auto simp: runeError_def)
      then show ?thesis using 2 False d IH jstring_separator[OF d 2] by auto
    next
      case 3
      have "list_all (\<lambda>x. 0x80 \<le> uint x) (take (w - 1) bs)" "w - 1 \<le> 3"
        using rune_valid[OF d] 3(1) False by (auto simp: word_le_def not_less take_map list_all_iff min_def split: if_splits)
      then have "list_all plainByte (b # take (w - 1) bs)"
        using False by (auto simp: list_all_iff plainByte_def word_le_def not_less word_less_def)
      from jstring_plains[OF this] 3 False d IH show ?thesis by auto
    qed
  qed
qed simp

section \<open>Numbers that are integers\<close>

lemma nat_dec_no_zero: "0 < n \<Longrightarrow> hd (nat_dec n) \<noteq> CHR ''0''"
proof (induction n rule: less_induct)
  case (less n)
  have "dig n \<noteq> CHR ''0''" if "n < 10"
  proof
    assume "dig n = CHR ''0''"
    then have "(of_char (dig n) :: nat) = of_char CHR ''0''" by (simp only:)
    with that less(2) show False by (simp add: dig_def)
  qed
  with less show ?case by (subst nat_dec.simps) (auto simp: hd_append)
qed

lemma nat_dec_number: "takeWhile is_dig (nat_dec n) = nat_dec n" "dropWhile is_dig (nat_dec n) = []"
  using nat_dec_digits[of n] by (auto simp: list_all_iff takeWhile_eq_all_conv)

lemma dig_hd: "is_dig (hd (nat_dec n))"
  using nat_dec_digits[of n] nat_dec_nonempty[of n] by (simp add: list_all_iff)

lemma jnumber_itoa: "jnumber (itoa k)"
proof -
  have m: "hd (nat_dec n) \<noteq> CHR ''-''" for n using dig_hd[of n] by (auto simp: is_dig_def)
  have "intPart (nat_dec n)" for n
  proof (cases "n = 0")
    case True
    then show ?thesis by (simp add: intPart_def nat_dec.simps[of 0] dig_def)
  qed (simp add: intPart_def nat_dec_no_zero)
  moreover have "fracExp []" by (simp add: fracExp_def expPart_def)
  ultimately show ?thesis using m by (simp add: jnumber_def itoa_def Let_def nat_dec_number(1) del: dropWhile_eq_Nil_conv)
      (simp add: nat_dec_number(2) del: dropWhile_eq_Nil_conv)
qed

lemma dig_numChar: "is_dig c \<Longrightarrow> numChar c"
proof -
  have "list_all (\<lambda>n. numChar (char_of (n :: nat))) [48 ..< 58]" by code_simp
  then have "48 \<le> n \<Longrightarrow> n \<le> 57 \<Longrightarrow> numChar (char_of n)" for n :: nat
    unfolding list_all_iff set_upt by simp
  from this[of "of_char c"] show "is_dig c \<Longrightarrow> numChar c" by (simp add: is_dig_def)
qed

lemma itoa_numChars: "list_all numChar (itoa k)" "itoa k \<noteq> []"
  using nat_dec_digits by (auto simp: itoa_def list_all_iff dig_numChar) (simp add: numChar_def)

end
