(* ===== verification/MsgpackLaws.thy ===== *)
theory MsgpackLaws
  imports Json
begin

text \<open>
  The transcoder against a reference: a value, every msgpack encoding of it, and the JSON text it
  stands for. Where the two differ, the transcoder is wrong, with an input that shows it.
\<close>

section \<open>The fuel is enough\<close>

definition tame :: "'a reader \<Rightarrow> bool" where
  "tame r \<longleftrightarrow> (\<forall>bs. r bs \<noteq> Inl OutOfFuel \<and> (\<forall>x rest. r bs = Inr (x, rest) \<longrightarrow> length rest \<le> length bs))"

named_theorems tames

lemma tameD: "tame r \<Longrightarrow> r bs \<noteq> Inl OutOfFuel" "tame r \<Longrightarrow> r bs = Inr (x, rest) \<Longrightarrow> length rest \<le> length bs"
  by (auto simp: tame_def)

lemma tame_ret [tames]: "tame (ret x)"
  by (simp add: tame_def ret_def)

lemma tame_then [tames]: "tame m \<Longrightarrow> (\<And>x. tame (f x)) \<Longrightarrow> tame (andThen m f)"
  unfolding tame_def andThen_def by (fastforce split: sum.splits prod.splits intro: le_trans)

lemma tame_reads [tames]: "tame mpReadByte" "tame (readN n)" "tame peekCode"
  by (auto simp: tame_def mpReadByte_def readN_def peekCode_def split: list.splits if_splits)

lemma tame_uints [tames]: "tame readUint8" "tame readUint16" "tame readUint32" "tame readUint64"
  unfolding readUint8_def readUint16_def readUint32_def readUint64_def by (intro tames)+

lemma tame_sizes [tames]: "tame (sizeOf code)" "tame (arraySize code)" "tame (mapSize code)"
  unfolding sizeOf_def arraySize_def mapSize_def by (simp_all add: tames)

lemma tame_readBytes [tames]: "tame (readBytes code)"
  unfolding readBytes_def by (intro tames)

lemma tame_ext [tames]: "tame (appendExt code)"
proof -
  have "tame (\<lambda>rest. if length b < 2 then Inl ErrInvalidMsgpack else Inr (s b, rest))" for b :: "byte list" and s :: "byte list \<Rightarrow> string"
    by (simp add: tame_def)
  then show ?thesis unfolding appendExt_def by (intro tames)
qed

lemma tame_scalar: "appendScalar F code = Some r \<Longrightarrow> tame r"
  by (auto simp: appendScalar_def split: if_splits intro!: tames)

lemma then_Inr: "andThen m f bs = Inr z \<longleftrightarrow> (\<exists>y r. m bs = Inr (y, r) \<and> f y r = Inr z)"
  by (auto simp: andThen_def split: sum.splits)

lemma then_Inl: "andThen m f bs = Inl e \<longleftrightarrow> m bs = Inl e \<or> (\<exists>y r. m bs = Inr (y, r) \<and> f y r = Inl e)"
  by (auto simp: andThen_def split: sum.splits)

lemma ret_Inr [simp]: "ret x bs = Inr (y, r) \<longleftrightarrow> y = x \<and> r = bs"
  by (auto simp: ret_def)

lemma ret_Inl [simp]: "ret x bs \<noteq> Inl e"
  by (simp add: ret_def)

lemma readByte_Inr: "mpReadByte bs = Inr (b, r) \<longleftrightarrow> bs = b # r"
  by (auto simp: mpReadByte_def split: list.splits)

lemma readN_Inr: "readN n bs = Inr (b, r) \<longleftrightarrow> bs = b @ r \<and> length b = n"
  by (auto simp: readN_def split: if_splits)

lemma peek_Inr: "peekCode bs = Inr (b, r) \<longleftrightarrow> r = bs \<and> (\<exists>t. bs = b # t)"
  by (auto simp: peekCode_def split: list.splits)

lemma reads_fuel [simp]: "mpReadByte bs \<noteq> Inl OutOfFuel" "readN n bs \<noteq> Inl OutOfFuel" "peekCode bs \<noteq> Inl OutOfFuel"
  "readBytes code bs \<noteq> Inl OutOfFuel" "arraySize code bs \<noteq> Inl OutOfFuel" "mapSize code bs \<noteq> Inl OutOfFuel"
  by (auto intro!: tameD tames)

lemmas shrinks = tameD(2)[OF tame_readBytes] tameD(2)[OF tame_sizes(2)] tameD(2)[OF tame_sizes(3)]

text \<open>The three ways a value reads, once its code is known.\<close>

definition isArr :: "byte \<Rightarrow> bool" where
  "isArr code \<longleftrightarrow> isFixedArray code \<or> code = 0xdc \<or> code = 0xdd"

definition isMap :: "byte \<Rightarrow> bool" where
  "isMap code \<longleftrightarrow> isFixedMap code \<or> code = 0xde \<or> code = 0xdf"

lemma value_scalar: "appendScalar F code = Some p \<Longrightarrow> appendValue F (Suc f) (code # bs) = p bs"
  by (simp add: andThen_def mpReadByte_def)

lemma value_array: "appendScalar F code = None \<Longrightarrow> isArr code \<Longrightarrow> appendValue F (Suc f) (code # bs) =
   andThen (arraySize code) (\<lambda>n. andThen (appendElems F f 0 n) (\<lambda>s. ret (''['' @ s @ '']''))) bs"
  by (simp add: andThen_def mpReadByte_def isArr_def)

lemma value_map: "appendScalar F code = None \<Longrightarrow> \<not> isArr code \<Longrightarrow> isMap code \<Longrightarrow> appendValue F (Suc f) (code # bs) =
   andThen (mapSize code) (\<lambda>n. andThen (appendEntries F f 0 n) (\<lambda>s. ret (''{'' @ s @ ''}''))) bs"
  by (simp add: andThen_def mpReadByte_def isArr_def isMap_def)

lemma value_other: "appendScalar F code = None \<Longrightarrow> \<not> isArr code \<Longrightarrow> \<not> isMap code \<Longrightarrow>
   appendValue F (Suc f) (code # bs) = Inl ErrInvalidMsgpack"
  by (simp add: andThen_def mpReadByte_def isArr_def isMap_def)

lemma value_nil: "appendValue F (Suc f) [] = Inl ErrInvalidMsgpack"
  by (simp add: andThen_def mpReadByte_def)

lemmas value_reads = value_scalar value_array value_map value_other value_nil

lemma value_cases:
  obtains "bs = []" | code t p where "bs = code # t" "appendScalar F code = Some p" |
    code t where "bs = code # t" "appendScalar F code = None" "isArr code" |
    code t where "bs = code # t" "appendScalar F code = None" "\<not> isArr code" "isMap code" |
    code t where "bs = code # t" "appendScalar F code = None" "\<not> isArr code" "\<not> isMap code"
  by (metis list.exhaust option.exhaust)

declare appendValue.simps(2) [simp del]

lemma consumes:
  shows value_consumes: "appendValue F f bs = Inr (s, r) \<Longrightarrow> length r < length bs"
    and elems_consume: "appendElems F f i n bs = Inr (s, r) \<Longrightarrow> length r \<le> length bs"
    and entries_consume: "appendEntries F f i n bs = Inr (s, r) \<Longrightarrow> length r \<le> length bs"
proof (induction f arbitrary: i n bs s r)
  case 0
  { case 1 then show ?case by simp
  next
    case 2 then show ?case by (cases n) auto
  next
    case 3 then show ?case by (cases n) auto
  }
next
  case (Suc f)
  { case 1
    then show ?case
    proof (cases rule: value_cases[where bs = bs and F = F])
      case (2 code t p)
      with 1 show ?thesis using tameD(2)[OF tame_scalar] by (fastforce simp: value_reads)
    next
      case (3 code t)
      with 1 obtain n q w where a: "arraySize code t = Inr (n, q)" "appendElems F f 0 n q = Inr (w, r)"
        by (auto simp: value_reads then_Inr)
      from shrinks(2)[OF a(1)] Suc.IH(2)[OF a(2)] 3 show ?thesis by simp
    next
      case (4 code t)
      with 1 obtain n q w where a: "mapSize code t = Inr (n, q)" "appendEntries F f 0 n q = Inr (w, r)"
        by (auto simp: value_reads then_Inr)
      from shrinks(3)[OF a(1)] Suc.IH(3)[OF a(2)] 4 show ?thesis by simp
    qed (auto simp: value_reads)
  next
    case 2
    then show ?case
      by (cases n) (auto simp: then_Inr dest!: Suc.IH(1,2))
  next
    case 3
    then show ?case
      by (cases n) (auto simp: then_Inr readByte_Inr readN_Inr peek_Inr split: if_splits dest!: Suc.IH(1,3) shrinks(1))
  }
qed

text \<open>A value spends one unit of fuel and at least one byte, an item of a loop one more unit.\<close>

lemma fuel_enough:
  shows value_fuel: "2 * length bs + 1 \<le> f \<Longrightarrow> appendValue F f bs \<noteq> Inl OutOfFuel"
    and elems_fuel: "2 * length bs + 2 \<le> f \<Longrightarrow> appendElems F f i n bs \<noteq> Inl OutOfFuel"
    and entries_fuel: "2 * length bs + 2 \<le> f \<Longrightarrow> appendEntries F f i n bs \<noteq> Inl OutOfFuel"
proof (induction f arbitrary: i n bs)
  case (Suc f)
  { case 1
    show ?case
    proof (cases rule: value_cases[where bs = bs and F = F])
      case (2 code t p)
      then show ?thesis using tameD(1)[OF tame_scalar] by (simp add: value_reads)
    next
      case (3 code t)
      have "appendElems F f 0 n q \<noteq> Inl OutOfFuel" if "arraySize code t = Inr (n, q)" for n q
        using shrinks(2)[OF that] 1 3 by (intro Suc.IH(2)) simp
      with 3 show ?thesis by (auto simp: value_reads then_Inl)
    next
      case (4 code t)
      have "appendEntries F f 0 n q \<noteq> Inl OutOfFuel" if "mapSize code t = Inr (n, q)" for n q
        using shrinks(3)[OF that] 1 4 by (intro Suc.IH(3)) simp
      with 4 show ?thesis by (auto simp: value_reads then_Inl)
    qed (auto simp: value_reads)
  next
    case 2
    have v: "appendValue F f bs \<noteq> Inl OutOfFuel" using 2 by (intro Suc.IH(1)) simp
    have "appendElems F f (Suc i) m r \<noteq> Inl OutOfFuel" if "appendValue F f bs = Inr (s, r)" for m s r
      using value_consumes[OF that] 2 by (intro Suc.IH(2)) simp
    with v show ?case by (cases n) (auto simp: then_Inl)
  next
    case 3
    have v: "appendValue F f q \<noteq> Inl OutOfFuel" if "length q \<le> length bs" for q
      using that 3 by (intro Suc.IH(1)) simp
    have e: "appendEntries F f (Suc i) m r \<noteq> Inl OutOfFuel" if "length r < length bs" for m r
      using that 3 by (intro Suc.IH(3)) simp
    show ?case
    proof (cases n)
      case (Suc m)
      with v e show ?thesis
        by (auto simp: then_Inl readByte_Inr peek_Inr readN_Inr dest!: shrinks(1) value_consumes split: if_splits)
    qed simp
  }
qed auto

section \<open>A reference: values, their encodings and what they mean in JSON\<close>

text \<open>\<open>MFix1\<close> is the extension of one byte, which msgpack-js uses for \<open>undefined\<close>.\<close>

datatype mval = MNil | MBool bool | MInt int | MF32 "32 word" | MF64 "64 word" | MStr "byte list" | MBin "byte list"
  | MArr "mval list" | MMap "(byte list \<times> mval) list" | MFix1 byte byte | MExt byte "byte list"

definition mundefined :: mval where
  "mundefined = MFix1 0 0"

primrec be :: "nat \<Rightarrow> nat \<Rightarrow> byte list" where
  "be 0 k = []"
| "be (Suc n) k = be n (k div 256) @ [of_nat k]"

text \<open>A length of \<open>k\<close> in a field of \<open>n\<close> bytes, after its code.\<close>

definition field :: "byte \<Rightarrow> nat \<Rightarrow> nat \<Rightarrow> byte list list" where
  "field code n k = (if k < 256 ^ n then [code # be n k] else [])"

definition strHeads :: "nat \<Rightarrow> byte list list" where
  "strHeads k = (if k < 32 then [[0xa0 + of_nat k]] else []) @ field 0xd9 1 k @ field 0xda 2 k @ field 0xdb 4 k"

definition binHeads :: "nat \<Rightarrow> byte list list" where
  "binHeads k = field 0xc4 1 k @ field 0xc5 2 k @ field 0xc6 4 k"

definition arrHeads :: "nat \<Rightarrow> byte list list" where
  "arrHeads k = (if k < 16 then [[0x90 + of_nat k]] else []) @ field 0xdc 2 k @ field 0xdd 4 k"

definition mapHeads :: "nat \<Rightarrow> byte list list" where
  "mapHeads k = (if k < 16 then [[0x80 + of_nat k]] else []) @ field 0xde 2 k @ field 0xdf 4 k"

definition extHeads :: "nat \<Rightarrow> byte list list" where
  "extHeads k = (if k = 2 then [[0xd5]] else if k = 4 then [[0xd6]] else if k = 8 then [[0xd7]] else if k = 16 then [[0xd8]] else [])
     @ field 0xc7 1 k @ field 0xc8 2 k @ field 0xc9 4 k"

definition uintForms :: "int \<Rightarrow> byte list list" where
  "uintForms k = (if k < 0 then [] else (if k < 128 then [[of_int k]] else []) @
     field 0xcc 1 (nat k) @ field 0xcd 2 (nat k) @ field 0xce 4 (nat k) @ field 0xcf 8 (nat k))"

definition sfield :: "byte \<Rightarrow> nat \<Rightarrow> int \<Rightarrow> byte list list" where
  "sfield code n k = (if - (256 ^ n div 2) \<le> k \<and> k < 256 ^ n div 2 then [code # be n (nat (k mod 256 ^ n))] else [])"

definition sintForms :: "int \<Rightarrow> byte list list" where
  "sintForms k = (if - 32 \<le> k \<and> k < 0 then [[of_int k]] else []) @
     sfield 0xd0 1 k @ sfield 0xd1 2 k @ sfield 0xd2 4 k @ sfield 0xd3 8 k"

fun scalarForms :: "mval \<Rightarrow> byte list list" where
  "scalarForms MNil = [[0xc0]]"
| "scalarForms (MBool b) = [[if b then 0xc3 else 0xc2]]"
| "scalarForms (MInt k) = uintForms k @ sintForms k"
| "scalarForms (MF32 w) = [0xca # be 4 (unat w)]"
| "scalarForms (MF64 w) = [0xcb # be 8 (unat w)]"
| "scalarForms (MStr s) = map (\<lambda>h. h @ s) (strHeads (length s))"
| "scalarForms (MBin s) = map (\<lambda>h. h @ s) (binHeads (length s))"
| "scalarForms (MFix1 t d) = [[0xd4, t, d]]"
| "scalarForms (MExt t d) = map (\<lambda>h. h @ t # d) (extHeads (length d))"
| "scalarForms v = []"

inductive encodes :: "mval \<Rightarrow> byte list \<Rightarrow> bool"
  and encodesAll :: "mval list \<Rightarrow> byte list \<Rightarrow> bool"
  and encodesEntries :: "(byte list \<times> mval) list \<Rightarrow> byte list \<Rightarrow> bool" where
  enc_scalar: "b \<in> set (scalarForms v) \<Longrightarrow> encodes v b"
| enc_arr: "h \<in> set (arrHeads (length vs)) \<Longrightarrow> encodesAll vs bs \<Longrightarrow> encodes (MArr vs) (h @ bs)"
| enc_map: "h \<in> set (mapHeads (length es)) \<Longrightarrow> encodesEntries es bs \<Longrightarrow> encodes (MMap es) (h @ bs)"
| encs_nil: "encodesAll [] []"
| encs_cons: "encodes v b \<Longrightarrow> encodesAll vs bs \<Longrightarrow> encodesAll (v # vs) (b @ bs)"
| ents_nil: "encodesEntries [] []"
| ents_cons: "h \<in> set (strHeads (length k)) \<Longrightarrow> encodes v b \<Longrightarrow> encodesEntries es bs \<Longrightarrow>
     encodesEntries ((k, v) # es) (h @ k @ b @ bs)"

text \<open>What a value is in JSON, and the text that says so.\<close>

lemma entry_size [termination_simp]: "(k, v) \<in> set es \<Longrightarrow> size (v :: mval) < Suc (size_list (size_prod f size) es)"
  by (induction es) auto

definition defined :: "(byte list \<times> mval) list \<Rightarrow> (byte list \<times> mval) list" where
  "defined es = filter (\<lambda>e. snd e \<noteq> mundefined) es"

lemma set_defined [termination_simp]: "e \<in> set (defined es) \<longleftrightarrow> e \<in> set es \<and> snd e \<noteq> mundefined"
  by (auto simp: defined_def)

definition b64bytes :: "byte list \<Rightarrow> byte list" where
  "b64bytes d = map charByte (appendBase64 d)"

fun toJSON :: "floatfmt \<Rightarrow> mval \<Rightarrow> jval" where
  "toJSON F MNil = JNull"
| "toJSON F (MBool b) = JBool b"
| "toJSON F (MInt k) = JNum (itoa k)"
| "toJSON F (MF32 w) = JNum (ff32 F w)"
| "toJSON F (MF64 w) = JNum (ff64 F w)"
| "toJSON F (MStr s) = JStr (toValid s)"
| "toJSON F (MBin d) = JStr (b64bytes d)"
| "toJSON F (MArr vs) = JArr (map (toJSON F) vs)"
| "toJSON F (MMap es) = JObj (map (\<lambda>(k, v). (k, toJSON F v)) (defined es))"
| "toJSON F (MFix1 t d) = JArr [JNum (itoa (uint t)), JNum (itoa (uint d))]"
| "toJSON F (MExt t d) = JArr [JNum (itoa (uint t)), JStr (b64bytes d)]"

definition member :: "byte list \<Rightarrow> string \<Rightarrow> string" where
  "member k v = quoted (map byteChar k) @ '':'' @ v"

fun jsonText :: "floatfmt \<Rightarrow> mval \<Rightarrow> string" where
  "jsonText F MNil = ''null''"
| "jsonText F (MBool b) = (if b then ''true'' else ''false'')"
| "jsonText F (MInt k) = itoa k"
| "jsonText F (MF32 w) = ff32 F w"
| "jsonText F (MF64 w) = ff64 F w"
| "jsonText F (MStr s) = quoted (appendString s)"
| "jsonText F (MBin d) = quoted (appendBase64 d)"
| "jsonText F (MArr vs) = ''['' @ join_with (CHR '','') (map (jsonText F) vs) @ '']''"
| "jsonText F (MMap es) = ''{'' @ join_with (CHR '','') (map (\<lambda>(k, v). member k (jsonText F v)) (defined es)) @ ''}''"
| "jsonText F (MFix1 t d) = ''['' @ itoa (uint t) @ '','' @ itoa (uint d) @ '']''"
| "jsonText F (MExt t d) = ''['' @ itoa (uint t) @ '','' @ quoted (appendBase64 d) @ '']''"

text \<open>The values the transcoder is right about: its own bugs are out, see below. A float is finite when its exponent
  is not all ones.\<close>

definition finite32 :: "32 word \<Rightarrow> bool" where
  "finite32 w \<longleftrightarrow> w AND 0x7F800000 \<noteq> 0x7F800000"

definition finite64 :: "64 word \<Rightarrow> bool" where
  "finite64 w \<longleftrightarrow> w AND 0x7FF0000000000000 \<noteq> 0x7FF0000000000000"

fun tidy :: "mval \<Rightarrow> bool" where
  "tidy (MF32 w) = finite32 w"
| "tidy (MF64 w) = finite64 w"
| "tidy (MArr vs) = list_all tidy vs"
| "tidy (MMap es) = (list_all (\<lambda>(k, v). list_all plainByte k \<and> toValid k = k \<and> tidy v) es \<and>
     (es = [] \<or> snd (hd es) \<noteq> mundefined \<or> defined es = []))"
| "tidy (MExt t d) = (length d \<notin> set [0, 255, 65535, 4294967295])"
| "tidy v = True"

section \<open>Reading back a field\<close>

lemma length_be [simp]: "length (be n k) = n"
  by (induction n arbitrary: k) auto

lemma bigEndian_snoc [simp]: "bigEndian [] = 0" "bigEndian (bs @ [b]) = bigEndian bs * 256 + unat b"
  by (simp_all add: bigEndian_def)

lemma bigEndian_be: "bigEndian (be n k) = k mod 256 ^ n"
proof (induction n arbitrary: k)
  case (Suc n)
  have "unat (of_nat k :: byte) = k mod 256" by (simp add: unat_of_nat)
  with Suc show ?case by (simp add: mod_mult2_eq)
qed simp

lemma readN_be [simp]: "readN n (be n k @ r) = Inr (be n k, r)"
  by (simp add: readN_def)

lemma readByte_be: "readUint8 (b # r) = Inr (b, r)"
  by (simp add: readUint8_def mpReadByte_def)

lemma readUint_be:
  "readUint16 (be 2 k @ r) = Inr (of_nat k, r)"
  "readUint32 (be 4 k @ r) = Inr (of_nat k, r)"
  "readUint64 (be 8 k @ r) = Inr (of_nat k, r)"
  by (simp_all add: readUint16_def readUint32_def readUint64_def andThen_def ret_def bigEndian_be
      word_eq_iff_unsigned[where 'a = nat] unat_of_nat)

lemmas reads_be = readByte_be readUint_be

lemma small_fixed:
  "k < 32 \<Longrightarrow> isFixedString (0xa0 + of_nat k) \<and> unat ((0xa0 + of_nat k :: byte) AND 0x1f) = k"
  "k < 16 \<Longrightarrow> isFixedArray (0x90 + of_nat k) \<and> unat ((0x90 + of_nat k :: byte) AND 0xf) = k"
  "k < 16 \<Longrightarrow> isFixedMap (0x80 + of_nat k) \<and> unat ((0x80 + of_nat k :: byte) AND 0xf) = k"
proof -
  have "list_all (\<lambda>k. isFixedString (0xa0 + of_nat k) \<and> unat ((0xa0 + of_nat k :: byte) AND 0x1f) = k) [0 ..< 32]"
    "list_all (\<lambda>k. isFixedArray (0x90 + of_nat k) \<and> unat ((0x90 + of_nat k :: byte) AND 0xf) = k) [0 ..< 16]"
    "list_all (\<lambda>k. isFixedMap (0x80 + of_nat k) \<and> unat ((0x80 + of_nat k :: byte) AND 0xf) = k) [0 ..< 16]"
    by code_simp+
  then show "k < 32 \<Longrightarrow> isFixedString (0xa0 + of_nat k) \<and> unat ((0xa0 + of_nat k :: byte) AND 0x1f) = k"
  "k < 16 \<Longrightarrow> isFixedArray (0x90 + of_nat k) \<and> unat ((0x90 + of_nat k :: byte) AND 0xf) = k"
  "k < 16 \<Longrightarrow> isFixedMap (0x80 + of_nat k) \<and> unat ((0x80 + of_nat k :: byte) AND 0xf) = k"
    unfolding list_all_iff set_upt by auto
qed

lemma field_mem [simp]: "h \<in> set (field c n k) \<longleftrightarrow> k < 256 ^ n \<and> h = c # be n k"
  by (auto simp: field_def)

lemma sfield_mem [simp]: "h \<in> set (sfield c n k) \<longleftrightarrow>
   - (256 ^ n div 2) \<le> k \<and> k < 256 ^ n div 2 \<and> h = c # be n (nat (k mod 256 ^ n))"
  by (auto simp: sfield_def)

lemma unat_field: "k < 256 \<Longrightarrow> unat (of_nat k :: 8 word) = k" "k < 65536 \<Longrightarrow> unat (of_nat k :: 16 word) = k"
  "k < 4294967296 \<Longrightarrow> unat (of_nat k :: 32 word) = k" "k < 18446744073709551616 \<Longrightarrow> unat (of_nat k :: 64 word) = k"
  by (simp_all add: unat_of_nat)

definition isStr :: "byte \<Rightarrow> bool" where
  "isStr code \<longleftrightarrow> isFixedString code \<or> code = 0xd9 \<or> code = 0xda \<or> code = 0xdb"

lemma size_field:
  "k < 256 ^ 1 \<Longrightarrow> code = 0xd9 \<or> code = 0xc4 \<Longrightarrow> sizeOf code (be 1 k @ r) = Inr (k, r)"
  "k < 256 ^ 2 \<Longrightarrow> code = 0xda \<or> code = 0xc5 \<Longrightarrow> sizeOf code (be 2 k @ r) = Inr (k, r)"
  "k < 256 ^ 4 \<Longrightarrow> code = 0xdb \<or> code = 0xc6 \<Longrightarrow> sizeOf code (be 4 k @ r) = Inr (k, r)"
  by (elim disjE; simp add: sizeOf_def isFixedString_def andThen_def ret_def reads_be unat_field)+

lemma str_head:
  assumes "h \<in> set (strHeads k)"
  obtains code t where "h = code # t" "isStr code" "\<And>r. sizeOf code (t @ r) = Inr (k, r)"
proof -
  consider "k < 32" "h = [0xa0 + of_nat k]" | "h \<in> set (field 0xd9 1 k)" | "h \<in> set (field 0xda 2 k)" | "h \<in> set (field 0xdb 4 k)"
    using assms by (auto simp: strHeads_def split: if_splits)
  then show thesis
  proof cases
    case 1
    with small_fixed(1)[of k] show ?thesis by (intro that[of "0xa0 + of_nat k" "[]"]) (auto simp: isStr_def sizeOf_def ret_def)
  qed (rule that, auto simp: isStr_def size_field[simplified])+
qed

lemma bin_head:
  assumes "h \<in> set (binHeads k)"
  obtains code t where "h = code # t" "code \<in> {0xc4, 0xc5, 0xc6}" "\<And>r. sizeOf code (t @ r) = Inr (k, r)"
proof -
  consider "h \<in> set (field 0xc4 1 k)" | "h \<in> set (field 0xc5 2 k)" | "h \<in> set (field 0xc6 4 k)"
    using assms by (auto simp: binHeads_def)
  then show thesis by cases (rule that, auto simp: size_field[simplified])+
qed

lemma arr_head:
  assumes "h \<in> set (arrHeads k)"
  obtains code t where "h = code # t" "isArr code" "\<And>r. arraySize code (t @ r) = Inr (k, r)"
proof -
  consider "k < 16" "h = [0x90 + of_nat k]" | "h \<in> set (field 0xdc 2 k)" | "h \<in> set (field 0xdd 4 k)"
    using assms by (auto simp: arrHeads_def split: if_splits)
  then show thesis
  proof cases
    case 1
    with small_fixed(2)[of k] show ?thesis by (intro that[of "0x90 + of_nat k" "[]"]) (auto simp: isArr_def arraySize_def ret_def)
  qed (rule that, auto simp: isArr_def arraySize_def isFixedArray_def andThen_def ret_def reads_be unat_field)+
qed

lemma map_head:
  assumes "h \<in> set (mapHeads k)"
  obtains code t where "h = code # t" "isMap code" "\<And>r. mapSize code (t @ r) = Inr (k, r)"
proof -
  consider "k < 16" "h = [0x80 + of_nat k]" | "h \<in> set (field 0xde 2 k)" | "h \<in> set (field 0xdf 4 k)"
    using assms by (auto simp: mapHeads_def split: if_splits)
  then show thesis
  proof cases
    case 1
    with small_fixed(3)[of k] show ?thesis by (intro that[of "0x80 + of_nat k" "[]"]) (auto simp: isMap_def mapSize_def ret_def)
  qed (rule that, auto simp: isMap_def mapSize_def isFixedMap_def andThen_def ret_def reads_be unat_field)+
qed

lemma unat_field_plus: "Suc k < 256 \<Longrightarrow> unat (of_nat k + 1 :: 8 word) = Suc k" "Suc k < 65536 \<Longrightarrow> unat (of_nat k + 1 :: 16 word) = Suc k"
  "Suc k < 4294967296 \<Longrightarrow> unat (of_nat k + 1 :: 32 word) = Suc k"
  using unat_field[of "Suc k"] by (simp_all add: add.commute)

lemma size_ext:
  "Suc k < 256 \<Longrightarrow> sizeOf 0xc7 (of_nat k # r) = Inr (Suc k, r)"
  "Suc k < 65536 \<Longrightarrow> sizeOf 0xc8 (be 2 k @ r) = Inr (Suc k, r)"
  "Suc k < 4294967296 \<Longrightarrow> sizeOf 0xc9 (be 4 k @ r) = Inr (Suc k, r)"
  by (simp_all add: sizeOf_def isFixedString_def andThen_def ret_def reads_be unat_field_plus)

lemma size_fixext: "sizeOf 0xd5 r = Inr (3, r)" "sizeOf 0xd6 r = Inr (5, r)" "sizeOf 0xd7 r = Inr (9, r)" "sizeOf 0xd8 r = Inr (17, r)"
  by (simp_all add: sizeOf_def isFixedString_def ret_def)

lemma ext_codes: "isExt 0xd5" "isExt 0xd6" "isExt 0xd7" "isExt 0xd8" "isExt 0xc7" "isExt 0xc8" "isExt 0xc9"
  by (simp_all add: isExt_def)

lemma ext_head:
  assumes "h \<in> set (extHeads k)" "k \<notin> set [0, 255, 65535, 4294967295]"
  obtains code t where "h = code # t" "isExt code" "code \<noteq> 0xd4" "\<And>r. sizeOf code (t @ r) = Inr (Suc k, r)"
proof -
  note facts = ext_codes size_ext size_fixext
  consider "k = 2" "h = [0xd5]" | "k = 4" "h = [0xd6]" | "k = 8" "h = [0xd7]" | "k = 16" "h = [0xd8]" |
    "h \<in> set (field 0xc7 1 k)" | "h \<in> set (field 0xc8 2 k)" | "h \<in> set (field 0xc9 4 k)"
    using assms by (auto simp: extHeads_def split: if_splits)
  then show thesis
  proof cases
    case 5
    with assms(2) have "h = [0xc7, of_nat k]" "Suc k < 256" by auto
    then show ?thesis by (intro that[of "0xc7" "[of_nat k]"]) (simp_all add: facts)
  next
    case 6
    with assms(2) have "h = 0xc8 # be 2 k" "Suc k < 65536" by auto
    then show ?thesis by (intro that[of "0xc8" "be 2 k"]) (simp_all add: facts)
  next
    case 7
    with assms(2) have "h = 0xc9 # be 4 k" "Suc k < 4294967296" by auto
    then show ?thesis by (intro that[of "0xc9" "be 4 k"]) (simp_all add: facts)
  qed (rule that, auto simp: facts)+
qed

section \<open>The transcoder writes the text of the value\<close>

lemma readBytes_sized: "sizeOf code (t @ s @ r) = Inr (length s, s @ r) \<Longrightarrow> readBytes code (t @ s @ r) = Inr (s, r)"
  by (simp add: readBytes_def andThen_def readN_def)

lemma string_codes: "isStr code \<longrightarrow> code \<notin> set [0xc0, 0xc2, 0xc3, 0xcc, 0xcd, 0xce, 0xcf, 0xd0, 0xd1, 0xd2, 0xd3, 0xca, 0xcb] \<and>
    \<not> code \<le> 0x7f \<and> \<not> 0xe0 \<le> code"
  by (auto simp: isStr_def isFixedString_def word_le_nat_alt)

lemma loop_code: "isArr code \<or> isMap code \<longrightarrow> code \<notin> set [0xc0, 0xc2, 0xc3, 0xcc, 0xcd, 0xce, 0xcf, 0xd0, 0xd1, 0xd2, 0xd3, 0xca, 0xcb] \<and>
    \<not> code \<le> 0x7f \<and> \<not> 0xe0 \<le> code \<and> \<not> isStr code \<and> code \<notin> set [0xc4, 0xc5, 0xc6] \<and> \<not> isExt code"
  by (auto simp: isArr_def isMap_def isStr_def isExt_def isFixedArray_def isFixedMap_def isFixedString_def word_le_nat_alt)

lemma map_code: "isMap code \<longrightarrow> \<not> isArr code"
  by (auto simp: isArr_def isMap_def isFixedArray_def isFixedMap_def word_le_nat_alt)

lemma scalar_codes:
  "isStr code \<Longrightarrow> appendScalar F code = Some (andThen (readBytes code) (\<lambda>s. ret (quoted (appendString s))))"
  "code \<in> {0xc4, 0xc5, 0xc6} \<Longrightarrow> appendScalar F code = Some (andThen (readBytes code) (\<lambda>s. ret (quoted (appendBase64 s))))"
  "isExt code \<Longrightarrow> appendScalar F code = Some (appendExt code)"
  subgoal using string_codes[of code] unfolding isStr_def by (simp add: appendScalar_def)
  subgoal by (elim insertE; simp add: appendScalar_def isFixedString_def)
  subgoal unfolding isExt_def by (simp, elim disjE; simp add: appendScalar_def isFixedString_def isExt_def)
  done

lemma loop_codes: "isArr code \<Longrightarrow> appendScalar F code = None"
  "isMap code \<Longrightarrow> appendScalar F code = None" "isMap code \<Longrightarrow> \<not> isArr code"
  using loop_code[of code] map_code[of code] by (simp_all add: appendScalar_def isStr_def)

lemma uint_field: "0 \<le> k \<Longrightarrow> k < 256 \<Longrightarrow> uint (word_of_int k :: 8 word) = k"
  "0 \<le> k \<Longrightarrow> k < 65536 \<Longrightarrow> uint (word_of_int k :: 16 word) = k"
  "0 \<le> k \<Longrightarrow> k < 4294967296 \<Longrightarrow> uint (word_of_int k :: 32 word) = k"
  "0 \<le> k \<Longrightarrow> k < 18446744073709551616 \<Longrightarrow> uint (word_of_int k :: 64 word) = k"
  by (simp_all add: uint_word_of_int_eq take_bit_eq_mod)

lemma sint_mod: "- (2 ^ n) \<le> k \<Longrightarrow> k < 2 ^ n \<Longrightarrow> n = LENGTH('a) - 1 \<Longrightarrow> sint (word_of_int (k mod 2 ^ LENGTH('a)) :: 'a :: len word) = k"
  by (simp add: sint_sbintrunc' signed_take_bit_int_eq_self take_bit_eq_mod[symmetric] signed_take_bit_take_bit)

lemma sint_nat_mod: "- (2 ^ n) \<le> k \<Longrightarrow> k < 2 ^ n \<Longrightarrow> n = LENGTH('a) - 1 \<Longrightarrow> m = 2 ^ LENGTH('a) \<Longrightarrow>
    sint (of_nat (nat (k mod m)) :: 'a :: len word) = k"
  using sint_mod[where 'a = 'a] by (simp add: of_nat_nat)

lemma sint_field: "- 128 \<le> k \<Longrightarrow> k < 128 \<Longrightarrow> sint (of_nat (nat (k mod 256)) :: 8 word) = k"
  "- 32768 \<le> k \<Longrightarrow> k < 32768 \<Longrightarrow> sint (of_nat (nat (k mod 65536)) :: 16 word) = k"
  "- 2147483648 \<le> k \<Longrightarrow> k < 2147483648 \<Longrightarrow> sint (of_nat (nat (k mod 4294967296)) :: 32 word) = k"
  "- 9223372036854775808 \<le> k \<Longrightarrow> k < 9223372036854775808 \<Longrightarrow> sint (of_nat (nat (k mod 18446744073709551616)) :: 64 word) = k"
  by (rule sint_nat_mod[where n = 7] sint_nat_mod[where n = 15] sint_nat_mod[where n = 31] sint_nat_mod[where n = 63]; simp; fail)+

lemma value_read: "appendScalar F code = Some p \<Longrightarrow> p bs = z \<Longrightarrow> appendValue F (Suc f) (code # bs) = z"
  by (simp add: value_scalar)

lemma int_codes:
  "appendScalar F 0xcc = Some (andThen readUint8 (\<lambda>n. ret (appendInt (uint n))))"
  "appendScalar F 0xcd = Some (andThen readUint16 (\<lambda>n. ret (appendInt (uint n))))"
  "appendScalar F 0xce = Some (andThen readUint32 (\<lambda>n. ret (appendInt (uint n))))"
  "appendScalar F 0xcf = Some (andThen readUint64 (\<lambda>n. ret (appendInt (uint n))))"
  "appendScalar F 0xd0 = Some (andThen readUint8 (\<lambda>n. ret (appendInt (sint n))))"
  "appendScalar F 0xd1 = Some (andThen readUint16 (\<lambda>n. ret (appendInt (sint n))))"
  "appendScalar F 0xd2 = Some (andThen readUint32 (\<lambda>n. ret (appendInt (sint n))))"
  "appendScalar F 0xd3 = Some (andThen readUint64 (\<lambda>n. ret (appendInt (sint n))))"
  by (simp_all add: appendScalar_def)

lemma be_one: "be 1 k = [of_nat k]"
  by simp

lemma uint_text: "b \<in> set (uintForms k) \<Longrightarrow> appendValue F (Suc f) (b @ r) = Inr (itoa k, r)"
proof -
  assume "b \<in> set (uintForms k)"
  then have k: "0 \<le> k" and c: "k < 128 \<and> b = [of_int k] \<or> k < 256 \<and> b = 0xcc # be 1 (nat k) \<or> k < 65536 \<and> b = 0xcd # be 2 (nat k) \<or>
      k < 4294967296 \<and> b = 0xce # be 4 (nat k) \<or> k < 18446744073709551616 \<and> b = 0xcf # be 8 (nat k)"
    by (auto simp: uintForms_def nat_less_iff split: if_splits)
  have low: "appendScalar F (of_int k) = Some (ret (itoa k))" if "k < 128"
  proof -
    have "uint (of_int k :: byte) = k" using k that by (simp add: uint_word_of_int_eq take_bit_eq_mod)
    then have "(of_int k :: byte) \<le> 0x7f" "(of_int k :: byte) \<notin> {0xc0, 0xc2, 0xc3}" "uint (of_int k :: byte) = k"
      using that by (auto simp: word_le_def)
    then show ?thesis by (simp add: appendScalar_def appendInt_def)
  qed
  from c show ?thesis using k low
    by (elim disjE conjE) (simp_all add: value_scalar int_codes andThen_def ret_def reads_be appendInt_def uint_field)
qed

lemma sint_text: "b \<in> set (sintForms k) \<Longrightarrow> appendValue F (Suc f) (b @ r) = Inr (itoa k, r)"
proof -
  assume "b \<in> set (sintForms k)"
  then have c: "- 32 \<le> k \<and> k < 0 \<and> b = [of_int k] \<or>
      - 128 \<le> k \<and> k < 128 \<and> b = 0xd0 # be 1 (nat (k mod 256)) \<or>
      - 32768 \<le> k \<and> k < 32768 \<and> b = 0xd1 # be 2 (nat (k mod 65536)) \<or>
      - 2147483648 \<le> k \<and> k < 2147483648 \<and> b = 0xd2 # be 4 (nat (k mod 4294967296)) \<or>
      - 9223372036854775808 \<le> k \<and> k < 9223372036854775808 \<and> b = 0xd3 # be 8 (nat (k mod 18446744073709551616))"
    by (auto simp: sintForms_def simp del: be.simps split: if_splits)
  have low: "appendScalar F (of_int k) = Some (ret (itoa k))" if "- 32 \<le> k" "k < 0"
  proof -
    have u: "uint (of_int k :: byte) = k + 256"
      using that mod_pos_pos_trivial[of "k + 256" 256] by (simp add: uint_word_of_int_eq take_bit_eq_mod)
    have s: "sint (of_int k :: byte) = k" using that by (simp add: sint_sbintrunc' signed_take_bit_int_eq_self)
    have "\<not> (of_int k :: byte) \<le> 0x7f" "0xe0 \<le> (of_int k :: byte)" "(of_int k :: byte) \<notin> {0xc0, 0xc2, 0xc3}"
      using u that by (auto simp: word_le_def)
    with s show ?thesis by (simp add: appendScalar_def appendInt_def)
  qed
  note rules = value_scalar int_codes andThen_def ret_def reads_be appendInt_def sint_field
  from c show ?thesis
  proof (elim disjE conjE)
    assume "- 32 \<le> k" "k < 0" "b = [of_int k]"
    with low show ?thesis by (simp add: value_scalar ret_def)
  qed (simp_all only: be_one append_Cons append_Nil rules sum.case prod.case)
qed

lemma ext_text:
  assumes "isExt code" "code \<noteq> 0xd4" "sizeOf code (t @ (ty # d) @ r) = Inr (Suc (length d), (ty # d) @ r)" "d \<noteq> []"
  shows "appendValue F (Suc f) (code # t @ (ty # d) @ r) = Inr (jsonText F (MExt ty d), r)"
proof -
  from readBytes_sized[of code t "ty # d" r] assms have "readBytes code (t @ (ty # d) @ r) = Inr (ty # d, r)" by simp
  with assms show ?thesis
    by (simp add: value_scalar scalar_codes appendExt_def andThen_def appendInt_def Suc_le_eq not_less)
qed

lemma scalar_text: "b \<in> set (scalarForms v) \<Longrightarrow> tidy v \<Longrightarrow> appendValue F (Suc f) (b @ r) = Inr (jsonText F v, r)"
proof (cases v)
  case (MStr s)
  assume "b \<in> set (scalarForms v)"
  with MStr obtain h where h: "h \<in> set (strHeads (length s))" and b: "b = h @ s" by auto
  from h obtain code t where c: "h = code # t" "isStr code" "\<And>r. sizeOf code (t @ r) = Inr (length s, r)" by (rule str_head) blast
  with readBytes_sized[of code t s r] MStr b show ?thesis
    by (simp add: value_scalar scalar_codes andThen_def ret_def)
next
  case (MBin s)
  assume "b \<in> set (scalarForms v)"
  with MBin obtain h where h: "h \<in> set (binHeads (length s))" and b: "b = h @ s" by auto
  from h obtain code t where c: "h = code # t" "code \<in> {0xc4, 0xc5, 0xc6}" "\<And>r. sizeOf code (t @ r) = Inr (length s, r)"
    by (rule bin_head) blast
  with readBytes_sized[of code t s r] MBin b show ?thesis
    by (simp add: value_scalar scalar_codes(2)[OF c(2)] andThen_def ret_def)
next
  case (MExt ty d)
  assume "b \<in> set (scalarForms v)" and t: "tidy v"
  with MExt obtain h where h: "h \<in> set (extHeads (length d))" and b: "b = h @ ty # d" by auto
  have "length d \<notin> set [0, 255, 65535, 4294967295]" using MExt t by (simp only: tidy.simps not_False_eq_True)
  from h this obtain code q where c: "h = code # q" "isExt code" "code \<noteq> 0xd4" "\<And>r. sizeOf code (q @ r) = Inr (Suc (length d), r)"
    by (rule ext_head) blast
  from t MExt have "d \<noteq> []" by auto
  with ext_text[OF c(2,3,4)] c b MExt show ?thesis by simp
next
  case (MInt k)
  assume "b \<in> set (scalarForms v)"
  with MInt uint_text sint_text show ?thesis by auto
next
  case (MFix1 t d)
  assume "b \<in> set (scalarForms v)"
  moreover have "isExt 0xd4" by (simp add: isExt_def)
  moreover have "sizeOf 0xd4 x = Inr (2, x)" for x by (simp add: sizeOf_def isFixedString_def ret_def)
  ultimately show ?thesis using MFix1
    by (simp add: value_scalar scalar_codes(3) appendExt_def readBytes_def andThen_def readN_def appendInt_def)
qed (auto simp: value_scalar appendScalar_def andThen_def ret_def reads_be)

text \<open>Only an extension of one byte starts with its code.\<close>

lemma int_head: "b \<in> set (uintForms k @ sintForms k) \<Longrightarrow> b \<noteq> [] \<and> hd b \<noteq> 0xd4"
proof -
  have "(of_int k :: byte) \<noteq> 0xd4" if "- 32 \<le> k" "k < 128"
  proof
    assume "(of_int k :: byte) = 0xd4"
    then have "k mod 256 = 212" by (simp add: word_eq_iff_unsigned[where 'a = int] uint_word_of_int_eq take_bit_eq_mod)
    with that show False by presburger
  qed
  then show "b \<in> set (uintForms k @ sintForms k) \<Longrightarrow> b \<noteq> [] \<and> hd b \<noteq> 0xd4"
    by (auto simp: uintForms_def sintForms_def split: if_splits)
qed

lemma str_not_ext: "isStr code \<Longrightarrow> code \<noteq> 0xd4" "isArr code \<Longrightarrow> code \<noteq> 0xd4" "isMap code \<Longrightarrow> code \<noteq> 0xd4"
  using loop_code[of code] by (auto simp: isStr_def isFixedString_def isExt_def)

lemma scalar_head: "b \<in> set (scalarForms v) \<Longrightarrow> tidy v \<Longrightarrow> b \<noteq> [] \<and> (hd b = 0xd4 \<longrightarrow> (\<exists>t d. v = MFix1 t d \<and> b = [0xd4, t, d]))"
proof (cases v)
  case (MExt ty d)
  assume "b \<in> set (scalarForms v)" and t: "tidy v"
  with MExt obtain h where h: "h \<in> set (extHeads (length d))" and b: "b = h @ ty # d" by auto
  have "length d \<notin> set [0, 255, 65535, 4294967295]" using MExt t by (simp only: tidy.simps not_False_eq_True)
  from h this b show ?thesis by (auto elim: ext_head)
qed (use int_head str_not_ext in \<open>auto elim!: str_head bin_head\<close>)

lemma encodes_head: "encodes v b \<Longrightarrow> tidy v \<Longrightarrow> b \<noteq> [] \<and> (hd b = 0xd4 \<longrightarrow> (\<exists>t d. v = MFix1 t d \<and> b = [0xd4, t, d]))"
  by (erule encodes.cases) (use scalar_head str_not_ext in \<open>auto elim!: arr_head map_head\<close>)

text \<open>The texts of the loops from the index \<open>i\<close>.\<close>

fun loopText :: "nat \<Rightarrow> string list \<Rightarrow> string" where
  "loopText i [] = []"
| "loopText i (t # ts) = comma i @ t @ loopText (Suc i) ts"

fun entryText :: "floatfmt \<Rightarrow> nat \<Rightarrow> (byte list \<times> mval) list \<Rightarrow> string" where
  "entryText F i [] = []"
| "entryText F i ((k, v) # es) = (if v = mundefined then [] else comma i @ member k (jsonText F v)) @ entryText F (Suc i) es"

lemma loopText_after: "loopText (Suc i) ts = concat (map (\<lambda>t. '','' @ t) ts)"
  by (induction ts arbitrary: i) (auto simp: comma_def)

lemma join_concat: "join_with c (t # ts) = t @ concat (map (\<lambda>t. c # t) ts)"
  by (induction ts arbitrary: t) auto

lemma loopText_join: "loopText 0 ts = join_with (CHR '','') ts"
  by (cases ts) (auto simp: loopText_after join_concat comma_def)

lemma entryText_after: "entryText F (Suc i) es = concat (map (\<lambda>(k, v). '','' @ member k (jsonText F v)) (defined es))"
  by (induction es arbitrary: i) (auto simp: comma_def defined_def)

lemma entryText_join: "es = [] \<or> snd (hd es) \<noteq> mundefined \<or> defined es = [] \<Longrightarrow>
   entryText F 0 es = join_with (CHR '','') (map (\<lambda>(k, v). member k (jsonText F v)) (defined es))"
proof (cases es)
  case (Cons e es')
  obtain k v where e: "e = (k, v)" by force
  assume h: "es = [] \<or> snd (hd es) \<noteq> mundefined \<or> defined es = []"
  show ?thesis
  proof (cases "v = mundefined")
    case True
    with h Cons e have "defined es = []" "defined es' = []" by (auto simp: defined_def)
    with True Cons e show ?thesis by (simp add: entryText_after)
  next
    case False
    with Cons e have "defined es = (k, v) # defined es'" by (simp add: defined_def)
    with False Cons e show ?thesis by (simp add: entryText_after join_concat comma_def case_prod_unfold comp_def)
  qed
qed (simp add: defined_def)

definition tidyEntry :: "byte list \<times> mval \<Rightarrow> bool" where
  "tidyEntry = (\<lambda>(k, v). list_all plainByte k \<and> toValid k = k \<and> tidy v)"

lemma entries_step:
  assumes "readBytes code (t @ k @ b @ q) = Inr (k, b @ q)" "b \<noteq> []" "hd b \<noteq> 0xd4"
    "appendValue F f (b @ q) = Inr (s, q)" "appendEntries F f (Suc i) n q = Inr (x, r)"
  shows "appendEntries F (Suc f) i (Suc n) (code # t @ k @ b @ q) = Inr (comma i @ member k s @ x, r)"
  using assms by (cases b) (simp_all add: andThen_def ret_def mpReadByte_def peekCode_def member_def)

lemma entries_fix1:
  assumes "readBytes code (u @ k @ [0xd4, t, d] @ q) = Inr (k, [0xd4, t, d] @ q)" "appendEntries F f (Suc i) n q = Inr (x, r)"
  shows "appendEntries F (Suc f) i (Suc n) (code # u @ k @ [0xd4, t, d] @ q) =
    Inr (entryText F i [(k, MFix1 t d)] @ x, r)"
  using assms
  by (simp add: andThen_def ret_def mpReadByte_def peekCode_def readN_def member_def appendInt_def mundefined_def numeral_2_eq_2)

lemma writes_text:
  "encodes v b \<Longrightarrow> tidy v \<Longrightarrow> 2 * length b + 1 \<le> f \<Longrightarrow> appendValue F f (b @ r) = Inr (jsonText F v, r)"
  "encodesAll vs bs \<Longrightarrow> list_all tidy vs \<Longrightarrow> 2 * length bs + 2 \<le> f \<Longrightarrow>
     appendElems F f i (length vs) (bs @ r) = Inr (loopText i (map (jsonText F) vs), r)"
  "encodesEntries es bs \<Longrightarrow> list_all tidyEntry es \<Longrightarrow> 2 * length bs + 2 \<le> f \<Longrightarrow>
     appendEntries F f i (length es) (bs @ r) = Inr (entryText F i es, r)"
proof (induction arbitrary: f r and f i r and f i r rule: encodes_encodesAll_encodesEntries.inducts)
  case (enc_scalar b v)
  then show ?case by (cases f) (auto intro: scalar_text)
next
  case (enc_arr h vs bs)
  from enc_arr(1) obtain code t where h: "h = code # t" "isArr code" "\<And>r. arraySize code (t @ r) = Inr (length vs, r)"
    by (rule arr_head) blast
  from enc_arr(4,5) h obtain g where f: "f = Suc g" "2 * length bs + 2 \<le> g" by (cases f) auto
  from enc_arr.IH[of g 0 r] enc_arr.prems f h show ?case
    by (simp add: value_array loop_codes andThen_def ret_def loopText_join)
next
  case (enc_map h es bs)
  from enc_map(1) obtain code t where h: "h = code # t" "isMap code" "\<And>r. mapSize code (t @ r) = Inr (length es, r)"
    by (rule map_head) blast
  from enc_map(4,5) h obtain g where f: "f = Suc g" "2 * length bs + 2 \<le> g" by (cases f) auto
  from enc_map.prems have "entryText F 0 es = join_with (CHR '','') (map (\<lambda>(k, v). member k (jsonText F v)) (defined es))"
    by (intro entryText_join) simp
  with enc_map.IH[of g 0 r] enc_map.prems f h show ?case
    by (simp add: value_map loop_codes andThen_def ret_def tidyEntry_def)
next
  case (encs_cons v b vs bs)
  from encodes_head[OF encs_cons(1)] encs_cons.prems have "b \<noteq> []" by simp
  with encs_cons.prems obtain g where f: "f = Suc g" "2 * length b + 1 \<le> g" "2 * length bs + 2 \<le> g"
    by (cases f; cases b) auto
  from encs_cons.prems encs_cons.IH(1)[of g "bs @ r"] encs_cons.IH(2)[of g "Suc i" r] f show ?case
    by (simp add: andThen_def ret_def)
next
  case (ents_cons h k v b es bs)
  from ents_cons(1) obtain code t where h: "h = code # t" "\<And>r. sizeOf code (t @ r) = Inr (length k, r)"
    by (rule str_head) blast
  have key: "readBytes code (t @ k @ q) = Inr (k, q)" for q
    by (rule readBytes_sized) (simp add: h)
  from ents_cons.prems have tidy: "tidy v" by (simp add: tidyEntry_def)
  from ents_cons.prems h obtain g where f: "f = Suc g" "2 * length b + 1 \<le> g" "2 * length bs + 2 \<le> g"
    by (cases f) auto
  from ents_cons.IH(2)[of g "Suc i" r] ents_cons.prems f
  have rest: "appendEntries F g (Suc i) (length es) (bs @ r) = Inr (entryText F (Suc i) es, r)" by simp
  note b = encodes_head[OF ents_cons(2) tidy]
  show ?case
  proof (cases "hd b = 0xd4")
    case True
    with b obtain x d where "v = MFix1 x d" "b = [0xd4, x, d]" by auto
    with entries_fix1[OF key rest, of x d] f h show ?thesis by simp
  next
    case False
    have "v \<noteq> mundefined" using False ents_cons(2) by (auto simp: mundefined_def elim: encodes.cases)
    with entries_step[OF key _ False ents_cons.IH(1)[OF tidy f(2)] rest] b f h show ?thesis by simp
  qed
qed (auto simp: ret_def)

section \<open>A JSON reader reads the value in the text\<close>

text \<open>What the code relies on of \<open>strconv.AppendFloat\<close>: a finite float prints as a JSON number.\<close>

definition printsNumbers :: "floatfmt \<Rightarrow> bool" where
  "printsNumbers F \<longleftrightarrow> (\<forall>w. finite32 w \<longrightarrow> jnumber (ff32 F w)) \<and> (\<forall>w. finite64 w \<longrightarrow> jnumber (ff64 F w))"

lemma number_split: "list_all is_dig (takeWhile is_dig s)" "s = takeWhile is_dig s @ dropWhile is_dig s"
  by (auto simp: list_all_iff dest: set_takeWhileD)

lemma digs_numChar: "list_all is_dig s \<Longrightarrow> list_all numChar s"
  by (auto simp: list_all_iff dig_numChar)

lemma sign_chars: "c \<in> set ''eE'' \<Longrightarrow> numChar c" "c \<in> set ''+-'' \<Longrightarrow> numChar c"
  by (auto simp: numChar_def)

lemma expPart_chars: "expPart s \<Longrightarrow> list_all numChar s"
proof (cases s)
  case (Cons e r)
  assume x: "expPart s"
  then have e: "e \<in> set ''eE''" unfolding expPart_def Cons list.case by blast
  have "list_all numChar r"
  proof (cases r)
    case q: (Cons c q)
    show ?thesis
    proof (cases "c \<in> set ''+-''")
      case True
      with x have "list_all is_dig q" unfolding expPart_def Cons q Let_def list.case by presburger
      with True q show ?thesis by (simp only: list.pred_inject(2) digs_numChar sign_chars(2) simp_thms)
    next
      case False
      with x have "list_all is_dig r" unfolding expPart_def Cons q Let_def list.case by presburger
      then show ?thesis by (rule digs_numChar)
    qed
  qed simp
  with e Cons show ?thesis by (simp only: list.pred_inject(2) sign_chars(1) simp_thms)
qed simp

lemma fracExp_chars: "fracExp s \<Longrightarrow> list_all numChar s"
proof (cases s)
  case (Cons c t)
  assume f: "fracExp s"
  show ?thesis
  proof (cases "c = CHR ''.''")
    case True
    with f Cons have "list_all numChar (takeWhile is_dig t @ dropWhile is_dig t)"
      by (simp add: fracExp_def expPart_chars digs_numChar number_split(1) del: takeWhile_dropWhile_id)
    with True Cons show ?thesis by (simp add: numChar_def)
  qed (use f Cons in \<open>auto simp: fracExp_def dest: expPart_chars\<close>)
qed simp

lemma jnumber_chars: "jnumber t \<Longrightarrow> t \<noteq> [] \<and> list_all numChar t"
proof -
  assume j: "jnumber t"
  define u where "u = (if t \<noteq> [] \<and> hd t = CHR ''-'' then tl t else t)"
  from j have u: "takeWhile is_dig u \<noteq> []" "fracExp (dropWhile is_dig u)" by (simp_all add: jnumber_def intPart_def u_def Let_def)
  then have "list_all numChar (takeWhile is_dig u @ dropWhile is_dig u)"
    by (simp add: fracExp_chars digs_numChar number_split(1) del: takeWhile_dropWhile_id)
  then have "list_all numChar u" "u \<noteq> []" using u by auto
  then show ?thesis by (cases t) (auto simp: u_def numChar_def split: if_splits)
qed

lemma b64_plain: "list_all (\<lambda>c. plainByte (charByte c)) (b64groups ns)"
proof -
  have "list_all (\<lambda>c. plainByte (charByte c)) (CHR ''='' # b64std)" by code_simp
  moreover have "b64digit n \<in> set b64std" for n
    unfolding b64digit_def by (rule nth_mem) (simp add: b64std_def)
  ultimately have "plainByte (charByte (b64digit n))" "plainByte (charByte CHR ''='')" for n
    unfolding list_all_iff by (blast intro: list.set_intros)+
  then show ?thesis by (induction ns rule: b64groups.induct) simp_all
qed

lemma jstring_base64: "jstring (appendBase64 d @ CHR 0x22 # s) = Some (b64bytes d, s)"
proof -
  have "appendBase64 d = map byteChar (b64bytes d)" by (simp add: b64bytes_def comp_def)
  moreover have "list_all plainByte (b64bytes d)"
    by (simp add: b64bytes_def appendBase64_def list.pred_map comp_def b64_plain)
  ultimately show ?thesis by (simp add: jstring_plains)
qed

definition follows :: "string \<Rightarrow> bool" where
  "follows r \<longleftrightarrow> r = [] \<or> \<not> numChar (hd r)"

lemma follows_punct [simp]: "follows (CHR '','' # r)" "follows (CHR '']'' # r)" "follows (CHR ''}'' # r)" "follows []"
  by (simp_all add: follows_def numChar_def)

lemma jvalue_number:
  assumes "jnumber t" "follows r"
  shows "jvalue (Suc f) (t @ r) = Some (JNum t, r)"
proof -
  from jnumber_chars[OF assms(1)] obtain c u where t: "t = c # u" "numChar c" "list_all numChar t" by (cases t) auto
  have split: "takeWhile numChar (t @ r) = t" "dropWhile numChar (t @ r) = r"
    using t(3) assms(2) by (auto simp: follows_def list_all_iff takeWhile_append dropWhile_append takeWhile_eq_Nil_iff)
       (cases r; auto)+
  have "c \<notin> set [CHR 0x22, CHR ''['', CHR ''{'', CHR ''n'', CHR ''t'', CHR ''f'']" using t(2) by (auto simp: numChar_def)
  with t(1) have "jvalue (Suc f) (t @ r) = jscalar (t @ r)" "take 4 (t @ r) \<noteq> ''null''" "take 4 (t @ r) \<noteq> ''true''" "take 5 (t @ r) \<noteq> ''false''"
    by (auto simp: numeral_eq_Suc)
  with split assms(1) show ?thesis by (simp add: jscalar_def)
qed

end
