(* ===== verification/Transcode.thy ===== *)
theory Transcode
  imports MsgpackLaws
begin

text \<open>
  The transcoder end to end: it ends on every input, and on every encoding of a tidy value it writes a text
  that a JSON reader reads as that value. The inputs on which it does not are theorems too.
\<close>

section \<open>Reading the text back\<close>

lemma text_head: "tidy v \<Longrightarrow> printsNumbers F \<Longrightarrow> jsonText F v \<noteq> [] \<and> hd (jsonText F v) \<notin> {CHR '']'', CHR ''}''}"
proof -
  have n: "t \<noteq> [] \<and> hd t \<notin> {CHR '']'', CHR ''}''}" if "jnumber t" for t
    using jnumber_chars[OF that] by (cases t) (auto simp: numChar_def)
  show "tidy v \<Longrightarrow> printsNumbers F \<Longrightarrow> jsonText F v \<noteq> [] \<and> hd (jsonText F v) \<notin> {CHR '']'', CHR ''}''}"
  proof (cases v)
    case (MInt k)
    with n[OF jnumber_itoa[of k]] show ?thesis by simp
  next
    case (MF32 w)
    assume "tidy v" "printsNumbers F"
    with MF32 n[of "ff32 F w"] show ?thesis by (simp add: printsNumbers_def)
  next
    case (MF64 w)
    assume "tidy v" "printsNumbers F"
    with MF64 n[of "ff64 F w"] show ?thesis by (simp add: printsNumbers_def)
  qed (auto simp: quoted_def)
qed

definition reads :: "floatfmt \<Rightarrow> mval \<Rightarrow> bool" where
  "reads F v \<longleftrightarrow> (\<forall>f r. follows r \<longrightarrow> length (jsonText F v) \<le> f \<longrightarrow> jvalue f (jsonText F v @ r) = Some (toJSON F v, r))"

lemma readsD: "reads F v \<Longrightarrow> follows r \<Longrightarrow> length (jsonText F v) \<le> f \<Longrightarrow> jvalue f (jsonText F v @ r) = Some (toJSON F v, r)"
  by (simp add: reads_def)

lemma readsI: "jsonText F v \<noteq> [] \<Longrightarrow>
   (\<And>f r. follows r \<Longrightarrow> length (jsonText F v) \<le> Suc f \<Longrightarrow> jvalue (Suc f) (jsonText F v @ r) = Some (toJSON F v, r)) \<Longrightarrow> reads F v"
  unfolding reads_def
proof (intro allI impI)
  fix f r
  assume *: "jsonText F v \<noteq> []" "follows r" "length (jsonText F v) \<le> f"
    "\<And>f r. follows r \<Longrightarrow> length (jsonText F v) \<le> Suc f \<Longrightarrow> jvalue (Suc f) (jsonText F v @ r) = Some (toJSON F v, r)"
  then obtain g where "f = Suc g" by (cases f) auto
  with * show "jvalue f (jsonText F v @ r) = Some (toJSON F v, r)" by simp
qed

lemma items_follow: "follows (concat (map (\<lambda>t. CHR '','' # t) ts) @ CHR '']'' # r)" "follows (concat (map (\<lambda>t. CHR '','' # t) ts) @ CHR ''}'' # r)"
  by (cases ts; simp)+

lemma items_read:
  "\<forall>v \<in> set vs. reads F v \<Longrightarrow> length (concat (map (\<lambda>t. CHR '','' # t) (map (jsonText F) vs))) < f \<Longrightarrow>
   jitems f (concat (map (\<lambda>t. CHR '','' # t) (map (jsonText F) vs)) @ CHR '']'' # r) = Some (map (toJSON F) vs, r)"
proof (induction vs arbitrary: f)
  case Nil
  then show ?case by (cases f) auto
next
  case (Cons v vs)
  from Cons.prems obtain g where f: "f = Suc g" by (cases f) auto
  have "jvalue g (jsonText F v @ concat (map (\<lambda>t. CHR '','' # t) (map (jsonText F) vs)) @ CHR '']'' # r) =
      Some (toJSON F v, concat (map (\<lambda>t. CHR '','' # t) (map (jsonText F) vs)) @ CHR '']'' # r)"
    using Cons.prems f by (intro readsD items_follow) auto
  with Cons f show ?case by simp
qed

definition memberText :: "floatfmt \<Rightarrow> byte list \<times> mval \<Rightarrow> string" where
  "memberText F = (\<lambda>(k, v). member k (jsonText F v))"

lemma member_read:
  assumes "reads F v" "list_all plainByte k" "follows r" "length (member k (jsonText F v)) \<le> f"
  shows "jmember f (member k (jsonText F v) @ r) = Some ((k, toJSON F v), r)"
proof -
  from assms(4) obtain g where f: "f = Suc g" "length (jsonText F v) \<le> g" by (cases f) (auto simp: member_def quoted_def)
  have "jstring (map byteChar k @ CHR 0x22 # s) = Some (k, s)" for s using assms(2) by (simp add: jstring_plains)
  with readsD[OF assms(1,3) f(2)] f show ?thesis by (simp add: member_def quoted_def)
qed

lemma members_read:
  "\<forall>e \<in> set es. reads F (snd e) \<and> list_all plainByte (fst e) \<Longrightarrow> length (concat (map (\<lambda>t. CHR '','' # t) (map (memberText F) es))) < f \<Longrightarrow>
   jmembers f (concat (map (\<lambda>t. CHR '','' # t) (map (memberText F) es)) @ CHR ''}'' # r) = Some (map (\<lambda>(k, v). (k, toJSON F v)) es, r)"
proof (induction es arbitrary: f)
  case Nil
  then show ?case by (cases f) auto
next
  case (Cons e es)
  obtain k v where e: "e = (k, v)" by force
  from Cons.prems obtain g where f: "f = Suc g" by (cases f) auto
  have "jmember g (member k (jsonText F v) @ concat (map (\<lambda>t. CHR '','' # t) (map (memberText F) es)) @ CHR ''}'' # r) =
      Some ((k, toJSON F v), concat (map (\<lambda>t. CHR '','' # t) (map (memberText F) es)) @ CHR ''}'' # r)"
    using Cons.prems e f by (intro member_read items_follow) (auto simp: memberText_def)
  with Cons e f show ?case by (simp add: memberText_def)
qed

lemma array_reads:
  assumes "\<forall>v \<in> set vs. reads F v" "\<forall>v \<in> set vs. jsonText F v \<noteq> [] \<and> hd (jsonText F v) \<notin> {CHR '']'', CHR ''}''}"
  shows "reads F (MArr vs)"
proof (rule readsI)
  fix f r
  assume f: "length (jsonText F (MArr vs)) \<le> Suc f"
  show "jvalue (Suc f) (jsonText F (MArr vs) @ r) = Some (toJSON F (MArr vs), r)"
  proof (cases vs)
    case (Cons v us)
    let ?t = "concat (map (\<lambda>t. CHR '','' # t) (map (jsonText F) us))"
    have written: "jsonText F (MArr vs) @ r = CHR ''['' # jsonText F v @ ?t @ CHR '']'' # r" by (simp add: Cons join_concat comp_def)
    from f Cons have l: "length (jsonText F v) \<le> f" "length ?t < f" by (auto simp: join_concat comp_def)
    from assms(2) Cons obtain c u where c: "jsonText F v = c # u" "c \<noteq> CHR '']''" by (cases "jsonText F v") auto
    have "jvalue f (jsonText F v @ ?t @ CHR '']'' # r) = Some (toJSON F v, ?t @ CHR '']'' # r)"
      using assms(1) Cons l(1) by (intro readsD items_follow) auto
    moreover have "jitems f (?t @ CHR '']'' # r) = Some (map (toJSON F) us, r)"
      using assms(1) Cons l(2) by (intro items_read) auto
    ultimately show ?thesis unfolding written using c Cons by simp
  qed simp
qed simp

lemma object_reads:
  assumes "\<forall>e \<in> set (defined es). reads F (snd e) \<and> list_all plainByte (fst e)"
  shows "reads F (MMap es)"
proof (rule readsI)
  fix f r
  assume f: "length (jsonText F (MMap es)) \<le> Suc f"
  have written: "jsonText F (MMap es) = ''{'' @ join_with (CHR '','') (map (memberText F) (defined es)) @ ''}''" by (simp add: memberText_def)
  show "jvalue (Suc f) (jsonText F (MMap es) @ r) = Some (toJSON F (MMap es), r)"
  proof (cases "defined es")
    case (Cons e ds)
    obtain k v where e: "e = (k, v)" by force
    let ?t = "concat (map (\<lambda>t. CHR '','' # t) (map (memberText F) ds))"
    have m: "memberText F e = CHR 0x22 # map byteChar k @ CHR 0x22 # CHR '':'' # jsonText F v" by (simp add: e memberText_def member_def quoted_def)
    have whole: "jsonText F (MMap es) @ r = CHR ''{'' # memberText F e @ ?t @ CHR ''}'' # r" unfolding written by (simp add: Cons join_concat comp_def)
    from f Cons have l: "length (memberText F e) \<le> f" "length ?t < f" unfolding written by (auto simp: join_concat comp_def)
    have "jmember f (member k (jsonText F v) @ ?t @ CHR ''}'' # r) = Some ((k, toJSON F v), ?t @ CHR ''}'' # r)"
      using assms Cons e l(1) by (intro member_read items_follow) (auto simp: memberText_def)
    moreover have "jmembers f (?t @ CHR ''}'' # r) = Some (map (\<lambda>(k, v). (k, toJSON F v)) ds, r)"
      using assms Cons l(2) by (intro members_read) auto
    moreover have "member k (jsonText F v) = memberText F e" by (simp add: e memberText_def)
    ultimately show ?thesis unfolding whole using Cons e m by simp
  qed simp
qed simp

lemma scalar_reads:
  "reads F MNil" "reads F (MBool b)" "reads F (MStr s)" "reads F (MBin s)" "reads F (MInt k)"
  "jnumber (ff32 F w) \<Longrightarrow> reads F (MF32 w)" "jnumber (ff64 F x) \<Longrightarrow> reads F (MF64 x)"
  by (rule readsI; simp add: jscalar_def quoted_def jstring_appendString jstring_base64 jvalue_number jnumber_itoa itoa_numChars
      jnumber_chars del: jvalue.simps(2); simp add: jscalar_def jstring_appendString jstring_base64; fail)+

lemma ext_reads: "reads F (MFix1 t d)" "reads F (MExt t b)"
proof -
  have h: "itoa k \<noteq> [] \<and> hd (itoa k) \<notin> {CHR '']'', CHR ''}''}" for k
    using itoa_numChars[of k] by (cases "itoa k") (auto simp: numChar_def)
  have "reads F (MArr [MInt (uint t), MInt (uint d)])" "reads F (MArr [MInt (uint t), MBin b])"
    using h by (auto intro!: array_reads scalar_reads simp: quoted_def)
  then show "reads F (MFix1 t d)" "reads F (MExt t b)" by (simp_all add: reads_def)
qed

lemma text_reads: "printsNumbers F \<Longrightarrow> tidy v \<Longrightarrow> reads F v"
proof (induction F v rule: jsonText.induct)
  case (8 F vs)
  then show ?case using text_head by (intro array_reads) (auto simp: list_all_iff)
next
  case (9 F es)
  then show ?case by (intro object_reads) (force simp: list_all_iff set_defined)
qed (auto intro: scalar_reads ext_reads simp: printsNumbers_def)

section \<open>More fuel changes nothing\<close>

lemma then_cong: "m bs = m' bs \<Longrightarrow> (\<And>x r. m' bs = Inr (x, r) \<Longrightarrow> f x r = g x r) \<Longrightarrow> andThen m f bs = andThen m' g bs"
  by (auto simp: andThen_def split: sum.splits)

lemma then_ran: "andThen m f bs \<noteq> Inl OutOfFuel \<Longrightarrow> m bs \<noteq> Inl OutOfFuel"
  "andThen m f bs \<noteq> Inl OutOfFuel \<Longrightarrow> m bs = Inr (x, r) \<Longrightarrow> f x r \<noteq> Inl OutOfFuel"
  by (auto simp: andThen_def)

lemma more_fuel:
  shows value_more: "appendValue F f bs \<noteq> Inl OutOfFuel \<Longrightarrow> appendValue F (Suc f) bs = appendValue F f bs"
    and elems_more: "appendElems F f i n bs \<noteq> Inl OutOfFuel \<Longrightarrow> appendElems F (Suc f) i n bs = appendElems F f i n bs"
    and entries_more: "appendEntries F f i n bs \<noteq> Inl OutOfFuel \<Longrightarrow> appendEntries F (Suc f) i n bs = appendEntries F f i n bs"
proof (induction f arbitrary: i n bs)
  case 0
  { case 1 then show ?case by simp
  next
    case 2 then show ?case by (cases n) auto
  next
    case 3 then show ?case by (cases n) auto
  }
next
  case (Suc f)
  { case 1
    show ?case
    proof (cases rule: value_cases[where bs = bs and F = F])
      case (3 code t)
      with 1 show ?thesis
        by (auto simp: value_reads intro!: then_cong Suc.IH(2) dest: then_ran)
    next
      case (4 code t)
      with 1 show ?thesis
        by (auto simp: value_reads intro!: then_cong Suc.IH(3) dest: then_ran)
    qed (auto simp: value_reads)
  next
    case 2
    show ?case
    proof (cases n)
      case (Suc m)
      with 2 show ?thesis by (auto intro!: then_cong Suc.IH(1,2) dest: then_ran)
    qed simp
  next
    case 3
    show ?case
    proof (cases n)
      case (Suc m)
      with 3 show ?thesis by (auto intro!: then_cong Suc.IH(1,3) dest: then_ran split: if_splits) (simp_all add: andThen_def)
    qed simp
  }
qed

lemma enough_fuel: "2 * length bs + 1 \<le> f \<Longrightarrow> appendValue F f bs = MsgpackToJSON F bs"
  unfolding MsgpackToJSON_def
proof (induction f rule: dec_induct)
  case (step f)
  with value_more[OF value_fuel[of bs f F]] show ?case by simp
qed simp

section \<open>Properties\<close>

text \<open>C27: \<open>MsgpackToJSON\<close> ends on every input, however deep its arrays and maps nest: with any amount of fuel from twice the
  input and one up, which is what it runs on, the recursion gives one and the same result, which is not a lack of fuel,
  and when that result is a value it has consumed at least one byte.\<close>

theorem msgpack_to_json_ends:
  "case MsgpackToJSON F bs of
     Inl e \<Rightarrow> e \<noteq> OutOfFuel \<and> (\<forall>n. appendValue F (2 * length bs + 1 + n) bs = Inl e)
   | Inr (t, rest) \<Rightarrow> length rest < length bs \<and> (\<forall>n. appendValue F (2 * length bs + 1 + n) bs = Inr (t, rest))"
proof -
  have e: "appendValue F (2 * length bs + 1 + n) bs = MsgpackToJSON F bs" for n by (rule enough_fuel) simp
  have "MsgpackToJSON F bs \<noteq> Inl OutOfFuel" unfolding MsgpackToJSON_def by (rule value_fuel) simp
  moreover have "length rest < length bs" if "MsgpackToJSON F bs = Inr (t, rest)" for t rest
    using that unfolding MsgpackToJSON_def by (rule value_consumes)
  ultimately show ?thesis unfolding e by (auto split: sum.split)
qed

text \<open>C23: Every msgpack encoding of a tidy value, in whichever formats, followed by anything, is transcoded to a text
  that a JSON reader reads as that value, and exactly the encoding is consumed: integers of every width keep their value,
  strings their UTF-8 bytes through the escapes, binary data becomes base64, members whose value is the msgpack-js
  \<open>undefined\<close> are left out, and the others keep their order. Tidy excludes what the findings are about.\<close>

theorem msgpack_to_json_faithful:
  assumes "encodes v bs" "tidy v" "printsNumbers F"
  shows "\<exists>t. MsgpackToJSON F (bs @ rest) = Inr (t, rest) \<and> parseJSON t = Some (toJSON F v)"
proof (intro exI conjI)
  have "appendValue F (2 * length (bs @ rest) + 1) (bs @ rest) = Inr (jsonText F v, rest)"
    by (rule writes_text(1)[OF assms(1,2)]) simp
  then show "MsgpackToJSON F (bs @ rest) = Inr (jsonText F v, rest)" by (simp add: MsgpackToJSON_def)
  from readsD[OF text_reads[OF assms(3,2)], of "[]" "length (jsonText F v)"]
  show "parseJSON (jsonText F v) = Some (toJSON F v)" by (simp add: parseJSON_def)
qed

definition oneFmt :: floatfmt where
  "oneFmt = \<lparr> ff32 = (\<lambda>_. ''1.5''), ff64 = (\<lambda>_. ''1e-07'') \<rparr>"

lemma oneFmt_prints: "printsNumbers oneFmt"
proof -
  have "jnumber ''1.5''" "jnumber ''1e-07''" by code_simp+
  then show ?thesis by (simp add: printsNumbers_def oneFmt_def)
qed

text \<open>A map of a negative number in sixteen bits, \<open>undefined\<close>, and an array of a string with a quote and two bytes.\<close>

definition sample :: mval where
  "sample = MMap [([0x61], MInt (- 2)), ([0x62], mundefined), ([0x63], MArr [MStr [0x22], MBin [1, 2]])]"

definition sampleBytes :: "byte list" where
  "sampleBytes = [0x83, 0xa1, 0x61, 0xd1, 0xff, 0xfe, 0xa1, 0x62, 0xd4, 0, 0, 0xd9, 1, 0x63, 0x92, 0xa1, 0x22, 0xc4, 2, 1, 2]"

lemma be_two: "be 2 k = [of_nat (k div 256), of_nat k]"
  by (simp add: numeral_2_eq_2)

lemma sample_encoded: "encodes sample sampleBytes"
proof -
  have "encodes (MInt (- 2)) [0xd1, 0xff, 0xfe]" "encodes mundefined [0xd4, 0, 0]" "encodes (MStr [0x22]) [0xa1, 0x22]"
    "encodes (MBin [1, 2]) [0xc4, 2, 1, 2]"
    by (rule enc_scalar; simp add: sintForms_def be_two mundefined_def strHeads_def binHeads_def)+
  note leaf = this
  have arr: "encodes (MArr [MStr [0x22], MBin [1, 2]]) ([0x92] @ [0xa1, 0x22] @ [0xc4, 2, 1, 2] @ [])"
    by (rule enc_arr, simp add: arrHeads_def) (intro encs_cons encs_nil leaf)
  have "encodes sample ([0x83] @ [0xa1] @ [0x61] @ [0xd1, 0xff, 0xfe] @ [0xa1] @ [0x62] @ [0xd4, 0, 0] @ [0xd9, 1] @ [0x63] @
      ([0x92] @ [0xa1, 0x22] @ [0xc4, 2, 1, 2] @ []) @ [])"
    unfolding sample_def by (rule enc_map, simp add: mapHeads_def) (intro ents_cons ents_nil leaf arr; simp add: strHeads_def)
  then show ?thesis by (simp add: sampleBytes_def)
qed

theorem msgpack_to_json_faithful_witness:
  "\<exists>t. MsgpackToJSON oneFmt (sampleBytes @ [0x01]) = Inr (t, [0x01]) \<and> parseJSON t = Some (toJSON oneFmt sample)"
proof (rule msgpack_to_json_faithful[OF sample_encoded _ oneFmt_prints])
  show "tidy sample" unfolding sample_def by code_simp
qed

section \<open>Where the text is not JSON, or not the value\<close>

definition transcoded :: "byte list \<Rightarrow> string option" where
  "transcoded bs = (case MsgpackToJSON oneFmt bs of Inr (t, []) \<Rightarrow> Some t | _ \<Rightarrow> None)"

text \<open>A comma precedes every member but the one at index zero, so when that one is skipped the text starts with a
  comma: \<open>{"a": undefined, "b": 1}\<close> becomes an object no reader accepts.\<close>

theorem skipped_first_member:
  "map_option parseJSON (transcoded [0x82, 0xa1, 0x61, 0xd4, 0, 0, 0xa1, 0x62, 1]) = Some None"
  by code_simp

text \<open>A key is copied as it is: a quote in it ends the string early, and here the one member reads as two.\<close>

theorem key_injects_member:
  "map_option parseJSON (transcoded ([0x81, 0xa7] @ map charByte [CHR ''a'', CHR 0x22, CHR '':'', CHR ''1'', CHR '','', CHR 0x22, CHR ''b''] @ [2])) =
   Some (Some (JObj [([0x61], JNum ''1''), ([0x62], JNum ''2'')]))"
  by code_simp

text \<open>A key that is not a string is read by the size its code has as a string, which is none: \<open>{1: 2}\<close> and \<open>{7: 2}\<close>
  become the same text.\<close>

theorem integer_keys_collapse:
  "transcoded [0x81, 1, 2] = transcoded [0x81, 7, 2]" "map_option parseJSON (transcoded [0x81, 7, 2]) = Some (Some (JObj [([], JNum ''2'')]))"
  by code_simp+

text \<open>The length of an extension and its type byte are added at the width of the length: at the greatest length of the
  field the sum is zero, and the value is refused.\<close>

theorem ext8_greatest_length: "MsgpackToJSON F (0xc7 # 0xff # t # d) = Inl ErrInvalidMsgpack"
  by (simp add: MsgpackToJSON_def value_scalar scalar_codes(3)[OF ext_codes(5)] appendExt_def readBytes_def sizeOf_def isFixedString_def
      andThen_def ret_def reads_be readN_def)

text \<open>An extension with no data, which the format allows, is refused.\<close>

theorem ext8_no_data: "MsgpackToJSON F (0xc7 # 0 # t # r) = Inl ErrInvalidMsgpack"
  by (simp add: MsgpackToJSON_def value_scalar scalar_codes(3)[OF ext_codes(5)] appendExt_def readBytes_def sizeOf_def isFixedString_def
      andThen_def ret_def reads_be readN_def)

end
