(* ===== verification/Payload.thy ===== *)
theory Payload
  imports Protocol Transcode
begin

text \<open>
  \<open>internal/protocol/data.go\<close>: how a payload is normalised when it comes in over either transport, and
  the encoding it goes out with over JSON. \<open>json.Marshal\<close> on the objects and arrays of a payload is
  modelled with the escapes of \<^const>\<open>appendString\<close>, which the source takes from it; the text it prints a number
  as, which is not the text \<open>%v\<close> prints, is a parameter.
\<close>

section \<open>Definitions\<close>

datatype payload_error = ErrBase64 | ErrTranscode mp_error | ErrDecode

definition goBytes :: "string \<Rightarrow> byte list" where
  "goBytes s = map charByte s"

definition goString :: "byte list \<Rightarrow> string" where
  "goString bs = map byteChar bs"

definition jsonString :: "string \<Rightarrow> string" where
  "jsonString s = quoted (appendString (goBytes s))"

text \<open>\<open>json.Marshal\<close>: the keys of an object are sorted, bytes become base64.\<close>

fun jsonMarshal :: "(string \<Rightarrow> string) \<Rightarrow> goany \<Rightarrow> string" where
  "jsonMarshal N AnyNil = ''null''"
| "jsonMarshal N (AnyStr s) = jsonString s"
| "jsonMarshal N (AnyBytes b) = quoted (b64text b)"
| "jsonMarshal N (AnyBool b) = (if b then ''true'' else ''false'')"
| "jsonMarshal N (AnyNum t) = N t"
| "jsonMarshal N (AnyArr vs) = ''['' @ join_with (CHR '','') (map (jsonMarshal N) vs) @ '']''"
| "jsonMarshal N (AnyObj es) = ''{'' @ join_with (CHR '','')
     (map (\<lambda>(k, v). jsonString k @ '':'' @ jsonMarshal N v) (sort_key fst es)) @ ''}''"

text \<open>\<open>strings.LastIndexByte\<close>, \<open>-1\<close> when there is none.\<close>

fun lastIndexByte :: "string \<Rightarrow> char \<Rightarrow> int" where
  "lastIndexByte [] c = - 1"
| "lastIndexByte (x # xs) c = (let p = lastIndexByte xs c in if p \<ge> 0 then p + 1 else if x = c then 0 else - 1)"

definition getOuterEncoding :: "string \<Rightarrow> string" where
  "getOuterEncoding enc = (let p = lastIndexByte enc (CHR ''/'') in if p \<le> 0 then enc else drop (nat p) enc)"

definition DataFromExternal :: "(string \<Rightarrow> string) \<Rightarrow> goany \<Rightarrow> string \<Rightarrow> payload_error + goany \<times> string" where
  "DataFromExternal N v inEncoding =
     (case v of
        AnyNil \<Rightarrow> Inr (AnyNil, inEncoding)
      | AnyStr w \<Rightarrow>
          (let enc = getOuterEncoding inEncoding in
           if has_suffix enc ''base64'' then
             (case b64decode w of
                None \<Rightarrow> Inl ErrBase64
              | Some b \<Rightarrow> Inr (AnyBytes b, trim_suffix inEncoding enc))
           else Inr (AnyStr w, inEncoding))
      | AnyBytes b \<Rightarrow> Inr (AnyBytes b, inEncoding)
      | AnyObj es \<Rightarrow> Inr (AnyStr (jsonMarshal N v), ''json'')
      | AnyArr vs \<Rightarrow> Inr (AnyStr (jsonMarshal N v), ''json'')
      | AnyBool b \<Rightarrow> Inr (AnyStr (if b then ''true'' else ''false''), inEncoding)
      | AnyNum t \<Rightarrow> Inr (AnyStr t, inEncoding))"

definition jsonDataEncoding :: "string \<Rightarrow> goany \<Rightarrow> string" where
  "jsonDataEncoding encoding data =
     (case data of
        AnyBytes b \<Rightarrow> if encoding = [] then ''base64'' else encoding @ ''/base64''
      | _ \<Rightarrow> encoding)"

definition normaliseInboundData :: "(string \<Rightarrow> string) \<Rightarrow> goany \<Rightarrow> string \<Rightarrow> bool \<Rightarrow> payload_error + goany \<times> string" where
  "normaliseInboundData N v inEncoding jsonEncoded =
     (case DataFromExternal N v inEncoding of
        Inl e \<Rightarrow> Inl e
      | Inr (data, outEncoding) \<Rightarrow> Inr (data, if jsonEncoded then ''json'' else outEncoding))"

section \<open>A payload over a JSON transport\<close>

text \<open>\<open>MarshalJSON\<close> and \<open>UnmarshalJSON\<close> of the payload-bearing types: the encoding and the data they override on the
  struct, the data as its JSON text (absent when nil), and the value the text decodes to. \<open>P\<close> is what \<open>%v\<close> prints for a
  number token.\<close>

fun fromJSON :: "(string \<Rightarrow> string) \<Rightarrow> jval \<Rightarrow> goany" where
  "fromJSON P JNull = AnyNil"
| "fromJSON P (JBool b) = AnyBool b"
| "fromJSON P (JNum t) = AnyNum (P t)"
| "fromJSON P (JStr bs) = AnyStr (goString bs)"
| "fromJSON P (JArr vs) = AnyArr (map (fromJSON P) vs)"
| "fromJSON P (JObj es) = AnyObj (map (\<lambda>(k, v). (goString k, fromJSON P v)) es)"

definition marshalPayload :: "(string \<Rightarrow> string) \<Rightarrow> goany \<Rightarrow> string \<Rightarrow> string option \<times> string" where
  "marshalPayload N data encoding =
     (if data = AnyNil then None else Some (jsonMarshal N data), jsonDataEncoding encoding data)"

definition unmarshalPayload :: "(string \<Rightarrow> string) \<Rightarrow> (string \<Rightarrow> string) \<Rightarrow> string option \<Rightarrow> string \<Rightarrow> payload_error + goany \<times> string" where
  "unmarshalPayload N P json encoding =
     (case json of
        None \<Rightarrow> normaliseInboundData N AnyNil encoding False
      | Some t \<Rightarrow> (case parseJSON t of
            None \<Rightarrow> Inl ErrDecode
          | Some v \<Rightarrow> normaliseInboundData N (fromJSON P v) encoding False))"

section \<open>Canonical payloads\<close>

text \<open>The stored form: text, which its encoding does not call base64, or bytes, or nothing.\<close>

definition canonical :: "goany \<Rightarrow> string \<Rightarrow> bool" where
  "canonical data encoding =
     (case data of
        AnyNil \<Rightarrow> True
      | AnyStr s \<Rightarrow> \<not> has_suffix (getOuterEncoding encoding) ''base64''
      | AnyBytes b \<Rightarrow> True
      | _ \<Rightarrow> False)"

definition utf8 :: "goany \<Rightarrow> bool" where
  "utf8 data = (case data of AnyStr s \<Rightarrow> toValid (goBytes s) = goBytes s | _ \<Rightarrow> True)"

lemma go_bytes_string [simp]: "goString (goBytes s) = s" "goBytes (goString bs) = bs"
  by (simp_all add: goString_def goBytes_def comp_def)

lemma parse_string: "jstring (t @ CHR 0x22 # []) = Some (bs, []) \<Longrightarrow> parseJSON (quoted t) = Some (JStr bs)"
  by (simp add: parseJSON_def quoted_def)

lemma parse_jsonString: "parseJSON (jsonString s) = Some (JStr (toValid (goBytes s)))"
  unfolding jsonString_def by (rule parse_string) (rule jstring_appendString)

lemma parse_base64: "parseJSON (quoted (b64text b)) = Some (JStr (goBytes (b64text b)))"
proof (rule parse_string)
  have "list_all plainByte (goBytes (b64text b))"
    using b64_plain by (simp add: goBytes_def b64text_def list.pred_map comp_def)
  from jstring_plains[OF this] show "jstring (b64text b @ [CHR 0x22]) = Some (goBytes (b64text b), [])"
    by (simp add: goBytes_def comp_def)
qed

lemma lastIndexByte_bound: "- 1 \<le> lastIndexByte s c" "lastIndexByte s c < int (length s)"
  by (induction s) (auto simp: Let_def)

lemma lastIndexByte_append: "lastIndexByte (s @ t) c = (if lastIndexByte t c \<ge> 0 then int (length s) + lastIndexByte t c else lastIndexByte s c)"
  using lastIndexByte_bound(1)[of t c] by (induction s) (auto simp: Let_def)

lemma outer_base64: "getOuterEncoding ''base64'' = ''base64''" "e \<noteq> [] \<Longrightarrow> getOuterEncoding (e @ ''/base64'') = ''/base64''"
proof -
  have i: "lastIndexByte ''base64'' (CHR ''/'') = - 1" "lastIndexByte ''/base64'' (CHR ''/'') = 0" by code_simp+
  then show "getOuterEncoding ''base64'' = ''base64''" by (simp add: getOuterEncoding_def)
  assume "e \<noteq> []"
  with i show "getOuterEncoding (e @ ''/base64'') = ''/base64''"
    by (simp add: getOuterEncoding_def lastIndexByte_append Let_def)
qed

lemma bytes_in: "normaliseInboundData N (AnyStr (b64text b)) (jsonDataEncoding e (AnyBytes b)) False = Inr (AnyBytes b, e)"
proof (cases "e = []")
  case True
  then show ?thesis
    by (simp add: normaliseInboundData_def DataFromExternal_def jsonDataEncoding_def outer_base64 has_suffix_def trim_suffix_def)
next
  case False
  have "has_suffix ''/base64'' ''base64''" by code_simp
  moreover have "trim_suffix (e @ ''/base64'') ''/base64'' = e" by (simp add: trim_suffix_def has_suffix_def)
  ultimately show ?thesis using False
    by (simp add: normaliseInboundData_def DataFromExternal_def jsonDataEncoding_def outer_base64(2))
qed

lemma json_not_base64: "\<not> has_suffix (getOuterEncoding ''json'') ''base64''"
  by code_simp

definition scalar :: "goany \<Rightarrow> bool" where
  "scalar v = (case v of AnyBool b \<Rightarrow> True | AnyNum t \<Rightarrow> True | _ \<Rightarrow> False)"

section \<open>Properties\<close>

text \<open>C25: Whatever comes in over either transport, the normalised payload is canonical (nothing, bytes, or text that its
  encoding does not call base64), which is what every later decode of the stored message relies on. The one exception
  the code leaves is a number or a boolean that is published with an outer base64 encoding.\<close>

theorem ingress_canonical:
  assumes "normaliseInboundData N v e je = Inr (d, e')"
  shows "canonical d e' \<or> scalar v \<and> has_suffix (getOuterEncoding e) ''base64'' \<and> \<not> je"
  using assms json_not_base64
  by (auto simp: normaliseInboundData_def DataFromExternal_def canonical_def scalar_def Let_def split: goany.splits if_splits option.splits)

text \<open>A string in base64 with an inner encoding.\<close>

theorem ingress_canonical_witness:
  "normaliseInboundData id (AnyStr ''aGk='') ''utf-8/base64'' False = Inr (AnyBytes ''hi'', ''utf-8'') \<and>
   (canonical (AnyBytes ''hi'') ''utf-8'' \<or> scalar (AnyStr ''aGk='') \<and> has_suffix (getOuterEncoding ''utf-8/base64'') ''base64'' \<and> \<not> False)"
proof -
  have n: "normaliseInboundData id (AnyStr ''aGk='') ''utf-8/base64'' False = Inr (AnyBytes ''hi'', ''utf-8'')" by code_simp
  from ingress_canonical[OF n] n show ?thesis by blast
qed

text \<open>C26: A canonical payload survives a JSON transport: what the server writes for it (bytes as a base64 string under an
  encoding with \<open>base64\<close> appended, text as an escaped JSON string) is read back by the server's own decoder as the same
  payload under the same encoding, for any text that is valid UTF-8 and any bytes.\<close>

theorem json_payload_round_trip:
  assumes "canonical d e" "utf8 d"
  shows "(case marshalPayload N d e of (json, enc) \<Rightarrow> unmarshalPayload N P json enc) = Inr (d, e)"
proof (cases d)
  case (AnyStr s)
  with assms show ?thesis
    by (simp add: marshalPayload_def unmarshalPayload_def parse_jsonString utf8_def canonical_def jsonDataEncoding_def
        normaliseInboundData_def DataFromExternal_def)
next
  case (AnyBytes b)
  then show ?thesis by (simp add: marshalPayload_def unmarshalPayload_def parse_base64 bytes_in)
qed (use assms in \<open>simp_all add: canonical_def marshalPayload_def unmarshalPayload_def jsonDataEncoding_def normaliseInboundData_def
    DataFromExternal_def\<close>)

theorem json_payload_round_trip_witness:
  "(case marshalPayload id (AnyBytes [CHR 0x00, CHR 0xFF]) ''utf-8'' of (json, enc) \<Rightarrow> unmarshalPayload id id json enc) =
     Inr (AnyBytes [CHR 0x00, CHR 0xFF], ''utf-8'')"
proof (rule json_payload_round_trip)
  show "canonical (AnyBytes [CHR 0x00, CHR 0xFF]) ''utf-8''" "utf8 (AnyBytes [CHR 0x00, CHR 0xFF])" by code_simp+
qed

end
