(* ===== verification/Codec.thy ===== *)
theory Codec
  imports Payload BoltLaws
begin

text \<open>
  \<open>internal/protocol/msgpackcodec.go\<close>: the custom msgpack codecs of messages, presence messages and annotations, which are
  also the form every on-disk blob has. The msgpack library is a parameter, a record of its encoders and decoders:
  an encoded value is of an unknown type, with its raw bytes, and a map is written from and read as
  its keys with the encoded values.
\<close>

section \<open>The library\<close>

record 'v mplib =
  mp_raw :: "'v \<Rightarrow> byte list"
  mp_nil :: 'v
  mp_map :: "(string \<times> 'v) list \<Rightarrow> 'v"
  mp_unmap :: "'v \<Rightarrow> (string \<times> 'v) list option"
  mp_list :: "'v list \<Rightarrow> 'v"
  mp_unlist :: "'v \<Rightarrow> 'v list option"
  mp_str :: "string \<Rightarrow> 'v"
  mp_unstr :: "'v \<Rightarrow> string option"
  mp_bin :: "string \<Rightarrow> 'v"
  mp_unbin :: "'v \<Rightarrow> string option"
  mp_int :: "int \<Rightarrow> 'v"
  mp_unint :: "'v \<Rightarrow> int option"
  mp_any :: "goany \<Rightarrow> 'v"
  mp_unany :: "'v \<Rightarrow> goany option"
  mp_obj :: "(string \<times> goany) list \<Rightarrow> 'v"
  mp_unobj :: "'v \<Rightarrow> (string \<times> goany) list option"
  mp_summary :: "Summary \<Rightarrow> 'v"
  mp_unsummary :: "'v \<Rightarrow> Summary option"

section \<open>Wire enums\<close>

fun messageActionInt :: "MessageAction \<Rightarrow> int" where
  "messageActionInt MessageCreate = 0"
| "messageActionInt MessageUpdate = 1"
| "messageActionInt MessageDelete = 2"
| "messageActionInt MessageSummary = 4"
| "messageActionInt MessageAppend = 5"
| "messageActionInt (MessageActionOther k) = k"

definition messageActionOf :: "int \<Rightarrow> MessageAction" where
  "messageActionOf k =
     (if k = 0 then MessageCreate else if k = 1 then MessageUpdate else if k = 2 then MessageDelete
      else if k = 4 then MessageSummary else if k = 5 then MessageAppend else MessageActionOther k)"

fun presenceActionInt :: "PresenceAction \<Rightarrow> int" where
  "presenceActionInt PresenceAbsent = 0"
| "presenceActionInt PresencePresent = 1"
| "presenceActionInt PresenceEnter = 2"
| "presenceActionInt PresenceLeave = 3"
| "presenceActionInt PresenceUpdate = 4"
| "presenceActionInt (PresenceActionOther k) = k"

definition presenceActionOf :: "int \<Rightarrow> PresenceAction" where
  "presenceActionOf k =
     (if k = 0 then PresenceAbsent else if k = 1 then PresencePresent else if k = 2 then PresenceEnter
      else if k = 3 then PresenceLeave else if k = 4 then PresenceUpdate else PresenceActionOther k)"

fun annotationActionInt :: "AnnotationAction \<Rightarrow> int" where
  "annotationActionInt AnnotationCreate = 0"
| "annotationActionInt AnnotationDelete = 1"
| "annotationActionInt (AnnotationActionOther k) = k"

definition annotationActionOf :: "int \<Rightarrow> AnnotationAction" where
  "annotationActionOf k = (if k = 0 then AnnotationCreate else if k = 1 then AnnotationDelete else AnnotationActionOther k)"

section \<open>Encoding\<close>

type_synonym 'v msgpackField = "string \<times> bool \<times> 'v"

definition encodeMsgpackMap :: "'v mplib \<Rightarrow> 'v msgpackField list \<Rightarrow> 'v" where
  "encodeMsgpackMap L entries = mp_map L (map (\<lambda>(k, _, v). (k, v)) (filter (\<lambda>(_, emit, _). emit) entries))"

definition someExtras :: "extras \<Rightarrow> (string \<times> goany) list" where
  "someExtras x = (case x of None \<Rightarrow> [] | Some es \<Rightarrow> es)"

text \<open>\<open>MessageVersion\<close>, by its struct tags.\<close>

definition encodeVersion :: "'v mplib \<Rightarrow> MessageVersion \<Rightarrow> 'v" where
  "encodeVersion L v = encodeMsgpackMap L
     [(''serial'', v_Serial v \<noteq> [], mp_str L (v_Serial v)),
      (''timestamp'', v_Timestamp v \<noteq> 0, mp_int L (v_Timestamp v)),
      (''clientId'', v_ClientID v \<noteq> [], mp_str L (v_ClientID v)),
      (''description'', v_Description v \<noteq> [], mp_str L (v_Description v)),
      (''metadata'', someExtras (v_Metadata v) \<noteq> [], mp_obj L (someExtras (v_Metadata v)))]"

definition bodyFields :: "'v mplib \<Rightarrow> ('a :: type) MessageBody_scheme \<Rightarrow> 'v msgpackField list" where
  "bodyFields L m =
     [(''id'', m_ID m \<noteq> [], mp_str L (m_ID m)),
      (''serial'', m_Serial m \<noteq> [], mp_str L (m_Serial m)),
      (''action'', True, mp_int L (messageActionInt (m_Action m))),
      (''clientId'', m_ClientID m \<noteq> [], mp_str L (m_ClientID m)),
      (''connectionId'', m_ConnectionID m \<noteq> [], mp_str L (m_ConnectionID m)),
      (''connectionKey'', m_ConnectionKey m \<noteq> [], mp_str L (m_ConnectionKey m)),
      (''name'', m_Name m \<noteq> [], mp_str L (m_Name m)),
      (''data'', m_Data m \<noteq> AnyNil, mp_any L (m_Data m)),
      (''encoding'', m_Encoding m \<noteq> [], mp_str L (m_Encoding m)),
      (''extras'', someExtras (m_Extras m) \<noteq> [], mp_obj L (someExtras (m_Extras m))),
      (''timestamp'', m_Timestamp m \<noteq> 0, mp_int L (m_Timestamp m)),
      (''version'', m_Version m \<noteq> None, (case m_Version m of None \<Rightarrow> mp_nil L | Some v \<Rightarrow> encodeVersion L v)),
      (''summary'', m_Summary m \<noteq> [], mp_summary L (m_Summary m))]"

text \<open>The append delta is itself a message, encoded by the same method; it has no \<open>alt\<close> of its own.\<close>

definition encodeAlt :: "'v mplib \<Rightarrow> MessageBody \<Rightarrow> 'v" where
  "encodeAlt L a = mp_map L [(''delta-append'', encodeMsgpackMap L (bodyFields L a))]"

definition EncodeMessage :: "'v mplib \<Rightarrow> Message \<Rightarrow> 'v" where
  "EncodeMessage L m = encodeMsgpackMap L (bodyFields L m @
     [(''alt'', m_Alt m \<noteq> None, (case m_Alt m of None \<Rightarrow> mp_nil L | Some a \<Rightarrow> encodeAlt L a))])"

definition EncodePresence :: "'v mplib \<Rightarrow> PresenceMessage \<Rightarrow> 'v" where
  "EncodePresence L p = encodeMsgpackMap L
     [(''id'', p_ID p \<noteq> [], mp_str L (p_ID p)),
      (''serial'', p_Serial p \<noteq> [], mp_str L (p_Serial p)),
      (''action'', True, mp_int L (presenceActionInt (p_Action p))),
      (''clientId'', p_ClientID p \<noteq> [], mp_str L (p_ClientID p)),
      (''connectionId'', p_ConnectionID p \<noteq> [], mp_str L (p_ConnectionID p)),
      (''data'', p_Data p \<noteq> AnyNil, mp_any L (p_Data p)),
      (''encoding'', p_Encoding p \<noteq> [], mp_str L (p_Encoding p)),
      (''extras'', someExtras (p_Extras p) \<noteq> [], mp_obj L (someExtras (p_Extras p))),
      (''timestamp'', p_Timestamp p \<noteq> 0, mp_int L (p_Timestamp p))]"

definition EncodeAnnotation :: "'v mplib \<Rightarrow> Annotation \<Rightarrow> 'v" where
  "EncodeAnnotation L a = encodeMsgpackMap L
     [(''id'', a_ID a \<noteq> [], mp_str L (a_ID a)),
      (''serial'', a_Serial a \<noteq> [], mp_str L (a_Serial a)),
      (''action'', True, mp_int L (annotationActionInt (a_Action a))),
      (''clientId'', a_ClientID a \<noteq> [], mp_str L (a_ClientID a)),
      (''connectionId'', a_ConnectionID a \<noteq> [], mp_str L (a_ConnectionID a)),
      (''type'', a_Type a \<noteq> [], mp_str L (a_Type a)),
      (''name'', a_Name a \<noteq> [], mp_str L (a_Name a)),
      (''messageSerial'', a_MessageSerial a \<noteq> [], mp_str L (a_MessageSerial a)),
      (''count'', a_Count a \<noteq> 0, mp_int L (a_Count a)),
      (''data'', a_Data a \<noteq> AnyNil, mp_any L (a_Data a)),
      (''encoding'', a_Encoding a \<noteq> [], mp_str L (a_Encoding a)),
      (''extras'', someExtras (a_Extras a) \<noteq> [], mp_obj L (someExtras (a_Extras a))),
      (''timestamp'', a_Timestamp a \<noteq> 0, mp_int L (a_Timestamp a))]"

text \<open>\<open>ChannelMessage\<close>, by its struct tags, with its slices of pointers to the above.\<close>

definition EncodeChannelMessage :: "'v mplib \<Rightarrow> ChannelMessage \<Rightarrow> 'v" where
  "EncodeChannelMessage L cm = encodeMsgpackMap L
     [(''id'', cm_ID cm \<noteq> [], mp_str L (cm_ID cm)),
      (''channelSerial'', cm_ChannelSerial cm \<noteq> [], mp_str L (cm_ChannelSerial cm)),
      (''messages'', cm_Messages cm \<noteq> [], mp_list L (map (EncodeMessage L) (cm_Messages cm))),
      (''presence'', cm_Presence cm \<noteq> [], mp_list L (map (EncodePresence L) (cm_Presence cm))),
      (''annotations'', cm_Annotations cm \<noteq> [], mp_list L (map (EncodeAnnotation L) (cm_Annotations cm)))]"

section \<open>Decoding\<close>

text \<open>The struct decoder: a field that is absent keeps its zero value.\<close>

definition field_or :: "(string \<times> 'v) list \<Rightarrow> string \<Rightarrow> 'a \<Rightarrow> ('v \<Rightarrow> 'a option) \<Rightarrow> 'a option" where
  "field_or fs k zero dec = (case map_of fs k of None \<Rightarrow> Some zero | Some b \<Rightarrow> dec b)"

text \<open>\<open>msgpackData.DecodeMsgpack\<close>: the value and \<open>jsonEncoded\<close>.\<close>

definition decodeData :: "'v mplib \<Rightarrow> floatfmt \<Rightarrow> 'v \<Rightarrow> payload_error + goany \<times> bool" where
  "decodeData L F bs =
     (case mp_raw L bs of
        [] \<Rightarrow> Inl ErrDecode
      | c # _ \<Rightarrow>
          if isStr c then (case mp_unstr L bs of None \<Rightarrow> Inl ErrDecode | Some s \<Rightarrow> Inr (AnyStr s, False))
          else if c \<in> set [0xc4, 0xc5, 0xc6] then (case mp_unbin L bs of None \<Rightarrow> Inl ErrDecode | Some s \<Rightarrow> Inr (AnyBytes s, False))
          else (case MsgpackToJSON F (mp_raw L bs) of
                  Inl e \<Rightarrow> Inl (ErrTranscode e)
                | Inr (t, _) \<Rightarrow> Inr (AnyStr t, t \<noteq> [] \<and> hd t \<in> set ''{['')))"

text \<open>\<open>decodeMsgpackData\<close> on what the struct decoder left; a nil \<open>data\<close> leaves the pointer nil.\<close>

definition decodeMsgpackData :: "'v mplib \<Rightarrow> floatfmt \<Rightarrow> (string \<Rightarrow> string) \<Rightarrow> (string \<times> 'v) list \<Rightarrow> goany \<Rightarrow> string \<Rightarrow>
    payload_error + goany \<times> string" where
  "decodeMsgpackData L F N raw data encoding =
     (case map_of raw ''data'' of
        None \<Rightarrow> Inr (data, encoding)
      | Some bs \<Rightarrow>
          if take 1 (mp_raw L bs) = [0xc0] then Inr (data, encoding)
          else (case decodeData L F bs of
                  Inl e \<Rightarrow> Inl e
                | Inr (v, jsonEncoded) \<Rightarrow> normaliseInboundData N v encoding jsonEncoded))"

definition decodeExtras :: "'v mplib \<Rightarrow> 'v \<Rightarrow> extras option" where
  "decodeExtras L bs = map_option Some (mp_unobj L bs)"

definition decodeVersion :: "'v mplib \<Rightarrow> 'v \<Rightarrow> MessageVersion option option" where
  "decodeVersion L bs = do {
     fs \<leftarrow> mp_unmap L bs;
     serial \<leftarrow> field_or fs ''serial'' [] (mp_unstr L);
     ts \<leftarrow> field_or fs ''timestamp'' 0 (mp_unint L);
     client \<leftarrow> field_or fs ''clientId'' [] (mp_unstr L);
     desc \<leftarrow> field_or fs ''description'' [] (mp_unstr L);
     meta \<leftarrow> field_or fs ''metadata'' None (decodeExtras L);
     Some (Some \<lparr>v_Serial = serial, v_Timestamp = ts, v_ClientID = client, v_Description = desc, v_Metadata = meta\<rparr>) }"

text \<open>\<open>msgpack.Unmarshal\<close> into the shadow type \<open>wire\<close>.\<close>

definition wireBody :: "'v mplib \<Rightarrow> (string \<times> 'v) list \<Rightarrow> MessageBody option" where
  "wireBody L fs = do {
     id' \<leftarrow> field_or fs ''id'' [] (mp_unstr L);
     serial \<leftarrow> field_or fs ''serial'' [] (mp_unstr L);
     action \<leftarrow> field_or fs ''action'' 0 (mp_unint L);
     client \<leftarrow> field_or fs ''clientId'' [] (mp_unstr L);
     conn \<leftarrow> field_or fs ''connectionId'' [] (mp_unstr L);
     connKey \<leftarrow> field_or fs ''connectionKey'' [] (mp_unstr L);
     name \<leftarrow> field_or fs ''name'' [] (mp_unstr L);
     data \<leftarrow> field_or fs ''data'' AnyNil (mp_unany L);
     encoding \<leftarrow> field_or fs ''encoding'' [] (mp_unstr L);
     extras \<leftarrow> field_or fs ''extras'' None (decodeExtras L);
     ts \<leftarrow> field_or fs ''timestamp'' 0 (mp_unint L);
     version \<leftarrow> field_or fs ''version'' None (decodeVersion L);
     summary \<leftarrow> field_or fs ''summary'' [] (mp_unsummary L);
     Some \<lparr>m_ID = id', m_Serial = serial, m_Action = messageActionOf action, m_ClientID = client, m_ConnectionID = conn,
       m_ConnectionKey = connKey, m_Name = name, m_Data = data, m_Encoding = encoding, m_Extras = extras, m_Timestamp = ts,
       m_Version = version, m_Summary = summary\<rparr> }"

definition decodeBody :: "'v mplib \<Rightarrow> floatfmt \<Rightarrow> (string \<Rightarrow> string) \<Rightarrow> (string \<times> 'v) list \<Rightarrow> payload_error + MessageBody" where
  "decodeBody L F N raw =
     (case wireBody L raw of
        None \<Rightarrow> Inl ErrDecode
      | Some w \<Rightarrow> (case decodeMsgpackData L F N raw (m_Data w) (m_Encoding w) of
            Inl e \<Rightarrow> Inl e
          | Inr (data, enc) \<Rightarrow> Inr (w\<lparr>m_Data := data, m_Encoding := enc\<rparr>)))"

definition decodeAlt :: "'v mplib \<Rightarrow> floatfmt \<Rightarrow> (string \<Rightarrow> string) \<Rightarrow> (string \<times> 'v) list \<Rightarrow> payload_error + MessageBody option" where
  "decodeAlt L F N raw =
     (case map_of raw ''alt'' of
        None \<Rightarrow> Inr None
      | Some bs \<Rightarrow> (case mp_unmap L bs of
            None \<Rightarrow> Inl ErrDecode
          | Some fs \<Rightarrow> (case map_of fs ''delta-append'' of
                None \<Rightarrow> Inr None
              | Some b \<Rightarrow> (case mp_unmap L b of
                    None \<Rightarrow> Inl ErrDecode
                  | Some r \<Rightarrow> (case decodeBody L F N r of Inl e \<Rightarrow> Inl e | Inr a \<Rightarrow> Inr (Some a))))))"

definition withAlt :: "MessageBody \<Rightarrow> MessageBody option \<Rightarrow> Message" where
  "withAlt b a = \<lparr>m_ID = m_ID b, m_Serial = m_Serial b, m_Action = m_Action b, m_ClientID = m_ClientID b,
     m_ConnectionID = m_ConnectionID b, m_ConnectionKey = m_ConnectionKey b, m_Name = m_Name b, m_Data = m_Data b,
     m_Encoding = m_Encoding b, m_Extras = m_Extras b, m_Timestamp = m_Timestamp b, m_Version = m_Version b,
     m_Summary = m_Summary b, m_Alt = a\<rparr>"

definition DecodeMessage :: "'v mplib \<Rightarrow> floatfmt \<Rightarrow> (string \<Rightarrow> string) \<Rightarrow> 'v \<Rightarrow> payload_error + Message" where
  "DecodeMessage L F N bs =
     (case mp_unmap L bs of
        None \<Rightarrow> Inl ErrDecode
      | Some raw \<Rightarrow> (case decodeAlt L F N raw of
            Inl e \<Rightarrow> Inl e
          | Inr alt \<Rightarrow> (case decodeBody L F N raw of Inl e \<Rightarrow> Inl e | Inr b \<Rightarrow> Inr (withAlt b alt))))"

definition wirePresence :: "'v mplib \<Rightarrow> (string \<times> 'v) list \<Rightarrow> PresenceMessage option" where
  "wirePresence L fs = do {
     id' \<leftarrow> field_or fs ''id'' [] (mp_unstr L);
     serial \<leftarrow> field_or fs ''serial'' [] (mp_unstr L);
     action \<leftarrow> field_or fs ''action'' 0 (mp_unint L);
     client \<leftarrow> field_or fs ''clientId'' [] (mp_unstr L);
     conn \<leftarrow> field_or fs ''connectionId'' [] (mp_unstr L);
     data \<leftarrow> field_or fs ''data'' AnyNil (mp_unany L);
     encoding \<leftarrow> field_or fs ''encoding'' [] (mp_unstr L);
     extras \<leftarrow> field_or fs ''extras'' None (decodeExtras L);
     ts \<leftarrow> field_or fs ''timestamp'' 0 (mp_unint L);
     Some \<lparr>p_ID = id', p_Serial = serial, p_Action = presenceActionOf action, p_ClientID = client, p_ConnectionID = conn,
       p_Data = data, p_Encoding = encoding, p_Extras = extras, p_Timestamp = ts\<rparr> }"

definition DecodePresence :: "'v mplib \<Rightarrow> floatfmt \<Rightarrow> (string \<Rightarrow> string) \<Rightarrow> 'v \<Rightarrow> payload_error + PresenceMessage" where
  "DecodePresence L F N bs =
     (case mp_unmap L bs of
        None \<Rightarrow> Inl ErrDecode
      | Some raw \<Rightarrow> (case wirePresence L raw of
            None \<Rightarrow> Inl ErrDecode
          | Some w \<Rightarrow> (case decodeMsgpackData L F N raw (p_Data w) (p_Encoding w) of
                Inl e \<Rightarrow> Inl e
              | Inr (data, enc) \<Rightarrow> Inr (w\<lparr>p_Data := data, p_Encoding := enc\<rparr>))))"

definition wireAnnotation :: "'v mplib \<Rightarrow> (string \<times> 'v) list \<Rightarrow> Annotation option" where
  "wireAnnotation L fs = do {
     id' \<leftarrow> field_or fs ''id'' [] (mp_unstr L);
     serial \<leftarrow> field_or fs ''serial'' [] (mp_unstr L);
     action \<leftarrow> field_or fs ''action'' 0 (mp_unint L);
     client \<leftarrow> field_or fs ''clientId'' [] (mp_unstr L);
     conn \<leftarrow> field_or fs ''connectionId'' [] (mp_unstr L);
     type' \<leftarrow> field_or fs ''type'' [] (mp_unstr L);
     name \<leftarrow> field_or fs ''name'' [] (mp_unstr L);
     ms \<leftarrow> field_or fs ''messageSerial'' [] (mp_unstr L);
     count \<leftarrow> field_or fs ''count'' 0 (mp_unint L);
     data \<leftarrow> field_or fs ''data'' AnyNil (mp_unany L);
     encoding \<leftarrow> field_or fs ''encoding'' [] (mp_unstr L);
     extras \<leftarrow> field_or fs ''extras'' None (decodeExtras L);
     ts \<leftarrow> field_or fs ''timestamp'' 0 (mp_unint L);
     Some \<lparr>a_ID = id', a_Serial = serial, a_Action = annotationActionOf action, a_ClientID = client, a_ConnectionID = conn,
       a_Type = type', a_Name = name, a_MessageSerial = ms, a_Count = count, a_Data = data, a_Encoding = encoding,
       a_Extras = extras, a_Timestamp = ts, a_Summary = []\<rparr> }"

definition DecodeAnnotation :: "'v mplib \<Rightarrow> floatfmt \<Rightarrow> (string \<Rightarrow> string) \<Rightarrow> 'v \<Rightarrow> payload_error + Annotation" where
  "DecodeAnnotation L F N bs =
     (case mp_unmap L bs of
        None \<Rightarrow> Inl ErrDecode
      | Some raw \<Rightarrow> (case wireAnnotation L raw of
            None \<Rightarrow> Inl ErrDecode
          | Some w \<Rightarrow> (case decodeMsgpackData L F N raw (a_Data w) (a_Encoding w) of
                Inl e \<Rightarrow> Inl e
              | Inr (data, enc) \<Rightarrow> Inr (w\<lparr>a_Data := data, a_Encoding := enc\<rparr>))))"

fun decodeEach :: "('v \<Rightarrow> payload_error + 'a) \<Rightarrow> 'v list \<Rightarrow> 'a list option" where
  "decodeEach dec [] = Some []"
| "decodeEach dec (b # bs) =
     (case dec b of Inl e \<Rightarrow> None | Inr x \<Rightarrow> map_option ((#) x) (decodeEach dec bs))"

definition decodeSlice :: "'v mplib \<Rightarrow> ('v \<Rightarrow> payload_error + 'a) \<Rightarrow> 'v \<Rightarrow> 'a list option" where
  "decodeSlice L dec bs = (case mp_unlist L bs of None \<Rightarrow> None | Some xs \<Rightarrow> decodeEach dec xs)"

definition DecodeChannelMessage :: "'v mplib \<Rightarrow> floatfmt \<Rightarrow> (string \<Rightarrow> string) \<Rightarrow> 'v \<Rightarrow> ChannelMessage option" where
  "DecodeChannelMessage L F N bs = do {
     fs \<leftarrow> mp_unmap L bs;
     id' \<leftarrow> field_or fs ''id'' [] (mp_unstr L);
     serial \<leftarrow> field_or fs ''channelSerial'' [] (mp_unstr L);
     ms \<leftarrow> field_or fs ''messages'' [] (decodeSlice L (DecodeMessage L F N));
     ps \<leftarrow> field_or fs ''presence'' [] (decodeSlice L (DecodePresence L F N));
     as \<leftarrow> field_or fs ''annotations'' [] (decodeSlice L (DecodeAnnotation L F N));
     Some \<lparr>cm_ID = id', cm_ChannelSerial = serial, cm_Messages = ms, cm_Presence = ps, cm_Annotations = as\<rparr> }"

end
