(* ===== verification/CodecLaws.thy ===== *)
theory CodecLaws
  imports Codec
begin

text \<open>
  The codec is faithful to every canonical value: what it encodes it decodes to the same value, so the blobs of the
  on-disk backends hold what was written. The parameter's laws are what the msgpack library documents: a decoder
  inverts its encoder, and a string and bytes carry their codes.
\<close>

section \<open>The library\<close>

definition mplib_laws :: "'v mplib \<Rightarrow> bool" where
  "mplib_laws L \<longleftrightarrow>
     (\<forall>fs. distinct (map fst fs) \<longrightarrow> mp_unmap L (mp_map L fs) = Some fs) \<and>
     (\<forall>xs. mp_unlist L (mp_list L xs) = Some xs) \<and>
     (\<forall>s. mp_unstr L (mp_str L s) = Some s) \<and>
     (\<forall>s. mp_unbin L (mp_bin L s) = Some s) \<and>
     (\<forall>k. int64_range k \<longrightarrow> mp_unint L (mp_int L k) = Some k) \<and>
     (\<forall>es. mp_unobj L (mp_obj L es) = Some es) \<and>
     (\<forall>s. mp_unsummary L (mp_summary L s) = Some s) \<and>
     (\<forall>s. mp_any L (AnyStr s) = mp_str L s \<and> mp_any L (AnyBytes s) = mp_bin L s) \<and>
     (\<forall>s. mp_unany L (mp_str L s) \<noteq> None \<and> mp_unany L (mp_bin L s) \<noteq> None) \<and>
     (\<forall>s. \<exists>c t. mp_raw L (mp_str L s) = c # t \<and> isStr c) \<and>
     (\<forall>s. \<exists>c t. mp_raw L (mp_bin L s) = c # t \<and> c \<in> set [0xc4, 0xc5, 0xc6])"

lemma mplib_lawsD:
  assumes "mplib_laws L"
  shows "distinct (map fst fs) \<Longrightarrow> mp_unmap L (mp_map L fs) = Some fs"
    "mp_unlist L (mp_list L xs) = Some xs" "mp_unstr L (mp_str L s) = Some s" "mp_unbin L (mp_bin L s) = Some s"
    "int64_range k \<Longrightarrow> mp_unint L (mp_int L k) = Some k" "mp_unobj L (mp_obj L es) = Some es"
    "mp_unsummary L (mp_summary L u) = Some u" "mp_any L (AnyStr s) = mp_str L s" "mp_any L (AnyBytes s) = mp_bin L s"
    "\<exists>x. mp_unany L (mp_str L s) = Some x" "\<exists>x. mp_unany L (mp_bin L s) = Some x"
    "\<exists>c t. mp_raw L (mp_str L s) = c # t \<and> isStr c" "\<exists>c t. mp_raw L (mp_bin L s) = c # t \<and> c \<in> set [0xc4, 0xc5, 0xc6]"
  using assms unfolding mplib_laws_def by (blast+)

section \<open>Fields\<close>

definition emitted :: "'v msgpackField list \<Rightarrow> (string \<times> 'v) list" where
  "emitted fs = map (\<lambda>(k, _, v). (k, v)) (filter (\<lambda>(_, emit, _). emit) fs)"

lemma encode_emitted: "encodeMsgpackMap L fs = mp_map L (emitted fs)"
  by (simp add: encodeMsgpackMap_def emitted_def)

lemma emitted_keys: "set (map fst (emitted fs)) \<subseteq> set (map fst fs)"
  by (force simp: emitted_def)

lemma emitted_distinct: "distinct (map fst fs) \<Longrightarrow> distinct (map fst (emitted fs))"
proof (induction fs)
  case (Cons f fs)
  with emitted_keys[of fs] show ?case by (cases f) (auto simp: emitted_def)
qed (simp add: emitted_def)

lemma emitted_lookup:
  "distinct (map fst fs) \<Longrightarrow> map_of (emitted fs) k = (case map_of fs k of Some (True, v) \<Rightarrow> Some v | _ \<Rightarrow> None)"
proof (induction fs)
  case (Cons f fs)
  obtain k' e v where f: "f = (k', e, v)" by (cases f) auto
  have "map_of (emitted fs) k' = None" using Cons.prems f emitted_keys[of fs] by (auto simp: map_of_eq_None_iff)
  with Cons f show ?case by (auto simp: emitted_def split: option.splits bool.splits)
qed (simp add: emitted_def)

lemma field_back: "distinct (map fst fs) \<Longrightarrow> map_of fs k = Some (e, v) \<Longrightarrow> (if e then dec v else Some zero) = Some x \<Longrightarrow>
    field_or (emitted fs) k zero dec = Some x"
  by (simp add: field_or_def emitted_lookup split: if_splits)

text \<open>A field reads back as it was: omitted when it is the zero value, and decoded otherwise.\<close>

lemma str_field: "mplib_laws L \<Longrightarrow> (if s \<noteq> [] then mp_unstr L (mp_str L s) else Some []) = Some s"
  by (simp add: mplib_lawsD)

lemma int_field: "mplib_laws L \<Longrightarrow> int64_range k \<Longrightarrow> (if k \<noteq> 0 then mp_unint L (mp_int L k) else Some 0) = Some k"
  by (simp add: mplib_lawsD)

lemma summary_field: "mplib_laws L \<Longrightarrow> (if s \<noteq> [] then mp_unsummary L (mp_summary L s) else Some []) = Some s"
  by (simp add: mplib_lawsD)

lemma extras_field: "mplib_laws L \<Longrightarrow> x \<noteq> Some [] \<Longrightarrow>
    (if someExtras x \<noteq> [] then decodeExtras L (mp_obj L (someExtras x)) else Some None) = Some x"
  by (cases x) (simp_all add: someExtras_def decodeExtras_def mplib_lawsD)

lemmas plain_fields = str_field int_field summary_field extras_field

section \<open>Versions\<close>

definition version_ok :: "MessageVersion \<Rightarrow> bool" where
  "version_ok v \<longleftrightarrow> int64_range (v_Timestamp v) \<and> v_Metadata v \<noteq> Some []"

lemma version_round_trip: "mplib_laws L \<Longrightarrow> version_ok v \<Longrightarrow> decodeVersion L (encodeVersion L v) = Some (Some v)"
proof -
  assume L: "mplib_laws L" and v: "version_ok v"
  define fs where "fs = [(''serial'', v_Serial v \<noteq> [], mp_str L (v_Serial v)),
      (''timestamp'', v_Timestamp v \<noteq> 0, mp_int L (v_Timestamp v)),
      (''clientId'', v_ClientID v \<noteq> [], mp_str L (v_ClientID v)),
      (''description'', v_Description v \<noteq> [], mp_str L (v_Description v)),
      (''metadata'', someExtras (v_Metadata v) \<noteq> [], mp_obj L (someExtras (v_Metadata v)))]"
  have d: "distinct (map fst fs)" by (simp add: fs_def)
  from v have o: "int64_range (v_Timestamp v)" "v_Metadata v \<noteq> Some []" by (simp_all add: version_ok_def)
  have "field_or (emitted fs) ''serial'' [] (mp_unstr L) = Some (v_Serial v)"
    "field_or (emitted fs) ''timestamp'' 0 (mp_unint L) = Some (v_Timestamp v)"
    "field_or (emitted fs) ''clientId'' [] (mp_unstr L) = Some (v_ClientID v)"
    "field_or (emitted fs) ''description'' [] (mp_unstr L) = Some (v_Description v)"
    "field_or (emitted fs) ''metadata'' None (decodeExtras L) = Some (v_Metadata v)"
    by (rule field_back[OF d], simp add: fs_def, rule plain_fields[OF L]; (rule o)?)+
  moreover have "mp_unmap L (mp_map L (emitted fs)) = Some (emitted fs)"
    by (rule mplib_lawsD(1)[OF L emitted_distinct[OF d]])
  ultimately show ?thesis by (simp add: decodeVersion_def encodeVersion_def encode_emitted fs_def[symmetric])
qed

section \<open>Payloads\<close>

lemma any_encoded: "mplib_laws L \<Longrightarrow> canonical d e \<Longrightarrow> d \<noteq> AnyNil \<Longrightarrow> \<exists>x. mp_unany L (mp_any L d) = Some x"
  by (cases d) (auto simp: canonical_def mplib_lawsD)

lemma any_field: "mplib_laws L \<Longrightarrow> canonical d e \<Longrightarrow> \<exists>x. (if d \<noteq> AnyNil then mp_unany L (mp_any L d) else Some AnyNil) = Some x \<and> (d = AnyNil \<longrightarrow> x = AnyNil)"
  by (auto dest: any_encoded)

lemma string_code: "isStr c \<Longrightarrow> c \<noteq> 0xc0"
  using string_codes[of c] by auto

lemma decodeData_back: "mplib_laws L \<Longrightarrow> canonical d e \<Longrightarrow> d \<noteq> AnyNil \<Longrightarrow>
    take 1 (mp_raw L (mp_any L d)) \<noteq> [0xc0] \<and> decodeData L F (mp_any L d) = Inr (d, False)"
proof (cases d)
  case (AnyStr s)
  assume L: "mplib_laws L"
  from mplib_lawsD(12)[OF L, of s] obtain c t where "mp_raw L (mp_str L s) = c # t" "isStr c" by blast
  with AnyStr L show ?thesis by (auto simp: decodeData_def mplib_lawsD dest: string_code)
next
  case (AnyBytes s)
  assume L: "mplib_laws L"
  from mplib_lawsD(13)[OF L, of s] obtain c t where c: "mp_raw L (mp_bin L s) = c # t" "c \<in> set [0xc4, 0xc5, 0xc6]" by blast
  then have "\<not> isStr c" "c \<noteq> 0xc0" by (auto simp: isStr_def isFixedString_def)
  with c AnyBytes L show ?thesis by (simp add: decodeData_def mplib_lawsD)
qed (auto simp: canonical_def)

lemma normalise_canonical: "canonical d e \<Longrightarrow> normaliseInboundData N d e False = Inr (d, e)"
  by (auto simp: canonical_def normaliseInboundData_def DataFromExternal_def split: goany.splits)

lemma payload_back:
  assumes "mplib_laws L" "canonical d e" "distinct (map fst fs)" "map_of fs ''data'' = Some (d \<noteq> AnyNil, mp_any L d)"
    "d = AnyNil \<longrightarrow> x = AnyNil"
  shows "decodeMsgpackData L F N (emitted fs) x e = Inr (d, e)"
proof (cases "d = AnyNil")
  case True
  with assms show ?thesis by (simp add: decodeMsgpackData_def emitted_lookup)
next
  case False
  with assms(4) have "map_of (emitted fs) ''data'' = Some (mp_any L d)" by (simp add: emitted_lookup[OF assms(3)])
  with decodeData_back[OF assms(1,2) False] normalise_canonical[OF assms(2)] show ?thesis by (simp add: decodeMsgpackData_def)
qed

section \<open>Messages\<close>

definition body_ok :: "'a MessageBody_scheme \<Rightarrow> bool" where
  "body_ok m \<longleftrightarrow> canonical (m_Data m) (m_Encoding m) \<and> messageActionOf (messageActionInt (m_Action m)) = m_Action m \<and>
     int64_range (messageActionInt (m_Action m)) \<and> m_Extras m \<noteq> Some [] \<and> int64_range (m_Timestamp m) \<and>
     (case m_Version m of None \<Rightarrow> True | Some v \<Rightarrow> version_ok v)"

definition bodyOf :: "'a MessageBody_scheme \<Rightarrow> MessageBody" where
  "bodyOf m = \<lparr>m_ID = m_ID m, m_Serial = m_Serial m, m_Action = m_Action m, m_ClientID = m_ClientID m,
     m_ConnectionID = m_ConnectionID m, m_ConnectionKey = m_ConnectionKey m, m_Name = m_Name m, m_Data = m_Data m,
     m_Encoding = m_Encoding m, m_Extras = m_Extras m, m_Timestamp = m_Timestamp m, m_Version = m_Version m,
     m_Summary = m_Summary m\<rparr>"

lemma action_field: "mplib_laws L \<Longrightarrow> int64_range k \<Longrightarrow> (if True then mp_unint L (mp_int L k) else Some 0) = Some k"
  by (simp add: mplib_lawsD)

lemma version_field: "mplib_laws L \<Longrightarrow> (case x of None \<Rightarrow> True | Some v \<Rightarrow> version_ok v) \<Longrightarrow>
    (if x \<noteq> None then decodeVersion L (case x of None \<Rightarrow> mp_nil L | Some v \<Rightarrow> encodeVersion L v) else Some None) = Some x"
  by (cases x) (simp_all add: version_round_trip)

lemma body_back:
  fixes fs :: "'v msgpackField list"
  assumes "mplib_laws L" "body_ok m" "distinct (map fst fs)" "fs = bodyFields L m @ extra"
  shows "decodeBody L F N (emitted fs) = Inr (bodyOf m)"
proof -
  note L = assms(1) and d = assms(3) and fs_def = assms(4) bodyFields_def
  from assms(2) have o: "canonical (m_Data m) (m_Encoding m)" "int64_range (messageActionInt (m_Action m))" "m_Extras m \<noteq> Some []"
    "int64_range (m_Timestamp m)" "case m_Version m of None \<Rightarrow> True | Some v \<Rightarrow> version_ok v"
    and act: "messageActionOf (messageActionInt (m_Action m)) = m_Action m"
    by (simp_all add: body_ok_def)
  from any_field[OF L o(1)] obtain x where
    x: "(if m_Data m \<noteq> AnyNil then mp_unany L (mp_any L (m_Data m)) else Some AnyNil) = Some x" "m_Data m = AnyNil \<longrightarrow> x = AnyNil" by blast
  note reads_back = plain_fields[OF L] action_field[OF L] version_field[OF L] x(1)
  have "field_or (emitted fs) ''id'' [] (mp_unstr L) = Some (m_ID m)"
    "field_or (emitted fs) ''serial'' [] (mp_unstr L) = Some (m_Serial m)"
    "field_or (emitted fs) ''action'' 0 (mp_unint L) = Some (messageActionInt (m_Action m))"
    "field_or (emitted fs) ''clientId'' [] (mp_unstr L) = Some (m_ClientID m)"
    "field_or (emitted fs) ''connectionId'' [] (mp_unstr L) = Some (m_ConnectionID m)"
    "field_or (emitted fs) ''connectionKey'' [] (mp_unstr L) = Some (m_ConnectionKey m)"
    "field_or (emitted fs) ''name'' [] (mp_unstr L) = Some (m_Name m)"
    "field_or (emitted fs) ''data'' AnyNil (mp_unany L) = Some x"
    "field_or (emitted fs) ''encoding'' [] (mp_unstr L) = Some (m_Encoding m)"
    "field_or (emitted fs) ''extras'' None (decodeExtras L) = Some (m_Extras m)"
    "field_or (emitted fs) ''timestamp'' 0 (mp_unint L) = Some (m_Timestamp m)"
    "field_or (emitted fs) ''version'' None (decodeVersion L) = Some (m_Version m)"
    "field_or (emitted fs) ''summary'' [] (mp_unsummary L) = Some (m_Summary m)"
    by (rule field_back[OF d], simp add: fs_def del: not_None_eq, rule reads_back; (rule o)?)+
  then have w: "wireBody L (emitted fs) = Some (bodyOf m\<lparr>m_Data := x\<rparr>)" by (simp add: wireBody_def bodyOf_def act)
  have "decodeMsgpackData L F N (emitted fs) x (m_Encoding m) = Inr (m_Data m, m_Encoding m)"
    by (rule payload_back[OF L o(1) d _ x(2)]) (simp add: fs_def)
  with w show ?thesis by (simp add: decodeBody_def bodyOf_def)
qed

definition message_ok :: "Message \<Rightarrow> bool" where
  "message_ok m \<longleftrightarrow> body_ok m \<and> (case m_Alt m of None \<Rightarrow> True | Some a \<Rightarrow> body_ok a)"

lemma bodyOf_body [simp]: "bodyOf (b :: MessageBody) = b"
  by (simp add: bodyOf_def)

lemma withAlt_bodyOf [simp]: "withAlt (bodyOf m) (m_Alt m) = (m :: Message)"
  by (cases m) (simp add: withAlt_def bodyOf_def)

lemma body_keys: "distinct (map fst (bodyFields L m @ [(''alt'', e, v)]))" "distinct (map fst (bodyFields L m))"
  by (simp_all add: bodyFields_def)

lemma alt_back:
  assumes "mplib_laws L" "body_ok a"
  shows "mp_unmap L (encodeAlt L a) = Some [(''delta-append'', encodeMsgpackMap L (bodyFields L a))]"
    "mp_unmap L (encodeMsgpackMap L (bodyFields L a)) = Some (emitted (bodyFields L a))"
    "decodeBody L F N (emitted (bodyFields L a)) = Inr (bodyOf a)"
  using mplib_lawsD(1)[OF assms(1)] body_back[OF assms body_keys(2)[of L a], where extra = "[]"]
  by (simp_all add: encodeAlt_def encode_emitted emitted_distinct body_keys)

lemma message_back: "mplib_laws L \<Longrightarrow> message_ok m \<Longrightarrow> DecodeMessage L F N (EncodeMessage L m) = Inr m"
proof -
  assume L: "mplib_laws L" and m: "message_ok m"
  define alt where "alt = (''alt'', m_Alt m \<noteq> None, case m_Alt m of None \<Rightarrow> mp_nil L | Some a \<Rightarrow> encodeAlt L a)"
  let ?fs = "bodyFields L m @ [alt]"
  have d: "distinct (map fst ?fs)" by (simp only: alt_def body_keys)
  have u: "mp_unmap L (EncodeMessage L m) = Some (emitted ?fs)"
    unfolding EncodeMessage_def encode_emitted alt_def[symmetric] by (rule mplib_lawsD(1)[OF L emitted_distinct[OF d]])
  have b: "decodeBody L F N (emitted ?fs) = Inr (bodyOf m)"
    using m by (intro body_back[OF L _ d refl]) (simp add: message_ok_def)
  have "map_of ?fs ''alt'' = Some (snd alt)" by (simp add: bodyFields_def alt_def)
  then have "map_of (emitted ?fs) ''alt'' = (case m_Alt m of None \<Rightarrow> None | Some a \<Rightarrow> Some (encodeAlt L a))"
    by (simp add: emitted_lookup[OF d]) (simp add: alt_def split: option.split)
  then have "decodeAlt L F N (emitted ?fs) = Inr (m_Alt m)"
    using m alt_back[OF L] by (cases "m_Alt m") (simp_all add: decodeAlt_def message_ok_def)
  with u b show ?thesis by (simp add: DecodeMessage_def)
qed

section \<open>Presence messages and annotations\<close>

definition presence_ok :: "PresenceMessage \<Rightarrow> bool" where
  "presence_ok p \<longleftrightarrow> canonical (p_Data p) (p_Encoding p) \<and> presenceActionOf (presenceActionInt (p_Action p)) = p_Action p \<and>
     int64_range (presenceActionInt (p_Action p)) \<and> p_Extras p \<noteq> Some [] \<and> int64_range (p_Timestamp p)"

lemma presence_back: "mplib_laws L \<Longrightarrow> presence_ok p \<Longrightarrow> DecodePresence L F N (EncodePresence L p) = Inr p"
proof -
  assume L: "mplib_laws L" and p: "presence_ok p"
  define fs where "fs = [(''id'', p_ID p \<noteq> [], mp_str L (p_ID p)),
      (''serial'', p_Serial p \<noteq> [], mp_str L (p_Serial p)),
      (''action'', True, mp_int L (presenceActionInt (p_Action p))),
      (''clientId'', p_ClientID p \<noteq> [], mp_str L (p_ClientID p)),
      (''connectionId'', p_ConnectionID p \<noteq> [], mp_str L (p_ConnectionID p)),
      (''data'', p_Data p \<noteq> AnyNil, mp_any L (p_Data p)),
      (''encoding'', p_Encoding p \<noteq> [], mp_str L (p_Encoding p)),
      (''extras'', someExtras (p_Extras p) \<noteq> [], mp_obj L (someExtras (p_Extras p))),
      (''timestamp'', p_Timestamp p \<noteq> 0, mp_int L (p_Timestamp p))]"
  have d: "distinct (map fst fs)" by (simp add: fs_def)
  from p have o: "canonical (p_Data p) (p_Encoding p)" "int64_range (presenceActionInt (p_Action p))" "p_Extras p \<noteq> Some []"
    "int64_range (p_Timestamp p)" and act: "presenceActionOf (presenceActionInt (p_Action p)) = p_Action p"
    by (simp_all add: presence_ok_def)
  from any_field[OF L o(1)] obtain x where
    x: "(if p_Data p \<noteq> AnyNil then mp_unany L (mp_any L (p_Data p)) else Some AnyNil) = Some x" "p_Data p = AnyNil \<longrightarrow> x = AnyNil" by blast
  note reads_back = plain_fields[OF L] action_field[OF L] x(1)
  have "field_or (emitted fs) ''id'' [] (mp_unstr L) = Some (p_ID p)"
    "field_or (emitted fs) ''serial'' [] (mp_unstr L) = Some (p_Serial p)"
    "field_or (emitted fs) ''action'' 0 (mp_unint L) = Some (presenceActionInt (p_Action p))"
    "field_or (emitted fs) ''clientId'' [] (mp_unstr L) = Some (p_ClientID p)"
    "field_or (emitted fs) ''connectionId'' [] (mp_unstr L) = Some (p_ConnectionID p)"
    "field_or (emitted fs) ''data'' AnyNil (mp_unany L) = Some x"
    "field_or (emitted fs) ''encoding'' [] (mp_unstr L) = Some (p_Encoding p)"
    "field_or (emitted fs) ''extras'' None (decodeExtras L) = Some (p_Extras p)"
    "field_or (emitted fs) ''timestamp'' 0 (mp_unint L) = Some (p_Timestamp p)"
    by (rule field_back[OF d], simp add: fs_def, rule reads_back; (rule o)?)+
  then have w: "wirePresence L (emitted fs) = Some (p\<lparr>p_Data := x\<rparr>)" by (simp add: wirePresence_def act)
  have "decodeMsgpackData L F N (emitted fs) x (p_Encoding p) = Inr (p_Data p, p_Encoding p)"
    by (rule payload_back[OF L o(1) d _ x(2)]) (simp add: fs_def)
  moreover have "mp_unmap L (EncodePresence L p) = Some (emitted fs)"
    unfolding EncodePresence_def encode_emitted fs_def[symmetric] by (rule mplib_lawsD(1)[OF L emitted_distinct[OF d]])
  ultimately show ?thesis using w by (simp add: DecodePresence_def)
qed

definition annotation_ok :: "Annotation \<Rightarrow> bool" where
  "annotation_ok a \<longleftrightarrow> canonical (a_Data a) (a_Encoding a) \<and> annotationActionOf (annotationActionInt (a_Action a)) = a_Action a \<and>
     int64_range (annotationActionInt (a_Action a)) \<and> a_Extras a \<noteq> Some [] \<and> int64_range (a_Timestamp a) \<and> int64_range (a_Count a)"

lemma annotation_back: "mplib_laws L \<Longrightarrow> annotation_ok a \<Longrightarrow> DecodeAnnotation L F N (EncodeAnnotation L a) = Inr (strip_ann a)"
proof -
  assume L: "mplib_laws L" and a: "annotation_ok a"
  define fs where "fs = [(''id'', a_ID a \<noteq> [], mp_str L (a_ID a)),
      (''serial'', a_Serial a \<noteq> [], mp_str L (a_Serial a)),
      (''action'', True, mp_int L (annotationActionInt (a_Action a))),
      (''clientId'', a_ClientID a \<noteq> [], mp_str L (a_ClientID a)),
      (''connectionId'', a_ConnectionID a \<noteq> [], mp_str L (a_ConnectionID a)),
      (''type'', a_Type a \<noteq> [], mp_str L (a_Type a)),
      (''name'', a_Name a \<noteq> [], mp_str L (a_Name a)),
      (''messageSerial'', a_MessageSerial a \<noteq> [], mp_str L (a_MessageSerial a)),
      (''count'', a_Count a \<noteq> 0, mp_int L (a_Count a)),
      (''data'', a_Data a \<noteq> AnyNil, mp_any L (a_Data a)),
      (''encoding'', a_Encoding a \<noteq> [], mp_str L (a_Encoding a)),
      (''extras'', someExtras (a_Extras a) \<noteq> [], mp_obj L (someExtras (a_Extras a))),
      (''timestamp'', a_Timestamp a \<noteq> 0, mp_int L (a_Timestamp a))]"
  have d: "distinct (map fst fs)" by (simp add: fs_def)
  from a have o: "canonical (a_Data a) (a_Encoding a)" "int64_range (annotationActionInt (a_Action a))" "a_Extras a \<noteq> Some []"
    "int64_range (a_Timestamp a)" "int64_range (a_Count a)" and act: "annotationActionOf (annotationActionInt (a_Action a)) = a_Action a"
    by (simp_all add: annotation_ok_def)
  from any_field[OF L o(1)] obtain x where
    x: "(if a_Data a \<noteq> AnyNil then mp_unany L (mp_any L (a_Data a)) else Some AnyNil) = Some x" "a_Data a = AnyNil \<longrightarrow> x = AnyNil" by blast
  note reads_back = plain_fields[OF L] action_field[OF L] x(1)
  have "field_or (emitted fs) ''id'' [] (mp_unstr L) = Some (a_ID a)"
    "field_or (emitted fs) ''serial'' [] (mp_unstr L) = Some (a_Serial a)"
    "field_or (emitted fs) ''action'' 0 (mp_unint L) = Some (annotationActionInt (a_Action a))"
    "field_or (emitted fs) ''clientId'' [] (mp_unstr L) = Some (a_ClientID a)"
    "field_or (emitted fs) ''connectionId'' [] (mp_unstr L) = Some (a_ConnectionID a)"
    "field_or (emitted fs) ''type'' [] (mp_unstr L) = Some (a_Type a)"
    "field_or (emitted fs) ''name'' [] (mp_unstr L) = Some (a_Name a)"
    "field_or (emitted fs) ''messageSerial'' [] (mp_unstr L) = Some (a_MessageSerial a)"
    "field_or (emitted fs) ''count'' 0 (mp_unint L) = Some (a_Count a)"
    "field_or (emitted fs) ''data'' AnyNil (mp_unany L) = Some x"
    "field_or (emitted fs) ''encoding'' [] (mp_unstr L) = Some (a_Encoding a)"
    "field_or (emitted fs) ''extras'' None (decodeExtras L) = Some (a_Extras a)"
    "field_or (emitted fs) ''timestamp'' 0 (mp_unint L) = Some (a_Timestamp a)"
    by (rule field_back[OF d], simp add: fs_def, rule reads_back; (rule o)?)+
  then have w: "wireAnnotation L (emitted fs) = Some (a\<lparr>a_Data := x, a_Summary := []\<rparr>)" by (simp add: wireAnnotation_def act)
  have "decodeMsgpackData L F N (emitted fs) x (a_Encoding a) = Inr (a_Data a, a_Encoding a)"
    by (rule payload_back[OF L o(1) d _ x(2)]) (simp add: fs_def)
  moreover have "mp_unmap L (EncodeAnnotation L a) = Some (emitted fs)"
    unfolding EncodeAnnotation_def encode_emitted fs_def[symmetric] by (rule mplib_lawsD(1)[OF L emitted_distinct[OF d]])
  ultimately show ?thesis using w by (simp add: DecodeAnnotation_def strip_ann_def)
qed

section \<open>Channel messages\<close>

definition channel_ok :: "ChannelMessage \<Rightarrow> bool" where
  "channel_ok cm \<longleftrightarrow> list_all message_ok (cm_Messages cm) \<and> list_all presence_ok (cm_Presence cm) \<and> list_all annotation_ok (cm_Annotations cm)"

lemma each_back: "list_all ok xs \<Longrightarrow> (\<And>x. ok x \<Longrightarrow> dec (enc x) = Inr (g x)) \<Longrightarrow> decodeEach dec (map enc xs) = Some (map g xs)"
  by (induction xs) auto

lemma slice_field: "mplib_laws L \<Longrightarrow> list_all ok xs \<Longrightarrow> (\<And>x. ok x \<Longrightarrow> dec (enc x) = Inr (g x)) \<Longrightarrow>
    (if xs \<noteq> [] then decodeSlice L dec (mp_list L (map enc xs)) else Some []) = Some (map g xs)"
  by (auto simp: decodeSlice_def mplib_lawsD each_back)

lemma channel_back: "mplib_laws L \<Longrightarrow> channel_ok cm \<Longrightarrow> DecodeChannelMessage L F N (EncodeChannelMessage L cm) = Some (strip_cm cm)"
proof -
  assume L: "mplib_laws L" and cm: "channel_ok cm"
  define fs where "fs = [(''id'', cm_ID cm \<noteq> [], mp_str L (cm_ID cm)),
      (''channelSerial'', cm_ChannelSerial cm \<noteq> [], mp_str L (cm_ChannelSerial cm)),
      (''messages'', cm_Messages cm \<noteq> [], mp_list L (map (EncodeMessage L) (cm_Messages cm))),
      (''presence'', cm_Presence cm \<noteq> [], mp_list L (map (EncodePresence L) (cm_Presence cm))),
      (''annotations'', cm_Annotations cm \<noteq> [], mp_list L (map (EncodeAnnotation L) (cm_Annotations cm)))]"
  have d: "distinct (map fst fs)" by (simp add: fs_def)
  from cm have o: "list_all message_ok (cm_Messages cm)" "list_all presence_ok (cm_Presence cm)" "list_all annotation_ok (cm_Annotations cm)"
    by (simp_all add: channel_ok_def)
  note msgs = slice_field[OF L o(1), of "DecodeMessage L F N" "EncodeMessage L" id]
    and pres = slice_field[OF L o(2), of "DecodePresence L F N" "EncodePresence L" id]
    and anns = slice_field[OF L o(3), of "DecodeAnnotation L F N" "EncodeAnnotation L" strip_ann]
  have "field_or (emitted fs) ''id'' [] (mp_unstr L) = Some (cm_ID cm)"
    "field_or (emitted fs) ''channelSerial'' [] (mp_unstr L) = Some (cm_ChannelSerial cm)"
    "field_or (emitted fs) ''messages'' [] (decodeSlice L (DecodeMessage L F N)) = Some (map id (cm_Messages cm))"
    "field_or (emitted fs) ''presence'' [] (decodeSlice L (DecodePresence L F N)) = Some (map id (cm_Presence cm))"
    "field_or (emitted fs) ''annotations'' [] (decodeSlice L (DecodeAnnotation L F N)) = Some (map strip_ann (cm_Annotations cm))"
    by (rule field_back[OF d], simp add: fs_def, rule str_field[OF L] msgs pres anns; simp add: message_back presence_back annotation_back L)+
  moreover have "mp_unmap L (EncodeChannelMessage L cm) = Some (emitted fs)"
    unfolding EncodeChannelMessage_def encode_emitted fs_def[symmetric] by (rule mplib_lawsD(1)[OF L emitted_distinct[OF d]])
  ultimately show ?thesis by (simp add: DecodeChannelMessage_def strip_cm_def)
qed

section \<open>The blobs of the on-disk backend\<close>

definition rightOption :: "'e + 'a \<Rightarrow> 'a option" where
  "rightOption x = (case x of Inl e \<Rightarrow> None | Inr y \<Rightarrow> Some y)"

definition withCodec :: "'v mplib \<Rightarrow> floatfmt \<Rightarrow> (string \<Rightarrow> string) \<Rightarrow> ('b, 'v) boltlib \<Rightarrow> ('b, 'v) boltlib" where
  "withCodec P F N L = L\<lparr>bl_encCM := (\<lambda>cm. Some (EncodeChannelMessage P cm)), bl_decCM := DecodeChannelMessage P F N,
     bl_encMsg := (\<lambda>m. Some (EncodeMessage P m)), bl_decMsg := (\<lambda>v. rightOption (DecodeMessage P F N v)),
     bl_encAnn := (\<lambda>a. Some (EncodeAnnotation P a)), bl_decAnn := (\<lambda>v. rightOption (DecodeAnnotation P F N v))\<rparr>"

text \<open>An encoded value as the tree it is, with the bytes of the values a payload has.\<close>

datatype wval = WNil | WMap "(string \<times> wval) list" | WList "wval list" | WStr string | WBin string | WInt int
  | WAny goany | WObj "(string \<times> goany) list" | WSummary Summary

fun treeRaw :: "wval \<Rightarrow> byte list" where
  "treeRaw (WStr s) = 0xdb # be 4 (length s) @ goBytes s"
| "treeRaw (WBin s) = 0xc6 # be 4 (length s) @ goBytes s"
| "treeRaw WNil = [0xc0]"
| "treeRaw _ = []"

fun treeAny :: "goany \<Rightarrow> wval" where
  "treeAny (AnyStr s) = WStr s"
| "treeAny (AnyBytes s) = WBin s"
| "treeAny AnyNil = WNil"
| "treeAny v = WAny v"

fun unAny :: "wval \<Rightarrow> goany option" where
  "unAny (WStr s) = Some (AnyStr s)"
| "unAny (WBin s) = Some (AnyBytes s)"
| "unAny WNil = Some AnyNil"
| "unAny (WAny v) = Some v"
| "unAny _ = None"

fun unMap :: "wval \<Rightarrow> (string \<times> wval) list option" where "unMap (WMap es) = Some es" | "unMap _ = None"
fun unList :: "wval \<Rightarrow> wval list option" where "unList (WList es) = Some es" | "unList _ = None"
fun unStr :: "wval \<Rightarrow> string option" where "unStr (WStr s) = Some s" | "unStr _ = None"
fun unBin :: "wval \<Rightarrow> string option" where "unBin (WBin s) = Some s" | "unBin _ = None"
fun unInt :: "wval \<Rightarrow> int option" where "unInt (WInt k) = Some k" | "unInt _ = None"
fun unObj :: "wval \<Rightarrow> (string \<times> goany) list option" where "unObj (WObj es) = Some es" | "unObj _ = None"
fun unSummary :: "wval \<Rightarrow> Summary option" where "unSummary (WSummary u) = Some u" | "unSummary _ = None"

definition treeLib :: "wval mplib" where
  "treeLib = \<lparr>mp_raw = treeRaw, mp_nil = WNil, mp_map = WMap, mp_unmap = unMap, mp_list = WList, mp_unlist = unList,
     mp_str = WStr, mp_unstr = unStr, mp_bin = WBin, mp_unbin = unBin, mp_int = WInt, mp_unint = unInt,
     mp_any = treeAny, mp_unany = unAny, mp_obj = WObj, mp_unobj = unObj, mp_summary = WSummary, mp_unsummary = unSummary\<rparr>"

lemma treeLib_laws: "mplib_laws treeLib"
  by (simp add: mplib_laws_def treeLib_def isStr_def)

section \<open>Properties\<close>


definition sampleMessage :: Message where
  "sampleMessage = zeroMessage\<lparr>m_Name := ''n'', m_Data := AnyStr [], m_Encoding := ''utf-8'', m_Action := MessageUpdate,
     m_Alt := Some (bodyOf (zeroMessage\<lparr>m_Data := AnyBytes [CHR 0x00], m_Action := MessageAppend\<rparr>))\<rparr>"

lemma sampleMessage_ok: "message_ok sampleMessage"
proof -
  have "\<not> has_suffix (getOuterEncoding ''utf-8'') ''base64''" by code_simp
  then show ?thesis
    by (simp add: message_ok_def body_ok_def sampleMessage_def zeroMessage_def bodyOf_def canonical_def messageActionOf_def int64_range_def)
qed


text \<open>The contract the on-disk backend rests on: each kind of blob (a logged batch, a latest or kept version with any summary, an
  annotation) decodes to what was encoded, but for the summary snapshot on an annotation.\<close>

lemma codec_contract:
  assumes "mplib_laws P"
  shows "codec_keeps (withCodec P F N L) channel_ok"
proof -
  have "message_ok (m\<lparr>m_Summary := u\<rparr>)" if "message_ok m" for m u
    using that by (simp add: message_ok_def body_ok_def)
  then show ?thesis
    using channel_back[OF assms] message_back[OF assms] annotation_back[OF assms]
    by (auto simp: codec_keeps_def withCodec_def rightOption_def channel_ok_def list_all_iff)
qed

end
