(* ===== verification/BoltCodec.thy ===== *)
theory BoltCodec
  imports BoltFile CodecLaws
begin

text \<open>
  The on-disk backend with the msgpack codec the server writes its blobs with, in place of an assumed one, and what
  becomes of a payload that is not canonical.
\<close>

section \<open>The backend over the codec\<close>

lemma withCodec_laws: "bolt_laws (withCodec P F N L) items = bolt_laws L items"
  by (simp add: bolt_laws_def withCodec_def)


definition treeFile :: "((string \<times> wval) list, wval) boltlib" where
  "treeFile = withCodec treeLib oneFmt id
    \<lparr>bl_Get = map_of, bl_Put = (\<lambda>k v b. Some ((k, v) # b)),
     bl_Seek = (\<lambda>b k. first_of (filter (\<lambda>x. k \<le> fst x) (rows b))),
     bl_Next = (\<lambda>b k. first_of (filter (\<lambda>x. k < fst x) (rows b))),
     bl_Prev = (\<lambda>b k. last_of (filter (\<lambda>x. fst x < k) (rows b))),
     bl_Last = (\<lambda>b. last_of (rows b)), bl_bytes = WStr,
     bl_string = (\<lambda>v. case v of WStr s \<Rightarrow> s | _ \<Rightarrow> []),
     bl_encCM = (\<lambda>_. None), bl_decCM = (\<lambda>_. None), bl_encMsg = (\<lambda>_. None), bl_decMsg = (\<lambda>_. None),
     bl_encAnn = (\<lambda>_. None), bl_decAnn = (\<lambda>_. None)\<rparr>"

lemma treeFile_laws: "bolt_laws treeFile rows"
  unfolding treeFile_def withCodec_laws by (simp add: bolt_laws_def map_of_rows rows_sorted)

definition emptyTree :: "(string \<times> wval) list boltDB" where
  "emptyTree = \<lparr>db_messages = [], db_ids = [], db_initials = [], db_latest = [], db_versions = [], db_annotations = []\<rparr>"

definition tree1 :: "(string \<times> wval) list boltStorage" where
  "tree1 = fst (boltStorageChannel treeFile False 5 ''room'' (Some (newChannel ''room'')) (boltOpen ''ab'' emptyTree))"

definition treeWrite :: "((string \<times> wval) list boltDB \<times> Generator \<times> boltChannel) \<times> bolt_result" where
  "treeWrite = boltExec treeFile False False 6 ''room'' (OpStore ''f'' [demo_msg])
     (bs_db tree1, bs_gen tree1, the (map_of (bs_channels tree1) ''room''))"

lemma tree_facts: "map_of (bs_channels tree1) ''room'' \<noteq> None" "bs_gen tree1 = \<lparr>seriesID = ''ab'', lastTs = 5, lastCounter = 0\<rparr>"
  "\<not> isl (snd (boltStorageChannel treeFile False 5 ''room'' (Some (newChannel ''room'')) (boltOpen ''ab'' emptyTree)))"
  "case snd treeWrite of Inr (cm, False) \<Rightarrow> channel_ok cm \<and> length (cm_Messages cm) = 1 | _ \<Rightarrow> False"
  by code_simp+

lemma tree_clocks: "clock_ok 5 (bs_gen (boltOpen ''ab'' emptyTree))" "clock_ok 6 (bs_gen tree1)"
  by (simp_all add: boltOpen_def NewGenerator_def clock_ok_def tree_facts clock_ok_demo gen_inv_def maxCounter_def)

definition tree2 :: "(string \<times> wval) list boltStorage" where
  "tree2 = (case fst treeWrite of (db, g, bc) \<Rightarrow> tree1\<lparr>bs_db := db, bs_gen := g, bs_channels := gput ''room'' bc (bs_channels tree1)\<rparr>)"

definition tree_evs :: "storage_event list" where
  "tree_evs = [Opened ''room'', Wrote ''room'' (OpStore ''f'' [demo_msg]) (snd treeWrite)]"

lemma tree_run: "bolt_steps treeFile channel_ok (boltOpen ''ab'' emptyTree) tree_evs tree2"
proof -
  obtain bc where "boltStorageChannel treeFile False 5 ''room'' (Some (newChannel ''room'')) (boltOpen ''ab'' emptyTree) = (tree1, Inr bc)"
    using tree_facts(3) unfolding tree1_def by (metis isl_def prod.collapse sum.exhaust_sel)
  from bolt_open[OF bolt_start _ tree_clocks(1) _ this]
  have one: "bolt_steps treeFile channel_ok (boltOpen ''ab'' emptyTree) [Opened ''room''] tree1" by (simp add: plain_name_def)
  obtain c where c: "map_of (bs_channels tree1) ''room'' = Some c" using tree_facts(1) by blast
  obtain db g bc' r where x: "treeWrite = ((db, g, bc'), r)" by (metis prod.exhaust)
  then have w: "boltExec treeFile False False 6 ''room'' (OpStore ''f'' [demo_msg]) (bs_db tree1, bs_gen tree1, c) = ((db, g, bc'), r)"
    by (simp add: treeWrite_def c)
  have "channel_ok cm" if "r = Inr (cm, False)" for cm using tree_facts(4) unfolding x that by simp
  from bolt_write[OF one tree_clocks(2) c w this] show ?thesis by (simp add: tree_evs_def tree2_def x)
qed


section \<open>A payload that is not canonical\<close>

text \<open>A number published over JSON with the encoding \<open>base64\<close> is stored as text under that encoding. The blob of the message
  then does not decode, and every read that meets it (history, a mutation, an annotation, a restart's replay) fails.\<close>

theorem scalar_base64_poisons:
  "unmarshalPayload id id (Some ''5'') ''base64'' = Inr (AnyStr ''5'', ''base64'')"
  "DecodeMessage treeLib oneFmt id (EncodeMessage treeLib (zeroMessage\<lparr>m_Data := AnyStr ''5'', m_Encoding := ''base64''\<rparr>)) = Inl ErrBase64"
  by code_simp+

text \<open>A number of four digits is read as base64 after all, and comes back as three bytes.\<close>

theorem scalar_base64_changes:
  "map_option (\<lambda>m. (m_Data m, m_Encoding m)) (rightOption (DecodeMessage treeLib oneFmt id
     (EncodeMessage treeLib (zeroMessage\<lparr>m_Data := AnyStr ''1234'', m_Encoding := ''base64''\<rparr>)))) =
   Some (AnyBytes [CHR 0xD7, CHR 0x6D, CHR 0xF8], [])"
  by code_simp

text \<open>An object with the encoding \<open>base64\<close> is accepted over JSON, where its encoding is replaced, and refused over msgpack, where
  its JSON text is taken for base64 before the encoding is replaced.\<close>

theorem object_base64_by_transport:
  "normaliseInboundData id (AnyObj [(''a'', AnyBool True)]) ''base64'' False = Inr (AnyStr (jsonMarshal id (AnyObj [(''a'', AnyBool True)])), ''json'')"
  "transcoded [0x81, 0xa1, 0x61, 0xc3] = Some (jsonMarshal id (AnyObj [(''a'', AnyBool True)]))"
  "normaliseInboundData id (AnyStr (jsonMarshal id (AnyObj [(''a'', AnyBool True)]))) ''base64'' True = Inl ErrBase64"
  by code_simp+

end
