(* ===== verification/Pg.thy ===== *)
theory Pg
  imports Codec Memory
begin

text \<open>
  Package \<open>internal/storage/postgres\<close>: the backend of a cluster. The tables of \<open>migrations/0001_initial.sql\<close> are lists and
  maps of rows and every statement of the source is a function on them, texts compared as bytes; a payload is a blob of
  the msgpack codec. Transactions are read committed: a write runs in two parts, the statements before
  \<open>advance_channel_serial\<close>, which see what is committed then, and those from it to the commit, which run under the lock on the
  channel's row and so after one another. Other writes may commit between the two parts. The order in which
  transactions commit is the order of the log and of the notifications.
\<close>

section \<open>Tables\<close>

record 'v pgRow =
  row_channel :: string
  row_serial :: string
  row_idx :: nat
  row_id :: "string option"
  row_kind :: Kind
  row_payload :: 'v
  row_target :: "string option"
  row_append :: bool
  row_summary :: "'v option"

text \<open>A lease of \<open>None\<close> is \<open>'infinity'\<close>.\<close>

record 'v pgMember =
  mb_channel :: string
  mb_conn :: string
  mb_client :: string
  mb_serial :: string
  mb_payload :: 'v
  mb_node :: string
  mb_expires :: "int option"

text \<open>\<open>t_notify\<close>: the notifications of the committed transactions.\<close>

record 'v pgDB =
  t_log :: "'v pgRow list"
  t_channels :: "(string, string \<times> string) gomap"
  t_messages :: "(string \<times> string, 'v \<times> bool) gomap"
  t_presence :: "'v pgMember list"
  t_notify :: "(string \<times> string) list"

text \<open>The codec: the msgpack library, the printing of floats and of numbers.\<close>

record 'v pgCodec =
  pc_lib :: "'v mplib"
  pc_float :: floatfmt
  pc_num :: "string \<Rightarrow> string"

text \<open>An error of the store, a blob that does not decode, a unique index violated, a serial that is none, and any
  failure of the database.\<close>

datatype pg_error = PgErr storage_error | ErrPgDecode | ErrPgConflict | ErrPgSerial | ErrPgNotFound | ErrPgDb | ErrPgCursor

type_synonym pg_result = "pg_error + (ChannelMessage \<times> bool)"

definition fromRight :: "'e \<Rightarrow> 'x + 'a \<Rightarrow> 'e + 'a" where
  "fromRight e x = (case x of Inl _ \<Rightarrow> Inl e | Inr y \<Rightarrow> Inr y)"

definition pgMessage :: "'v pgCodec \<Rightarrow> 'v \<Rightarrow> pg_error + Message" where
  "pgMessage C v = fromRight ErrPgDecode (DecodeMessage (pc_lib C) (pc_float C) (pc_num C) v)"

definition pgPresence :: "'v pgCodec \<Rightarrow> 'v \<Rightarrow> pg_error + PresenceMessage" where
  "pgPresence C v = fromRight ErrPgDecode (DecodePresence (pc_lib C) (pc_float C) (pc_num C) v)"

definition pgAnnotation :: "'v pgCodec \<Rightarrow> 'v \<Rightarrow> pg_error + Annotation" where
  "pgAnnotation C v = fromRight ErrPgDecode (DecodeAnnotation (pc_lib C) (pc_float C) (pc_num C) v)"

section \<open>Serials\<close>

text \<open>\<open>lpad\<close> cuts what is too long.\<close>

definition lpad :: "nat \<Rightarrow> string \<Rightarrow> string" where
  "lpad w s = (if length s \<ge> w then take w s else replicate (w - length s) (CHR ''0'') @ s)"

definition format_channel_serial :: "int \<Rightarrow> int \<Rightarrow> string \<Rightarrow> string" where
  "format_channel_serial ts ctr series = lpad 14 (itoa ts) @ ''-'' @ lpad 3 (itoa ctr) @ ''@'' @ series"

definition next_channel_serial :: "int \<Rightarrow> string \<Rightarrow> string \<Rightarrow> string option" where
  "next_channel_serial now prev series =
     (case (parse_digits (take 14 prev), parse_digits (take 3 (drop 15 prev))) of
        (Some ts, Some ctr) \<Rightarrow>
          Some (if now > int ts then format_channel_serial now 0 series
                else if ctr < 999 then format_channel_serial (int ts) (int ctr + 1) series
                else format_channel_serial (int ts + 1) 0 series)
      | _ \<Rightarrow> None)"

definition ensure_channel :: "int \<Rightarrow> string \<Rightarrow> string \<Rightarrow> 'v pgDB \<Rightarrow> 'v pgDB \<times> string \<times> string" where
  "ensure_channel now name series db =
     (case map_of (t_channels db) name of
        Some (cur, ini) \<Rightarrow> (db, cur, ini)
      | None \<Rightarrow>
          let seed = format_channel_serial now 0 series
          in (db\<lparr>t_channels := gput name (seed, seed) (t_channels db)\<rparr>, seed, seed))"

definition advance_channel_serial :: "int \<Rightarrow> string \<Rightarrow> string \<Rightarrow> 'v pgDB \<Rightarrow> ('v pgDB \<times> string) option" where
  "advance_channel_serial now name series db =
     (case map_of (t_channels db) name of
        None \<Rightarrow>
          let fresh = format_channel_serial now 0 series
          in Some (db\<lparr>t_channels := gput name (fresh, fresh) (t_channels db)\<rparr>, fresh)
      | Some (cur, ini) \<Rightarrow>
          (case next_channel_serial now cur series of
             None \<Rightarrow> None
           | Some s \<Rightarrow> Some (db\<lparr>t_channels := gput name (s, ini) (t_channels db)\<rparr>, s)))"

section \<open>Statements\<close>

text \<open>The partial unique index on ids and the primary key of the log.\<close>

definition insertRow :: "'v pgRow \<Rightarrow> 'v pgDB \<Rightarrow> 'v pgDB option" where
  "insertRow row db =
     (if list_ex (\<lambda>r. row_channel r = row_channel row \<and>
            (row_id row \<noteq> None \<and> row_id r = row_id row \<or>
             row_serial r = row_serial row \<and> row_idx r = row_idx row)) (t_log db)
      then None else Some (db\<lparr>t_log := t_log db @ [row]\<rparr>))"

definition insertMessage :: "string \<Rightarrow> string \<Rightarrow> 'v \<Rightarrow> 'v pgDB \<Rightarrow> 'v pgDB option" where
  "insertMessage name s payload db =
     (if map_of (t_messages db) (name, s) \<noteq> None then None
      else Some (db\<lparr>t_messages := gput (name, s) (payload, False) (t_messages db)\<rparr>))"

text \<open>\<open>UPDATE messages\<close> touches no row when there is none.\<close>

definition updateMessage :: "string \<Rightarrow> string \<Rightarrow> ('v \<times> bool \<Rightarrow> 'v \<times> bool) \<Rightarrow> 'v pgDB \<Rightarrow> 'v pgDB" where
  "updateMessage name s f db =
     (case map_of (t_messages db) (name, s) of
        None \<Rightarrow> db
      | Some x \<Rightarrow> db\<lparr>t_messages := gput (name, s) (f x) (t_messages db)\<rparr>)"

definition sameMember :: "string \<Rightarrow> string \<Rightarrow> string \<Rightarrow> 'v pgMember \<Rightarrow> bool" where
  "sameMember name conn client m \<longleftrightarrow> mb_channel m = name \<and> mb_conn m = conn \<and> mb_client m = client"

definition upsertMember :: "'v pgMember \<Rightarrow> 'v pgMember list \<Rightarrow> 'v pgMember list" where
  "upsertMember m ms =
     filter (\<lambda>x. \<not> sameMember (mb_channel m) (mb_conn m) (mb_client m) x) ms @ [m]"

definition pg_notify :: "string \<Rightarrow> string \<Rightarrow> 'v pgDB \<Rightarrow> 'v pgDB" where
  "pg_notify name s db = db\<lparr>t_notify := t_notify db @ [(name, s)]\<rparr>"

section \<open>Loading a channel message\<close>

definition loadRow :: "'v pgCodec \<Rightarrow> pg_error + ChannelMessage \<Rightarrow> 'v pgRow \<Rightarrow> pg_error + ChannelMessage" where
  "loadRow C acc row =
     (case acc of
        Inl e \<Rightarrow> Inl e
      | Inr cm \<Rightarrow>
          if row_kind row = KindPresence then
            (case pgPresence C (row_payload row) of
               Inl e \<Rightarrow> Inl e | Inr p \<Rightarrow> Inr (cm\<lparr>cm_Presence := cm_Presence cm @ [p]\<rparr>))
          else if row_kind row = KindAnnotation then
            (case pgAnnotation C (row_payload row) of
               Inl e \<Rightarrow> Inl e
             | Inr a \<Rightarrow>
                 (case row_summary row of
                    None \<Rightarrow> Inr (cm\<lparr>cm_Annotations := cm_Annotations cm @ [a]\<rparr>)
                  | Some b \<Rightarrow>
                      (case mp_unsummary (pc_lib C) b of
                         None \<Rightarrow> Inl ErrPgDecode
                       | Some u \<Rightarrow> Inr (cm\<lparr>cm_Annotations := cm_Annotations cm @ [a\<lparr>a_Summary := u\<rparr>]\<rparr>))))
          else
            (case pgMessage C (row_payload row) of
               Inl e \<Rightarrow> Inl e | Inr m \<Rightarrow> Inr (cm\<lparr>cm_Messages := cm_Messages cm @ [m]\<rparr>)))"

definition decodeChannelMessageRows :: "'v pgCodec \<Rightarrow> string \<Rightarrow> 'v pgRow list \<Rightarrow> pg_error + ChannelMessage" where
  "decodeChannelMessageRows C channelSerial rws =
     (case foldl (loadRow C) (Inr (zeroChannelMessage\<lparr>cm_ChannelSerial := channelSerial\<rparr>)) rws of
        Inl e \<Rightarrow> Inl e
      | Inr cm \<Rightarrow> if cm_empty cm then Inl ErrPgNotFound else Inr cm)"

definition loadChannelMessage :: "'v pgCodec \<Rightarrow> string \<Rightarrow> string \<Rightarrow> 'v pgDB \<Rightarrow> pg_error + ChannelMessage" where
  "loadChannelMessage C name s db = decodeChannelMessageRows C s
     (sort_key row_idx (filter (\<lambda>r. row_channel r = name \<and> row_serial r = s) (t_log db)))"

section \<open>Writes, before the lock\<close>

text \<open>What the first part of a write hands to the second. The current version is the one a mutation read; \<open>now()\<close> is the time a
  transaction began, \<open>clock_timestamp()\<close> the time itself.\<close>

datatype pgPlan =
    PlanStore string "Message list"
  | PlanMutate Message Message
  | PlanPresence int bool "PresenceMessage list"
  | PlanAnnotate "Annotation list"

datatype pgStart = Answer pg_result | Proceed pgPlan

text \<open>\<open>id = ANY(ids) LIMIT 1\<close>, with no order: which of the matches is the database's choice, \<open>pick\<close>.\<close>

definition findID :: "nat \<Rightarrow> string \<Rightarrow> string list \<Rightarrow> 'v pgDB \<Rightarrow> string option" where
  "findID pick name ids db =
     (let hits = filter (\<lambda>r. row_channel r = name \<and> (\<exists>i \<in> set ids. i \<noteq> [] \<and> row_id r = Some i)) (t_log db)
      in if hits = [] then None else Some (row_serial (hits ! (pick mod length hits))))"

text \<open>The idempotency check all writes start with.\<close>

definition preCheck :: "'v pgCodec \<Rightarrow> nat \<Rightarrow> string \<Rightarrow> string list \<Rightarrow> 'v pgDB \<Rightarrow> pgStart \<Rightarrow> pgStart" where
  "preCheck C pick name ids db k =
     (case findID pick name ids db of
        None \<Rightarrow> k
      | Some s \<Rightarrow> (case loadChannelMessage C name s db of
            Inl e \<Rightarrow> Answer (Inl e)
          | Inr cm \<Rightarrow> Answer (Inr (cm, True))))"

definition pgStoreStart :: "'v pgCodec \<Rightarrow> bool \<Rightarrow> nat \<Rightarrow> string \<Rightarrow> string \<Rightarrow> Message list \<Rightarrow> 'v pgDB \<Rightarrow> pgStart" where
  "pgStoreStart C ctxErr pick fresh name msgs db =
     (if msgs = [] then Answer (Inl (PgErr ErrNoItems))
      else if ctxErr then Answer (Inl (PgErr ErrCtx))
      else case StampMessageIDs fresh msgs of
        Inl e \<Rightarrow> Answer (Inl (PgErr e))
      | Inr (batch, msgs1) \<Rightarrow> preCheck C pick name (map m_ID msgs1) db (Proceed (PlanStore batch msgs1)))"

definition pgMutateStart :: "'v pgCodec \<Rightarrow> bool \<Rightarrow> nat \<Rightarrow> string \<Rightarrow> Message \<Rightarrow> 'v pgDB \<Rightarrow> pgStart" where
  "pgMutateStart C ctxErr pick name mut db =
     (if \<not> IsMutation (m_Action mut) then Answer (Inl (PgErr ErrNotMutation))
      else if m_Serial mut = [] then Answer (Inl (PgErr ErrNoTarget))
      else if ctxErr then Answer (Inl (PgErr ErrCtx))
      else preCheck C pick name [m_ID mut] db
        (case map_of (t_messages db) (name, m_Serial mut) of
           None \<Rightarrow> Answer (Inl (PgErr ErrTargetNotFound))
         | Some (payload, _) \<Rightarrow> (case pgMessage C payload of
               Inl e \<Rightarrow> Answer (Inl e)
             | Inr current \<Rightarrow> Proceed (PlanMutate mut current))))"

definition pgPresenceStart :: "'v pgCodec \<Rightarrow> bool \<Rightarrow> nat \<Rightarrow> int \<Rightarrow> bool \<Rightarrow> string \<Rightarrow> PresenceMessage list \<Rightarrow> 'v pgDB \<Rightarrow> pgStart" where
  "pgPresenceStart C ctxErr pick began static name ps db =
     (if ps = [] then Answer (Inl (PgErr ErrNoItems))
      else if ctxErr then Answer (Inl (PgErr ErrCtx))
      else preCheck C pick name (map p_ID ps) db (Proceed (PlanPresence began static ps)))"

definition pgAnnotateStart :: "'v pgCodec \<Rightarrow> bool \<Rightarrow> nat \<Rightarrow> string \<Rightarrow> Annotation list \<Rightarrow> 'v pgDB \<Rightarrow> pgStart" where
  "pgAnnotateStart C ctxErr pick name anns db =
     (if anns = [] then Answer (Inl (PgErr ErrNoItems))
      else if ctxErr then Answer (Inl (PgErr ErrCtx))
      else preCheck C pick name (map a_ID anns) db
        (if list_ex (\<lambda>a. map_of (t_messages db) (name, a_MessageSerial a) = None) anns
         then Answer (Inl (PgErr ErrTargetNotFound))
         else Proceed (PlanAnnotate anns)))"

section \<open>Writes, under the lock\<close>

definition idArg :: "string \<Rightarrow> string option" where
  "idArg i = (if i = [] then None else Some i)"

definition storeRow :: "'v pgCodec \<Rightarrow> string \<Rightarrow> string \<Rightarrow> 'v pgDB \<Rightarrow> nat \<times> Message \<Rightarrow> pg_error + 'v pgDB" where
  "storeRow C name channelSerial db im =
     (case im of (i, m) \<Rightarrow>
        let payload = EncodeMessage (pc_lib C) m
        in tryE (orE ErrPgConflict (insertRow
             \<lparr>row_channel = name, row_serial = channelSerial, row_idx = i, row_id = idArg (m_ID m), row_kind = KindMessage,
              row_payload = payload, row_target = Some (m_Serial m), row_append = False, row_summary = None\<rparr> db)) (\<lambda>db1.
           orE ErrPgConflict (insertMessage name (m_Serial m) payload db1)))"

definition finishStore :: "'v pgCodec \<Rightarrow> int \<Rightarrow> string \<Rightarrow> string \<Rightarrow> string \<Rightarrow> Message list \<Rightarrow> 'v pgDB \<Rightarrow>
    pg_error + ('v pgDB \<times> ChannelMessage)" where
  "finishStore C now series name batch msgs db =
     tryE (orE ErrPgSerial (advance_channel_serial now name series db)) (\<lambda>(db1, channelSerial).
       let msgs1 = stampCreates channelSerial 0 msgs;
           cm = zeroChannelMessage\<lparr>cm_ID := batch, cm_ChannelSerial := channelSerial, cm_Messages := msgs1\<rparr>
       in tryE (foldE (storeRow C name channelSerial) db1 (enumerate 0 msgs1)) (\<lambda>db2.
          Inr (pg_notify name channelSerial db2, cm)))"

definition finishMutate :: "'v pgCodec \<Rightarrow> int \<Rightarrow> string \<Rightarrow> string \<Rightarrow> Message \<Rightarrow> Message \<Rightarrow> 'v pgDB \<Rightarrow>
    pg_error + ('v pgDB \<times> ChannelMessage)" where
  "finishMutate C now series name mut current db =
     tryE (orE ErrPgSerial (advance_channel_serial now name series db)) (\<lambda>(db1, channelSerial).
       case MergeVersion current mut (MessageSerial channelSerial 0) of
         Inl e \<Rightarrow> Inl (PgErr e)
       | Inr version \<Rightarrow>
           let cm = zeroChannelMessage\<lparr>cm_ChannelSerial := channelSerial, cm_Messages := [version]\<rparr>;
               payload = EncodeMessage (pc_lib C) version
           in tryE (orE ErrPgConflict (insertRow
                \<lparr>row_channel = name, row_serial = channelSerial, row_idx = 0, row_id = idArg (m_ID mut),
                 row_kind = KindMessage, row_payload = payload, row_target = Some (m_Serial mut),
                 row_append = (m_Action mut = MessageAppend), row_summary = None\<rparr> db1)) (\<lambda>db2.
              Inr (pg_notify name channelSerial
                (updateMessage name (m_Serial mut) (\<lambda>_. (payload, m_Action version = MessageDelete)) db2), cm)))"

text \<open>The lease window in milliseconds and the owner of static members.\<close>

definition presenceLeaseWindow :: int where "presenceLeaseWindow = 30000"

definition fixtureNodeID :: string where "fixtureNodeID = ''__fixtures__''"

definition foldPresence :: "int \<Rightarrow> string \<Rightarrow> bool \<Rightarrow> string \<Rightarrow> string \<Rightarrow> 'v \<Rightarrow> PresenceMessage \<Rightarrow>
    'v pgMember list \<Rightarrow> 'v pgMember list" where
  "foldPresence began node static name channelSerial payload p ms =
     (if p_Action p = PresenceLeave \<or> p_Action p = PresenceAbsent
      then filter (\<lambda>x. \<not> sameMember name (p_ConnectionID p) (p_ClientID p) x) ms
      else upsertMember
        \<lparr>mb_channel = name, mb_conn = p_ConnectionID p, mb_client = p_ClientID p, mb_serial = channelSerial,
         mb_payload = payload, mb_node = if static then fixtureNodeID else node,
         mb_expires = if static then None else Some (began + presenceLeaseWindow)\<rparr> ms)"

definition presenceRow :: "'v pgCodec \<Rightarrow> int \<Rightarrow> string \<Rightarrow> bool \<Rightarrow> string \<Rightarrow> string \<Rightarrow> 'v pgDB \<Rightarrow> nat \<times> PresenceMessage \<Rightarrow>
    pg_error + 'v pgDB" where
  "presenceRow C began node static name channelSerial db ip =
     (case ip of (i, p) \<Rightarrow>
        let payload = EncodePresence (pc_lib C) p
        in tryE (orE ErrPgConflict (insertRow
             \<lparr>row_channel = name, row_serial = channelSerial, row_idx = i, row_id = idArg (p_ID p), row_kind = KindPresence,
              row_payload = payload, row_target = None, row_append = False, row_summary = None\<rparr> db)) (\<lambda>db1.
           Inr (db1\<lparr>t_presence := foldPresence began node static name channelSerial payload p (t_presence db1)\<rparr>)))"

definition finishPresence :: "'v pgCodec \<Rightarrow> int \<Rightarrow> int \<Rightarrow> string \<Rightarrow> string \<Rightarrow> string \<Rightarrow> bool \<Rightarrow> PresenceMessage list \<Rightarrow> 'v pgDB \<Rightarrow>
    pg_error + ('v pgDB \<times> ChannelMessage)" where
  "finishPresence C now began node series name static ps db =
     tryE (orE ErrPgSerial (advance_channel_serial now name series db)) (\<lambda>(db1, channelSerial).
       let ps1 = stampPresence channelSerial 0 ps;
           cm = zeroChannelMessage\<lparr>cm_ChannelSerial := channelSerial, cm_Presence := ps1\<rparr>
       in tryE (foldE (presenceRow C began node static name channelSerial) db1 (enumerate 0 ps1)) (\<lambda>db2.
          Inr (pg_notify name channelSerial db2, cm)))"

text \<open>One annotation is folded into its target and into the annotation itself; a summary that folds to nothing is nil
  and its column stays empty.\<close>

definition pgFoldSummary :: "'v pgCodec \<Rightarrow> string \<Rightarrow> Annotation \<Rightarrow> 'v pgDB \<Rightarrow> pg_error + ('v pgDB \<times> Annotation \<times> 'v option)" where
  "pgFoldSummary C name a db =
     tryE (orE ErrPgDb (map_of (t_messages db) (name, a_MessageSerial a))) (\<lambda>(payload, _).
     tryE (pgMessage C payload) (\<lambda>m.
       let folded = Apply (m_Summary m) a;
           merged = EncodeMessage (pc_lib C) (m\<lparr>m_Summary := folded\<rparr>)
       in Inr (updateMessage name (a_MessageSerial a) (\<lambda>(_, d). (merged, d)) db, a\<lparr>a_Summary := folded\<rparr>,
               if folded = [] then None else Some (mp_summary (pc_lib C) folded))))"

fun annotationRows :: "'v pgCodec \<Rightarrow> string \<Rightarrow> string \<Rightarrow> nat \<Rightarrow> Annotation list \<Rightarrow> 'v pgDB \<Rightarrow>
    pg_error + ('v pgDB \<times> Annotation list)" where
  "annotationRows C name channelSerial i [] db = Inr (db, [])"
| "annotationRows C name channelSerial i (a # as) db =
     (let a0 = a\<lparr>a_Serial := MessageSerial channelSerial (int i)\<rparr>;
          payload = EncodeAnnotation (pc_lib C) a0
      in tryE (pgFoldSummary C name a0 db) (\<lambda>(db1, a1, blob).
         tryE (orE ErrPgConflict (insertRow
             \<lparr>row_channel = name, row_serial = channelSerial, row_idx = i, row_id = idArg (a_ID a1), row_kind = KindAnnotation,
              row_payload = payload, row_target = Some (a_MessageSerial a1), row_append = False, row_summary = blob\<rparr> db1)) (\<lambda>db2.
         tryE (annotationRows C name channelSerial (Suc i) as db2) (\<lambda>(db3, as1). Inr (db3, a1 # as1)))))"

definition finishAnnotate :: "'v pgCodec \<Rightarrow> int \<Rightarrow> string \<Rightarrow> string \<Rightarrow> Annotation list \<Rightarrow> 'v pgDB \<Rightarrow>
    pg_error + ('v pgDB \<times> ChannelMessage)" where
  "finishAnnotate C now series name anns db =
     tryE (orE ErrPgSerial (advance_channel_serial now name series db)) (\<lambda>(db1, channelSerial).
     tryE (annotationRows C name channelSerial 0 anns db1) (\<lambda>(db2, anns1).
       Inr (pg_notify name channelSerial db2,
            zeroChannelMessage\<lparr>cm_ChannelSerial := channelSerial, cm_Annotations := anns1\<rparr>)))"

text \<open>A node: its series and its id. How a transaction ends: committed, failed at any statement, or committed with the
  answer lost.\<close>

datatype txEnd = TxOk | TxFailed | TxReplyLost

definition pgFinishTx :: "'v pgCodec \<Rightarrow> int \<Rightarrow> string \<Rightarrow> string \<Rightarrow> string \<Rightarrow> pgPlan \<Rightarrow> 'v pgDB \<Rightarrow>
    pg_error + ('v pgDB \<times> ChannelMessage)" where
  "pgFinishTx C now node series name plan db =
     (case plan of
        PlanStore batch msgs \<Rightarrow> finishStore C now series name batch msgs db
      | PlanMutate mut current \<Rightarrow> finishMutate C now series name mut current db
      | PlanPresence began static ps \<Rightarrow> finishPresence C now began node series name static ps db
      | PlanAnnotate anns \<Rightarrow> finishAnnotate C now series name anns db)"

definition pgFinish :: "'v pgCodec \<Rightarrow> txEnd \<Rightarrow> int \<Rightarrow> string \<Rightarrow> string \<Rightarrow> string \<Rightarrow> pgPlan \<Rightarrow> 'v pgDB \<Rightarrow> 'v pgDB \<times> pg_result" where
  "pgFinish C txe now node series name plan db =
     (case pgFinishTx C now node series name plan db of
        Inl e \<Rightarrow> (db, Inl e)
      | Inr (db', cm) \<Rightarrow>
          (case txe of
             TxOk \<Rightarrow> (db', Inr (cm, False))
           | TxFailed \<Rightarrow> (db, Inl ErrPgDb)
           | TxReplyLost \<Rightarrow> (db', Inl ErrPgDb)))"

text \<open>The writes with nothing between their two parts.\<close>

datatype pgWrite = WStore string "Message list" | WMutate Message | WPresence int bool "PresenceMessage list" | WAnnotate "Annotation list"

definition pgBegin :: "'v pgCodec \<Rightarrow> bool \<Rightarrow> nat \<Rightarrow> string \<Rightarrow> pgWrite \<Rightarrow> 'v pgDB \<Rightarrow> pgStart" where
  "pgBegin C ctxErr pick name w db =
     (case w of
        WStore fresh msgs \<Rightarrow> pgStoreStart C ctxErr pick fresh name msgs db
      | WMutate mut \<Rightarrow> pgMutateStart C ctxErr pick name mut db
      | WPresence began static ps \<Rightarrow> pgPresenceStart C ctxErr pick began static name ps db
      | WAnnotate anns \<Rightarrow> pgAnnotateStart C ctxErr pick name anns db)"

definition pgWriteNow :: "'v pgCodec \<Rightarrow> bool \<Rightarrow> nat \<Rightarrow> txEnd \<Rightarrow> int \<Rightarrow> string \<Rightarrow> string \<Rightarrow> string \<Rightarrow> pgWrite \<Rightarrow> 'v pgDB \<Rightarrow>
    'v pgDB \<times> pg_result" where
  "pgWriteNow C ctxErr pick txe now node series name w db =
     (case pgBegin C ctxErr pick name w db of
        Answer r \<Rightarrow> (db, r)
      | Proceed plan \<Rightarrow> pgFinish C txe now node series name plan db)"

end
