(* ===== verification/PgReads.thy ===== *)
theory PgReads
  imports Pg
begin

text \<open>
  The reads of the postgres backend. A read is one statement over one snapshot of the tables, except \<open>Members\<close>, whose
  rows and watermark are two statements. \<open>ORDER BY channel_serial, idx\<close> is a stable sort by the second key and
  then by the first; descending is its reverse, for the pair is the primary key.
\<close>

section \<open>Query parameters\<close>

text \<open>\<open>idx\<close> and the limit are 32-bit integers of the database, and \<open>$6 + 1\<close> is computed there: the driver or the
  server refuses what does not fit.\<close>

definition fitsInt4 :: "int \<Rightarrow> bool" where
  "fitsInt4 x \<longleftrightarrow> - (2 ^ 31) \<le> x \<and> x < 2 ^ 31"

definition limitFits :: "int \<Rightarrow> bool" where
  "limitFits l \<longleftrightarrow> fitsInt4 l \<and> (l > 0 \<longrightarrow> fitsInt4 (l + 1))"

definition pgCursor :: "string \<Rightarrow> pg_error + (string \<times> int)" where
  "pgCursor c =
     (if c = [] then Inr ([], 0)
      else case ParseMessageSerial c of
        Inl _ \<Rightarrow> Inl ErrPgCursor
      | Inr (cs, i) \<Rightarrow> Inr (cs, i))"

text \<open>\<open>$4 = '' OR (channel_serial, idx) > ($4, $5)\<close>, or \<open><\<close> when the scan is backwards.\<close>

definition beyondCursor :: "bool \<Rightarrow> string \<times> int \<Rightarrow> 'v pgRow \<Rightarrow> bool" where
  "beyondCursor fw c r =
     (case c of (cs, i) \<Rightarrow>
        cs = [] \<or>
        (if fw then cs < row_serial r \<or> cs = row_serial r \<and> i < int (row_idx r)
         else row_serial r < cs \<or> row_serial r = cs \<and> int (row_idx r) < i))"

definition orderRows :: "'v pgRow list \<Rightarrow> 'v pgRow list" where
  "orderRows rs = sort_key row_serial (sort_key row_idx rs)"

definition scanOrder :: "bool \<Rightarrow> 'a list \<Rightarrow> 'a list" where
  "scanOrder fw xs = (if fw then xs else rev xs)"

definition limitRows :: "int \<Rightarrow> 'a list \<Rightarrow> 'a list" where
  "limitRows l xs = (if l > 0 then take (nat (l + 1)) xs else xs)"

section \<open>Pages\<close>

definition appendMessage :: "string \<Rightarrow> Message \<Rightarrow> HistoryPage \<Rightarrow> HistoryPage" where
  "appendMessage s m page = page\<lparr>hp_ChannelMessages := putItem s (ItemMessage m) (hp_ChannelMessages page)\<rparr>"

definition appendPresence :: "string \<Rightarrow> PresenceMessage \<Rightarrow> HistoryPage \<Rightarrow> HistoryPage" where
  "appendPresence s p page = page\<lparr>hp_ChannelMessages := putItem s (ItemPresence p) (hp_ChannelMessages page)\<rparr>"

definition appendAnnotation :: "string \<Rightarrow> Annotation \<Rightarrow> HistoryPage \<Rightarrow> HistoryPage" where
  "appendAnnotation s a page = page\<lparr>hp_ChannelMessages := putItem s (ItemAnnotation a) (hp_ChannelMessages page)\<rparr>"

definition cmLen :: "ChannelMessage \<Rightarrow> int" where
  "cmLen cm = int (length (cm_Messages cm)) + int (length (cm_Presence cm)) + int (length (cm_Annotations cm))"

definition itemCount :: "HistoryPage \<Rightarrow> int" where
  "itemCount page = foldl (\<lambda>n cm. n + cmLen cm) 0 (hp_ChannelMessages page)"

definition trimCM :: "int \<Rightarrow> ChannelMessage \<Rightarrow> ChannelMessage" where
  "trimCM left cm =
     (if cm_Presence cm \<noteq> [] then cm\<lparr>cm_Presence := take (nat left) (cm_Presence cm)\<rparr>
      else if cm_Annotations cm \<noteq> [] then cm\<lparr>cm_Annotations := take (nat left) (cm_Annotations cm)\<rparr>
      else cm\<lparr>cm_Messages := take (nat left) (cm_Messages cm)\<rparr>)"

fun trimCMs :: "int \<Rightarrow> ChannelMessage list \<Rightarrow> ChannelMessage list" where
  "trimCMs left [] = []"
| "trimCMs left (cm # cms) =
     (if left = 0 then []
      else if left \<ge> cmLen cm then cm # trimCMs (left - cmLen cm) cms
      else [trimCM left cm])"

definition trimToLimit :: "int \<Rightarrow> HistoryPage \<Rightarrow> HistoryPage" where
  "trimToLimit l page = page\<lparr>hp_ChannelMessages := trimCMs l (hp_ChannelMessages page)\<rparr>"

text \<open>How every paginated read ends.\<close>

definition finishPage :: "int \<Rightarrow> HistoryPage \<Rightarrow> HistoryPage" where
  "finishPage l page = (if l > 0 \<and> itemCount page > l then (trimToLimit l page)\<lparr>hp_HasMore := True\<rparr> else page)"

section \<open>History\<close>

definition histRow :: "'v pgCodec \<Rightarrow> Kind \<Rightarrow> HistoryPage \<Rightarrow> 'v pgRow \<Rightarrow> pg_error + HistoryPage" where
  "histRow C kind page r =
     (if kind = KindPresence then
        tryE (pgPresence C (row_payload r)) (\<lambda>p. Inr (appendPresence (row_serial r) p page))
      else if kind = KindAnnotation then
        tryE (pgAnnotation C (row_payload r)) (\<lambda>a. Inr (appendAnnotation (row_serial r) a page))
      else tryE (pgMessage C (row_payload r)) (\<lambda>m. Inr (appendMessage (row_serial r) m page)))"

definition histWhere :: "string \<Rightarrow> HistoryQuery \<Rightarrow> string \<times> int \<Rightarrow> 'v pgRow \<Rightarrow> bool" where
  "histWhere name q c r \<longleftrightarrow>
     (case TimestampBounds (hq_Start q) (hq_End q) of (lower, upper) \<Rightarrow>
        row_channel r = name \<and> row_kind r = Normalize (hq_Kind q) \<and>
        (lower = [] \<or> row_serial r \<ge> lower) \<and> (upper = [] \<or> row_serial r < upper) \<and>
        beyondCursor (forwards q) c r \<and>
        (hq_EndChannelSerial q = [] \<or> row_serial r \<le> hq_EndChannelSerial q) \<and>
        (hq_AfterChannelSerial q = [] \<or> row_serial r > hq_AfterChannelSerial q))"

text \<open>\<open>split_part(s, ':', 1)\<close>.\<close>

definition splitColon :: "string \<Rightarrow> string" where
  "splitColon s = takeWhile (\<lambda>c. c \<noteq> CHR '':'') s"

definition collapsedWhere :: "HistoryQuery \<Rightarrow> string \<Rightarrow> bool" where
  "collapsedWhere q s \<longleftrightarrow>
     (case TimestampBounds (hq_Start q) (hq_End q) of (lower, upper) \<Rightarrow>
        (lower = [] \<or> s \<ge> lower) \<and> (upper = [] \<or> s < upper) \<and>
        (hq_Cursor q = [] \<or> (if forwards q then s > hq_Cursor q else s < hq_Cursor q)) \<and>
        (hq_EndChannelSerial q = [] \<or> splitColon s \<le> hq_EndChannelSerial q))"

definition channelMessages :: "string \<Rightarrow> 'v pgDB \<Rightarrow> (string \<times> 'v) list" where
  "channelMessages name db = [(s, payload). ((n, s), (payload, _)) \<leftarrow> t_messages db, n = name]"

definition pgCollapsedHistory :: "'v pgCodec \<Rightarrow> string \<Rightarrow> HistoryQuery \<Rightarrow> 'v pgDB \<Rightarrow> pg_error + HistoryPage" where
  "pgCollapsedHistory C name q db =
     (if \<not> limitFits (hq_Limit q) then Inl ErrPgDb
      else tryE (foldE (\<lambda>page (identity, payload).
               tryE (pgMessage C payload) (\<lambda>m. Inr (appendMessage (CreateChannelSerial identity) m page))) zeroPage
             (limitRows (hq_Limit q) (scanOrder (forwards q) (sort_key fst
               (filter (\<lambda>(s, _). collapsedWhere q s) (channelMessages name db)))))) (\<lambda>page.
           Inr (finishPage (hq_Limit q) page)))"

definition pgHistory :: "'v pgCodec \<Rightarrow> bool \<Rightarrow> string \<Rightarrow> HistoryQuery \<Rightarrow> 'v pgDB \<Rightarrow> pg_error + HistoryPage" where
  "pgHistory C ctxErr name q db =
     (if ctxErr then Inl (PgErr ErrCtx)
      else if hq_Collapse q \<and> Normalize (hq_Kind q) = KindMessage then pgCollapsedHistory C name q db
      else tryE (pgCursor (hq_Cursor q)) (\<lambda>c.
        if \<not> limitFits (hq_Limit q) \<or> \<not> fitsInt4 (snd c) then Inl ErrPgDb
        else tryE (foldE (histRow C (Normalize (hq_Kind q))) zeroPage
               (limitRows (hq_Limit q) (scanOrder (forwards q) (orderRows (filter (histWhere name q c) (t_log db)))))) (\<lambda>page.
             Inr (finishPage (hq_Limit q) page))))"

section \<open>Versions, annotations and members\<close>

definition pgLatestVersion :: "'v pgCodec \<Rightarrow> bool \<Rightarrow> string \<Rightarrow> string \<Rightarrow> 'v pgDB \<Rightarrow> pg_error + Message" where
  "pgLatestVersion C ctxErr name s db =
     (if ctxErr then Inl (PgErr ErrCtx)
      else case map_of (t_messages db) (name, s) of
        None \<Rightarrow> Inl (PgErr ErrTargetNotFound)
      | Some (payload, _) \<Rightarrow> pgMessage C payload)"

text \<open>The \<open>LEAD\<close> window: an append is kept when the next row is none or no append.\<close>

fun collapseRows :: "'v pgRow list \<Rightarrow> 'v pgRow list" where
  "collapseRows (r # r' # rs) =
     (if row_append r \<and> row_append r' then collapseRows (r' # rs) else r # collapseRows (r' # rs))"
| "collapseRows rs = rs"

definition versionRow :: "'v pgCodec \<Rightarrow> HistoryPage \<Rightarrow> 'v pgRow \<Rightarrow> pg_error + HistoryPage" where
  "versionRow C page r = tryE (pgMessage C (row_payload r)) (\<lambda>m.
     Inr (page\<lparr>hp_ChannelMessages := hp_ChannelMessages page @
       [zeroChannelMessage\<lparr>cm_ChannelSerial := row_serial r, cm_Messages := [m]\<rparr>]\<rparr>))"

definition pgVersions :: "'v pgCodec \<Rightarrow> bool \<Rightarrow> string \<Rightarrow> string \<Rightarrow> HistoryQuery \<Rightarrow> 'v pgDB \<Rightarrow> pg_error + HistoryPage" where
  "pgVersions C ctxErr name s q db =
     (if ctxErr then Inl (PgErr ErrCtx)
      else tryE (pgCursor (hq_Cursor q)) (\<lambda>c.
        if \<not> limitFits (hq_Limit q) \<or> \<not> fitsInt4 (snd c) then Inl ErrPgDb
        else tryE (foldE (versionRow C) zeroPage
               (limitRows (hq_Limit q) (scanOrder (forwards q) (filter (beyondCursor (forwards q) c)
                 (collapseRows (orderRows (filter (\<lambda>r. row_channel r = name \<and> row_target r = Some s \<and> row_kind r = KindMessage)
                   (t_log db)))))))) (\<lambda>page.
             if hp_ChannelMessages page = [] then Inl (PgErr ErrTargetNotFound)
             else if hq_Limit q > 0 \<and> int (length (hp_ChannelMessages page)) > hq_Limit q
             then Inr \<lparr>hp_ChannelMessages = take (nat (hq_Limit q)) (hp_ChannelMessages page), hp_HasMore = True\<rparr>
             else Inr page)))"

definition pgAnnotations :: "'v pgCodec \<Rightarrow> bool \<Rightarrow> string \<Rightarrow> string \<Rightarrow> HistoryQuery \<Rightarrow> 'v pgDB \<Rightarrow> pg_error + HistoryPage" where
  "pgAnnotations C ctxErr name s q db =
     (if ctxErr then Inl (PgErr ErrCtx)
      else tryE (pgCursor (hq_Cursor q)) (\<lambda>c.
        if \<not> limitFits (hq_Limit q) \<or> \<not> fitsInt4 (snd c) then Inl ErrPgDb
        else tryE (foldE (histRow C KindAnnotation) zeroPage
               (limitRows (hq_Limit q) (scanOrder (forwards q) (orderRows
                 (filter (\<lambda>r. row_channel r = name \<and> row_kind r = KindAnnotation \<and> row_target r = Some s \<and>
                    beyondCursor (forwards q) c r) (t_log db)))))) (\<lambda>page.
             Inr (finishPage (hq_Limit q) page))))"

text \<open>The members of one publish with one client are in no specified order; here it is the table's.\<close>

definition pgMembers :: "'v pgCodec \<Rightarrow> bool \<Rightarrow> string \<Rightarrow> 'v pgDB \<Rightarrow> 'v pgDB \<Rightarrow> pg_error + (PresenceMessage list \<times> string)" where
  "pgMembers C ctxErr name db later =
     (if ctxErr then Inl (PgErr ErrCtx)
      else tryE (mapE (\<lambda>m. pgPresence C (mb_payload m))
             (sort_key mb_serial (sort_key mb_client (filter (\<lambda>m. mb_channel m = name) (t_presence db))))) (\<lambda>out.
           Inr (out, case map_of (t_channels later) name of None \<Rightarrow> [] | Some (asOf, _) \<Rightarrow> asOf)))"

end
