(* ===== verification/PgNode.thy ===== *)
theory PgNode
  imports PgReads
begin

text \<open>
  A node of the cluster: the channel stores it has registered, the goroutine that listens for notifications and recovers
  after its connection drops, the lease and reaper loops of presence, and the migrations. The body of a
  notification is the pair of channel name and serial it encodes.
\<close>

section \<open>Channel stores\<close>

record pgStore =
  ps_appender :: "Channel option"
  ps_lastSeen :: string

record pgNode =
  nd_series :: string
  nd_node :: string
  nd_channels :: "(string, pgStore) gomap"

definition pgOpen :: "string \<Rightarrow> string \<Rightarrow> pgNode" where
  "pgOpen series node = \<lparr>nd_series = series, nd_node = node, nd_channels = []\<rparr>"

text \<open>\<open>Channel\<close> up to where it gives the lock up, and from there to its return: notifications are consumed in between.
  \<open>True\<close> is a name already registered, whose appender stays.\<close>

definition pgRegister :: "string \<Rightarrow> Channel option \<Rightarrow> pgNode \<Rightarrow> pgNode \<times> bool" where
  "pgRegister name app nd =
     (case map_of (nd_channels nd) name of
        Some _ \<Rightarrow> (nd, True)
      | None \<Rightarrow> (nd\<lparr>nd_channels := gput name \<lparr>ps_appender = app, ps_lastSeen = []\<rparr> (nd_channels nd)\<rparr>, False))"

definition onAppender :: "(Channel \<Rightarrow> Channel) \<Rightarrow> string \<Rightarrow> pgNode \<Rightarrow> pgNode" where
  "onAppender f name nd =
     (case map_of (nd_channels nd) name of
        None \<Rightarrow> nd
      | Some st \<Rightarrow> nd\<lparr>nd_channels := gput name (st\<lparr>ps_appender := map_option f (ps_appender st)\<rparr>) (nd_channels nd)\<rparr>)"

definition pgMaterialise :: "bool \<Rightarrow> int \<Rightarrow> string \<Rightarrow> 'v pgDB \<Rightarrow> pgNode \<Rightarrow> ('v pgDB \<times> pgNode) \<times> pg_error option" where
  "pgMaterialise dbErr now name db nd =
     (if dbErr then ((db, nd\<lparr>nd_channels := gdel name (nd_channels nd)\<rparr>), Some ErrPgDb)
      else case ensure_channel now name (nd_series nd) db of
        (db', current, initial) \<Rightarrow> ((db', onAppender (Initialize current initial) name nd), None))"

definition pgChannel :: "bool \<Rightarrow> int \<Rightarrow> string \<Rightarrow> Channel option \<Rightarrow> 'v pgDB \<Rightarrow> pgNode \<Rightarrow> ('v pgDB \<times> pgNode) \<times> pg_error option" where
  "pgChannel dbErr now name app db nd =
     (case pgRegister name app nd of
        (nd1, known) \<Rightarrow>
          if known \<or> app = None then ((db, nd1), None) else pgMaterialise dbErr now name db nd1)"

section \<open>Delivery\<close>

definition pgDeliver :: "ChannelMessage \<Rightarrow> pgStore \<Rightarrow> pgStore" where
  "pgDeliver cm st =
     (if cm_ChannelSerial cm \<le> ps_lastSeen st then st
      else st\<lparr>ps_lastSeen := cm_ChannelSerial cm, ps_appender := map_option (Append cm) (ps_appender st)\<rparr>)"

text \<open>One notification; the load is a statement of its own and may fail.\<close>

definition pgConsume :: "'v pgCodec \<Rightarrow> bool \<Rightarrow> string \<times> string \<Rightarrow> 'v pgDB \<Rightarrow> pgNode \<Rightarrow> pgNode" where
  "pgConsume C loadErr n db nd =
     (case n of (name, s) \<Rightarrow>
        case map_of (nd_channels nd) name of
          None \<Rightarrow> nd
        | Some st \<Rightarrow>
            if ps_appender st = None \<or> loadErr then nd
            else case loadChannelMessage C name s db of
              Inl _ \<Rightarrow> nd
            | Inr cm \<Rightarrow> nd\<lparr>nd_channels := gput name (pgDeliver cm st) (nd_channels nd)\<rparr>)"

fun mergeByChannelSerial :: "ChannelMessage list \<Rightarrow> ChannelMessage list \<Rightarrow> ChannelMessage list" where
  "mergeByChannelSerial (a # as) (b # bs) =
     (if cm_ChannelSerial a \<le> cm_ChannelSerial b then a # mergeByChannelSerial as (b # bs)
      else b # mergeByChannelSerial (a # as) bs)"
| "mergeByChannelSerial as bs = as @ bs"

definition missedQuery :: "Kind \<Rightarrow> string \<Rightarrow> HistoryQuery" where
  "missedQuery k after = zeroQuery\<lparr>hq_Kind := k, hq_Direction := DirectionForwards, hq_AfterChannelSerial := after\<rparr>"

text \<open>The two reads are two snapshots.\<close>

definition reconcileFromHistory :: "'v pgCodec \<Rightarrow> bool \<Rightarrow> string \<Rightarrow> 'v pgDB \<Rightarrow> 'v pgDB \<Rightarrow> pgStore \<Rightarrow> pg_error + pgStore" where
  "reconcileFromHistory C ctxErr name db1 db2 st =
     tryE (pgHistory C ctxErr name (missedQuery KindMessage (ps_lastSeen st)) db1) (\<lambda>messages.
     tryE (pgHistory C ctxErr name (missedQuery KindPresence (ps_lastSeen st)) db2) (\<lambda>presence.
       Inr (foldl (\<lambda>st cm. pgDeliver cm st) st
         (mergeByChannelSerial (hp_ChannelMessages messages) (hp_ChannelMessages presence)))))"

text \<open>\<open>reconcile\<close> visits the stores with an appender in the order of a Go map; each visit has its own snapshots, and one that
  fails is logged and left as it was.\<close>

definition reconcileStore :: "'v pgCodec \<Rightarrow> bool \<Rightarrow> pgNode \<Rightarrow> string \<times> 'v pgDB \<times> 'v pgDB \<Rightarrow> pgNode" where
  "reconcileStore C ctxErr nd visit =
     (case visit of (name, db1, db2) \<Rightarrow>
        case map_of (nd_channels nd) name of
          None \<Rightarrow> nd
        | Some st \<Rightarrow>
            if ps_appender st = None then nd
            else case reconcileFromHistory C ctxErr name db1 db2 st of
              Inl _ \<Rightarrow> nd
            | Inr st' \<Rightarrow> nd\<lparr>nd_channels := gput name st' (nd_channels nd)\<rparr>)"

definition reconcile :: "'v pgCodec \<Rightarrow> bool \<Rightarrow> (string \<times> 'v pgDB \<times> 'v pgDB) list \<Rightarrow> pgNode \<Rightarrow> pgNode" where
  "reconcile C ctxErr visits nd = foldl (reconcileStore C ctxErr) nd visits"

text \<open>The waits, in milliseconds, of a re-dial that fails as often as the list says before it succeeds.\<close>

definition listenReconnectBaseDelay :: int where "listenReconnectBaseDelay = 200"
definition listenReconnectMaxDelay :: int where "listenReconnectMaxDelay = 5000"

fun redial :: "int \<Rightarrow> bool list \<Rightarrow> int list" where
  "redial d [] = []"
| "redial d (ok # oks) =
     d # (if ok then []
          else redial (if d * 2 > listenReconnectMaxDelay then listenReconnectMaxDelay else d * 2) oks)"

section \<open>Leases\<close>

definition leaseBump :: "int \<Rightarrow> string \<Rightarrow> 'v pgDB \<Rightarrow> 'v pgDB" where
  "leaseBump now node db = db\<lparr>t_presence :=
     map (\<lambda>m. if mb_node m = node then m\<lparr>mb_expires := Some (now + presenceLeaseWindow)\<rparr> else m) (t_presence db)\<rparr>"

definition expired :: "int \<Rightarrow> 'v pgMember \<Rightarrow> bool" where
  "expired now m = (case mb_expires m of None \<Rightarrow> False | Some e \<Rightarrow> e < now)"

text \<open>\<open>DELETE ... RETURNING\<close>.\<close>

definition reapDelete :: "int \<Rightarrow> 'v pgDB \<Rightarrow> 'v pgDB \<times> (string \<times> string \<times> string) list" where
  "reapDelete now db =
     (db\<lparr>t_presence := filter (\<lambda>m. \<not> expired now m) (t_presence db)\<rparr>,
      map (\<lambda>m. (mb_channel m, mb_conn m, mb_client m)) (filter (expired now) (t_presence db)))"

definition orphanLeave :: "string \<Rightarrow> string \<Rightarrow> PresenceMessage" where
  "orphanLeave conn client = zeroPresence\<lparr>p_Action := PresenceLeave, p_ClientID := client, p_ConnectionID := conn\<rparr>"

text \<open>The loop over the orphans: each LEAVE is a write of its own, with its context, its clock and its end; a failed one is
  logged.\<close>

fun reapLeaves :: "'v pgCodec \<Rightarrow> string \<Rightarrow> string \<Rightarrow> (bool \<times> int \<times> txEnd) list \<Rightarrow> (string \<times> string \<times> string) list \<Rightarrow>
    'v pgDB \<Rightarrow> 'v pgDB" where
  "reapLeaves C node series ((ctxErr, now, txe) # ws) ((channel, conn, client) # os) db =
     reapLeaves C node series ws os
       (fst (pgWriteNow C ctxErr 0 txe now node series channel (WPresence now False [orphanLeave conn client]) db))"
| "reapLeaves C node series ws os db = db"

definition reapExpiredPresence :: "'v pgCodec \<Rightarrow> int \<Rightarrow> (bool \<times> int \<times> txEnd) list \<Rightarrow> pgNode \<Rightarrow> 'v pgDB \<Rightarrow> 'v pgDB" where
  "reapExpiredPresence C now ws nd db =
     (case reapDelete now db of (db1, orphans) \<Rightarrow> reapLeaves C (nd_node nd) (nd_series nd) ws orphans db1)"

section \<open>Migrations\<close>

text \<open>The entries of the embedded directory, each with whether it is a directory and its content.\<close>

definition trimSuffix :: "string \<Rightarrow> string \<Rightarrow> string" where
  "trimSuffix s suf = (if has_suffix s suf then take (length s - length suf) s else s)"

definition listMigrations :: "(string \<times> bool \<times> string) list \<Rightarrow> (string \<times> string) list" where
  "listMigrations entries =
     map (\<lambda>(name, _, body). (trimSuffix name ''.sql'', body))
       (sort_key fst (filter (\<lambda>(_, isDir, _). \<not> isDir) entries))"

text \<open>A schema and the versions applied to it. \<open>runSQL\<close> is the database: what a migration's SQL makes of the schema.\<close>

definition applyMigration :: "(string \<Rightarrow> 'd \<Rightarrow> 'd option) \<Rightarrow> string \<times> string \<Rightarrow> 'd \<times> string list \<Rightarrow> ('d \<times> string list) option" where
  "applyMigration runSQL m st =
     (case runSQL (snd m) (fst st) of
        None \<Rightarrow> None
      | Some schema \<Rightarrow> if fst m \<in> set (snd st) then None else Some (schema, snd st @ [fst m]))"

fun migrateLoop :: "(string \<Rightarrow> 'd \<Rightarrow> 'd option) \<Rightarrow> string list \<Rightarrow> (string \<times> string) list \<Rightarrow> 'd \<times> string list \<Rightarrow>
    ('d \<times> string list) \<times> bool" where
  "migrateLoop runSQL applied [] st = (st, True)"
| "migrateLoop runSQL applied (m # ms) st =
     (if fst m \<in> set applied then migrateLoop runSQL applied ms st
      else case applyMigration runSQL m st of
        None \<Rightarrow> (st, False)
      | Some st' \<Rightarrow> migrateLoop runSQL applied ms st')"

definition migrate :: "(string \<Rightarrow> 'd \<Rightarrow> 'd option) \<Rightarrow> (string \<times> bool \<times> string) list \<Rightarrow> 'd \<times> string list \<Rightarrow>
    ('d \<times> string list) \<times> bool" where
  "migrate runSQL entries st = migrateLoop runSQL (snd st) (listMigrations entries) st"

end
