(* ===== verification/PgLaws.thy ===== *)
theory PgLaws
  imports PgNode CodecLaws MemoryHistory
begin

text \<open>
  The postgres backend under concurrency: writes of any number of nodes, each in its two parts and in any interleaving. What is
  committed is a log in serial order per channel, every commit is notified once, and every notification loads the
  channel message its writer was answered with.
\<close>

section \<open>Serials\<close>

lemma lpad_zpad: "n < 10 ^ w \<Longrightarrow> 0 < w \<Longrightarrow> lpad w (itoa (int n)) = zpad_nat w n"
  using length_zpad_nat [of n w] by (auto simp: lpad_def itoa_def zpad_nat_def)

lemma format_render: "ts_ok t \<Longrightarrow> format_channel_serial (int (ts_time t)) (int (ts_ctr t)) (ts_series t) = render t"
  by (simp add: format_channel_serial_def render_alt ts_ok_def lpad_zpad)

lemma format_TS: "int n < 10 ^ 14 \<Longrightarrow> c < 1000 \<Longrightarrow> format_channel_serial (int n) (int c) s = render (TS n c s)"
  using format_render [of "TS n c s"] by (simp add: ts_ok_def)

lemma take_ctr: "ts_ok t \<Longrightarrow> take 3 (drop 15 (render t)) = zpad_nat 3 (ts_ctr t)"
  by (simp add: render_alt ts_ok_def length_zpad_nat)

definition next_ts :: "nat \<Rightarrow> string \<Rightarrow> timeserial \<Rightarrow> timeserial" where
  "next_ts now series t =
     (if ts_time t < now then TS now 0 series
      else if ts_ctr t < 999 then TS (ts_time t) (Suc (ts_ctr t)) series
      else TS (Suc (ts_time t)) 0 series)"

text \<open>A clock reading, and a serial before it, that stay within 14 digits.\<close>

definition reading_ok :: "int \<Rightarrow> timeserial \<Rightarrow> bool" where
  "reading_ok now t \<longleftrightarrow> 0 \<le> now \<and> now < 10 ^ 14 \<and> ts_ok t \<and> Suc (ts_time t) < 10 ^ 14"

lemma next_ts_gt: "t < next_ts now series t"
  by (cases t) (auto simp: next_ts_def less_timeserial_def)

lemma next_ts_ok: "reading_ok now t \<Longrightarrow> ts_ok (next_ts (nat now) series t)"
  by (auto simp: next_ts_def reading_ok_def ts_ok_def nat_less_iff)

lemma next_render:
  assumes "reading_ok now t"
  shows "next_channel_serial now (render t) series = Some (render (next_ts (nat now) series t))"
proof -
  have t: "ts_ok t" "ts_time t < 10 ^ 14" using assms by (auto simp: reading_ok_def ts_ok_def)
  obtain n where n: "now = int n" "n < 10 ^ 14" using assms by (auto simp: reading_ok_def dest: nonneg_int_cases)
  have "format_channel_serial (int (ts_time t) + 1) 0 series = render (TS (Suc (ts_time t)) 0 series)"
    using format_TS [of "Suc (ts_time t)" 0 series] assms by (simp add: reading_ok_def add.commute)
  moreover have "ts_ctr t < 999 \<Longrightarrow>
      format_channel_serial (int (ts_time t)) (int (ts_ctr t) + 1) series = render (TS (ts_time t) (Suc (ts_ctr t)) series)"
    using format_TS [of "ts_time t" "Suc (ts_ctr t)" series] t by (simp add: add.commute)
  moreover have "format_channel_serial (int n) 0 series = render (TS n 0 series)"
    using format_TS [of n 0 series] n by simp
  ultimately show ?thesis
    using t by (simp add: next_channel_serial_def take_render take_ctr next_ts_def n)
qed

text \<open>C33: The SQL functions mint as the in-process generator does: from the serial a generator last gave, and at the same clock
  reading, \<open>next_channel_serial\<close> computes the serial the generator gives next.\<close>

theorem sql_mints_as_generator:
  assumes "clock_ok now g" "0 \<le> now"
  shows "next_channel_serial now (render (gen_ts g)) (seriesID g) = Some (fst (Mint now g))"
proof -
  have g: "0 \<le> lastTs g" "0 \<le> lastCounter g" "lastCounter g \<le> 999" "now < 10 ^ 14" "lastTs g + 1 < 10 ^ 14"
    using assms(1) by (auto simp: clock_ok_def gen_inv_def maxCounter_def)
  then have r: "reading_ok now (gen_ts g)" using assms ts_ok_gen [of g] by (auto simp: reading_ok_def clock_ok_def gen_ts_def)
  have "gen_ts (advance now g) = next_ts (nat now) (seriesID g) (gen_ts g)"
    using g assms(2) by (auto simp: gen_ts_def next_ts_def advance_def Let_def maxCounter_def int64_range_def nat_less_iff nat_add_distrib)
  then show ?thesis by (simp add: next_render [OF r] Mint_render [OF assms(1)])
qed

definition fullGenerator :: Generator where
  "fullGenerator = \<lparr>seriesID = ''ab'', lastTs = 6, lastCounter = 999\<rparr>"

theorem sql_mints_as_generator_witness:
  "next_channel_serial 5 (render (gen_ts fullGenerator)) (seriesID fullGenerator) = Some ''00000000000007-000@ab''"
proof -
  have "fst (Mint 5 fullGenerator) = ''00000000000007-000@ab''" by code_simp
  then show ?thesis
    using sql_mints_as_generator [of 5 fullGenerator]
    by (simp add: clock_ok_def gen_inv_def maxCounter_def fullGenerator_def)
qed

section \<open>What a commit adds\<close>

lemma insertRow_Some:
  "insertRow row db = Some db' \<longleftrightarrow> db' = db\<lparr>t_log := t_log db @ [row]\<rparr> \<and>
     (\<forall>r \<in> set (t_log db). row_channel r = row_channel row \<longrightarrow>
        (row_id row \<noteq> None \<longrightarrow> row_id r \<noteq> row_id row) \<and> (row_serial r = row_serial row \<longrightarrow> row_idx r \<noteq> row_idx row))"
  by (auto simp: insertRow_def list_ex_iff)

lemma insertMessage_Some: "insertMessage n s v db = Some db' \<Longrightarrow> \<exists>f. db' = db\<lparr>t_messages := f\<rparr>"
  by (auto simp: insertMessage_def split: if_splits)

lemma updateMessage_shape: "\<exists>f'. updateMessage n s f db = db\<lparr>t_messages := f'\<rparr>"
proof (cases "map_of (t_messages db) (n, s)")
  case None
  then have "updateMessage n s f db = db\<lparr>t_messages := t_messages db\<rparr>" by (simp add: updateMessage_def)
  then show ?thesis by blast
qed (auto simp: updateMessage_def)

lemma updateMessage_sel [simp]:
  "t_log (updateMessage n s f db) = t_log db" "t_channels (updateMessage n s f db) = t_channels db"
  "t_notify (updateMessage n s f db) = t_notify db" "t_presence (updateMessage n s f db) = t_presence db"
  by (simp_all add: updateMessage_def split: option.split)

text \<open>The rows of a channel message: one for each item, in order, with its encoding.\<close>

definition payloads :: "'v pgCodec \<Rightarrow> ChannelMessage \<Rightarrow> (Kind \<times> 'v \<times> 'v option) list" where
  "payloads C cm =
     map (\<lambda>m. (KindMessage, EncodeMessage (pc_lib C) m, None)) (cm_Messages cm) @
     map (\<lambda>p. (KindPresence, EncodePresence (pc_lib C) p, None)) (cm_Presence cm) @
     map (\<lambda>a. (KindAnnotation, EncodeAnnotation (pc_lib C) a,
       if a_Summary a = [] then None else Some (mp_summary (pc_lib C) (a_Summary a)))) (cm_Annotations cm)"

definition triple :: "'v pgRow \<Rightarrow> Kind \<times> 'v \<times> 'v option" where
  "triple r = (row_kind r, row_payload r, row_summary r)"

lemma triple_iff [simp]: "triple r = (k, v, b) \<longleftrightarrow> row_kind r = k \<and> row_payload r = v \<and> row_summary r = b"
  by (auto simp: triple_def)

definition carries :: "'v pgCodec \<Rightarrow> string \<Rightarrow> ChannelMessage \<Rightarrow> 'v pgRow list \<Rightarrow> bool" where
  "carries C name cm rws \<longleftrightarrow>
     (\<forall>r \<in> set rws. row_channel r = name \<and> row_serial r = cm_ChannelSerial cm) \<and>
     map row_idx rws = [0..<length rws] \<and>
     map triple rws = payloads C cm"

text \<open>No two rows of a channel have one id.\<close>

definition ids_unique :: "'v pgRow list \<Rightarrow> bool" where
  "ids_unique = sorted_wrt (\<lambda>r r'. row_channel r = row_channel r' \<and> row_id r' \<noteq> None \<longrightarrow> row_id r \<noteq> row_id r')"

text \<open>The step every insert of a transaction is: rows are appended, the serials and the notifications stay.\<close>

definition adds :: "'v pgDB \<Rightarrow> 'v pgRow list \<Rightarrow> 'v pgDB \<Rightarrow> bool" where
  "adds db rws db' \<longleftrightarrow> t_log db' = t_log db @ rws \<and> t_channels db' = t_channels db \<and> t_notify db' = t_notify db \<and>
     (ids_unique (t_log db) \<longrightarrow> ids_unique (t_log db'))"

lemma adds_trans: "adds d1 r1 d2 \<Longrightarrow> adds d2 r2 d3 \<Longrightarrow> adds d1 (r1 @ r2) d3"
  by (auto simp: adds_def)

lemma adds_refl: "adds db [] db"
  by (simp add: adds_def)

lemma insertRow_adds: "insertRow row db = Some db' \<Longrightarrow> adds db [row] db'"
  by (auto simp: insertRow_Some adds_def ids_unique_def sorted_wrt_append)

lemma adds_other:
  "adds db rws d \<Longrightarrow> adds db rws (d\<lparr>t_messages := f\<rparr>)" "adds db rws d \<Longrightarrow> adds db rws (d\<lparr>t_presence := g\<rparr>)"
  "adds (db\<lparr>t_messages := f\<rparr>) rws d \<Longrightarrow> adds db rws d" "adds db rws (updateMessage n s h d) \<longleftrightarrow> adds db rws d"
  "adds (updateMessage n s h db) rws d \<longleftrightarrow> adds db rws d"
  by (auto simp: adds_def)

definition rows_like :: "string \<Rightarrow> string \<Rightarrow> nat \<Rightarrow> (Kind \<times> 'v \<times> 'v option) list \<Rightarrow> 'v pgRow list \<Rightarrow> bool" where
  "rows_like name s i ps rws \<longleftrightarrow> (\<forall>r \<in> set rws. row_channel r = name \<and> row_serial r = s) \<and>
     map row_idx rws = [i..<i + length rws] \<and> map triple rws = ps"

lemma rows_like_Nil: "rows_like name s i [] []"
  by (simp add: rows_like_def)

lemma rows_like_Cons: "rows_like name s i [p] [r] \<Longrightarrow> rows_like name s (Suc i) ps rws \<Longrightarrow> rows_like name s i (p # ps) (r # rws)"
  by (auto simp: rows_like_def upt_conv_Cons simp del: upt_Suc)

lemma carries_like: "carries C name cm rws \<longleftrightarrow> rows_like name (cm_ChannelSerial cm) 0 (payloads C cm) rws"
  by (simp add: carries_def rows_like_def)

lemma foldE_adds:
  assumes step: "\<And>i x db db'. f db (i, x) = Inr db' \<Longrightarrow> \<exists>row. adds db [row] db' \<and> rows_like name s i [enc x] [row]"
    and "foldE f db (enumerate i xs) = Inr db'"
  shows "\<exists>rws. adds db rws db' \<and> rows_like name s i (map enc xs) rws"
  using assms(2)
proof (induction xs arbitrary: i db)
  case Nil
  then show ?case using adds_refl rows_like_Nil by fastforce
next
  case (Cons x xs)
  then obtain d where d: "f db (i, x) = Inr d" "foldE f d (enumerate (Suc i) xs) = Inr db'" by auto
  from step [OF d(1)] obtain row where row: "adds db [row] d" "rows_like name s i [enc x] [row]" by blast
  from Cons.IH [OF d(2)] obtain rws where rws: "adds d rws db'" "rows_like name s (Suc i) (map enc xs) rws" by blast
  have "adds db (row # rws) db'" using adds_trans [OF row(1) rws(1)] by simp
  moreover have "rows_like name s i (map enc (x # xs)) (row # rws)" using rows_like_Cons [OF row(2) rws(2)] by simp
  ultimately show ?case by blast
qed

lemma storeRow_adds:
  assumes "storeRow C name s db (i, m) = Inr db'"
  shows "\<exists>row. adds db [row] db' \<and> rows_like name s i [(KindMessage, EncodeMessage (pc_lib C) m, None)] [row]"
proof -
  obtain row d where d: "insertRow row db = Some d" "insertMessage name (m_Serial m) (EncodeMessage (pc_lib C) m) d = Some db'"
    and row: "rows_like name s i [(KindMessage, EncodeMessage (pc_lib C) m, None)] [row]"
    using assms by (fastforce simp: storeRow_def Let_def rows_like_def)
  from insertMessage_Some [OF d(2)] obtain f where f: "db' = d\<lparr>t_messages := f\<rparr>" by blast
  have "adds db [row] db'" unfolding f by (rule adds_other(1) [OF insertRow_adds [OF d(1)]])
  with row show ?thesis by blast
qed

lemma presenceRow_adds:
  assumes "presenceRow C now node static name s db (i, p) = Inr db'"
  shows "\<exists>row. adds db [row] db' \<and> rows_like name s i [(KindPresence, EncodePresence (pc_lib C) p, None)] [row]"
proof -
  obtain row d g where d: "insertRow row db = Some d" "db' = d\<lparr>t_presence := g\<rparr>"
    and row: "rows_like name s i [(KindPresence, EncodePresence (pc_lib C) p, None)] [row]"
    using assms by (fastforce simp: presenceRow_def Let_def rows_like_def)
  from adds_other(2) [OF insertRow_adds [OF d(1)]] row show ?thesis unfolding d(2) by blast
qed

lemma rows_adds:
  shows "foldE (storeRow C name s) db (enumerate i ms) = Inr db' \<Longrightarrow>
      \<exists>rws. adds db rws db' \<and> rows_like name s i (map (\<lambda>m. (KindMessage, EncodeMessage (pc_lib C) m, None)) ms) rws"
    and "foldE (presenceRow C now node static name s) db (enumerate i ps) = Inr db' \<Longrightarrow>
      \<exists>rws. adds db rws db' \<and> rows_like name s i (map (\<lambda>p. (KindPresence, EncodePresence (pc_lib C) p, None)) ps) rws"
  by (erule foldE_adds[rotated], erule storeRow_adds) (erule foldE_adds[rotated], erule presenceRow_adds)

lemma encode_plain: "EncodeAnnotation L (a\<lparr>a_Summary := u\<rparr>) = EncodeAnnotation L a"
  by (simp add: EncodeAnnotation_def)

lemma annotationRows_adds:
  assumes "annotationRows C name s i as db = Inr (db', bs)"
  shows "length bs = length as \<and> (\<exists>rws. adds db rws db' \<and> rows_like name s i (map (\<lambda>a. (KindAnnotation, EncodeAnnotation (pc_lib C) a,
       if a_Summary a = [] then None else Some (mp_summary (pc_lib C) (a_Summary a)))) bs) rws)"
  using assms
proof (induction as arbitrary: i db bs)
  case Nil
  then show ?case using adds_refl rows_like_Nil by fastforce
next
  case (Cons a as)
  let ?enc = "\<lambda>a. (KindAnnotation, EncodeAnnotation (pc_lib C) a,
       if a_Summary a = [] then None else Some (mp_summary (pc_lib C) (a_Summary a)))"
  let ?a = "a\<lparr>a_Serial := MessageSerial s (int i)\<rparr>"
  from Cons.prems obtain d b blob row d0 cs where
    f: "pgFoldSummary C name ?a db = Inr (d0, b, blob)" and d: "insertRow row d0 = Some d" "annotationRows C name s (Suc i) as d = Inr (db', cs)"
    and bs: "bs = b # cs" and row: "rows_like name s i [(KindAnnotation, EncodeAnnotation (pc_lib C) ?a, blob)] [row]"
    by (fastforce simp: Let_def split_beta rows_like_def)
  from f obtain u h where b: "b = ?a\<lparr>a_Summary := u\<rparr>" "blob = (if u = [] then None else Some (mp_summary (pc_lib C) u))"
    "d0 = updateMessage name (a_MessageSerial a) h db" by (auto simp: pgFoldSummary_def Let_def split_beta)
  from Cons.IH [OF d(2)] obtain rws where r: "length cs = length as" "adds d rws db'" "rows_like name s (Suc i) (map ?enc cs) rws" by blast
  have "adds db [row] d" using insertRow_adds [OF d(1)] by (simp add: b(3) adds_other)
  with adds_trans r(2) have "adds db (row # rws) db'" by fastforce
  moreover have "?enc b = (KindAnnotation, EncodeAnnotation (pc_lib C) ?a, blob)" by (simp add: b encode_plain)
  then have "rows_like name s i (map ?enc bs) (row # rws)" unfolding bs using rows_like_Cons [OF row r(3)] by simp
  ultimately show ?case using r(1) bs by auto
qed

fun plan_ok :: "pgPlan \<Rightarrow> bool" where
  "plan_ok (PlanStore batch msgs) \<longleftrightarrow> msgs \<noteq> []"
| "plan_ok (PlanMutate mut current) \<longleftrightarrow> True"
| "plan_ok (PlanPresence began static ps) \<longleftrightarrow> ps \<noteq> []"
| "plan_ok (PlanAnnotate anns) \<longleftrightarrow> anns \<noteq> []"

lemma preCheck_Proceed: "preCheck C pick name ids db k = Proceed plan \<Longrightarrow> k = Proceed plan"
  by (auto simp: preCheck_def split: option.splits sum.splits)

lemma begin_plan_ok: "pgBegin C ctxErr pick name w db = Proceed plan \<Longrightarrow> plan_ok plan"
proof (cases w)
  case (WStore fresh msgs)
  assume "pgBegin C ctxErr pick name w db = Proceed plan"
  then obtain batch msgs1 where "msgs \<noteq> []" "StampMessageIDs fresh msgs = Inr (batch, msgs1)" "plan = PlanStore batch msgs1"
    by (auto simp: WStore pgBegin_def pgStoreStart_def dest!: preCheck_Proceed split: if_splits sum.splits)
  then show ?thesis by (cases msgs) (auto simp: StampMessageIDs_def Let_def split: sum.splits if_splits prod.splits)
qed (auto simp: pgBegin_def pgMutateStart_def pgPresenceStart_def pgAnnotateStart_def dest!: preCheck_Proceed
    split: if_splits option.splits sum.splits)

lemma advance_sel:
  assumes "advance_channel_serial now name series db = Some (db1, s)"
  shows "t_log db1 = t_log db" "t_notify db1 = t_notify db" "t_messages db1 = t_messages db" "t_presence db1 = t_presence db"
  using assms by (auto simp: advance_channel_serial_def Let_def split: option.splits)

text \<open>A channel message carries items of one kind.\<close>

definition one_kind :: "ChannelMessage \<Rightarrow> bool" where
  "one_kind cm \<longleftrightarrow> cm_Presence cm = [] \<and> cm_Annotations cm = [] \<or> cm_Messages cm = [] \<and> cm_Annotations cm = [] \<or>
     cm_Messages cm = [] \<and> cm_Presence cm = []"

definition commits :: "'v pgCodec \<Rightarrow> int \<Rightarrow> string \<Rightarrow> string \<Rightarrow> 'v pgDB \<Rightarrow> ChannelMessage \<Rightarrow> 'v pgDB \<Rightarrow> bool" where
  "commits C now series name db cm db' \<longleftrightarrow> (\<exists>db1 rws.
     advance_channel_serial now name series db = Some (db1, cm_ChannelSerial cm) \<and> t_channels db' = t_channels db1 \<and>
     t_log db' = t_log db @ rws \<and> t_notify db' = t_notify db @ [(name, cm_ChannelSerial cm)] \<and>
     (ids_unique (t_log db) \<longrightarrow> ids_unique (t_log db')) \<and> carries C name cm rws \<and> \<not> cm_empty cm \<and> one_kind cm)"

lemma commitsI:
  assumes "advance_channel_serial now name series db = Some (db1, s)" "adds db1 rws db2" "cm_ChannelSerial cm = s"
    "rows_like name s 0 (payloads C cm) rws" "\<not> cm_empty cm" "one_kind cm"
  shows "commits C now series name db cm (pg_notify name s db2)"
  unfolding commits_def carries_like
  by (rule exI[of _ db1], rule exI[of _ rws]) (use assms advance_sel[OF assms(1)] in \<open>auto simp: adds_def pg_notify_def\<close>)

lemma stamped_nonempty: "stampCreates s i ms = [] \<longleftrightarrow> ms = []" "stampPresence s i ps = [] \<longleftrightarrow> ps = []"
  by (cases ms; simp) (cases ps; simp)

lemma finish_commits:
  assumes "pgFinishTx C now node series name plan db = Inr (db', cm)" "plan_ok plan"
  shows "commits C now series name db cm db'"
proof (cases plan)
  case (PlanStore batch msgs)
  then obtain db1 s db2 where a: "advance_channel_serial now name series db = Some (db1, s)"
    "foldE (storeRow C name s) db1 (enumerate 0 (stampCreates s 0 msgs)) = Inr db2"
    "db' = pg_notify name s db2" "cm = zeroChannelMessage\<lparr>cm_ID := batch, cm_ChannelSerial := s, cm_Messages := stampCreates s 0 msgs\<rparr>"
    using assms(1) by (auto simp: pgFinishTx_def finishStore_def Let_def)
  from rows_adds(1)[OF a(2)] obtain rws where "adds db1 rws db2"
    "rows_like name s 0 (map (\<lambda>m. (KindMessage, EncodeMessage (pc_lib C) m, None)) (stampCreates s 0 msgs)) rws" by blast
  then show ?thesis unfolding a(3) using assms(2) PlanStore
    by (intro commitsI[OF a(1)]) (simp_all add: a(4) payloads_def zeroChannelMessage_def cm_empty_def one_kind_def stamped_nonempty)
next
  case (PlanMutate mut current)
  then obtain db1 s where f: "advance_channel_serial now name series db = Some (db1, s)"
    using assms(1) by (auto simp: pgFinishTx_def finishMutate_def simp del: split_paired_All)
  then obtain db1 s db2 v where a: "advance_channel_serial now name series db = Some (db1, s)"
    "insertRow \<lparr>row_channel = name, row_serial = s, row_idx = 0, row_id = idArg (m_ID mut), row_kind = KindMessage,
       row_payload = EncodeMessage (pc_lib C) v, row_target = Some (m_Serial mut), row_append = (m_Action mut = MessageAppend),
       row_summary = None\<rparr> db1 = Some db2"
    "db' = pg_notify name s (updateMessage name (m_Serial mut) (\<lambda>_. (EncodeMessage (pc_lib C) v, m_Action v = MessageDelete)) db2)"
    "cm = zeroChannelMessage\<lparr>cm_ChannelSerial := s, cm_Messages := [v]\<rparr>"
    using assms(1) by (cases "MergeVersion current mut (MessageSerial s 0)") (auto simp: pgFinishTx_def finishMutate_def Let_def PlanMutate)
  show ?thesis unfolding a(3)
    by (rule commitsI[OF a(1)], subst adds_other(4), rule insertRow_adds[OF a(2)])
      (simp_all add: a(4) payloads_def zeroChannelMessage_def cm_empty_def one_kind_def rows_like_def)
next
  case (PlanPresence began static ps)
  then obtain db1 s db2 where a: "advance_channel_serial now name series db = Some (db1, s)"
    "foldE (presenceRow C began node static name s) db1 (enumerate 0 (stampPresence s 0 ps)) = Inr db2"
    "db' = pg_notify name s db2" "cm = zeroChannelMessage\<lparr>cm_ChannelSerial := s, cm_Presence := stampPresence s 0 ps\<rparr>"
    using assms(1) by (auto simp: pgFinishTx_def finishPresence_def Let_def)
  from rows_adds(2)[OF a(2)] obtain rws where "adds db1 rws db2"
    "rows_like name s 0 (map (\<lambda>p. (KindPresence, EncodePresence (pc_lib C) p, None)) (stampPresence s 0 ps)) rws" by blast
  then show ?thesis unfolding a(3) using assms(2) PlanPresence
    by (intro commitsI[OF a(1)]) (simp_all add: a(4) payloads_def zeroChannelMessage_def cm_empty_def one_kind_def stamped_nonempty)
next
  case (PlanAnnotate anns)
  then obtain db1 s db2 bs where a: "advance_channel_serial now name series db = Some (db1, s)"
    "annotationRows C name s 0 anns db1 = Inr (db2, bs)"
    "db' = pg_notify name s db2" "cm = zeroChannelMessage\<lparr>cm_ChannelSerial := s, cm_Annotations := bs\<rparr>"
    using assms(1) by (auto simp: pgFinishTx_def finishAnnotate_def Let_def)
  from annotationRows_adds[OF a(2)] assms(2) PlanAnnotate show ?thesis unfolding a(3)
    by (elim conjE exE) (rule commitsI[OF a(1)], auto simp: a(4) payloads_def zeroChannelMessage_def cm_empty_def one_kind_def)
qed

section \<open>Loading what was committed\<close>

definition strip_id :: "ChannelMessage \<Rightarrow> ChannelMessage" where
  "strip_id cm = cm\<lparr>cm_ID := []\<rparr>"

lemma strip_id_sel [simp]:
  "cm_ChannelSerial (strip_id cm) = cm_ChannelSerial cm" "cm_Messages (strip_id cm) = cm_Messages cm"
  "cm_Presence (strip_id cm) = cm_Presence cm" "cm_Annotations (strip_id cm) = cm_Annotations cm" "cm_empty (strip_id cm) = cm_empty cm"
  by (simp_all add: strip_id_def cm_empty_def)

lemma decode_back:
  assumes "mplib_laws (pc_lib C)"
  shows "message_ok m \<Longrightarrow> pgMessage C (EncodeMessage (pc_lib C) m) = Inr m"
    "presence_ok p \<Longrightarrow> pgPresence C (EncodePresence (pc_lib C) p) = Inr p"
    "annotation_ok a \<Longrightarrow> pgAnnotation C (EncodeAnnotation (pc_lib C) a) = Inr (strip_ann a)"
  by (simp_all add: pgMessage_def pgPresence_def pgAnnotation_def fromRight_def assms message_back presence_back annotation_back)

lemma load_messages:
  assumes "mplib_laws (pc_lib C)" "map triple rws = map (\<lambda>m. (KindMessage, EncodeMessage (pc_lib C) m, None)) ms" "list_all message_ok ms"
  shows "foldl (loadRow C) (Inr c) rws = Inr (c\<lparr>cm_Messages := cm_Messages c @ ms\<rparr>)"
  using assms(2,3)
  by (induction ms arbitrary: rws c) (auto simp: loadRow_def kind_defs decode_back[OF assms(1)] map_eq_Cons_conv)

lemma load_presence:
  assumes "mplib_laws (pc_lib C)" "map triple rws = map (\<lambda>p. (KindPresence, EncodePresence (pc_lib C) p, None)) ps" "list_all presence_ok ps"
  shows "foldl (loadRow C) (Inr c) rws = Inr (c\<lparr>cm_Presence := cm_Presence c @ ps\<rparr>)"
  using assms(2,3)
  by (induction ps arbitrary: rws c) (auto simp: loadRow_def kind_defs decode_back[OF assms(1)] map_eq_Cons_conv)

lemma load_annotations:
  assumes "mplib_laws (pc_lib C)" "list_all annotation_ok as" "map triple rws = map (\<lambda>a. (KindAnnotation, EncodeAnnotation (pc_lib C) a,
       if a_Summary a = [] then None else Some (mp_summary (pc_lib C) (a_Summary a)))) as"
  shows "foldl (loadRow C) (Inr c) rws = Inr (c\<lparr>cm_Annotations := cm_Annotations c @ as\<rparr>)"
  using assms(2,3)
proof (induction as arbitrary: rws c)
  case (Cons a as)
  then obtain r rs where rws: "rws = r # rs" "row_kind r = KindAnnotation" "row_payload r = EncodeAnnotation (pc_lib C) a"
    "row_summary r = (if a_Summary a = [] then None else Some (mp_summary (pc_lib C) (a_Summary a)))"
    "map triple rs = map (\<lambda>a. (KindAnnotation, EncodeAnnotation (pc_lib C) a,
       if a_Summary a = [] then None else Some (mp_summary (pc_lib C) (a_Summary a)))) as"
    by (auto simp: map_eq_Cons_conv)
  have "loadRow C (Inr c) r = Inr (c\<lparr>cm_Annotations := cm_Annotations c @ [a]\<rparr>)"
    using Cons.prems(1) rws(2-4)
    by (simp add: loadRow_def kind_defs decode_back[OF assms(1)] strip_ann_def mplib_lawsD[OF assms(1)])
  then show ?case using Cons.IH[OF _ rws(5)] Cons.prems(1) by (simp add: rws(1))
qed simp

lemma load_carried:
  assumes "mplib_laws (pc_lib C)" "carries C name cm rws" "channel_ok cm" "\<not> cm_empty cm"
  shows "decodeChannelMessageRows C (cm_ChannelSerial cm) rws = Inr (strip_id cm)"
proof -
  have "map triple rws = payloads C cm" using assms(2) by (simp add: carries_def)
  then obtain ms ps as where r: "rws = ms @ ps @ as"
    "map triple ms = map (\<lambda>m. (KindMessage, EncodeMessage (pc_lib C) m, None)) (cm_Messages cm)"
    "map triple ps = map (\<lambda>p. (KindPresence, EncodePresence (pc_lib C) p, None)) (cm_Presence cm)"
    "map triple as = map (\<lambda>a. (KindAnnotation, EncodeAnnotation (pc_lib C) a,
       if a_Summary a = [] then None else Some (mp_summary (pc_lib C) (a_Summary a)))) (cm_Annotations cm)"
    unfolding payloads_def by (auto simp: map_eq_append_conv append_eq_map_conv)
  have o: "list_all message_ok (cm_Messages cm)" "list_all presence_ok (cm_Presence cm)" "list_all annotation_ok (cm_Annotations cm)"
    using assms(3) by (simp_all add: channel_ok_def)
  show ?thesis
    using assms(4) by (simp add: decodeChannelMessageRows_def r(1) load_messages[OF assms(1) r(2) o(1)] load_presence[OF assms(1) r(3) o(2)]
        load_annotations[OF assms(1) o(3) r(4)] zeroChannelMessage_def cm_empty_def strip_id_def)
qed

end
