(* ===== verification/PgCluster.thy ===== *)
theory PgCluster
  imports PgLaws "HOL-Library.Multiset"
begin

text \<open>
  A cluster: one database and the writes of any number of nodes that have passed their first part. The steps interleave
  freely. \<open>cl_done\<close> records, in commit order, the channel messages whose transactions committed.
\<close>

section \<open>The steps of a cluster\<close>

record 'v cluster =
  cl_db :: "'v pgDB"
  cl_open :: "(string \<times> string \<times> string \<times> pgPlan) list"
  cl_done :: "(string \<times> ChannelMessage) list"

definition emptyDB :: "'v pgDB" where
  "emptyDB = \<lparr>t_log = [], t_channels = [], t_messages = [], t_presence = [], t_notify = []\<rparr>"

definition newCluster :: "'v cluster" where
  "newCluster = \<lparr>cl_db = emptyDB, cl_open = [], cl_done = []\<rparr>"

text \<open>A clock reading within 14 digits, on a channel whose serials are.\<close>

definition tick_ok :: "int \<Rightarrow> string \<Rightarrow> 'v pgDB \<Rightarrow> bool" where
  "tick_ok now name db \<longleftrightarrow> 0 \<le> now \<and> now < 10 ^ 14 \<and>
     (case map_of (t_channels db) name of None \<Rightarrow> True | Some (cur, _) \<Rightarrow> TimestampOr0 cur + 1 < 10 ^ 14)"

text \<open>A write passes its first part; it commits, with or without its answer; it fails; a channel is materialised; leases
  are bumped and lapsed members deleted. The payloads that are committed are canonical.\<close>

inductive cluster_step :: "'v pgCodec \<Rightarrow> 'v cluster \<Rightarrow> 'v cluster \<Rightarrow> bool" for C where
  begins: "pgBegin C ctxErr pick name w (cl_db k) = Proceed plan \<Longrightarrow>
     cluster_step C k (k\<lparr>cl_open := cl_open k @ [(node, series, name, plan)]\<rparr>)"
| commits: "cl_open k = as @ (node, series, name, plan) # bs \<Longrightarrow> tick_ok now name (cl_db k) \<Longrightarrow>
     pgFinishTx C now node series name plan (cl_db k) = Inr (db', cm) \<Longrightarrow> txe \<noteq> TxFailed \<Longrightarrow> channel_ok cm \<Longrightarrow>
     cluster_step C k (k\<lparr>cl_db := fst (pgFinish C txe now node series name plan (cl_db k)), cl_open := as @ bs,
       cl_done := cl_done k @ [(name, cm)]\<rparr>)"
| fails: "cl_open k = as @ (node, series, name, plan) # bs \<Longrightarrow>
     txe = TxFailed \<or> isl (pgFinishTx C now node series name plan (cl_db k)) \<Longrightarrow>
     cluster_step C k (k\<lparr>cl_db := fst (pgFinish C txe now node series name plan (cl_db k)), cl_open := as @ bs\<rparr>)"
| materialises: "0 \<le> now \<Longrightarrow> now < 10 ^ 14 \<Longrightarrow> cluster_step C k (k\<lparr>cl_db := fst (ensure_channel now name series (cl_db k))\<rparr>)"
| bumps: "cluster_step C k (k\<lparr>cl_db := leaseBump now node (cl_db k)\<rparr>)"
| reaps: "cluster_step C k (k\<lparr>cl_db := fst (reapDelete now (cl_db k))\<rparr>)"

inductive cluster_steps :: "'v pgCodec \<Rightarrow> 'v cluster \<Rightarrow> 'v cluster \<Rightarrow> bool" for C k where
  stays: "cluster_steps C k k"
| moves: "cluster_steps C k k1 \<Longrightarrow> cluster_step C k1 k2 \<Longrightarrow> cluster_steps C k k2"

section \<open>The invariant\<close>

definition notify_before :: "string \<times> string \<Rightarrow> string \<times> string \<Rightarrow> bool" where
  "notify_before a b \<longleftrightarrow> (fst a = fst b \<longrightarrow> snd a < snd b)"

definition channels_ok :: "'v pgDB \<Rightarrow> bool" where
  "channels_ok db \<longleftrightarrow>
     (\<forall>n cur ini. map_of (t_channels db) n = Some (cur, ini) \<longrightarrow> (\<exists>t. ts_ok t \<and> cur = render t) \<and> ini \<le> cur) \<and>
     (\<forall>(n, s) \<in> set (t_notify db). \<exists>cur ini. map_of (t_channels db) n = Some (cur, ini) \<and> s \<le> cur \<and> ini \<le> s \<and> s \<noteq> [])"

definition note_of :: "string \<times> ChannelMessage \<Rightarrow> string \<times> string" where
  "note_of d = (fst d, cm_ChannelSerial (snd d))"

definition log_is :: "'v pgCodec \<Rightarrow> (string \<times> ChannelMessage) list \<Rightarrow> 'v pgRow list \<Rightarrow> bool" where
  "log_is C ds rs \<longleftrightarrow> (\<exists>rss. rs = concat rss \<and> list_all2 (\<lambda>d. carries C (fst d) (snd d)) ds rss)"

definition cluster_inv :: "'v pgCodec \<Rightarrow> 'v cluster \<Rightarrow> bool" where
  "cluster_inv C k \<longleftrightarrow> channels_ok (cl_db k) \<and> sorted_wrt notify_before (t_notify (cl_db k)) \<and>
     t_notify (cl_db k) = map note_of (cl_done k) \<and> log_is C (cl_done k) (t_log (cl_db k)) \<and> ids_unique (t_log (cl_db k)) \<and>
     (\<forall>d \<in> set (cl_done k). channel_ok (snd d) \<and> \<not> cm_empty (snd d) \<and> one_kind (snd d)) \<and> (\<forall>(_, _, _, plan) \<in> set (cl_open k). plan_ok plan)"

lemma TimestampOr0_render: "ts_ok t \<Longrightarrow> TimestampOr0 (render t) = int (ts_time t)"
  using Timestamp_render [of t "[]"] by (simp add: TimestampOr0_def)

lemma channels_okD:
  assumes "channels_ok db"
  shows "map_of (t_channels db) n = Some (cur, ini) \<Longrightarrow> (\<exists>t. ts_ok t \<and> cur = render t) \<and> ini \<le> cur"
    "(n, s) \<in> set (t_notify db) \<Longrightarrow> \<exists>cur ini. map_of (t_channels db) n = Some (cur, ini) \<and> s \<le> cur \<and> ini \<le> s \<and> s \<noteq> []"
  using assms unfolding channels_ok_def by (blast, fastforce)

text \<open>A new serial follows every serial of its channel.\<close>

lemma advance_next:
  assumes "channels_ok db" "tick_ok now name db"
  obtains t ini db1 where "advance_channel_serial now name series db = Some (db1, render t)" "ts_ok t" "ini \<le> render t"
    "t_channels db1 = gput name (render t, ini) (t_channels db)"
    "\<And>cur ini0. map_of (t_channels db) name = Some (cur, ini0) \<Longrightarrow> cur < render t \<and> ini = ini0"
proof (cases "map_of (t_channels db) name")
  case None
  let ?t = "TS (nat now) 0 series"
  have f: "ts_ok ?t" "format_channel_serial now 0 series = render ?t"
    using assms(2) format_TS [of "nat now" 0 series] by (auto simp: tick_ok_def ts_ok_def nat_less_iff)
  then show ?thesis using None by (intro that [where t = ?t]) (auto simp: advance_channel_serial_def Let_def)
next
  case (Some ci)
  then obtain cur ini0 where c0: "map_of (t_channels db) name = Some (cur, ini0)" by (cases ci) auto
  from channels_okD(1) [OF assms(1) c0] obtain t where c: "map_of (t_channels db) name = Some (cur, ini0)" "ts_ok t" "cur = render t" "ini0 \<le> cur"
    using c0 by blast
  have r: "reading_ok now t"
    using assms(2) c(2) by (simp add: tick_ok_def reading_ok_def c(1,3) TimestampOr0_render)
  let ?t = "next_ts (nat now) series t"
  have "ts_ok ?t" "render t < render ?t" using next_ts_ok [OF r] c(2) by (simp_all add: render_less_iff next_ts_gt)
  then show ?thesis using c
    by (intro that [where t = ?t and ini = ini0]) (auto simp: advance_channel_serial_def next_render [OF r])
qed

lemma commits_inv:
  assumes "cluster_inv C k" "tick_ok now name (cl_db k)" "commits C now series name (cl_db k) cm db'" "channel_ok cm"
    "set opn \<subseteq> set (cl_open k)"
  shows "cluster_inv C (k\<lparr>cl_db := db', cl_open := opn, cl_done := cl_done k @ [(name, cm)]\<rparr>)"
proof -
  let ?db = "cl_db k" and ?s = "cm_ChannelSerial cm"
  have inv: "channels_ok ?db" "sorted_wrt notify_before (t_notify ?db)" "t_notify ?db = map note_of (cl_done k)"
    "log_is C (cl_done k) (t_log ?db)" "ids_unique (t_log ?db)"
    using assms(1) by (auto simp: cluster_inv_def)
  obtain db1 rws where c: "advance_channel_serial now name series ?db = Some (db1, ?s)" "t_channels db' = t_channels db1"
    "t_log db' = t_log ?db @ rws" "t_notify db' = t_notify ?db @ [(name, ?s)]" "ids_unique (t_log db')" "carries C name cm rws" "\<not> cm_empty cm" "one_kind cm"
    using assms(3) inv(5) by (auto simp: commits_def)
  obtain t ini where t: "?s = render t" "ts_ok t" "ini \<le> ?s" "t_channels db' = gput name (?s, ini) (t_channels ?db)"
    "\<And>cur ini0. map_of (t_channels ?db) name = Some (cur, ini0) \<Longrightarrow> cur < ?s \<and> ini = ini0"
    using advance_next [OF inv(1) assms(2), of series] c(1,2) by (metis option.inject prod.inject)
  note old = channels_okD(2) [OF inv(1)]
  have "channels_ok db'"
    unfolding channels_ok_def
  proof (intro conjI allI impI ballI)
    fix n cur ini0 assume "map_of (t_channels db') n = Some (cur, ini0)"
    then show "(\<exists>t. ts_ok t \<and> cur = render t)" "ini0 \<le> cur"
      using t inv(1) by (auto simp: channels_ok_def split: if_splits)
  next
    fix x assume "x \<in> set (t_notify db')"
    then show "case x of (n, s) \<Rightarrow> \<exists>cur ini. map_of (t_channels db') n = Some (cur, ini) \<and> s \<le> cur \<and> ini \<le> s \<and> s \<noteq> []"
    proof (cases "x \<in> set (t_notify ?db)")
      case True
      then obtain cur ini0 where "map_of (t_channels ?db) (fst x) = Some (cur, ini0)" "snd x \<le> cur" "ini0 \<le> snd x" "snd x \<noteq> []"
        using old by (metis prod.collapse)
      then show ?thesis using t(4,5) by (cases x) force
    qed (use t(1,3,4) in \<open>auto simp: c(4) render_alt\<close>)
  qed
  moreover have "sorted_wrt notify_before (t_notify db')"
  proof -
    have "notify_before x (name, ?s)" if x: "x \<in> set (t_notify ?db)" for x
    proof (cases "fst x = name")
      case True
      then obtain cur ini0 where "map_of (t_channels ?db) name = Some (cur, ini0)" "snd x \<le> cur"
        using old x by (metis prod.collapse)
      then show ?thesis using t(5) by (auto simp: notify_before_def)
    qed (simp add: notify_before_def)
    with inv(2) show ?thesis by (simp add: c(4) sorted_wrt_append)
  qed
  moreover have "log_is C (cl_done k @ [(name, cm)]) (t_log db')"
  proof -
    obtain rss where "t_log ?db = concat rss" "list_all2 (\<lambda>d. carries C (fst d) (snd d)) (cl_done k) rss"
      using inv(4) by (auto simp: log_is_def)
    then show ?thesis unfolding log_is_def c(3) using c(6) by (intro exI[of _ "rss @ [rws]"]) (auto intro: list_all2_appendI)
  qed
  ultimately show ?thesis
    using assms(1,4,5) c(4,5,7,8) by (auto simp: cluster_inv_def note_of_def)
qed

lemma ensure_inv:
  assumes "cluster_inv C k" "0 \<le> now" "now < 10 ^ 14"
  shows "cluster_inv C (k\<lparr>cl_db := fst (ensure_channel now name series (cl_db k))\<rparr>)"
proof (cases "map_of (t_channels (cl_db k)) name")
  case None
  let ?t = "TS (nat now) 0 series" and ?db = "cl_db k"
  have f: "ts_ok ?t" "format_channel_serial now 0 series = render ?t"
    using assms(2,3) format_TS [of "nat now" 0 series] by (auto simp: ts_ok_def nat_less_iff)
  have "channels_ok (?db\<lparr>t_channels := gput name (render ?t, render ?t) (t_channels ?db)\<rparr>)"
    using assms(1) f(1) None by (fastforce simp: cluster_inv_def channels_ok_def)
  then show ?thesis using assms(1) None f(2) by (auto simp: cluster_inv_def ensure_channel_def Let_def)
next
  case (Some a)
  then show ?thesis using assms(1) by (cases a) (simp add: ensure_channel_def)
qed

lemma begin_inv: "cluster_inv C k \<Longrightarrow> plan_ok plan \<Longrightarrow> cluster_inv C (k\<lparr>cl_open := cl_open k @ [(node, series, name, plan)]\<rparr>)"
  by (auto simp: cluster_inv_def)

lemma presence_inv:
  "cluster_inv C (k\<lparr>cl_db := (cl_db k)\<lparr>t_presence := ms\<rparr>\<rparr>) \<longleftrightarrow> cluster_inv C k"
  by (simp add: cluster_inv_def channels_ok_def)

lemma cluster_step_inv: "cluster_step C k k' \<Longrightarrow> cluster_inv C k \<Longrightarrow> cluster_inv C k'"
proof (induction rule: cluster_step.induct)
  case (begins ctxErr pick name w k plan node series)
  then show ?case by (intro begin_inv begin_plan_ok)
next
  case (commits k as node series name plan bs now db' cm txe)
  have "plan_ok plan" using commits.prems commits.hyps(1) by (auto simp: cluster_inv_def)
  from finish_commits [OF commits.hyps(3) this]
  have "cluster_inv C (k\<lparr>cl_db := db', cl_open := as @ bs, cl_done := cl_done k @ [(name, cm)]\<rparr>)"
    using commits by (intro commits_inv [where now = now and series = series]) auto
  moreover have "fst (pgFinish C txe now node series name plan (cl_db k)) = db'"
    using commits.hyps(3,4) by (cases txe) (simp_all add: pgFinish_def)
  ultimately show ?case by simp
next
  case (fails k as node series name plan bs txe now)
  have "fst (pgFinish C txe now node series name plan (cl_db k)) = cl_db k"
    using fails.hyps(2) by (cases "pgFinishTx C now node series name plan (cl_db k)") (auto simp: pgFinish_def)
  then show ?case using fails by (auto simp: cluster_inv_def)
next
  case (materialises now k name series)
  then show ?case by (intro ensure_inv)
qed (simp_all add: presence_inv leaseBump_def reapDelete_def)

lemma cluster_steps_inv: "cluster_steps C k k' \<Longrightarrow> cluster_inv C k \<Longrightarrow> cluster_inv C k'"
  by (induction rule: cluster_steps.induct) (auto dest: cluster_step_inv)

lemma new_inv: "cluster_inv C newCluster"
  by (simp add: cluster_inv_def newCluster_def emptyDB_def channels_ok_def log_is_def ids_unique_def)

lemma cluster_reachable_inv: "cluster_steps C newCluster k \<Longrightarrow> cluster_inv C k"
  using cluster_steps_inv new_inv by blast

section \<open>The log\<close>

lemma sort_key_sorted: "sorted (map f xs) \<Longrightarrow> sort_key f xs = xs"
  by (induction xs) (simp_all add: insort_is_Cons)

definition row_before :: "'v pgRow \<Rightarrow> 'v pgRow \<Rightarrow> bool" where
  "row_before r r' \<longleftrightarrow> (row_channel r = row_channel r' \<longrightarrow>
     row_serial r < row_serial r' \<or> row_serial r = row_serial r' \<and> row_idx r < row_idx r')"

text \<open>A channel's rows are in the table in the order every read asks for.\<close>

lemma orderRows_id:
  assumes "sorted_wrt row_before xs" "\<forall>r \<in> set xs. row_channel r = name"
  shows "orderRows xs = xs"
  unfolding orderRows_def
proof (rule properties_for_sort_key)
  have "sorted (map row_serial xs)"
    using assms unfolding sorted_map by (rule_tac sorted_wrt_mono_rel [OF _ assms(1)]) (force simp: row_before_def)
  then show "sorted (map row_serial xs)" .
  fix k assume "k \<in> set xs"
  let ?P = "\<lambda>r. row_serial k = row_serial r"
  have "sorted_wrt row_before (filter ?P xs)" using assms(1) by (rule sorted_wrt_filter)
  then have "sorted (map row_idx (filter ?P xs))"
    unfolding sorted_map by (rule sorted_wrt_mono_rel [rotated]) (use assms(2) in \<open>force simp: row_before_def\<close>)
  then show "filter ?P xs = filter ?P (sort_key row_idx xs)" by (simp add: filter_sort sort_key_sorted)
qed simp

lemma carries_mem: "carries C n cm rws \<Longrightarrow> r \<in> set rws \<Longrightarrow> row_channel r = n \<and> row_serial r = cm_ChannelSerial cm"
  by (simp add: carries_def)

lemma carries_order: "carries C n cm rws \<Longrightarrow> sorted_wrt row_before rws"
proof -
  assume c: "carries C n cm rws"
  then have "sorted_wrt (<) (map row_idx rws)" by (simp add: carries_def)
  then have "sorted_wrt (\<lambda>r r'. row_idx r < row_idx r') rws" by (simp add: sorted_wrt_map)
  then show ?thesis by (rule sorted_wrt_mono_rel [rotated]) (use c in \<open>auto simp: carries_def row_before_def\<close>)
qed

lemma log_is_Cons: "log_is C (d # ds) rs \<longleftrightarrow> (\<exists>rws rs'. rs = rws @ rs' \<and> carries C (fst d) (snd d) rws \<and> log_is C ds rs')"
proof
  assume "log_is C (d # ds) rs"
  then obtain rws rss where "rs = concat (rws # rss)" "carries C (fst d) (snd d) rws" "list_all2 (\<lambda>d. carries C (fst d) (snd d)) ds rss"
    by (auto simp: log_is_def list_all2_Cons1)
  then show "\<exists>rws rs'. rs = rws @ rs' \<and> carries C (fst d) (snd d) rws \<and> log_is C ds rs'"
    by (intro exI[of _ rws] exI[of _ "concat rss"]) (auto simp: log_is_def)
next
  assume "\<exists>rws rs'. rs = rws @ rs' \<and> carries C (fst d) (snd d) rws \<and> log_is C ds rs'"
  then obtain rws rss where "rs = rws @ concat rss" "carries C (fst d) (snd d) rws" "list_all2 (\<lambda>d. carries C (fst d) (snd d)) ds rss"
    by (auto simp: log_is_def)
  then show "log_is C (d # ds) rs" unfolding log_is_def by (intro exI[of _ "rws # rss"]) simp
qed

lemma log_is_mem: "log_is C ds rs \<Longrightarrow> r \<in> set rs \<Longrightarrow> \<exists>d \<in> set ds. note_of d = (row_channel r, row_serial r)"
proof (induction ds arbitrary: rs)
  case (Cons d ds)
  then obtain rws rs' where r: "rs = rws @ rs'" "carries C (fst d) (snd d) rws" "log_is C ds rs'" by (auto simp: log_is_Cons)
  then show ?case using Cons.IH [OF r(3)] Cons.prems(2) carries_mem [OF r(2)] by (auto simp: note_of_def)
qed (simp add: log_is_def)

lemma log_is_order: "log_is C ds rs \<Longrightarrow> sorted_wrt notify_before (map note_of ds) \<Longrightarrow> sorted_wrt row_before rs"
proof (induction ds arbitrary: rs)
  case (Cons d ds)
  then obtain rws rs' where r: "rs = rws @ rs'" "carries C (fst d) (snd d) rws" "log_is C ds rs'" by (auto simp: log_is_Cons)
  have "row_before x y" if x: "x \<in> set rws" and y: "y \<in> set rs'" for x y
  proof -
    obtain e where "e \<in> set ds" "note_of e = (row_channel y, row_serial y)" using log_is_mem [OF r(3) y] by blast
    with Cons.prems(2) carries_mem [OF r(2) x] show ?thesis by (auto simp: notify_before_def note_of_def row_before_def)
  qed
  with Cons.IH [OF r(3)] Cons.prems(2) carries_order [OF r(2)] show ?case by (simp add: r(1) sorted_wrt_append)
qed (simp add: log_is_def)

lemma log_is_rows:
  assumes "log_is C ds rs" "sorted_wrt notify_before (map note_of ds)" "d \<in> set ds"
  shows "carries C (fst d) (snd d) (filter (\<lambda>r. row_channel r = fst d \<and> row_serial r = cm_ChannelSerial (snd d)) rs)"
  using assms
proof (induction ds arbitrary: rs)
  case (Cons e ds)
  let ?P = "\<lambda>r. row_channel r = fst d \<and> row_serial r = cm_ChannelSerial (snd d)"
  from Cons.prems(1) obtain rws rs' where r: "rs = rws @ rs'" "carries C (fst e) (snd e) rws" "log_is C ds rs'" by (auto simp: log_is_Cons)
  have sep: "f \<in> set ds \<Longrightarrow> note_of f \<noteq> note_of e" for f
    using Cons.prems(2) by (auto simp: notify_before_def)
  show ?case
  proof (cases "d \<in> set ds")
    case True
    with sep [of d] have "filter ?P rws = []" using carries_mem [OF r(2)] by (auto simp: filter_empty_conv note_of_def)
    then show ?thesis using Cons.IH [OF r(3)] Cons.prems(2) True by (simp add: r(1))
  next
    case False
    then have "d = e" using Cons.prems(3) by simp
    moreover from this have "filter ?P rs' = []" using log_is_mem [OF r(3)] sep by (fastforce simp: filter_empty_conv note_of_def)
    moreover have "filter ?P rws = rws" using \<open>d = e\<close> carries_mem [OF r(2)] by (auto simp: filter_id_conv)
    ultimately show ?thesis using r(2) by (simp add: r(1))
  qed
qed simp

lemma done_loads:
  assumes "mplib_laws (pc_lib C)" "cluster_inv C k" "(name, cm) \<in> set (cl_done k)"
  shows "loadChannelMessage C name (cm_ChannelSerial cm) (cl_db k) = Inr (strip_id cm)"
proof -
  let ?rws = "filter (\<lambda>r. row_channel r = name \<and> row_serial r = cm_ChannelSerial cm) (t_log (cl_db k))"
  have c: "carries C name cm ?rws" using assms(2,3) log_is_rows [of C "cl_done k" "t_log (cl_db k)" "(name, cm)"]
    by (auto simp: cluster_inv_def)
  then have "sorted (map row_idx ?rws)" by (simp add: carries_def)
  with load_carried [OF assms(1) c] assms(2,3) show ?thesis
    by (auto simp: loadChannelMessage_def sort_key_sorted cluster_inv_def)
qed

lemma steps_done: "cluster_steps C k k' \<Longrightarrow> \<exists>ds. cl_done k' = cl_done k @ ds"
  by (induction rule: cluster_steps.induct) (auto elim!: cluster_step.cases)

section \<open>Schedules\<close>


text \<open>A schedule of writes as a function: a write begins on a node, or an open one commits at a time. \<open>None\<close> is a schedule that
  cannot go on.\<close>

datatype clusterEvent = EBegin string string string pgWrite | ECommit nat int

definition clusterNext :: "'v pgCodec \<Rightarrow> clusterEvent \<Rightarrow> 'v cluster \<Rightarrow> 'v cluster option" where
  "clusterNext C e k =
     (case e of
        EBegin node series name w \<Rightarrow>
          (case pgBegin C False 0 name w (cl_db k) of
             Answer _ \<Rightarrow> None
           | Proceed plan \<Rightarrow> Some (k\<lparr>cl_open := cl_open k @ [(node, series, name, plan)]\<rparr>))
      | ECommit i now \<Rightarrow>
          if length (cl_open k) \<le> i then None
          else case cl_open k ! i of (node, series, name, plan) \<Rightarrow>
            (case pgFinishTx C now node series name plan (cl_db k) of
               Inl _ \<Rightarrow> None
             | Inr (db', cm) \<Rightarrow>
                 if tick_ok now name (cl_db k) \<and> channel_ok cm
                 then Some \<lparr>cl_db = db', cl_open = take i (cl_open k) @ drop (Suc i) (cl_open k), cl_done = cl_done k @ [(name, cm)]\<rparr>
                 else None))"

fun clusterRun :: "'v pgCodec \<Rightarrow> clusterEvent list \<Rightarrow> 'v cluster \<Rightarrow> 'v cluster option" where
  "clusterRun C [] k = Some k"
| "clusterRun C (e # es) k = (case clusterNext C e k of None \<Rightarrow> None | Some k' \<Rightarrow> clusterRun C es k')"

lemma clusterNext_step:
  assumes "clusterNext C e k = Some k'"
  shows "cluster_step C k k'"
proof (cases e)
  case (EBegin node series name w)
  then obtain plan where "pgBegin C False 0 name w (cl_db k) = Proceed plan" "k' = k\<lparr>cl_open := cl_open k @ [(node, series, name, plan)]\<rparr>"
    using assms by (auto simp: clusterNext_def split: pgStart.splits)
  then show ?thesis using begins by metis
next
  case (ECommit i now)
  obtain node series name plan where o: "cl_open k ! i = (node, series, name, plan)" by (metis prod.exhaust)
  from assms obtain db' cm where f: "i < length (cl_open k)" "pgFinishTx C now node series name plan (cl_db k) = Inr (db', cm)"
    "tick_ok now name (cl_db k)" "channel_ok cm"
    "k' = \<lparr>cl_db = db', cl_open = take i (cl_open k) @ drop (Suc i) (cl_open k), cl_done = cl_done k @ [(name, cm)]\<rparr>"
    by (auto simp: ECommit clusterNext_def o split: sum.splits if_splits)
  have "cl_open k = take i (cl_open k) @ (node, series, name, plan) # drop (Suc i) (cl_open k)"
    using f(1) o by (metis id_take_nth_drop)
  moreover have "fst (pgFinish C TxOk now node series name plan (cl_db k)) = db'" by (simp add: pgFinish_def f(2))
  ultimately have "cluster_step C k (k\<lparr>cl_db := db', cl_open := take i (cl_open k) @ drop (Suc i) (cl_open k), cl_done := cl_done k @ [(name, cm)]\<rparr>)"
    using cluster_step.commits [OF _ f(3,2) _ f(4), where txe = TxOk] by fastforce
  then show ?thesis unfolding f(5) by (cases k) simp
qed

lemma moves_first: "cluster_steps C k1 k2 \<Longrightarrow> cluster_step C k k1 \<Longrightarrow> cluster_steps C k k2"
  by (induction rule: cluster_steps.induct) (auto intro: cluster_steps.intros)

lemma steps_trans: "cluster_steps C k2 k3 \<Longrightarrow> cluster_steps C k1 k2 \<Longrightarrow> cluster_steps C k1 k3"
  by (induction rule: cluster_steps.induct) (auto intro: moves)

lemma clusterRun_steps: "clusterRun C es k = Some k' \<Longrightarrow> cluster_steps C k k'"
  by (induction es arbitrary: k) (auto intro: stays moves_first [OF _ clusterNext_step] split: option.splits)

text \<open>Two nodes publish to one channel, the later one commits first; then a member enters.\<close>

definition treeCodec :: "wval pgCodec" where
  "treeCodec = \<lparr>pc_lib = treeLib, pc_float = oneFmt, pc_num = id\<rparr>"

lemma treeCodec_laws: "mplib_laws (pc_lib treeCodec)"
  by (simp add: treeCodec_def treeLib_laws)

definition demoMsg :: "string \<Rightarrow> Message" where
  "demoMsg d = zeroMessage\<lparr>m_Data := AnyStr d\<rparr>"

definition demoEnter :: pgWrite where
  "demoEnter = WPresence 4 False [zeroPresence\<lparr>p_Action := PresenceEnter, p_ClientID := ''c'', p_ConnectionID := ''k''\<rparr>]"

definition demoRun1 :: "clusterEvent list" where
  "demoRun1 = [EBegin ''A'' ''a'' ''r'' (WStore ''f'' [demoMsg ''x'']), EBegin ''B'' ''b'' ''r'' (WStore ''g'' [demoMsg ''y'']),
     ECommit 1 5, ECommit 0 5]"

definition demoRun2 :: "clusterEvent list" where
  "demoRun2 = [EBegin ''A'' ''a'' ''r'' demoEnter, ECommit 0 4]"

definition demo4 :: "wval cluster" where
  "demo4 = the (clusterRun treeCodec demoRun1 newCluster)"

definition demo6 :: "wval cluster" where
  "demo6 = the (clusterRun treeCodec demoRun2 demo4)"

text \<open>The notifications a schedule ends with.\<close>

definition noted :: "'v cluster option \<Rightarrow> (string \<times> string) list" where
  "noted x = (case x of None \<Rightarrow> [] | Some k \<Rightarrow> map note_of (cl_done k))"

lemma noted_Some: "noted x \<noteq> [] \<Longrightarrow> x = Some (the x) \<and> noted x = map note_of (cl_done (the x))"
  by (cases x) (simp_all add: noted_def)

text \<open>The serials of the schedules, the ids their writes are stamped with, and the rules that run them with the encodings left
  as they are.\<close>

lemma demo_serials:
  "format_channel_serial 5 0 ''a'' = ''00000000000005-000@a''" "format_channel_serial 5 0 ''b'' = ''00000000000005-000@b''"
  "next_channel_serial 5 ''00000000000005-000@b'' ''a'' = Some ''00000000000005-001@a''"
  "next_channel_serial 4 ''00000000000005-001@a'' ''a'' = Some ''00000000000005-002@a''"
  "TimestampOr0 ''00000000000005-000@b'' = 5" "TimestampOr0 ''00000000000005-001@a'' = 5"
  "StampMessageIDs ''f'' [demoMsg ''x''] = Inr (''f'', [demoMsg ''x''\<lparr>m_ID := ''f:0''\<rparr>])"
  "StampMessageIDs ''g'' [demoMsg ''y''] = Inr (''g'', [demoMsg ''y''\<lparr>m_ID := ''g:0''\<rparr>])"
  by code_simp+

lemma stamped_sel [simp]: "m_ID (StampCreateVersion m) = m_ID m" "m_Serial (StampCreateVersion m) = m_Serial m"
  by (simp_all add: StampCreateVersion_def Let_def)

lemma TimestampOr0_range: "int64_range (TimestampOr0 s)"
  by (auto simp: TimestampOr0_def Timestamp_def parse_int64_def int64_range_def Let_def split: sum.splits option.splits if_splits prod.splits)

lemma no_base64: "\<not> has_suffix (getOuterEncoding []) ''base64''"
  by code_simp

lemma demo_ok: "message_ok (StampCreateVersion (demoMsg d\<lparr>m_ID := i, m_Serial := s, m_Action := MessageCreate\<rparr>))"
  by (simp add: StampCreateVersion_def Let_def demoMsg_def message_ok_def body_ok_def zeroMessage_def canonical_def messageActionOf_def int64_range_def [of 0]
      version_ok_def TimestampOr0_range no_base64)

lemma demo_message_serials: "MessageSerial ''00000000000005-000@b'' 0 \<noteq> MessageSerial ''00000000000005-001@a'' 0"
  by code_simp

lemmas pg_run = clusterNext_def pgBegin_def pgStoreStart_def pgMutateStart_def pgPresenceStart_def pgAnnotateStart_def preCheck_def findID_def
  pgFinishTx_def finishStore_def finishMutate_def finishPresence_def finishAnnotate_def advance_channel_serial_def insertRow_def
  insertMessage_def updateMessage_def storeRow_def presenceRow_def foldPresence_def upsertMember_def sameMember_def pg_notify_def
  tryE_def orE_def tick_ok_def idArg_def Let_def newCluster_def emptyDB_def

lemma demo_presence_ok: "presence_ok (StampPresenceMember s i (zeroPresence\<lparr>p_Action := PresenceEnter, p_ClientID := c, p_ConnectionID := d\<rparr>))"
  by (simp add: StampPresenceMember_def Let_def presence_ok_def zeroPresence_def canonical_def presenceActionOf_def int64_range_def [of 2]
      TimestampOr0_range no_base64)

lemma stampedPresence_sel [simp]: "p_ID (StampPresenceMember s i p) = p_ID p" "p_Action (StampPresenceMember s i p) = p_Action p"
  by (simp_all add: StampPresenceMember_def Let_def)

lemma zeroPresence_ID [simp]: "p_ID zeroPresence = []"
  by (simp add: zeroPresence_def)

lemma demo_facts:
  "noted (clusterRun treeCodec demoRun1 newCluster) = [(''r'', ''00000000000005-000@b''), (''r'', ''00000000000005-001@a'')]"
  "noted (clusterRun treeCodec demoRun2 demo4) =
     [(''r'', ''00000000000005-000@b''), (''r'', ''00000000000005-001@a''), (''r'', ''00000000000005-002@a'')]"
  "cm_ID (snd (hd (cl_done demo4))) = ''g''"
  by (simp_all add: demo4_def demoRun1_def demoRun2_def demoEnter_def pg_run demo_serials demo_ok demo_presence_ok demo_message_serials
      demo_message_serials [symmetric] channel_ok_def zeroChannelMessage_def noted_def note_of_def)

lemma demo_run: "cluster_steps treeCodec newCluster demo4" "cluster_steps treeCodec demo4 demo6" "cluster_steps treeCodec newCluster demo6"
  "map note_of (cl_done demo4) = [(''r'', ''00000000000005-000@b''), (''r'', ''00000000000005-001@a'')]"
  "map note_of (cl_done demo6) =
     [(''r'', ''00000000000005-000@b''), (''r'', ''00000000000005-001@a''), (''r'', ''00000000000005-002@a'')]"
proof -
  have r: "clusterRun treeCodec demoRun1 newCluster = Some demo4" "clusterRun treeCodec demoRun2 demo4 = Some demo6"
    using noted_Some [of "clusterRun treeCodec demoRun1 newCluster"] noted_Some [of "clusterRun treeCodec demoRun2 demo4"]
    by (simp_all add: demo4_def demo6_def demo_facts(1,2)[unfolded demo4_def])
  show "cluster_steps treeCodec newCluster demo4" "cluster_steps treeCodec demo4 demo6" using r by (simp_all add: clusterRun_steps)
  then show "cluster_steps treeCodec newCluster demo6" using clusterRun_steps [OF r(2)] steps_trans by blast
  show "map note_of (cl_done demo4) = [(''r'', ''00000000000005-000@b''), (''r'', ''00000000000005-001@a'')]"
    "map note_of (cl_done demo6) = [(''r'', ''00000000000005-000@b''), (''r'', ''00000000000005-001@a''), (''r'', ''00000000000005-002@a'')]"
    using demo_facts(1,2) r by (simp_all add: noted_def)
qed

section \<open>Properties\<close>

text \<open>C3: Whatever the interleaving of the two parts of the writes of any number of nodes, and whichever of them fail or lose their
  answer: the serials committed on a channel increase strictly in commit order, each commit is notified exactly once and in
  that order, the rows of a channel are in the log in the order the reads ask for, and no two rows of a channel
  have one id.\<close>

theorem pg_commit_order:
  assumes "cluster_steps C newCluster k"
  shows "t_notify (cl_db k) = map note_of (cl_done k) \<and> sorted_wrt notify_before (map note_of (cl_done k)) \<and>
    sorted_wrt row_before (t_log (cl_db k)) \<and> ids_unique (t_log (cl_db k))"
  using cluster_reachable_inv [OF assms] log_is_order [of C "cl_done k" "t_log (cl_db k)"] by (auto simp: cluster_inv_def)

theorem pg_commit_order_witness:
  "cluster_steps treeCodec newCluster demo6 \<and> length (t_notify (cl_db demo6)) = 3 \<and>
   sorted_wrt notify_before (t_notify (cl_db demo6))"
proof -
  have "t_notify (cl_db demo6) = map note_of (cl_done demo6) \<and> sorted_wrt notify_before (map note_of (cl_done demo6))"
    using pg_commit_order [OF demo_run(3)] by blast
  then show ?thesis using demo_run(3) by (simp add: demo_run(5))
qed



end
