(* ===== verification/PgHistory.thy ===== *)
theory PgHistory
  imports PgCluster
begin

text \<open>
  The history read of the postgres backend against its specification: the rows of the log the query selects, in the direction of
  the scan, cut at the limit, with the flag that says whether more follow.
\<close>

section \<open>Rows and items\<close>

definition itemOf :: "'v pgCodec \<Rightarrow> Kind \<Rightarrow> 'v \<Rightarrow> pg_error + HistItem" where
  "itemOf C kind v =
     (if kind = KindPresence then map_sum id ItemPresence (pgPresence C v)
      else if kind = KindAnnotation then map_sum id ItemAnnotation (pgAnnotation C v)
      else map_sum id ItemMessage (pgMessage C v))"

definition putItems :: "(string \<times> HistItem) list \<Rightarrow> ChannelMessage list \<Rightarrow> ChannelMessage list" where
  "putItems ps cms = foldl (\<lambda>cms (s, it). putItem s it cms) cms ps"

lemma histRow_item: "itemOf C kind (row_payload r) = Inr it \<Longrightarrow>
    histRow C kind page r = Inr (page\<lparr>hp_ChannelMessages := putItem (row_serial r) it (hp_ChannelMessages page)\<rparr>)"
  by (auto simp: histRow_def itemOf_def tryE_def appendPresence_def appendAnnotation_def appendMessage_def split: if_splits sum.splits)

lemma foldE_hist:
  assumes "list_all2 (\<lambda>r it. itemOf C kind (row_payload r) = Inr it) rs its"
  shows "foldE (histRow C kind) page rs =
    Inr (page\<lparr>hp_ChannelMessages := putItems (zip (map row_serial rs) its) (hp_ChannelMessages page)\<rparr>)"
  using assms by (induction rs its arbitrary: page rule: list_all2_induct) (simp_all add: putItems_def histRow_item tryE_def)

section \<open>Pages\<close>

text \<open>A page of one kind.\<close>

definition pure :: "Kind \<Rightarrow> ChannelMessage \<Rightarrow> bool" where
  "pure k cm \<longleftrightarrow>
     (if Normalize k = KindPresence then cm_Messages cm = [] \<and> cm_Annotations cm = []
      else if Normalize k = KindAnnotation then cm_Messages cm = [] \<and> cm_Presence cm = []
      else cm_Presence cm = [] \<and> cm_Annotations cm = [])"

lemma pure_length: "pure k cm \<Longrightarrow> cmLen cm = int (length (CMItems cm k))"
  by (auto simp: pure_def cmLen_def CMItems_def)

lemma putItems_pairs:
  "\<forall>p \<in> set ps. of_kind k (snd p) \<Longrightarrow> concat (map (cm_pairs k) (putItems ps cms)) = concat (map (cm_pairs k) cms) @ ps"
  by (induction ps arbitrary: cms) (auto simp: putItems_def putItem_pairs)

lemma it_Append_pure: "of_kind k it \<Longrightarrow> pure k cm \<Longrightarrow> pure k (it_Append it cm)"
  by (cases it) (auto simp: pure_def of_kind_def kind_defs split: if_splits)

lemma zero_pure: "pure k (zeroChannelMessage\<lparr>cm_ChannelSerial := s\<rparr>)"
  by (simp add: pure_def zeroChannelMessage_def)

lemma putItem_pure:
  assumes "of_kind k it" "\<forall>cm \<in> set cms. pure k cm"
  shows "\<forall>cm \<in> set (putItem s it cms). pure k cm"
  using assms by (cases cms rule: rev_cases) (auto simp: putItem_def it_Append_pure zero_pure)

lemma putItems_pure: "\<forall>p \<in> set ps. of_kind k (snd p) \<Longrightarrow> \<forall>cm \<in> set cms. pure k cm \<Longrightarrow> \<forall>cm \<in> set (putItems ps cms). pure k cm"
proof (induction ps arbitrary: cms)
  case (Cons p ps)
  then have "\<forall>cm \<in> set (putItem (fst p) (snd p) cms). pure k cm" by (intro putItem_pure) simp_all
  with Cons show ?case by (simp add: putItems_def split_beta)
qed (simp add: putItems_def)

lemma itemCount_length:
  assumes "\<forall>cm \<in> set (hp_ChannelMessages page). pure k cm"
  shows "itemCount page = int (length (page_pairs k page))"
proof -
  have "foldl (\<lambda>n cm. n + cmLen cm) n cms = n + int (length (concat (map (cm_pairs k) cms)))" if "\<forall>cm \<in> set cms. pure k cm" for n cms
    using that by (induction cms arbitrary: n) (auto simp: pure_length cm_pairs_def)
  then show ?thesis using assms by (simp add: itemCount_def page_pairs_def)
qed

lemma trimCM_items:
  assumes "pure k cm" "0 \<le> l"
  shows "cm_pairs k (trimCM l cm) = take (nat l) (cm_pairs k cm)"
proof -
  have "CMItems (trimCM l cm) k = take (nat l) (CMItems cm k)" "cm_ChannelSerial (trimCM l cm) = cm_ChannelSerial cm"
    using assms by (auto simp: pure_def CMItems_def trimCM_def take_map kind_defs split: if_splits)
  then show ?thesis by (simp add: cm_pairs_def take_map)
qed

lemma trimCMs_pairs:
  "\<forall>cm \<in> set cms. pure k cm \<Longrightarrow> 0 \<le> l \<Longrightarrow>
   concat (map (cm_pairs k) (trimCMs l cms)) = take (nat l) (concat (map (cm_pairs k) cms))"
proof (induction l cms rule: trimCMs.induct)
  case (2 l cm cms)
  then have p: "cmLen cm = int (length (cm_pairs k cm))" by (simp add: pure_length cm_pairs_def)
  show ?case
  proof (cases "l \<ge> cmLen cm \<and> l \<noteq> 0")
    case True
    then have "nat l = length (cm_pairs k cm) + nat (l - cmLen cm)" using p by arith
    with True 2 show ?thesis by simp
  next
    case False
    with 2 p show ?thesis by (auto simp: trimCM_items)
  qed
qed simp

lemma finishPage_pairs:
  assumes "\<forall>cm \<in> set (hp_ChannelMessages page). pure k cm" "\<not> hp_HasMore page"
    "page_pairs k page = limitRows l xs"
  shows "page_pairs k (finishPage l page) = limited l xs" "hp_HasMore (finishPage l page) = cut_short l xs"
proof -
  have n: "itemCount page = int (length (limitRows l xs))" using itemCount_length [OF assms(1)] assms(3) by simp
  have "l > 0 \<Longrightarrow> page_pairs k (trimToLimit l page) = take (nat l) (limitRows l xs)"
    using trimCMs_pairs [OF assms(1), of l] assms(3) by (simp add: trimToLimit_def page_pairs_def)
  then show "page_pairs k (finishPage l page) = limited l xs"
    using assms(3) n by (auto simp: finishPage_def limited_def limitRows_def page_pairs_def min_def)
  show "hp_HasMore (finishPage l page) = cut_short l xs"
    using assms(2) n by (auto simp: finishPage_def cut_short_def limitRows_def min_def)
qed

section \<open>The items of the log\<close>

fun kindOf :: "HistItem \<Rightarrow> Kind" where
  "kindOf (ItemMessage m) = KindMessage"
| "kindOf (ItemPresence p) = KindPresence"
| "kindOf (ItemAnnotation a) = KindAnnotation"

text \<open>A history read gives an annotation without the summary of its delivery.\<close>

definition items_of :: "ChannelMessage \<Rightarrow> HistItem list" where
  "items_of cm = map ItemMessage (cm_Messages cm) @ map ItemPresence (cm_Presence cm) @ map (ItemAnnotation \<circ> strip_ann) (cm_Annotations cm)"

text \<open>What was committed, item by item: the channel, the serial, the index in the batch, the item.\<close>

type_synonym logItem = "string \<times> string \<times> nat \<times> HistItem"

definition doneItems :: "string \<times> ChannelMessage \<Rightarrow> logItem list" where
  "doneItems d = map (\<lambda>(i, it). (fst d, cm_ChannelSerial (snd d), i, it)) (enumerate 0 (items_of (snd d)))"

definition rowItem :: "'v pgCodec \<Rightarrow> 'v pgRow \<Rightarrow> HistItem" where
  "rowItem C r = (case itemOf C (row_kind r) (row_payload r) of Inr it \<Rightarrow> it | Inl _ \<Rightarrow> ItemMessage zeroMessage)"

definition rowTuple :: "'v pgCodec \<Rightarrow> 'v pgRow \<Rightarrow> logItem" where
  "rowTuple C r = (row_channel r, row_serial r, row_idx r, rowItem C r)"

lemma carries_items:
  assumes "mplib_laws (pc_lib C)" "carries C n cm rws" "channel_ok cm"
  shows "map (rowItem C) rws = items_of cm" "\<forall>r \<in> set rws. itemOf C (row_kind r) (row_payload r) = Inr (rowItem C r) \<and> kindOf (rowItem C r) = row_kind r"
proof -
  let ?g = "\<lambda>(kd, v, b :: 'a option). itemOf C kd v"
  have t: "map triple rws = payloads C cm" using assms(2) by (simp add: carries_def)
  have o: "\<forall>m \<in> set (cm_Messages cm). message_ok m" "\<forall>p \<in> set (cm_Presence cm). presence_ok p" "\<forall>a \<in> set (cm_Annotations cm). annotation_ok a"
    using assms(3) by (simp_all add: channel_ok_def list_all_iff)
  have "map ?g (map triple rws) = map Inr (items_of cm)"
    unfolding t payloads_def items_of_def using o decode_back [OF assms(1)] by (simp add: itemOf_def kind_defs comp_def)
  then have all: "map (\<lambda>r. itemOf C (row_kind r) (row_payload r)) rws = map Inr (items_of cm)" by (simp add: triple_def comp_def)
  have dec: "itemOf C (row_kind r) (row_payload r) = Inr (rowItem C r)" if "r \<in> set rws" for r
  proof -
    have "itemOf C (row_kind r) (row_payload r) \<in> set (map Inr (items_of cm))" unfolding all [symmetric] using that by simp
    then show ?thesis by (auto simp: rowItem_def)
  qed
  then have "map Inr (map (rowItem C) rws) = (map Inr (items_of cm) :: (pg_error + HistItem) list)" using all by (simp add: comp_def cong: map_cong)
  then show "map (rowItem C) rws = items_of cm" by (metis inj_Inr inj_map_eq_map)
  have k: "row_kind r \<in> {KindMessage, KindPresence, KindAnnotation}" if "r \<in> set rws" for r
  proof -
    have "triple r \<in> set (payloads C cm)" using that by (simp add: t [symmetric])
    then show ?thesis by (auto simp: payloads_def)
  qed
  have "kindOf (rowItem C r) = row_kind r" if r: "r \<in> set rws" for r
    using dec [OF r] k [OF r] by (cases "rowItem C r") (auto simp: itemOf_def kind_defs map_sum_def split: if_splits sum.splits)
  with dec show "\<forall>r \<in> set rws. itemOf C (row_kind r) (row_payload r) = Inr (rowItem C r) \<and> kindOf (rowItem C r) = row_kind r" by blast
qed

lemma carries_tuples:
  assumes "mplib_laws (pc_lib C)" "carries C (fst d) (snd d) rws" "channel_ok (snd d)"
  shows "map (rowTuple C) rws = doneItems d"
proof (rule nth_equalityI)
  note its = carries_items(1) [OF assms]
  then have l: "length (items_of (snd d)) = length rws" by (metis length_map)
  then show "length (map (rowTuple C) rws) = length (doneItems d)" by (simp add: doneItems_def)
  fix i assume i: "i < length (map (rowTuple C) rws)"
  have "row_idx (rws ! i) = i" using assms(2) i by (metis add_cancel_left_left carries_def length_map nth_map nth_upt)
  moreover have "row_channel (rws ! i) = fst d" "row_serial (rws ! i) = cm_ChannelSerial (snd d)"
    using carries_mem [OF assms(2)] i by simp_all
  moreover have "rowItem C (rws ! i) = items_of (snd d) ! i" using its i by (metis length_map nth_map)
  ultimately show "map (rowTuple C) rws ! i = doneItems d ! i" using i l by (simp add: rowTuple_def doneItems_def nth_enumerate_eq)
qed

lemma log_tuples:
  assumes "mplib_laws (pc_lib C)" "log_is C ds rs" "\<forall>d \<in> set ds. channel_ok (snd d)"
  shows "map (rowTuple C) rs = concat (map doneItems ds) \<and>
    (\<forall>r \<in> set rs. itemOf C (row_kind r) (row_payload r) = Inr (rowItem C r) \<and> kindOf (rowItem C r) = row_kind r)"
  using assms(2,3)
proof (induction ds arbitrary: rs)
  case (Cons d ds)
  then obtain rws rs' where r: "rs = rws @ rs'" "carries C (fst d) (snd d) rws" "log_is C ds rs'" by (auto simp: log_is_Cons)
  with Cons show ?case using carries_tuples [OF assms(1) r(2)] carries_items(2) [OF assms(1) r(2)] by auto
qed (simp add: log_is_def)

section \<open>The specified selection\<close>

text \<open>The items of the channel and the kind asked for, within the bounds, and strictly beyond the cursor in scan direction.\<close>

definition beyond :: "bool \<Rightarrow> string \<times> int \<Rightarrow> string \<Rightarrow> nat \<Rightarrow> bool" where
  "beyond fw c s i \<longleftrightarrow> fst c = [] \<or> (if fw then fst c < s \<or> fst c = s \<and> snd c < int i else s < fst c \<or> s = fst c \<and> int i < snd c)"

definition histSel :: "string \<Rightarrow> HistoryQuery \<Rightarrow> string \<times> int \<Rightarrow> logItem \<Rightarrow> bool" where
  "histSel name q c x = (case x of (n, s, i, it) \<Rightarrow>
     n = name \<and> kindOf it = Normalize (hq_Kind q) \<and> hist_sel q s \<and> beyond (forwards q) c s i)"

definition pairOf :: "logItem \<Rightarrow> string \<times> HistItem" where
  "pairOf x = (case x of (n, s, i, it) \<Rightarrow> (s, it))"

definition selected :: "string \<Rightarrow> HistoryQuery \<Rightarrow> string \<times> int \<Rightarrow> (string \<times> ChannelMessage) list \<Rightarrow> (string \<times> HistItem) list" where
  "selected name q c ds = scanOrder (forwards q) (map pairOf (filter (histSel name q c) (concat (map doneItems ds))))"

lemma beyond_row: "beyondCursor fw c r = beyond fw c (row_serial r) (row_idx r)"
  by (cases c) (simp add: beyondCursor_def beyond_def)

lemma histWhere_sel: "kindOf (rowItem C r) = row_kind r \<Longrightarrow> histWhere name q c r = histSel name q c (rowTuple C r)"
proof -
  assume k: "kindOf (rowItem C r) = row_kind r"
  obtain lo up where t: "TimestampBounds (hq_Start q) (hq_End q) = (lo, up)" by fastforce
  show ?thesis
    unfolding histWhere_def histSel_def rowTuple_def hist_sel_def in_bounds_def t prod.case fst_conv snd_conv k beyond_row by blast
qed

lemma of_kindOf: "Normalize k = kindOf it \<Longrightarrow> of_kind k it"
  by (cases it) (simp_all add: of_kind_def KindMessage_def KindPresence_def KindAnnotation_def)

lemma limitRows_map: "map f (limitRows l xs) = limitRows l (map f xs)"
  by (simp add: limitRows_def take_map)

lemma scanOrder_map: "map f (scanOrder fw xs) = scanOrder fw (map f xs)"
  by (simp add: scanOrder_def rev_map)

lemma selection_rows:
  fixes name :: string and q :: HistoryQuery and c :: "string \<times> int"
  assumes "mplib_laws (pc_lib C)" "cluster_inv C k"
  defines "rs \<equiv> filter (histWhere name q c) (t_log (cl_db k))"
  shows "map pairOf (map (rowTuple C) rs) = map pairOf (filter (histSel name q c) (concat (map doneItems (cl_done k))))"
    "\<forall>r \<in> set rs. itemOf C (Normalize (hq_Kind q)) (row_payload r) = Inr (rowItem C r) \<and> of_kind (hq_Kind q) (rowItem C r)"
    "orderRows rs = rs"
proof -
  have l: "log_is C (cl_done k) (t_log (cl_db k))" "\<forall>d \<in> set (cl_done k). channel_ok (snd d)" "sorted_wrt notify_before (map note_of (cl_done k))"
    using assms(2) unfolding cluster_inv_def by (blast, blast, metis)
  note t = log_tuples [OF assms(1) l(1,2)]
  have "filter (histSel name q c) (map (rowTuple C) (t_log (cl_db k))) = map (rowTuple C) rs"
    unfolding rs_def filter_map comp_def using t histWhere_sel [where C = C] by (metis (mono_tags, lifting) filter_cong)
  then show "map pairOf (map (rowTuple C) rs) = map pairOf (filter (histSel name q c) (concat (map doneItems (cl_done k))))" using t by simp
  have w: "row_kind r = Normalize (hq_Kind q)" "row_channel r = name" if "r \<in> set rs" for r
    using that by (auto simp: rs_def histWhere_def split: prod.splits)
  then show "\<forall>r \<in> set rs. itemOf C (Normalize (hq_Kind q)) (row_payload r) = Inr (rowItem C r) \<and> of_kind (hq_Kind q) (rowItem C r)"
    using t by (auto simp: rs_def intro!: of_kindOf)
  show "orderRows rs = rs"
    using w(2) log_is_order [OF l(1,3)] by (intro orderRows_id) (auto simp: rs_def intro: sorted_wrt_filter)
qed

section \<open>Properties\<close>


definition demoQuery :: HistoryQuery where
  "demoQuery = zeroQuery\<lparr>hq_Kind := KindMessage, hq_Cursor := ''00000000000005-001@a:000'', hq_Limit := 1\<rparr>"


section \<open>Whole channel messages\<close>

text \<open>The items of a batch, put one after the other under its serial, are the channel message again.\<close>

lemma putItems_batch:
  assumes "its \<noteq> []" "cms = [] \<or> cm_ChannelSerial (last cms) \<noteq> s"
  shows "putItems (map (Pair s) its) cms = cms @ [foldl (\<lambda>c it. it_Append it c) (zeroChannelMessage\<lparr>cm_ChannelSerial := s\<rparr>) its]"
proof -
  have more: "putItems (map (Pair s) xs) (cms @ [c]) = cms @ [foldl (\<lambda>c it. it_Append it c) c xs]" if "cm_ChannelSerial c = s" for xs c
    using that by (induction xs arbitrary: c) (simp_all add: putItems_def putItem_def it_Append_sel)
  obtain x xs where "its = x # xs" using assms(1) by (cases its) auto
  then show ?thesis using assms(2) more [of "it_Append x (zeroChannelMessage\<lparr>cm_ChannelSerial := s\<rparr>)" xs]
    by (auto simp: putItems_def putItem_def it_Append_sel)
qed

lemma foldl_it_Append:
  "foldl (\<lambda>c it. it_Append it c) c (map ItemMessage ms) = c\<lparr>cm_Messages := cm_Messages c @ ms\<rparr>"
  "foldl (\<lambda>c it. it_Append it c) c (map ItemPresence ps) = c\<lparr>cm_Presence := cm_Presence c @ ps\<rparr>"
  "foldl (\<lambda>c it. it_Append it c) c (map ItemAnnotation as) = c\<lparr>cm_Annotations := cm_Annotations c @ as\<rparr>"
  by (induction ms arbitrary: c, simp_all) (induction ps arbitrary: c, simp_all, induction as arbitrary: c, simp_all)

lemma items_batch:
  "cm_Annotations cm = [] \<Longrightarrow> foldl (\<lambda>c it. it_Append it c) (zeroChannelMessage\<lparr>cm_ChannelSerial := cm_ChannelSerial cm\<rparr>) (items_of cm) = strip_id cm"
  by (simp add: items_of_def foldl_it_Append zeroChannelMessage_def strip_id_def)

lemma items_nonempty: "items_of cm = [] \<longleftrightarrow> cm_empty cm"
  by (auto simp: items_of_def cm_empty_def)

lemma putItems_append: "putItems (ps @ qs) cms = putItems qs (putItems ps cms)"
  by (simp add: putItems_def)

lemma putItems_batches:
  assumes "sorted_wrt (\<lambda>a b. cm_ChannelSerial a < cm_ChannelSerial b) bs" "\<forall>b \<in> set bs. \<not> cm_empty b \<and> cm_Annotations b = []"
    "\<forall>c \<in> set cms. \<forall>b \<in> set bs. cm_ChannelSerial c < cm_ChannelSerial b"
  shows "putItems (concat (map (\<lambda>b. map (Pair (cm_ChannelSerial b)) (items_of b)) bs)) cms = cms @ map strip_id bs"
  using assms
proof (induction bs arbitrary: cms)
  case (Cons b bs)
  have "putItems (map (Pair (cm_ChannelSerial b)) (items_of b)) cms = cms @ [strip_id b]"
    using Cons.prems putItems_batch [of "items_of b" cms "cm_ChannelSerial b"] items_batch [of b]
    by (cases cms rule: rev_cases) (auto simp: items_nonempty)
  then show ?case using Cons.prems Cons.IH [of "cms @ [strip_id b]"] by (auto simp: putItems_append)
qed (simp add: putItems_def)

text \<open>The kind of what a channel message carries.\<close>

definition cm_kind :: "ChannelMessage \<Rightarrow> Kind" where
  "cm_kind cm = (if cm_Presence cm \<noteq> [] then KindPresence else if cm_Annotations cm \<noteq> [] then KindAnnotation else KindMessage)"

definition missed :: "string \<Rightarrow> Kind \<Rightarrow> string \<Rightarrow> (string \<times> ChannelMessage) list \<Rightarrow> ChannelMessage list" where
  "missed name kd after ds = map snd (filter (\<lambda>d. fst d = name \<and> cm_kind (snd d) = kd \<and> after < cm_ChannelSerial (snd d)) ds)"

lemma items_kind: "one_kind cm \<Longrightarrow> it \<in> set (items_of cm) \<Longrightarrow> kindOf it = cm_kind cm"
  by (auto simp: one_kind_def items_of_def cm_kind_def)

lemma missed_items:
  assumes "\<forall>d \<in> set ds. one_kind (snd d) \<and> [] < cm_ChannelSerial (snd d)" "kd = KindMessage \<or> kd = KindPresence"
  shows "map pairOf (filter (histSel name (missedQuery kd after) ([], 0)) (concat (map doneItems ds))) =
    concat (map (\<lambda>b. map (Pair (cm_ChannelSerial b)) (items_of b)) (missed name kd after ds))"
  using assms(1)
proof (induction ds)
  case Nil
  then show ?case by (simp add: missed_def)
next
  case (Cons d ds)
  let ?q = "missedQuery kd after" and ?cm = "snd d"
  let ?keep = "fst d = name \<and> cm_kind ?cm = kd \<and> after < cm_ChannelSerial ?cm"
  have q: "Normalize (hq_Kind ?q) = kd" "hist_sel ?q s = (after = [] \<or> after < s)" "forwards ?q" for s
    using assms(2) by (auto simp: missedQuery_def zeroQuery_def kind_defs hist_sel_def in_bounds_def TimestampBounds_def forwards_def)
  have sel: "histSel name ?q ([], 0) x \<longleftrightarrow> ?keep" if x: "x \<in> set (doneItems d)" for x
  proof -
    obtain i it where xi: "x = (fst d, cm_ChannelSerial ?cm, i, it)" "it \<in> set (items_of ?cm)"
      using x by (auto simp: doneItems_def dest: in_set_enumerate_eq [THEN iffD1] simp: in_set_enumerate_eq)
    have "kindOf it = cm_kind ?cm" using items_kind [OF _ xi(2)] Cons.prems by simp
    then show ?thesis using Cons.prems by (auto simp: xi(1) histSel_def q beyond_def)
  qed
  then have "filter (histSel name ?q ([], 0)) (doneItems d) = (if ?keep then doneItems d else [])"
    by (auto simp: filter_id_conv filter_empty_conv)
  moreover have "map pairOf (doneItems d) = map (Pair (cm_ChannelSerial ?cm)) (items_of ?cm)"
  proof -
    have "map pairOf (doneItems d) = map (Pair (cm_ChannelSerial ?cm)) (map snd (enumerate 0 (items_of ?cm)))"
      unfolding doneItems_def map_map by (rule map_cong) (auto simp: pairOf_def)
    then show ?thesis by (simp only: map_snd_enumerate)
  qed
  ultimately show ?case using Cons by (auto simp: missed_def)
qed

lemma missed_sorted:
  assumes "cluster_inv C k"
  shows "sorted_wrt (\<lambda>a b. cm_ChannelSerial a < cm_ChannelSerial b) (missed name kd after (cl_done k))"
proof -
  let ?P = "\<lambda>d. fst d = name \<and> cm_kind (snd d) = kd \<and> after < cm_ChannelSerial (snd d)"
  have "sorted_wrt (\<lambda>d e. notify_before (note_of d) (note_of e)) (cl_done k)"
    using assms unfolding cluster_inv_def by (metis sorted_wrt_map)
  then have "sorted_wrt (\<lambda>d e. notify_before (note_of d) (note_of e)) (filter ?P (cl_done k))" by (rule sorted_wrt_filter)
  then show ?thesis unfolding missed_def sorted_wrt_map
    by (rule sorted_wrt_mono_rel [rotated]) (auto simp: notify_before_def note_of_def)
qed

lemma inv_serials: "cluster_inv C k \<Longrightarrow> d \<in> set (cl_done k) \<Longrightarrow> [] < cm_ChannelSerial (snd d)"
proof -
  assume i: "cluster_inv C k" and d: "d \<in> set (cl_done k)"
  have "t_notify (cl_db k) = map note_of (cl_done k)" "channels_ok (cl_db k)" using i by (auto simp: cluster_inv_def)
  then have "(fst d, cm_ChannelSerial (snd d)) \<in> set (t_notify (cl_db k))" using d by (auto simp: note_of_def)
  then show ?thesis using channels_okD(2) [OF \<open>channels_ok (cl_db k)\<close>] by (cases "cm_ChannelSerial (snd d)") auto
qed

text \<open>What the recovery of one kind reads: the channel messages of that kind after the last one delivered.\<close>

lemma missed_history:
  assumes "mplib_laws (pc_lib C)" "cluster_inv C k" "kd = KindMessage \<or> kd = KindPresence"
  shows "pgHistory C False name (missedQuery kd after) (cl_db k) =
    Inr \<lparr>hp_ChannelMessages = map strip_id (missed name kd after (cl_done k)), hp_HasMore = False\<rparr>"
proof -
  let ?q = "missedQuery kd after" and ?rs = "filter (histWhere name (missedQuery kd after) ([], 0)) (t_log (cl_db k))"
  have q: "hq_Cursor ?q = []" "hq_Limit ?q = 0" "\<not> hq_Collapse ?q" "forwards ?q" "hq_Kind ?q = kd" "limitFits 0" "fitsInt4 0"
    by (simp_all add: missedQuery_def zeroQuery_def forwards_def limitFits_def fitsInt4_def)
  note sel = selection_rows [OF assms(1,2), of name ?q "([], 0)"]
  have ok: "\<forall>d \<in> set (cl_done k). one_kind (snd d) \<and> [] < cm_ChannelSerial (snd d)"
    using assms(2) inv_serials [OF assms(2)] by (auto simp: cluster_inv_def)
  have ne: "\<forall>b \<in> set (missed name kd after (cl_done k)). \<not> cm_empty b \<and> cm_Annotations b = []"
    using assms(2,3) by (auto simp: cluster_inv_def missed_def cm_kind_def one_kind_def KindMessage_def KindPresence_def KindAnnotation_def split: if_splits)
  have "list_all2 (\<lambda>r it. itemOf C (Normalize kd) (row_payload r) = Inr it) ?rs (map (rowItem C) ?rs)"
    using sel(2) by (auto simp: list_all2_conv_all_nth q dest!: nth_mem)
  from foldE_hist [OF this, of zeroPage] have "foldE (histRow C (Normalize kd)) zeroPage ?rs =
      Inr (zeroPage\<lparr>hp_ChannelMessages := putItems (map pairOf (map (rowTuple C) ?rs)) []\<rparr>)"
    by (simp add: zeroPage_def zip_map_map zip_same_conv_map pairOf_def rowTuple_def comp_def)
  also have "putItems (map pairOf (map (rowTuple C) ?rs)) [] = map strip_id (missed name kd after (cl_done k))"
    unfolding sel(1) missed_items [OF ok assms(3)] using putItems_batches [OF missed_sorted [OF assms(2)] ne, of "[]"] by simp
  finally show ?thesis
    using sel(3) q by (simp add: pgHistory_def pgCursor_def tryE_def limitRows_def scanOrder_def finishPage_def zeroPage_def)
qed

end
