(* ===== verification/PgDelivery.thy ===== *)
theory PgDelivery
  imports PgHistory
begin

text \<open>
  What a node of the cluster appends to the live list of a channel: never out of order and never twice, and everything that was
  committed since the channel was materialised, as long as its notifications arrive or are recovered from the log.
\<close>

section \<open>The listener\<close>

text \<open>A notification with the snapshot its load reads and whether it fails, and the recovery after a dropped connection.\<close>

datatype 'v listenEvent = Heard bool "string \<times> string" "'v pgDB" | Recovered bool "(string \<times> 'v pgDB \<times> 'v pgDB) list"

definition listenStep :: "'v pgCodec \<Rightarrow> pgNode \<Rightarrow> 'v listenEvent \<Rightarrow> pgNode" where
  "listenStep C nd e = (case e of Heard err n db \<Rightarrow> pgConsume C err n db nd | Recovered ctxErr visits \<Rightarrow> reconcile C ctxErr visits nd)"

definition listenRun :: "'v pgCodec \<Rightarrow> 'v listenEvent list \<Rightarrow> pgNode \<Rightarrow> pgNode" where
  "listenRun C es nd = foldl (listenStep C) nd es"

definition channelOf :: "string \<Rightarrow> pgNode \<Rightarrow> Channel option" where
  "channelOf name nd = Option.bind (map_of (nd_channels nd) name) ps_appender"

section \<open>Order\<close>

definition store_ok :: "pgStore \<Rightarrow> bool" where
  "store_ok st = (case ps_appender st of
     None \<Rightarrow> False
   | Some ch \<Rightarrow> chan_ok ch \<and> ch_ready ch \<and> sorted_wrt (<) (map cm_ChannelSerial (live ch)) \<and>
       (\<forall>cm \<in> set (live ch). cm_ChannelSerial cm \<le> ps_lastSeen st))"

lemma deliver_ok:
  assumes "store_ok st"
  shows "store_ok (pgDeliver cm st)"
proof -
  obtain ch where ch: "ps_appender st = Some ch" "chan_ok ch" "ch_ready ch" "sorted_wrt (<) (map cm_ChannelSerial (live ch))"
    "\<forall>cm \<in> set (live ch). cm_ChannelSerial cm \<le> ps_lastSeen st"
    using assms by (auto simp: store_ok_def split: option.splits)
  have "live (Append cm ch) = (if cm_empty cm then live ch else live ch @ [cm])"
    using channel_appender.app_delivers [OF ch(2)] by (simp add: Append_def)
  then show ?thesis using ch
    by (fastforce simp: pgDeliver_def store_ok_def channel_appender.app_valid channel_appender.app_ready sorted_wrt_append)
qed

lemma delivers_ok: "store_ok st \<Longrightarrow> store_ok (foldl (\<lambda>st cm. pgDeliver cm st) st cms)"
  by (induction cms arbitrary: st) (simp_all add: deliver_ok)

definition keeps_store :: "string \<Rightarrow> pgNode \<Rightarrow> bool" where
  "keeps_store name nd = (case map_of (nd_channels nd) name of None \<Rightarrow> False | Some st \<Rightarrow> store_ok st)"

lemma consume_keeps: "keeps_store name nd \<Longrightarrow> keeps_store name (pgConsume C err n db nd)"
  by (auto simp: keeps_store_def pgConsume_def deliver_ok split: option.splits sum.splits prod.splits)

lemma reconcileStore_keeps: "keeps_store name nd \<Longrightarrow> keeps_store name (reconcileStore C ctxErr nd v)"
  by (auto simp: keeps_store_def reconcileStore_def reconcileFromHistory_def delivers_ok split: option.splits sum.splits prod.splits)

lemma reconcile_keeps: "keeps_store name nd \<Longrightarrow> keeps_store name (reconcile C ctxErr vs nd)"
  unfolding reconcile_def by (induction vs arbitrary: nd) (simp_all add: reconcileStore_keeps)

lemma run_keeps: "keeps_store name nd \<Longrightarrow> keeps_store name (listenRun C es nd)"
  unfolding listenRun_def
  by (induction es arbitrary: nd) (simp_all add: listenStep_def consume_keeps reconcile_keeps split: listenEvent.split)

lemma channel_new:
  assumes "map_of (nd_channels nd) name = None" "pgChannel False now name (Some (newChannel name)) db nd = ((db', nd'), None)"
  obtains cur ini where "map_of (nd_channels nd') name = Some \<lparr>ps_appender = Some (Initialize cur ini (newChannel name)), ps_lastSeen = []\<rparr>"
  using assms
  by (auto simp: pgChannel_def pgRegister_def pgMaterialise_def onAppender_def split: prod.splits option.splits)

lemma initialised:
  "chan_ok (Initialize cur ini (newChannel name))" "ch_ready (Initialize cur ini (newChannel name))" "live (Initialize cur ini (newChannel name)) = []"
  by (simp_all add: Initialize_def newChannel_def chan_ok_def live_def)

section \<open>Completeness\<close>

definition snapshot :: "'v pgCodec \<Rightarrow> 'v cluster \<Rightarrow> 'v pgDB \<Rightarrow> bool" where
  "snapshot C k db \<longleftrightarrow> (\<exists>k'. cluster_steps C newCluster k' \<and> cluster_steps C k' k \<and> db = cl_db k')"

text \<open>The channel messages of one channel, as a load gives them.\<close>

definition committed :: "string \<Rightarrow> (string \<times> ChannelMessage) list \<Rightarrow> ChannelMessage list" where
  "committed name ds = map (strip_id \<circ> snd) (filter (\<lambda>d. fst d = name) ds)"

lemma notify_distinct: "sorted_wrt notify_before xs \<Longrightarrow> distinct xs"
  by (induction xs) (auto simp: notify_before_def)

lemma inv_sorted: "cluster_inv C k \<Longrightarrow> sorted_wrt notify_before (map note_of (cl_done k))"
  unfolding cluster_inv_def by metis

lemma snapshot_loads:
  assumes "mplib_laws (pc_lib C)" "cluster_steps C newCluster k" "snapshot C k db" "note_of d \<in> set (t_notify db)" "d \<in> set (cl_done k)"
  shows "loadChannelMessage C (fst d) (cm_ChannelSerial (snd d)) db = Inr (strip_id (snd d))"
proof -
  obtain k' ds where k': "cluster_steps C newCluster k'" "db = cl_db k'" "cl_done k = cl_done k' @ ds"
    using assms(3) steps_done by (fastforce simp: snapshot_def)
  have inv: "cluster_inv C k'" "cluster_inv C k" using cluster_reachable_inv k'(1) assms(2) by blast+
  obtain e where e: "e \<in> set (cl_done k')" "note_of e = note_of d" using assms(4) inv(1) k'(2) by (auto simp: cluster_inv_def)
  have "distinct (map note_of (cl_done k))"
    using notify_distinct [OF inv_sorted [OF inv(2)]] .
  then have "inj_on note_of (set (cl_done k))" by (simp add: distinct_map)
  moreover have "e \<in> set (cl_done k)" using e(1) by (simp add: k'(3))
  ultimately have "e = d" using e(2) assms(5) inj_onD by metis
  with e(1) show ?thesis using done_loads [OF assms(1) inv(1), of "fst d" "snd d"] k'(2) by simp
qed

lemma hear_other: "fst n \<noteq> name \<Longrightarrow> map_of (nd_channels (pgConsume C err n db nd)) name = map_of (nd_channels nd) name"
  by (auto simp: pgConsume_def split: prod.splits option.splits sum.splits)

lemma hear_all:
  assumes "list_all2 (\<lambda>d e. \<exists>db. e = Heard False (note_of d) db \<and>
      loadChannelMessage C (fst d) (cm_ChannelSerial (snd d)) db = Inr (strip_id (snd d))) ds es"
    and "sorted_wrt notify_before (map note_of ds)" "\<forall>d \<in> set ds. \<not> cm_empty (snd d)"
    and "map_of (nd_channels nd) name = Some st" "ps_appender st = Some ch" "chan_ok ch"
    and "\<forall>d \<in> set ds. fst d = name \<longrightarrow> ps_lastSeen st < cm_ChannelSerial (snd d)"
  shows "\<exists>ch'. channelOf name (listenRun C es nd) = Some ch' \<and> live ch' = live ch @ committed name ds"
  using assms
proof (induction ds es arbitrary: nd st ch rule: list_all2_induct)
  case Nil
  then show ?case by (simp add: listenRun_def channelOf_def committed_def)
next
  case (Cons d ds e es)
  then obtain db where e: "e = Heard False (note_of d) db"
    "loadChannelMessage C (fst d) (cm_ChannelSerial (snd d)) db = Inr (strip_id (snd d))" by blast
  have s: "sorted_wrt notify_before (map note_of ds)" "\<forall>d \<in> set ds. \<not> cm_empty (snd d)" using Cons.prems by auto
  let ?nd = "pgConsume C False (note_of d) db nd"
  have run: "listenRun C (e # es) nd = listenRun C es ?nd" by (simp add: listenRun_def listenStep_def e(1))
  show ?case
  proof (cases "fst d = name")
    case False
    then have "map_of (nd_channels ?nd) name = Some st" using Cons.prems(3) by (simp add: hear_other note_of_def)
    from Cons.IH [OF s this Cons.prems(4,5)] Cons.prems(6) False show ?thesis by (simp add: run committed_def)
  next
    case True
    let ?st = "pgDeliver (strip_id (snd d)) st" and ?ch = "Append (strip_id (snd d)) ch"
    have n: "note_of d = (name, cm_ChannelSerial (snd d))" using True by (simp add: note_of_def)
    have seen: "ps_lastSeen st < cm_ChannelSerial (snd d)" using Cons.prems(6) True by simp
    have "map_of (nd_channels ?nd) name = Some ?st" using Cons.prems(3,4) e(2) True by (simp add: pgConsume_def n)
    moreover have "ps_appender ?st = Some ?ch" "ps_lastSeen ?st = cm_ChannelSerial (snd d)"
      using seen Cons.prems(4) leD [of "cm_ChannelSerial (snd d)" "ps_lastSeen st"] by (auto simp: pgDeliver_def)
    moreover have "chan_ok ?ch" "live ?ch = live ch @ [strip_id (snd d)]"
      using Cons.prems(2,5) channel_appender.app_valid channel_appender.app_delivers by simp_all
    moreover have "\<forall>f \<in> set ds. fst f = name \<longrightarrow> cm_ChannelSerial (snd d) < cm_ChannelSerial (snd f)"
      using Cons.prems(1) n by (auto simp: notify_before_def note_of_def)
    ultimately show ?thesis using Cons.IH [OF s, of ?nd ?st ?ch] True by (simp add: run committed_def)
  qed
qed

section \<open>Recovery\<close>

lemma merge_first: "\<forall>b \<in> set bs. cm_ChannelSerial a < cm_ChannelSerial b \<Longrightarrow> mergeByChannelSerial (a # as) bs = a # mergeByChannelSerial as bs"
  by (cases as; cases bs) auto

lemma merge_second: "\<forall>a \<in> set as. cm_ChannelSerial b < cm_ChannelSerial a \<Longrightarrow> mergeByChannelSerial as (b # bs) = b # mergeByChannelSerial as bs"
  by (cases as; cases bs) auto

lemma merge_filter:
  assumes "sorted_wrt (\<lambda>a b. cm_ChannelSerial a < cm_ChannelSerial b) xs" "\<forall>x \<in> set xs. \<not> (P x \<and> Q x)"
  shows "mergeByChannelSerial (filter P xs) (filter Q xs) = filter (\<lambda>x. P x \<or> Q x) xs"
  using assms
proof (induction xs)
  case (Cons x xs)
  then show ?case by (auto simp: merge_first merge_second)
qed simp

lemma deliver_list:
  assumes "sorted_wrt (\<lambda>a b. cm_ChannelSerial a < cm_ChannelSerial b) cms" "\<forall>cm \<in> set cms. ps_lastSeen st < cm_ChannelSerial cm \<and> \<not> cm_empty cm"
    "ps_appender st = Some ch" "chan_ok ch"
  shows "\<exists>ch'. foldl (\<lambda>st cm. pgDeliver cm st) st cms =
      \<lparr>ps_appender = Some ch', ps_lastSeen = last (ps_lastSeen st # map cm_ChannelSerial cms)\<rparr> \<and> chan_ok ch' \<and> live ch' = live ch @ cms"
  using assms
proof (induction cms arbitrary: st ch)
  case Nil
  then show ?case by (cases st) simp
next
  case (Cons cm cms)
  then have d: "pgDeliver cm st = \<lparr>ps_appender = Some (Append cm ch), ps_lastSeen = cm_ChannelSerial cm\<rparr>"
    using leD [of "cm_ChannelSerial cm" "ps_lastSeen st"] by (cases st) (auto simp: pgDeliver_def)
  have "chan_ok (Append cm ch)" "live (Append cm ch) = live ch @ [cm]"
    using Cons.prems channel_appender.app_valid channel_appender.app_delivers by simp_all
  then show ?case using Cons.IH [of "pgDeliver cm st" "Append cm ch"] Cons.prems by (auto simp: d)
qed

text \<open>The channel messages a recovery is after.\<close>

definition recoverable :: "string \<Rightarrow> string \<Rightarrow> (string \<times> ChannelMessage) list \<Rightarrow> ChannelMessage list" where
  "recoverable name after ds = map (strip_id \<circ> snd)
     (filter (\<lambda>d. fst d = name \<and> cm_Annotations (snd d) = [] \<and> after < cm_ChannelSerial (snd d)) ds)"

lemma missed_merge:
  assumes "cluster_inv C k"
  shows "mergeByChannelSerial (map strip_id (missed name KindMessage after (cl_done k))) (map strip_id (missed name KindPresence after (cl_done k))) =
    recoverable name after (cl_done k)"
proof -
  let ?xs = "map (strip_id \<circ> snd) (filter (\<lambda>d. fst d = name \<and> after < cm_ChannelSerial (snd d)) (cl_done k))"
  have kd: "map strip_id (missed name kd after (cl_done k)) = filter (\<lambda>cm. cm_kind cm = kd) ?xs" for kd
    by (simp add: missed_def filter_map comp_def cm_kind_def conj_commute conj_left_commute)
  have "sorted_wrt (\<lambda>d e. notify_before (note_of d) (note_of e)) (cl_done k)"
    using inv_sorted [OF assms] by (simp add: sorted_wrt_map)
  then have s: "sorted_wrt (\<lambda>a b. cm_ChannelSerial a < cm_ChannelSerial b) ?xs"
    unfolding sorted_wrt_map by (intro sorted_wrt_mono_rel [OF _ sorted_wrt_filter]) (auto simp: notify_before_def note_of_def)
  have a: "cm_Annotations (snd d) = [] \<longleftrightarrow> cm_kind (snd d) = KindMessage \<or> cm_kind (snd d) = KindPresence" if "d \<in> set (cl_done k)" for d
    using assms that by (auto simp: cluster_inv_def one_kind_def cm_kind_def KindMessage_def KindPresence_def KindAnnotation_def)
  have "filter (\<lambda>d. fst d = name \<and> cm_Annotations (snd d) = [] \<and> after < cm_ChannelSerial (snd d)) (cl_done k) =
      filter (\<lambda>d. cm_kind (snd d) = KindMessage \<or> cm_kind (snd d) = KindPresence)
        (filter (\<lambda>d. fst d = name \<and> after < cm_ChannelSerial (snd d)) (cl_done k))"
    unfolding filter_filter by (rule filter_cong [OF refl]) (use a in blast)
  moreover have "cm_kind (strip_id cm) = cm_kind cm" for cm by (simp add: cm_kind_def)
  ultimately have "recoverable name after (cl_done k) = filter (\<lambda>cm. cm_kind cm = KindMessage \<or> cm_kind cm = KindPresence) ?xs"
    by (simp only: recoverable_def filter_map comp_def)
  then show ?thesis unfolding kd using merge_filter [OF s, of "\<lambda>cm. cm_kind cm = KindMessage" "\<lambda>cm. cm_kind cm = KindPresence"]
    by (simp add: KindMessage_def KindPresence_def)
qed

lemma recovers:
  assumes "mplib_laws (pc_lib C)" "cluster_inv C k" "ps_appender st = Some ch" "chan_ok ch"
  defines "r \<equiv> \<lambda>name. recoverable name (ps_lastSeen st) (cl_done k)"
  shows "\<exists>ch'. reconcileFromHistory C False name (cl_db k) (cl_db k) st =
      Inr \<lparr>ps_appender = Some ch', ps_lastSeen = last (ps_lastSeen st # map cm_ChannelSerial (r name))\<rparr> \<and> chan_ok ch' \<and> live ch' = live ch @ r name"
proof -
  have "reconcileFromHistory C False name (cl_db k) (cl_db k) st = Inr (foldl (\<lambda>st cm. pgDeliver cm st) st (r name))"
    by (simp add: reconcileFromHistory_def missed_history [OF assms(1,2)] tryE_def missed_merge [OF assms(2)] r_def)
  moreover have "sorted_wrt (\<lambda>d e. notify_before (note_of d) (note_of e)) (cl_done k)"
    using inv_sorted [OF assms(2)] by (simp add: sorted_wrt_map)
  then have "sorted_wrt (\<lambda>a b. cm_ChannelSerial a < cm_ChannelSerial b) (r name)"
    unfolding r_def recoverable_def sorted_wrt_map
    by (intro sorted_wrt_mono_rel [OF _ sorted_wrt_filter]) (auto simp: notify_before_def note_of_def)
  moreover have "\<forall>cm \<in> set (r name). ps_lastSeen st < cm_ChannelSerial cm \<and> \<not> cm_empty cm"
    using assms(2) by (auto simp: r_def recoverable_def cluster_inv_def)
  ultimately show ?thesis using deliver_list [OF _ _ assms(3,4), of "r name"] by auto
qed

section \<open>A node that listens\<close>

text \<open>A node opens the channel of the schedule and hears its notifications.\<close>

definition demoNode :: pgNode where
  "demoNode = snd (fst (pgChannel False 6 ''r'' (Some (newChannel ''r'')) (cl_db demo6) (pgOpen ''a'' ''A'')))"

lemma demoNode_opened:
  "map_of (nd_channels (pgOpen ''a'' ''A'')) ''r'' = None"
  "pgChannel False 6 ''r'' (Some (newChannel ''r'')) (cl_db demo6) (pgOpen ''a'' ''A'') =
     ((fst (ensure_channel 6 ''r'' ''a'' (cl_db demo6)), demoNode), None)"
  by (simp_all add: demoNode_def pgChannel_def pgRegister_def pgMaterialise_def pgOpen_def split: prod.splits)

definition demoHeard :: "((string \<times> string) \<times> wval pgDB) list" where
  "demoHeard = map (\<lambda>n. (n, cl_db demo6)) (t_notify (cl_db demo6))"

lemma demo_snapshot: "snapshot treeCodec demo6 (cl_db demo6)"
  unfolding snapshot_def using demo_run(3) stays by blast

lemma demo_serials_live: "map cm_ChannelSerial (committed ''r'' (cl_done demo6)) =
    [''00000000000005-000@b'', ''00000000000005-001@a'', ''00000000000005-002@a'']"
proof -
  have "map cm_ChannelSerial (committed n ds) = map snd (filter (\<lambda>x. fst x = n) (map note_of ds))" for n ds
    by (induction ds) (auto simp: committed_def note_of_def)
  then show ?thesis by (simp add: demo_run(5))
qed

section \<open>Properties\<close>

text \<open>C19: Whatever the listener of a node hears (notifications lost, repeated or out of order, loads that fail, recoveries at any
  time and from any snapshots), a channel it has materialised is delivered each channel message at most once, and
  in the order of their serials.\<close>

theorem pg_delivery_ordered:
  assumes "map_of (nd_channels nd) name = None" "pgChannel False now name (Some (newChannel name)) db nd = ((db', nd'), None)"
  shows "\<exists>ch. channelOf name (listenRun C es nd') = Some ch \<and> ch_ready ch \<and> sorted_wrt (<) (map cm_ChannelSerial (live ch))"
proof -
  obtain cur ini where "map_of (nd_channels nd') name = Some \<lparr>ps_appender = Some (Initialize cur ini (newChannel name)), ps_lastSeen = []\<rparr>"
    using channel_new [OF assms] .
  then have "keeps_store name nd'" by (simp add: keeps_store_def store_ok_def initialised)
  from run_keeps [OF this, of C es] show ?thesis
    by (auto simp: keeps_store_def store_ok_def channelOf_def split: option.splits)
qed

theorem pg_delivery_ordered_witness:
  "\<exists>ch. channelOf ''r'' (listenRun treeCodec
     [Heard False (''r'', ''00000000000005-001@a'') (cl_db demo6), Heard False (''r'', ''00000000000005-000@b'') (cl_db demo6),
      Heard False (''r'', ''00000000000005-001@a'') (cl_db demo6), Recovered False [(''r'', cl_db demo6, cl_db demo6)]] demoNode) = Some ch \<and>
     sorted_wrt (<) (map cm_ChannelSerial (live ch))"
  using pg_delivery_ordered [OF demoNode_opened] by blast

text \<open>C4: A channel that a node has materialised is delivered everything the cluster commits: once the node has heard, in commit
  order, the notifications that follow some point of the log, each load reading any snapshot in which its commit is visible, the
  live list of the channel holds exactly the channel messages committed on it from that point on, in commit order.\<close>

theorem pg_delivery_complete:
  assumes "mplib_laws (pc_lib C)" "cluster_steps C newCluster k"
    and "map_of (nd_channels nd) name = None" "pgChannel False now name (Some (newChannel name)) db nd = ((db', nd'), None)"
    and "t_notify (cl_db k) = old @ map fst heard" "\<forall>(n, db) \<in> set heard. n \<in> set (t_notify db) \<and> snapshot C k db"
  shows "\<exists>ch. channelOf name (listenRun C (map (\<lambda>(n, db). Heard False n db) heard) nd') = Some ch \<and>
    live ch = committed name (drop (length old) (cl_done k))"
proof -
  let ?ds = "drop (length old) (cl_done k)"
  have inv: "cluster_inv C k" using cluster_reachable_inv [OF assms(2)] .
  then have all: "map note_of (cl_done k) = old @ map fst heard" and sorted: "sorted_wrt notify_before (map note_of (cl_done k))"
    using assms(5) by (auto simp: cluster_inv_def)
  have ds: "map note_of ?ds = map fst heard" using all by (metis append_eq_conv_conj drop_map)
  have s: "sorted_wrt notify_before (map note_of ?ds)" using sorted by (simp add: drop_map [symmetric] sorted_wrt_drop)
  have ne: "\<forall>d \<in> set ?ds. \<not> cm_empty (snd d)" using inv by (auto simp: cluster_inv_def dest: in_set_dropD)
  have l2: "list_all2 (\<lambda>d e. \<exists>db. e = Heard False (note_of d) db \<and>
      loadChannelMessage C (fst d) (cm_ChannelSerial (snd d)) db = Inr (strip_id (snd d))) ?ds (map (\<lambda>(n, db). Heard False n db) heard)"
    unfolding list_all2_conv_all_nth
  proof (intro conjI allI impI)
    show l: "length ?ds = length (map (\<lambda>(n, db). Heard False n db) heard)" using ds by (metis length_map)
    fix i assume i: "i < length ?ds"
    then have i': "i < length heard" using l by simp
    obtain n db1 where h: "heard ! i = (n, db1)" by fastforce
    have "note_of (?ds ! i) = n" using ds i i' h by (metis fst_conv nth_map)
    moreover have "n \<in> set (t_notify db1)" "snapshot C k db1" using assms(6) h i' nth_mem by fastforce+
    moreover have "?ds ! i \<in> set (cl_done k)" using i nth_mem in_set_dropD by metis
    ultimately show "\<exists>db. map (\<lambda>(n, db). Heard False n db) heard ! i = Heard False (note_of (?ds ! i)) db \<and>
        loadChannelMessage C (fst (?ds ! i)) (cm_ChannelSerial (snd (?ds ! i))) db = Inr (strip_id (snd (?ds ! i)))"
      using snapshot_loads [OF assms(1,2)] i' h by auto
  qed
  have pos: "[] < cm_ChannelSerial (snd d)" if "d \<in> set ?ds" for d
  proof -
    have "note_of d \<in> set (t_notify (cl_db k))" using inv that by (auto simp: cluster_inv_def dest: in_set_dropD)
    then show ?thesis using channels_okD(2) [of "cl_db k" "fst d" "cm_ChannelSerial (snd d)"] inv
      by (cases "cm_ChannelSerial (snd d)") (auto simp: cluster_inv_def note_of_def)
  qed
  obtain cur ini where st: "map_of (nd_channels nd') name = Some \<lparr>ps_appender = Some (Initialize cur ini (newChannel name)), ps_lastSeen = []\<rparr>"
    using channel_new [OF assms(3,4)] .
  from hear_all [OF l2 s ne st _ initialised(1)] pos show ?thesis by (simp add: initialised)
qed

theorem pg_delivery_complete_witness:
  "\<exists>ch. channelOf ''r'' (listenRun treeCodec (map (\<lambda>(n, db). Heard False n db) demoHeard) demoNode) = Some ch \<and>
     map cm_ChannelSerial (live ch) = [''00000000000005-000@b'', ''00000000000005-001@a'', ''00000000000005-002@a'']"
proof -
  have "t_notify (cl_db demo6) = [] @ map fst demoHeard" by (simp add: demoHeard_def comp_def)
  moreover have "\<forall>(n, db) \<in> set demoHeard. n \<in> set (t_notify db) \<and> snapshot treeCodec demo6 db"
    using demo_snapshot by (auto simp: demoHeard_def)
  ultimately obtain ch where "channelOf ''r'' (listenRun treeCodec (map (\<lambda>(n, db). Heard False n db) demoHeard) demoNode) = Some ch"
    "live ch = committed ''r'' (cl_done demo6)"
    using pg_delivery_complete [OF treeCodec_laws demo_run(3) demoNode_opened, of "[]" demoHeard] by auto
  then show ?thesis using demo_serials_live by auto
qed

text \<open>C7: After its connection was lost, a node recovers from the log: from one state of the database, a recovery delivers exactly the
  message and presence channel messages committed on the channel after the last one it delivered, in order, so that of these
  none is lost, repeated or out of order.\<close>

theorem pg_recovery_complete:
  assumes "mplib_laws (pc_lib C)" "cluster_steps C newCluster k" "ps_appender st = Some ch" "chan_ok ch"
  shows "\<exists>st' ch'. reconcileFromHistory C False name (cl_db k) (cl_db k) st = Inr st' \<and> ps_appender st' = Some ch' \<and>
    live ch' = live ch @ map (\<lambda>d. (snd d)\<lparr>cm_ID := []\<rparr>)
      (filter (\<lambda>d. fst d = name \<and> cm_Annotations (snd d) = [] \<and> ps_lastSeen st < cm_ChannelSerial (snd d)) (cl_done k))"
  using recovers [OF assms(1) cluster_reachable_inv [OF assms(2)] assms(3,4), of name]
  by (auto simp: recoverable_def strip_id_def comp_def)

definition demoStore :: pgStore where
  "demoStore = \<lparr>ps_appender = Some (Initialize ''00000000000005-000@b'' ''00000000000005-000@b'' (newChannel ''r'')), ps_lastSeen = ''00000000000005-000@b''\<rparr>"

theorem pg_recovery_complete_witness:
  "\<exists>st' ch'. reconcileFromHistory treeCodec False ''r'' (cl_db demo6) (cl_db demo6) demoStore = Inr st' \<and> ps_appender st' = Some ch' \<and>
     live ch' = map (\<lambda>d. (snd d)\<lparr>cm_ID := []\<rparr>) (filter (\<lambda>d. fst d = ''r'' \<and> cm_Annotations (snd d) = [] \<and>
       ''00000000000005-000@b'' < cm_ChannelSerial (snd d)) (cl_done demo6))"
  using pg_recovery_complete [OF treeCodec_laws demo_run(3), of demoStore _ "''r''"] by (simp add: demoStore_def initialised)

end
