(* ===== verification/PgFaults.thy ===== *)
theory PgFaults
  imports PgDelivery
begin

text \<open>
  Where the postgres backend falls short of what its comments promise. Each theorem holds of every state or run it names.
\<close>

section \<open>Recovery\<close>

text \<open>A recovery reads messages and presence only: an annotation whose notification was lost is not delivered.\<close>

theorem recovery_skips_annotations:
  assumes "mplib_laws (pc_lib C)" "cluster_steps C newCluster k" "ps_appender st = Some ch" "chan_ok ch"
    and "d \<in> set (cl_done k)" "cm_Annotations (snd d) \<noteq> []" "\<forall>cm \<in> set (live ch). cm_Annotations cm = []"
  shows "\<exists>st' ch'. reconcileFromHistory C False name (cl_db k) (cl_db k) st = Inr st' \<and> ps_appender st' = Some ch' \<and>
    strip_id (snd d) \<notin> set (live ch')"
proof -
  have "strip_id (snd d) \<notin> set (live ch @ recoverable name (ps_lastSeen st) (cl_done k))"
  proof
    assume "strip_id (snd d) \<in> set (live ch @ recoverable name (ps_lastSeen st) (cl_done k))"
    then have "cm_Annotations (strip_id (snd d)) = []"
      using assms(7) by (auto simp: recoverable_def simp del: strip_id_sel) (simp only: strip_id_sel)
    then show False using assms(6) by simp
  qed
  with recovers [OF assms(1) cluster_reachable_inv [OF assms(2)] assms(3,4), of name] show ?thesis by (metis pgStore.select_convs(1))
qed

text \<open>The mark of the last delivery starts empty, not at the watermark the channel was materialised with: a recovery on a channel that
  has been idle since delivers its whole message and presence history as new.\<close>

theorem idle_recovery_replays_history:
  assumes "mplib_laws (pc_lib C)" "cluster_steps C newCluster k"
    and "map_of (nd_channels nd) name = None" "pgChannel False now name (Some (newChannel name)) (cl_db k) nd = ((db', nd'), None)"
  shows "\<exists>ch. channelOf name (reconcile C False [(name, cl_db k, cl_db k)] nd') = Some ch \<and>
    live ch = map (strip_id \<circ> snd) (filter (\<lambda>d. fst d = name \<and> cm_Annotations (snd d) = []) (cl_done k))"
proof -
  have inv: "cluster_inv C k" using cluster_reachable_inv [OF assms(2)] .
  obtain cur ini where st: "map_of (nd_channels nd') name = Some \<lparr>ps_appender = Some (Initialize cur ini (newChannel name)), ps_lastSeen = []\<rparr>"
    using channel_new [OF assms(3,4)] .
  have "filter (\<lambda>d. fst d = name \<and> cm_Annotations (snd d) = [] \<and> [] < cm_ChannelSerial (snd d)) (cl_done k) =
      filter (\<lambda>d. fst d = name \<and> cm_Annotations (snd d) = []) (cl_done k)"
    using inv_serials [OF inv] by (intro filter_cong) auto
  then have "recoverable name [] (cl_done k) = map (strip_id \<circ> snd) (filter (\<lambda>d. fst d = name \<and> cm_Annotations (snd d) = []) (cl_done k))"
    by (simp add: recoverable_def)
  with recovers [OF assms(1) inv, of "\<lparr>ps_appender = Some (Initialize cur ini (newChannel name)), ps_lastSeen = []\<rparr>" _ name] initialised
  show ?thesis by (fastforce simp: reconcile_def reconcileStore_def st channelOf_def)
qed

lemma set_merge: "set (mergeByChannelSerial as bs) = set as \<union> set bs"
  by (induction as bs rule: mergeByChannelSerial.induct) auto

lemma deliver_bounds:
  assumes "ps_appender st = Some ch" "chan_ok ch"
  shows "\<exists>ch'. ps_appender (foldl (\<lambda>st cm. pgDeliver cm st) st cms) = Some ch' \<and> chan_ok ch' \<and> set (live ch') \<subseteq> set (live ch) \<union> set cms \<and>
    ps_lastSeen st \<le> ps_lastSeen (foldl (\<lambda>st cm. pgDeliver cm st) st cms) \<and>
    (\<forall>cm \<in> set cms. cm_ChannelSerial cm \<le> ps_lastSeen (foldl (\<lambda>st cm. pgDeliver cm st) st cms))"
  using assms
proof (induction cms arbitrary: st ch)
  case (Cons cm cms)
  let ?st = "pgDeliver cm st"
  obtain ch1 where c: "ps_appender ?st = Some ch1" "chan_ok ch1" "set (live ch1) \<subseteq> insert cm (set (live ch))"
  proof -
    have "live (Append cm ch) = (if cm_empty cm then live ch else live ch @ [cm])"
      using channel_appender.app_delivers [OF Cons.prems(2)] by (simp add: Append_def)
    then show ?thesis using that Cons.prems channel_appender.app_valid [OF Cons.prems(2), of cm]
      by (cases "cm_ChannelSerial cm \<le> ps_lastSeen st") (auto simp: pgDeliver_def split: if_splits)
  qed
  let ?st2 = "foldl (\<lambda>st cm. pgDeliver cm st) ?st cms"
  have up: "ps_lastSeen st \<le> ps_lastSeen ?st" "cm_ChannelSerial cm \<le> ps_lastSeen ?st" by (auto simp: pgDeliver_def)
  obtain ch' where d: "ps_appender ?st2 = Some ch'" "chan_ok ch'" "set (live ch') \<subseteq> set (live ch1) \<union> set cms" "ps_lastSeen ?st \<le> ps_lastSeen ?st2"
    "\<forall>cm \<in> set cms. cm_ChannelSerial cm \<le> ps_lastSeen ?st2" using Cons.IH [OF c(1,2)] by blast
  have "set (live ch') \<subseteq> set (live ch) \<union> set (cm # cms)" using c(3) d(3) by auto
  moreover have "ps_lastSeen st \<le> ps_lastSeen ?st2" "cm_ChannelSerial cm \<le> ps_lastSeen ?st2" using up d(4) order_trans by blast+
  ultimately show ?case using d(1,2,5) by simp
qed simp

text \<open>The two reads of a recovery are two snapshots: a message committed between them, before a presence event the second read does
  see, is passed over, and its own notification is then dropped as already delivered.\<close>

theorem recovery_loses_message_between_reads:
  assumes "mplib_laws (pc_lib C)" "cluster_steps C newCluster k1" "cluster_steps C k1 k2" "ps_appender st = Some ch" "chan_ok ch"
    and "cl_done k2 = cl_done k1 @ ds" "(name, m) \<in> set ds" "(name, p) \<in> set ds" "cm_Presence m = []" "cm_Presence p \<noteq> []"
    and "cm_ChannelSerial m < cm_ChannelSerial p" "ps_lastSeen st < cm_ChannelSerial p" "strip_id m \<notin> set (live ch)"
  shows "\<exists>st' ch'. reconcileFromHistory C False name (cl_db k1) (cl_db k2) st = Inr st' \<and> ps_appender st' = Some ch' \<and>
    strip_id m \<notin> set (live ch') \<and> pgDeliver (strip_id m) st' = st'"
proof -
  have inv: "cluster_inv C k1" "cluster_inv C k2" using cluster_reachable_inv [OF assms(2)] cluster_steps_inv [OF assms(3)] by blast+
  let ?ms = "map strip_id (missed name KindMessage (ps_lastSeen st) (cl_done k1))"
  let ?ps = "map strip_id (missed name KindPresence (ps_lastSeen st) (cl_done k2))"
  have r: "reconcileFromHistory C False name (cl_db k1) (cl_db k2) st =
      Inr (foldl (\<lambda>st cm. pgDeliver cm st) st (mergeByChannelSerial ?ms ?ps))"
    by (simp add: reconcileFromHistory_def missed_history [OF assms(1)] inv tryE_def)
  have "strip_id p \<in> set ?ps" using assms(6,8,10,12) by (force simp: missed_def cm_kind_def)
  moreover have "strip_id m \<notin> set ?ps"
  proof
    assume "strip_id m \<in> set ?ps"
    then obtain x where "strip_id m = strip_id x" "cm_kind x = KindPresence" by (auto simp: missed_def)
    then have "cm_Presence x = cm_Presence m" by (metis strip_id_sel(3))
    with \<open>cm_kind x = KindPresence\<close> show False
      using assms(9) by (simp add: cm_kind_def KindPresence_def KindAnnotation_def KindMessage_def split: if_splits)
  qed
  moreover have "strip_id m \<notin> set ?ms"
  proof
    assume "strip_id m \<in> set ?ms"
    then obtain x where x: "(name, x) \<in> set (cl_done k1)" "strip_id m = strip_id x" by (auto simp: missed_def)
    have same: "note_of (name, m) = note_of (name, x)" using arg_cong [OF x(2), of cm_ChannelSerial] by (simp add: note_of_def)
    have "distinct (map note_of (cl_done k1 @ ds))" using notify_distinct [OF inv_sorted [OF inv(2)]] by (simp add: assms(6))
    then have "note_of ` set (cl_done k1) \<inter> note_of ` set ds = {}" by simp
    moreover have "note_of (name, x) \<in> note_of ` set (cl_done k1)" "note_of (name, m) \<in> note_of ` set ds"
      using x(1) assms(7) by (simp_all only: imageI)
    ultimately show False unfolding same by blast
  qed
  ultimately obtain ch' where c: "ps_appender (foldl (\<lambda>st cm. pgDeliver cm st) st (mergeByChannelSerial ?ms ?ps)) = Some ch'" "strip_id m \<notin> set (live ch')"
    "cm_ChannelSerial p \<le> ps_lastSeen (foldl (\<lambda>st cm. pgDeliver cm st) st (mergeByChannelSerial ?ms ?ps))"
    using deliver_bounds [OF assms(4,5), of "mergeByChannelSerial ?ms ?ps"] assms(13) that unfolding set_merge strip_id_sel(1) [symmetric, of p]
    by blast
  moreover have "pgDeliver (strip_id m) (foldl (\<lambda>st cm. pgDeliver cm st) st (mergeByChannelSerial ?ms ?ps)) =
      foldl (\<lambda>st cm. pgDeliver cm st) st (mergeByChannelSerial ?ms ?ps)"
    using c(3) assms(11) by (simp add: pgDeliver_def)
  ultimately show ?thesis unfolding r by blast
qed

section \<open>Writes that race\<close>

text \<open>A mutation reads the version it merges with before it takes the channel's lock. Of two mutations of one message that both have read
  before either commits, the second to commit is merged with the version both read, and the latest version is that one: what the first
  one appended is in no later version.\<close>

theorem concurrent_mutations_lose_one:
  assumes "mplib_laws (pc_lib C)" "message_ok cur" "map_of (t_messages db) (name, m_Serial b) = Some (EncodeMessage (pc_lib C) cur, del)"
    and "IsMutation (m_Action a)" "IsMutation (m_Action b)" "m_Serial a = m_Serial b" "m_Serial b \<noteq> []" "m_ID a = []" "m_ID b = []"
    and "pgFinishTx C now1 node1 series1 name (PlanMutate a cur) db = Inr (db1, cm1)"
    and "pgFinishTx C now2 node2 series2 name (PlanMutate b cur) db1 = Inr (db2, cm2)" "channel_ok cm2"
  shows "pgBegin C False pick1 name (WMutate a) db = Proceed (PlanMutate a cur) \<and>
    pgBegin C False pick2 name (WMutate b) db = Proceed (PlanMutate b cur) \<and>
    (\<exists>v. MergeVersion cur b (MessageSerial (cm_ChannelSerial cm2) 0) = Inr v \<and> cm_Messages cm2 = [v] \<and>
       pgLatestVersion C False name (m_Serial b) db2 = Inr v)"
proof -
  have "preCheck C pick name [[]] db k = k" for pick k by (simp add: preCheck_def findID_def)
  then have starts: "pgBegin C False pick1 name (WMutate a) db = Proceed (PlanMutate a cur)" "pgBegin C False pick2 name (WMutate b) db = Proceed (PlanMutate b cur)"
    using assms(3-9) by (simp_all add: pgBegin_def pgMutateStart_def decode_back [OF assms(1)] assms(2))
  obtain d s where ad: "advance_channel_serial now2 name series2 db1 = Some (d, s)" using assms(11) by (auto simp: pgFinishTx_def finishMutate_def)
  obtain v row d2 where v: "MergeVersion cur b (MessageSerial s 0) = Inr v" "insertRow row d = Some d2"
    "cm2 = zeroChannelMessage\<lparr>cm_ChannelSerial := s, cm_Messages := [v]\<rparr>"
    "db2 = pg_notify name s (updateMessage name (m_Serial b) (\<lambda>_. (EncodeMessage (pc_lib C) v, m_Action v = MessageDelete)) d2)"
    using assms(11) ad by (cases "MergeVersion cur b (MessageSerial s 0)") (auto simp: pgFinishTx_def finishMutate_def Let_def)
  have "map_of (t_messages db1) (name, m_Serial b) \<noteq> None"
  proof -
    obtain d0 s0 where "advance_channel_serial now1 name series1 db = Some (d0, s0)" using assms(10) by (auto simp: pgFinishTx_def finishMutate_def)
    then show ?thesis using assms(3,6,10) advance_sel(3) [of now1 name series1 db d0 s0]
      by (cases "MergeVersion cur a (MessageSerial s0 0)")
        (auto simp: pgFinishTx_def finishMutate_def Let_def pg_notify_def updateMessage_def insertRow_Some split: option.splits)
  qed
  then have "map_of (t_messages d2) (name, m_Serial b) \<noteq> None" using v(2) advance_sel(3) [OF ad] by (auto simp: insertRow_Some)
  then have "map_of (t_messages db2) (name, m_Serial b) = Some (EncodeMessage (pc_lib C) v, m_Action v = MessageDelete)"
    by (auto simp: v(4) pg_notify_def updateMessage_def)
  moreover have "message_ok v" using assms(12) by (simp add: v(3) channel_ok_def zeroChannelMessage_def)
  ultimately have "pgLatestVersion C False name (m_Serial b) db2 = Inr v"
    by (simp add: pgLatestVersion_def decode_back [OF assms(1)])
  with starts v(1,3) show ?thesis by (simp add: zeroChannelMessage_def)
qed

text \<open>A publish looks for its id before it takes the lock: of two publishes of one message that both have looked, the second fails on the
  unique index instead of being answered with the first.\<close>

theorem concurrent_duplicate_is_an_error:
  assumes "m_ID m \<noteq> []" "r \<in> set (t_log db)" "row_channel r = name" "row_id r = Some (m_ID m)"
    and "advance_channel_serial now name series db = Some (db1, s)"
  shows "pgFinishTx C now node series name (PlanStore batch (m # ms)) db = Inl ErrPgConflict"
proof -
  have "insertRow row db1 = None" if "row_channel row = name" "row_id row = Some (m_ID m)" for row :: "'a pgRow"
    using assms(2-4) that advance_sel(1) [OF assms(5)] by (auto simp: insertRow_def list_ex_iff)
  then show ?thesis using assms(1,5)
    by (simp add: pgFinishTx_def finishStore_def Let_def tryE_def orE_def storeRow_def idArg_def StampCreateVersion_def)
qed

section \<open>Smaller ones\<close>

text \<open>Past the last version the read of a message that exists answers that there is none.\<close>

theorem versions_past_the_end:
  assumes "pgCursor (hq_Cursor q) = Inr c" "limitFits (hq_Limit q)" "fitsInt4 (snd c)"
    and "\<forall>r \<in> set (t_log db). row_channel r = name \<and> row_target r = Some s \<longrightarrow> \<not> beyondCursor (forwards q) c r"
  shows "pgVersions C False name s q db = Inl (PgErr ErrTargetNotFound)"
proof -
  have sub: "set (collapseRows rs) \<subseteq> set rs" for rs :: "'a pgRow list"
    by (induction rs rule: collapseRows.induct) auto
  let ?rs = "orderRows (filter (\<lambda>r. row_channel r = name \<and> row_target r = Some s \<and> row_kind r = KindMessage) (t_log db))"
  have "filter (beyondCursor (forwards q) c) (collapseRows ?rs) = []"
    using sub [of ?rs] assms(4) by (auto simp: filter_empty_conv orderRows_def)
  then show ?thesis using assms(1-3) by (simp add: pgVersions_def tryE_def scanOrder_def limitRows_def zeroPage_def)
qed

text \<open>The reaper deletes the lapsed members and publishes their LEAVE events in transactions of their own: when these fail, the members
  are gone and no LEAVE is ever published.\<close>

theorem reaped_without_leave:
  "reapExpiredPresence C now (replicate n (ctxErr, later, TxFailed)) nd db = fst (reapDelete now db)"
proof -
  have w: "fst (pgWriteNow C ctxErr 0 TxFailed later node series channel w d) = d" for node series channel w d
    by (auto simp: pgWriteNow_def pgFinish_def split: pgStart.split sum.split)
  have "reapLeaves C node series (replicate n (ctxErr, later, TxFailed)) os d = d" for node series os d
  proof (induction n arbitrary: os)
    case (Suc n)
    then show ?case by (cases os) (auto simp: w)
  qed simp
  then show ?thesis by (simp add: reapExpiredPresence_def split_beta)
qed

text \<open>On a channel no node has materialised the first publish is itself the initial serial, which the schema promises to sort strictly
  before every publish.\<close>

theorem first_publish_is_initial:
  assumes "map_of (t_channels db) name = None" "advance_channel_serial now name series db = Some (db1, s)"
  shows "map_of (t_channels db1) name = Some (s, s)"
  using assms by (auto simp: advance_channel_serial_def Let_def)

section \<open>Leases\<close>

text \<open>The members of a node that bumped its leases within the window, and the static ones, are not reaped.\<close>

lemma lease_protects:
  assumes "m \<in> set (t_presence (leaseBump t node db))" "mb_node m = node \<or> mb_expires m = None" "now \<le> t + presenceLeaseWindow"
  shows "m \<in> set (t_presence (fst (reapDelete now (leaseBump t node db))))"
  using assms by (auto simp: leaseBump_def reapDelete_def expired_def split: if_splits)

text \<open>The waits between attempts to reconnect double up to the cap and never leave its bounds.\<close>

lemma redial_bounds:
  assumes "0 < d" "d \<le> listenReconnectMaxDelay" "w \<in> set (redial d oks)"
  shows "d \<le> w \<and> w \<le> listenReconnectMaxDelay"
  using assms by (induction d oks rule: redial.induct) (fastforce split: if_splits)+

text \<open>A second process that starts on a migrated database applies nothing.\<close>

lemma migrate_again:
  assumes "migrate runSQL entries st = (st', True)"
  shows "migrate runSQL entries st' = (st', True)"
proof -
  have keeps: "set (snd s) \<subseteq> set (snd s') \<and> (\<forall>m \<in> set ms. fst m \<in> set applied \<or> fst m \<in> set (snd s'))"
    if "migrateLoop runSQL applied ms s = (s', True)" for applied ms s s'
    using that
    by (induction runSQL applied ms s rule: migrateLoop.induct) (fastforce simp: applyMigration_def split: if_splits option.splits)+
  have none: "migrateLoop runSQL applied ms s = (s, True)" if "\<forall>m \<in> set ms. fst m \<in> set applied" for applied ms s
    using that by (induction ms) auto
  have "\<forall>m \<in> set (listMigrations entries). fst m \<in> set (snd st')"
    using keeps assms by (fastforce simp: migrate_def)
  then show ?thesis by (simp add: migrate_def none)
qed

end
