(* ===== verification/Capability.thy ===== *)
theory Capability
  imports Prelude
begin

text \<open>
  \<open>internal/auth/capability.go\<close>: resource patterns, matching, the grants of a capability and
  the intersection that narrows a requested capability against a key's. A capability is a Go
  map from patterns to op sets; an op set (\<open>map[Op]bool\<close> with only true values) is the list of
  its keys. The JSON object a capability is parsed from is the decoded map.
\<close>

section \<open>Definitions\<close>

type_synonym Op = string
type_synonym perms = "(string, Op list) gomap"

definition OpWildcard :: Op where "OpWildcard = ''*''"
definition OpMessageUpdateOwn :: Op where "OpMessageUpdateOwn = ''message-update-own''"
definition OpMessageUpdateAny :: Op where "OpMessageUpdateAny = ''message-update-any''"
definition OpMessageDeleteOwn :: Op where "OpMessageDeleteOwn = ''message-delete-own''"
definition OpMessageDeleteAny :: Op where "OpMessageDeleteAny = ''message-delete-any''"

definition AllowAllCapability :: perms where
  "AllowAllCapability = [(''*'', [OpWildcard])]"

definition ParseCapability :: "(string, string list) gomap \<Rightarrow> perms" where
  "ParseCapability raw = map (\<lambda>(res, ops). (res, remdups ops)) raw"

definition validCapabilityOps :: "string list" where
  "validCapabilityOps = [''publish'', ''subscribe'', ''presence'', ''history'',
     ''stats'', ''message-subscribe'', ''presence-subscribe'',
     ''message-update-own'', ''message-update-any'', ''message-delete-own'', ''message-delete-any'',
     ''annotation-publish'', ''annotation-subscribe'', ''push-subscribe'', ''push-admin'',
     ''channel-metadata'', ''channel-metadata:publishers'', ''object-subscribe'', ''object-publish'',
     ''list-channels'', ''privileged-headers'', ''connection-metadata'']"

datatype capability_error = NoOperations string | MixedWildcard string | InvalidOperation string string

text \<open>The inner loop of \<open>ValidateCapability\<close> over the ops of one resource; \<open>n\<close> is their number.\<close>

fun checkOps :: "string \<Rightarrow> nat \<Rightarrow> string list \<Rightarrow> capability_error option" where
  "checkOps res n [] = None"
| "checkOps res n (o1 # os) =
     (if o1 = OpWildcard then if n \<noteq> 1 then Some (MixedWildcard res) else checkOps res n os
      else if o1 \<notin> set validCapabilityOps then Some (InvalidOperation res o1)
      else checkOps res n os)"

fun ValidateCapability :: "(string, string list) gomap \<Rightarrow> capability_error option" where
  "ValidateCapability [] = None"
| "ValidateCapability ((res, ops) # raw) =
     (if ops = [] then Some (NoOperations res)
      else case checkOps res (length ops) ops of
             Some e \<Rightarrow> Some e
           | None \<Rightarrow> ValidateCapability raw)"

subsection \<open>Resources\<close>

definition parseResource :: "string \<Rightarrow> string \<times> string list" where
  "parseResource res =
     (let (qualifier, name) =
        (if res \<noteq> [] \<and> hd res = CHR ''['' then
           (case cut (CHR '']'') res of (a, b, found) \<Rightarrow>
              if found then (takeWhile (\<lambda>c. c \<noteq> CHR ''='' \<and> c \<noteq> CHR ''?'') (tl a), b)
              else ([], res))
         else ([], res))
      in (qualifier, split_on (CHR '':'') name))"

definition qualifierMatches :: "string \<Rightarrow> string \<Rightarrow> bool" where
  "qualifierMatches x y \<longleftrightarrow> x = y \<or> x = ''*'' \<or> y = ''*''"

fun pathsMatch :: "string list \<Rightarrow> string list \<Rightarrow> bool" where
  "pathsMatch [] cSegs = (cSegs = [])"
| "pathsMatch (p # ps) cSegs =
     (if p = ''*'' then
        (if ps = [] then True
         else case cSegs of [] \<Rightarrow> False | _ # cs \<Rightarrow> pathsMatch ps cs)
      else case cSegs of [] \<Rightarrow> False | c # cs \<Rightarrow> c = p \<and> pathsMatch ps cs)"

definition matchResource :: "string \<Rightarrow> string \<Rightarrow> bool" where
  "matchResource pat channel =
     (case parseResource pat of (qual, pSegs) \<Rightarrow>
        qualifierMatches qual [] \<and> pathsMatch pSegs (split_on (CHR '':'') channel))"

subsection \<open>Grants\<close>

definition Permits :: "perms \<Rightarrow> string \<Rightarrow> Op \<Rightarrow> bool" where
  "Permits c channel op1 \<longleftrightarrow>
     list_ex (\<lambda>(pat, ops). matchResource pat channel \<and> (OpWildcard \<in> set ops \<or> op1 \<in> set ops)) c"

datatype MutationOutcome = MutationDeniedCapability | MutationAllowed | MutationNeedsOwnership

definition MutationGrant :: "perms \<Rightarrow> string \<Rightarrow> Op \<Rightarrow> Op \<Rightarrow> MutationOutcome" where
  "MutationGrant c channel ownOp anyOp =
     (if Permits c channel anyOp then MutationAllowed
      else if Permits c channel ownOp then MutationNeedsOwnership
      else MutationDeniedCapability)"

definition IsEmpty :: "perms \<Rightarrow> bool" where
  "IsEmpty c \<longleftrightarrow> list_all (\<lambda>(res, ops). ops = []) c"

subsection \<open>Intersection\<close>

definition intersectQualifier :: "string \<Rightarrow> string \<Rightarrow> string option" where
  "intersectQualifier l r =
     (if l = ''*'' then Some r else if r = ''*'' then Some l else if l = r then Some l else None)"

definition encodeResource :: "string \<Rightarrow> string list \<Rightarrow> string" where
  "encodeResource qualifier path =
     (let name = join_with (CHR '':'') path
      in if qualifier = [] then name else ''['' @ qualifier @ '']'' @ name)"

definition intersectOps :: "Op list \<Rightarrow> Op list \<Rightarrow> Op list" where
  "intersectOps a b =
     (if OpWildcard \<in> set a \<and> OpWildcard \<in> set b then [OpWildcard]
      else if OpWildcard \<in> set a then b
      else if OpWildcard \<in> set b then a
      else filter (\<lambda>x. x \<in> set b) a)"

text \<open>The loop of \<open>intersectPath\<close> for a first path that is not the longer one.\<close>

fun mergePath :: "string list \<Rightarrow> string list \<Rightarrow> string list option" where
  "mergePath [] r = Some []"
| "mergePath (x # l) [] = None"
| "mergePath (x # l) (y # r) =
     (if x = ''*'' then
        (if l = [] then Some (y # r) else map_option (Cons y) (mergePath l r))
      else if y = ''*'' \<or> x = y then map_option (Cons x) (mergePath l r)
      else None)"

definition intersectPath :: "string list \<Rightarrow> string list \<Rightarrow> string list option" where
  "intersectPath l0 r0 =
     (let (l, r) = (if length r0 < length l0 then (r0, l0) else (l0, r0))
      in if length r \<noteq> length l \<and> last l \<noteq> ''*'' then None else mergePath l r)"

definition addPerm :: "string \<Rightarrow> Op list \<Rightarrow> perms \<Rightarrow> perms" where
  "addPerm joined ops out = gput joined (foldl (\<lambda>s x. if x \<in> set s then s else s @ [x])
     (gget [] out joined) ops) out"

definition intersectPair :: "string \<times> Op list \<Rightarrow> string \<times> Op list \<Rightarrow> (string \<times> Op list) option" where
  "intersectPair l r =
     (case l of (lPat, lOps) \<Rightarrow> case r of (rPat, rOps) \<Rightarrow>
        let ops = intersectOps lOps rOps
        in if ops = [] then None
           else case parseResource lPat of (lQual, lPath) \<Rightarrow>
                case parseResource rPat of (rQual, rPath) \<Rightarrow>
                  (case intersectQualifier lQual rQual of
                     None \<Rightarrow> None
                   | Some qual \<Rightarrow>
                      (case intersectPath lPath rPath of
                         None \<Rightarrow> None
                       | Some path \<Rightarrow> Some (encodeResource qual path, ops))))"

definition Intersect :: "perms \<Rightarrow> perms \<Rightarrow> perms" where
  "Intersect c other =
     foldl (\<lambda>out l. foldl (\<lambda>out r. case intersectPair l r of
         None \<Rightarrow> out
       | Some (joined, ops) \<Rightarrow> addPerm joined ops out) out other) [] c"

section \<open>Lemmas on paths\<close>

lemma mergePath_nonempty: "mergePath l r = Some m \<Longrightarrow> l \<noteq> [] \<Longrightarrow> m \<noteq> []"
  by (induction l r arbitrary: m rule: mergePath.induct) (auto split: if_splits)

lemma mergePath_sound:
  assumes "mergePath l r = Some m" "length l = length r \<or> length l < length r \<and> l \<noteq> [] \<and> last l = ''*''"
    and "pathsMatch m c"
  shows "pathsMatch l c \<and> pathsMatch r c"
  using assms
proof (induction l r arbitrary: m c rule: mergePath.induct)
  case (3 x l y r)
  show ?case
  proof (cases "x = ''*'' \<and> l = []")
    case True
    with 3 show ?thesis by auto
  next
    case False
    with 3 obtain m' where m': "mergePath l r = Some m'"
      "m = (if x = ''*'' then y else x) # m'" "x = ''*'' \<or> y = ''*'' \<or> x = y"
      by (auto split: if_splits)
    have shape: "length l = length r \<or> length l < length r \<and> l \<noteq> [] \<and> last l = ''*''"
      using 3 False by (auto split: if_splits)
    show ?thesis
    proof (cases "x = ''*''")
      case True
      with False have "l \<noteq> []" by simp
      with shape have ne: "r \<noteq> []" "m' \<noteq> []" using mergePath_nonempty [OF m'(1)] by auto
      with True m' 3(5) \<open>l \<noteq> []\<close> obtain d c' where c: "c = d # c'" "pathsMatch m' c'"
        "y = ''*'' \<or> y = d" by (auto split: if_splits list.splits)
      with 3(1) True \<open>l \<noteq> []\<close> m'(1) shape have "pathsMatch l c' \<and> pathsMatch r c'" by blast
      with c True \<open>l \<noteq> []\<close> ne show ?thesis by auto
    next
      case x: False
      with m' 3(5) obtain c' where c: "c = x # c'" "pathsMatch m' c'" by (auto split: list.splits)
      with 3(2) x m' shape have "pathsMatch l c' \<and> pathsMatch r c'" by blast
      with c x m'(3) show ?thesis by auto
    qed
  qed
qed auto

lemma mergePath_complete:
  assumes "pathsMatch l c" "pathsMatch r c" "length l \<le> length c" "length r \<le> length c"
    and "length l = length r \<or> length l < length r \<and> l \<noteq> [] \<and> last l = ''*''"
  shows "\<exists>m. mergePath l r = Some m \<and> pathsMatch m c"
  using assms
proof (induction l r arbitrary: c rule: mergePath.induct)
  case (3 x l y r)
  obtain d c' where c: "c = d # c'" using 3(5) by (cases c) auto
  show ?case
  proof (cases "x = ''*'' \<and> l = []")
    case True
    with 3 show ?thesis by auto
  next
    case False
    have shape: "length l = length r \<or> length l < length r \<and> l \<noteq> [] \<and> last l = ''*''"
      using 3(7) False by (auto split: if_splits)
    show ?thesis
    proof (cases "x = ''*''")
      case True
      with False have "l \<noteq> []" "r \<noteq> []" using shape by auto
      with 3 True c shape obtain m where "mergePath l r = Some m" "pathsMatch m c'"
        by (auto split: if_splits)
      with True \<open>l \<noteq> []\<close> \<open>r \<noteq> []\<close> 3(4) c show ?thesis by (auto split: if_splits)
    next
      case x: False
      then have xd: "d = x" "pathsMatch l c'" using 3(3) c by auto
      have y: "y = ''*'' \<or> x = y" using 3(4) c xd by (auto split: if_splits)
      have "pathsMatch r c'"
      proof (cases "r = []")
        case True
        then have "l = []" using shape by auto
        with xd(2) True show ?thesis by simp
      qed (use 3(4) c in \<open>auto split: if_splits\<close>)
      with 3(2) [OF x y xd(2)] 3(5,6) c shape obtain m where "mergePath l r = Some m" "pathsMatch m c'"
        by auto
      with x y xd c show ?thesis by auto
    qed
  qed
qed auto

lemma pathsMatch_longer: "pathsMatch l c \<Longrightarrow> length l < length c \<Longrightarrow> l \<noteq> [] \<and> last l = ''*''"
  by (induction l c rule: pathsMatch.induct) (auto split: if_splits list.splits)

lemma intersectPath_sound:
  assumes "intersectPath l r = Some m" "l \<noteq> []" "r \<noteq> []" "pathsMatch m c"
  shows "pathsMatch l c \<and> pathsMatch r c"
proof (cases "length r < length l")
  case True
  with assms mergePath_sound [of r l m c] show ?thesis
    by (simp add: intersectPath_def split: if_splits)
next
  case False
  then have "length l = length r \<or> length l < length r" by linarith
  with False assms mergePath_sound [of l r m c] show ?thesis
    by (auto simp: intersectPath_def split: if_splits)
qed

lemma intersectPath_complete:
  assumes "pathsMatch l c" "pathsMatch r c" "length l \<le> length c" "length r \<le> length c"
  shows "\<exists>m. intersectPath l r = Some m \<and> pathsMatch m c"
proof (cases "length r < length l")
  case True
  then have "r \<noteq> [] \<and> last r = ''*''" using pathsMatch_longer [OF assms(2)] assms(3) by simp
  with True assms mergePath_complete [of r c l] show ?thesis by (auto simp: intersectPath_def)
next
  case False
  then have "length l = length r \<or> length l < length r" by linarith
  then have "length l = length r \<or> length l < length r \<and> l \<noteq> [] \<and> last l = ''*''"
    using pathsMatch_longer [OF assms(1)] assms(4) by linarith
  with False assms mergePath_complete [of l c r] show ?thesis by (auto simp: intersectPath_def)
qed

lemma mergePath_sets:
  "mergePath l r = Some m \<Longrightarrow> set m \<subseteq> set l \<union> set r \<and>
     (l \<noteq> [] \<longrightarrow> r \<noteq> [] \<longrightarrow> hd m = hd l \<or> hd m = hd r)"
  by (induction l r arbitrary: m rule: mergePath.induct) (auto split: if_splits; fastforce)+

section \<open>Lemmas on resources\<close>

definition seg_ok :: "string list \<Rightarrow> bool" where
  "seg_ok path \<longleftrightarrow> path \<noteq> [] \<and> (\<forall>x \<in> set path. CHR '':'' \<notin> set x)"

definition qual_ok :: "string \<Rightarrow> bool" where
  "qual_ok q \<longleftrightarrow> CHR '']'' \<notin> set q \<and> CHR ''='' \<notin> set q \<and> CHR ''?'' \<notin> set q"

text \<open>A pattern whose name part does not itself start with a bracket.\<close>

definition plain_pattern :: "string \<Rightarrow> bool" where
  "plain_pattern pat \<longleftrightarrow> (case parseResource pat of (q, path) \<Rightarrow>
     hd path = [] \<or> hd (hd path) \<noteq> CHR ''['')"

lemma parseResource_ok: "parseResource pat = (q, path) \<Longrightarrow> qual_ok q \<and> seg_ok path"
proof -
  assume p: "parseResource pat = (q, path)"
  have "seg_ok (split_on (CHR '':'') s)" for s
    using split_on_no_sep by (auto simp: seg_ok_def)
  moreover have "qual_ok (takeWhile (\<lambda>c. c \<noteq> CHR ''='' \<and> c \<noteq> CHR ''?'') (tl a))"
    if "cut (CHR '']'') pat = (a, b, True)" for a b
  proof -
    have "CHR '']'' \<notin> set (tl a)" using cut_found [OF that] by (cases a) auto
    then show ?thesis by (auto simp: qual_ok_def dest: set_takeWhileD)
  qed
  ultimately show ?thesis
    using p by (auto simp: parseResource_def qual_ok_def split: if_splits prod.splits)
qed

lemma join_hd: "path \<noteq> [] \<Longrightarrow> join_with c path \<noteq> [] \<Longrightarrow>
    hd (join_with c path) = (if hd path = [] then c else hd (hd path))"
  by (cases path; cases "tl path") auto

lemma parse_encode:
  assumes "qual_ok q" "seg_ok path" "hd path = [] \<or> hd (hd path) \<noteq> CHR ''[''"
  shows "parseResource (encodeResource q path) = (q, path)"
proof -
  let ?name = "join_with (CHR '':'') path"
  have sj: "split_on (CHR '':'') ?name = path" using assms(2) by (simp add: seg_ok_def split_join)
  show ?thesis
  proof (cases "q = []")
    case True
    have "?name = [] \<or> hd ?name \<noteq> CHR ''[''"
      using join_hd [of path "CHR '':''"] assms(2,3) by (auto simp: seg_ok_def split: if_splits)
    with True sj show ?thesis by (auto simp: encodeResource_def parseResource_def Let_def)
  next
    case False
    have "cut (CHR '']'') ((CHR ''['' # q) @ CHR '']'' # ?name) = (CHR ''['' # q, ?name, True)"
      using assms(1) by (intro cut_append) (simp add: qual_ok_def)
    moreover have "takeWhile (\<lambda>c. c \<noteq> CHR ''='' \<and> c \<noteq> CHR ''?'') q = q"
      using assms(1) by (auto simp: takeWhile_eq_all_conv qual_ok_def)
    ultimately show ?thesis using False sj by (simp add: encodeResource_def parseResource_def Let_def)
  qed
qed

lemma intersectQualifier_match:
  assumes "intersectQualifier l r = Some q"
  shows "qualifierMatches q [] \<longleftrightarrow> qualifierMatches l [] \<and> qualifierMatches r []"
    and "q = l \<or> q = r"
  using assms by (auto simp: intersectQualifier_def qualifierMatches_def split: if_splits)

lemma intersectQualifier_exists:
  "qualifierMatches l [] \<Longrightarrow> qualifierMatches r [] \<Longrightarrow> \<exists>q. intersectQualifier l r = Some q"
  by (auto simp: intersectQualifier_def qualifierMatches_def)

text \<open>The joined resource of a pair parses to the joined qualifier and path.\<close>

lemma pair_parse:
  assumes "parseResource lp = (lq, lpath)" "parseResource rp = (rq, rpath)"
    and "plain_pattern lp" "plain_pattern rp"
    and "intersectQualifier lq rq = Some q" "intersectPath lpath rpath = Some path"
  shows "parseResource (encodeResource q path) = (q, path)"
proof -
  have ok: "qual_ok lq" "qual_ok rq" "seg_ok lpath" "seg_ok rpath"
    using parseResource_ok assms(1,2) by blast+
  have m: "mergePath lpath rpath = Some path \<or> mergePath rpath lpath = Some path"
    using assms(6) by (auto simp: intersectPath_def split: if_splits)
  then have "path \<noteq> []" "set path \<subseteq> set lpath \<union> set rpath" "hd path = hd lpath \<or> hd path = hd rpath"
    using mergePath_nonempty mergePath_sets ok by (fastforce simp: seg_ok_def)+
  with ok assms(1-4) intersectQualifier_match(2) [OF assms(5)] show ?thesis
    by (intro parse_encode) (auto simp: seg_ok_def plain_pattern_def)
qed

section \<open>Lemmas on grants\<close>

definition grants :: "perms \<Rightarrow> string \<Rightarrow> Op \<Rightarrow> bool" where
  "grants c pat x \<longleftrightarrow> x \<in> set (gget [] c pat)"

lemma Permits_grants:
  "gmap_ok c \<Longrightarrow> Permits c ch x \<longleftrightarrow> (\<exists>pat. matchResource pat ch \<and> (grants c pat OpWildcard \<or> grants c pat x))"
  unfolding Permits_def list_ex_iff grants_def gget_def
  by (auto split: option.splits simp: map_of_eq_Some_iff dest: map_of_SomeD)

lemma set_union_loop: "set (foldl (\<lambda>s x. if x \<in> set s then s else s @ [x]) s xs) = set s \<union> set xs"
  by (induction xs arbitrary: s) auto

lemma grants_addPerm: "grants (addPerm j ops out) pat x \<longleftrightarrow> grants out pat x \<or> pat = j \<and> x \<in> set ops"
  by (auto simp: grants_def addPerm_def gget_def set_union_loop)

lemma gmap_ok_addPerm: "gmap_ok out \<Longrightarrow> gmap_ok (addPerm j ops out)"
  by (simp add: addPerm_def)

definition joinAll :: "string \<times> Op list \<Rightarrow> perms \<Rightarrow> perms \<Rightarrow> perms" where
  "joinAll l other out = foldl (\<lambda>out r. case intersectPair l r of
      None \<Rightarrow> out | Some (joined, ops) \<Rightarrow> addPerm joined ops out) out other"

lemma joinAll_spec:
  "gmap_ok out \<Longrightarrow> gmap_ok (joinAll l other out) \<and>
    (grants (joinAll l other out) pat x \<longleftrightarrow> grants out pat x \<or>
      (\<exists>r \<in> set other. \<exists>ops. intersectPair l r = Some (pat, ops) \<and> x \<in> set ops))"
proof (induction other arbitrary: out)
  case (Cons r other)
  show ?case
  proof (cases "intersectPair l r")
    case None
    with Cons show ?thesis by (simp add: joinAll_def)
  next
    case (Some a)
    then obtain j ops where a: "intersectPair l r = Some (j, ops)" by (cases a) auto
    with Cons.IH [OF gmap_ok_addPerm [OF Cons.prems], of j ops] show ?thesis
      by (auto simp: joinAll_def grants_addPerm)
  qed
qed (simp add: joinAll_def)

lemma Intersect_fold:
  "gmap_ok out \<Longrightarrow> gmap_ok (foldl (\<lambda>out l. joinAll l other out) out c) \<and>
    (grants (foldl (\<lambda>out l. joinAll l other out) out c) pat x \<longleftrightarrow> grants out pat x \<or>
      (\<exists>l \<in> set c. \<exists>r \<in> set other. \<exists>ops. intersectPair l r = Some (pat, ops) \<and> x \<in> set ops))"
proof (induction c arbitrary: out)
  case (Cons l c)
  then show ?case using joinAll_spec [OF Cons.prems, of l other] by auto
qed simp

lemma Permits_Intersect:
  "Permits (Intersect c other) ch x \<longleftrightarrow>
     (\<exists>l \<in> set c. \<exists>r \<in> set other. \<exists>j ops. intersectPair l r = Some (j, ops) \<and>
        matchResource j ch \<and> (OpWildcard \<in> set ops \<or> x \<in> set ops))"
proof -
  have i: "Intersect c other = foldl (\<lambda>out l. joinAll l other out) [] c"
    by (simp add: Intersect_def joinAll_def)
  have "\<not> grants [] pat y" for pat y by (simp add: grants_def gget_def)
  then show ?thesis
    using Intersect_fold [of "[]" other c] Permits_grants [of "Intersect c other" ch x]
    by (simp add: i) blast
qed

lemma intersectOps_mem:
  "(OpWildcard \<in> set (intersectOps a b) \<or> x \<in> set (intersectOps a b)) \<longleftrightarrow>
     (OpWildcard \<in> set a \<or> x \<in> set a) \<and> (OpWildcard \<in> set b \<or> x \<in> set b)"
  by (auto simp: intersectOps_def)

lemma intersectPair_sound:
  assumes "intersectPair (lp, lo) (rp, ro) = Some (j, ops)" "plain_pattern lp" "plain_pattern rp"
    and "matchResource j ch"
  shows "matchResource lp ch \<and> matchResource rp ch \<and> ops = intersectOps lo ro"
proof -
  obtain lq lpath where l: "parseResource lp = (lq, lpath)" by fastforce
  obtain rq rpath where r: "parseResource rp = (rq, rpath)" by fastforce
  from assms(1) obtain q path where q: "intersectQualifier lq rq = Some q"
    "intersectPath lpath rpath = Some path" "j = encodeResource q path" "ops = intersectOps lo ro"
    by (auto simp: intersectPair_def l r Let_def split: if_splits option.splits)
  have "parseResource j = (q, path)" using pair_parse [OF l r assms(2,3) q(1,2)] q(3) by simp
  moreover have "lpath \<noteq> []" "rpath \<noteq> []" using parseResource_ok l r by (auto simp: seg_ok_def)
  ultimately show ?thesis
    using assms(4) intersectQualifier_match(1) [OF q(1)] intersectPath_sound [OF q(2)] q(4)
    by (auto simp: matchResource_def l r)
qed

lemma intersectPair_complete:
  assumes "plain_pattern lp" "plain_pattern rp" "matchResource lp ch" "matchResource rp ch"
    and "length (snd (parseResource lp)) \<le> length (split_on (CHR '':'') ch)"
      "length (snd (parseResource rp)) \<le> length (split_on (CHR '':'') ch)"
    and "intersectOps lo ro \<noteq> []"
  shows "\<exists>j. intersectPair (lp, lo) (rp, ro) = Some (j, intersectOps lo ro) \<and> matchResource j ch"
proof -
  obtain lq lpath where l: "parseResource lp = (lq, lpath)" by fastforce
  obtain rq rpath where r: "parseResource rp = (rq, rpath)" by fastforce
  have m: "qualifierMatches lq []" "qualifierMatches rq []"
    "pathsMatch lpath (split_on (CHR '':'') ch)" "pathsMatch rpath (split_on (CHR '':'') ch)"
    using assms(3,4) by (simp_all add: matchResource_def l r)
  obtain q where q: "intersectQualifier lq rq = Some q" using intersectQualifier_exists m by blast
  obtain path where p: "intersectPath lpath rpath = Some path" "pathsMatch path (split_on (CHR '':'') ch)"
    using intersectPath_complete [OF m(3,4)] assms(5,6) by (auto simp: l r)
  have "parseResource (encodeResource q path) = (q, path)"
    by (rule pair_parse [OF l r assms(1,2) q p(1)])
  then have "matchResource (encodeResource q path) ch"
    using intersectQualifier_match(1) [OF q] m p by (simp add: matchResource_def)
  then show ?thesis using assms(7) by (simp add: intersectPair_def l r q p Let_def)
qed

lemma Intersect_sound:
  assumes "\<forall>(pat, ops) \<in> set c. plain_pattern pat" "\<forall>(pat, ops) \<in> set d. plain_pattern pat"
    and "Permits (Intersect c d) ch x"
  shows "Permits c ch x \<and> Permits d ch x"
proof -
  from assms(3) obtain lp lo rp ro j ops where h: "(lp, lo) \<in> set c" "(rp, ro) \<in> set d"
    "intersectPair (lp, lo) (rp, ro) = Some (j, ops)" "matchResource j ch"
    "OpWildcard \<in> set ops \<or> x \<in> set ops" by (auto simp: Permits_Intersect)
  then have "plain_pattern lp" "plain_pattern rp" using assms(1,2) by auto
  with h have "matchResource lp ch \<and> matchResource rp ch \<and> ops = intersectOps lo ro"
    by (intro intersectPair_sound)
  with h intersectOps_mem [of lo ro x] show ?thesis
    unfolding Permits_def list_ex_iff by blast
qed

section \<open>Properties\<close>

text \<open>C39: narrowing never widens: whatever the intersection of two capabilities grants on a
  channel, both of them grant. Hypothesis: the patterns' names do not themselves start with a
  bracket, as no valid channel name does.\<close>

theorem intersect_never_widens:
  assumes "\<forall>(pat, ops) \<in> set c. plain_pattern pat" "\<forall>(pat, ops) \<in> set d. plain_pattern pat"
    and "Permits (Intersect c d) ch x"
  shows "Permits c ch x \<and> Permits d ch x"
  using assms by (rule Intersect_sound)

theorem intersect_never_widens_witness:
  "let c = [(''[*]*'', [''publish'', ''subscribe''])]; d = [(''room:*'', [''*''])]
   in Permits (Intersect c d) ''room:1'' ''publish'' \<and> Permits d ''room:1'' ''publish''"
proof -
  let ?c = "[(''[*]*'', [''publish'', ''subscribe''])]" and ?d = "[(''room:*'', [''*''])]"
  have "\<forall>(pat, ops) \<in> set ?c. plain_pattern pat" "\<forall>(pat, ops) \<in> set ?d. plain_pattern pat"
    "Permits (Intersect ?c ?d) ''room:1'' ''publish''" by code_simp+
  with intersect_never_widens [OF this] show ?thesis by (simp add: Let_def)
qed

text \<open>Narrowing loses nothing on a channel that has at least as many segments as every
  pattern of the two capabilities: what both grant there, the intersection grants.\<close>

theorem intersect_keeps_common_grants:
  assumes "\<forall>(pat, ops) \<in> set c. plain_pattern pat \<and>
      length (snd (parseResource pat)) \<le> length (split_on (CHR '':'') ch)"
    and "\<forall>(pat, ops) \<in> set d. plain_pattern pat \<and>
      length (snd (parseResource pat)) \<le> length (split_on (CHR '':'') ch)"
    and "Permits c ch x" "Permits d ch x"
  shows "Permits (Intersect c d) ch x"
proof -
  from assms(3) obtain lp lo where l: "(lp, lo) \<in> set c" "matchResource lp ch"
    "OpWildcard \<in> set lo \<or> x \<in> set lo" by (auto simp: Permits_def list_ex_iff)
  from assms(4) obtain rp ro where r: "(rp, ro) \<in> set d" "matchResource rp ch"
    "OpWildcard \<in> set ro \<or> x \<in> set ro" by (auto simp: Permits_def list_ex_iff)
  have o: "OpWildcard \<in> set (intersectOps lo ro) \<or> x \<in> set (intersectOps lo ro)"
    using l(3) r(3) by (simp add: intersectOps_mem)
  then have "intersectOps lo ro \<noteq> []" by auto
  moreover have "plain_pattern lp \<and> length (snd (parseResource lp)) \<le> length (split_on (CHR '':'') ch)"
    "plain_pattern rp \<and> length (snd (parseResource rp)) \<le> length (split_on (CHR '':'') ch)"
    using l(1) r(1) assms(1,2) by auto
  ultimately obtain j where
    "intersectPair (lp, lo) (rp, ro) = Some (j, intersectOps lo ro)" "matchResource j ch"
    using intersectPair_complete [of lp rp ch lo ro] l(2) r(2) by blast
  with l(1) r(1) o show ?thesis by (auto simp: Permits_Intersect)
qed

theorem intersect_keeps_common_grants_witness:
  "Permits (Intersect [(''*:news'', [''*''])] [(''sport:*'', [''history''])]) ''sport:news'' ''history''"
proof -
  have "\<forall>(pat, ops) \<in> set [(''*:news'', [''*''])]. plain_pattern pat \<and>
      length (snd (parseResource pat)) \<le> length (split_on (CHR '':'') ''sport:news'')"
    "\<forall>(pat, ops) \<in> set [(''sport:*'', [''history''])]. plain_pattern pat \<and>
      length (snd (parseResource pat)) \<le> length (split_on (CHR '':'') ''sport:news'')"
    "Permits [(''*:news'', [''*''])] ''sport:news'' ''history''"
    "Permits [(''sport:*'', [''history''])] ''sport:news'' ''history''" by code_simp+
  then show ?thesis by (rule intersect_keeps_common_grants)
qed

text \<open>On a shorter channel it can lose a grant: \<open>room\<close> is granted by both \<open>room\<close> and \<open>room:*\<close>,
  yet their intersection is empty; and with a name that starts with a bracket it can widen:
  \<open>[*][*]room\<close> does not grant the channel \<open>room\<close>, its intersection with \<open>*\<close> does.\<close>

theorem intersect_gaps:
  "matchResource ''room'' ''room'' \<and> matchResource ''room:*'' ''room'' \<and>
   Intersect [(''room'', [''*''])] [(''room:*'', [''*''])] = [] \<and>
   \<not> Permits [(''[*][*]room'', [''*''])] ''room'' ''publish'' \<and>
   Permits (Intersect [(''[*][*]room'', [''*''])] [(''*'', [''*''])]) ''room'' ''publish''"
  by code_simp

end
