(* ===== verification/Auth.thy ===== *)
theory Auth
  imports Capability
begin

text \<open>
  \<open>internal/auth/auth.go\<close>: API keys, token verification, token requests and their replay guard,
  token minting, and the clientId rules. Times are nanoseconds since the Unix epoch. The JWT
  library is a parameter (\<open>jwtHeader\<close>, \<open>jwtClaims\<close>), as are the HMAC and its base64 rendering
  (\<open>macOf\<close>) and the decoded JSON of a capability string.
\<close>

section \<open>Definitions\<close>

datatype auth_error =
    ErrNoCredentials | ErrInvalidKey | ErrInvalidToken | ErrTokenExpired | ErrInvalidJWT
  | ErrUnknownApp | ErrClientIDMismatch | ErrTimestampNotCurrent | ErrNonceReplayed
  | ErrInvalidCapability | ErrInvalidTTL | ErrCapabilityDenied

definition second :: int where "second = 1000000000"
definition clockSkewLeeway :: int where "clockSkewLeeway = 60 * second"
definition maxTokenTTL :: int where "maxTokenTTL = 24 * 3600 * second"
definition tokenRequestTimestampWindow :: int where "tokenRequestTimestampWindow = 120 * second"
definition defaultTokenTTL :: int where "defaultTokenTTL = 3600 * second"

lemmas time_defs = second_def clockSkewLeeway_def maxTokenTTL_def tokenRequestTimestampWindow_def
  defaultTokenTTL_def

definition WildcardClientID :: string where "WildcardClientID = ''*''"

subsection \<open>API keys\<close>

record APIKey =
  ak_AppID :: string
  ak_KeyID :: string
  ak_KeySecret :: string
  ak_cap :: perms
  ak_raw :: string

definition KeyName :: "APIKey \<Rightarrow> string" where
  "KeyName k = ak_AppID k @ ''.'' @ ak_KeyID k"

datatype key_error = MissingColon | EmptySecret | MissingDot | EmptyAppID | EmptyKeyID

text \<open>\<open>ParseAPIKeyWithCapability\<close>; the capability argument is the parsed \<open>capJSON\<close>, \<open>None\<close> when it
  is empty.\<close>

definition ParseAPIKeyWithCapability :: "string \<Rightarrow> perms option \<Rightarrow> key_error + APIKey" where
  "ParseAPIKeyWithCapability s capJSON =
     (case cut (CHR '':'') s of (name, secret, ok) \<Rightarrow>
        if \<not> ok then Inl MissingColon
        else if secret = [] then Inl EmptySecret
        else case cut (CHR ''.'') name of (appID, keyID, ok) \<Rightarrow>
          if \<not> ok then Inl MissingDot
          else if appID = [] then Inl EmptyAppID
          else if keyID = [] then Inl EmptyKeyID
          else Inr \<lparr>ak_AppID = appID, ak_KeyID = keyID, ak_KeySecret = secret,
                    ak_cap = (case capJSON of None \<Rightarrow> AllowAllCapability | Some c \<Rightarrow> c),
                    ak_raw = s\<rparr>)"

definition ParseAPIKey :: "string \<Rightarrow> key_error + APIKey" where
  "ParseAPIKey s = ParseAPIKeyWithCapability s None"

subsection \<open>The authenticator\<close>

datatype Method = MethodBasic | MethodToken

record Principal =
  pr_Method :: Method
  pr_ClientID :: string
  pr_HasClientID :: bool
  pr_cap :: perms
  pr_ExpiresAt :: int

text \<open>\<open>nonceReaped\<close> starts as Go's zero time, more than 292 years back, where \<open>Sub\<close> saturates
  above any window.\<close>

record Authenticator =
  au_keys :: "APIKey list"
  au_byName :: "(string, APIKey) gomap"
  au_appID :: string
  au_seenNonces :: "(string, int) gomap"
  au_nonceReaped :: int

definition NewAuthenticator :: "APIKey list \<Rightarrow> Authenticator" where
  "NewAuthenticator keys =
     \<lparr>au_keys = keys, au_byName = foldl (\<lambda>m k. gput (KeyName k) k m) [] keys,
      au_appID = (case keys of [] \<Rightarrow> [] | k # _ \<Rightarrow> ak_AppID k),
      au_seenNonces = [], au_nonceReaped = - 62135596800 * second\<rparr>"

text \<open>\<open>matchKey\<close>: every key is compared, the last equal one is kept.\<close>

definition matchKey :: "Authenticator \<Rightarrow> string \<Rightarrow> APIKey option" where
  "matchKey a presented =
     foldl (\<lambda>matched k. if ak_raw k = presented then Some k else matched) None (au_keys a)"

text \<open>What the JWT library reports, and the claims it decodes: \<open>tc_iat\<close> is \<open>None\<close> when the claim
  is absent and \<open>Some None\<close> when it is no date, \<open>tc_capability\<close> holds the decoded claim (\<open>Some None\<close> is an unparseable one).\<close>

datatype jwt_error = JwtExpired | JwtMalformed | JwtUnverifiable | JwtSignatureInvalid | JwtOther

record TokenClaims =
  tc_iat :: "int option option"
  tc_capability :: "perms option option"
  tc_clientId :: "string option"
  tc_exp :: int

text \<open>The key function: the key a kid selects, or which of its errors.\<close>

definition keyFunc :: "Authenticator \<Rightarrow> string option \<Rightarrow> auth_error + APIKey" where
  "keyFunc a kid =
     (case kid of
        None \<Rightarrow> Inl ErrInvalidJWT
      | Some n \<Rightarrow>
          (case map_of (au_byName a) n of
             Some k \<Rightarrow> Inr k
           | None \<Rightarrow>
               (case cut (CHR ''.'') n of (appID, _, found) \<Rightarrow>
                  if found \<and> appID \<noteq> au_appID a then Inl ErrUnknownApp else Inl ErrInvalidJWT)))"

fun jwtErrorClass :: "jwt_error \<Rightarrow> auth_error" where
  "jwtErrorClass JwtExpired = ErrTokenExpired"
| "jwtErrorClass JwtMalformed = ErrInvalidJWT"
| "jwtErrorClass JwtUnverifiable = ErrInvalidJWT"
| "jwtErrorClass JwtSignatureInvalid = ErrInvalidJWT"
| "jwtErrorClass JwtOther = ErrInvalidToken"

definition verifyToken ::
  "(string \<Rightarrow> jwt_error + string option) \<Rightarrow> (string \<Rightarrow> string \<Rightarrow> jwt_error + TokenClaims) \<Rightarrow>
   int \<Rightarrow> Authenticator \<Rightarrow> string \<Rightarrow> auth_error + Principal" where
  "verifyToken jwtHeader jwtClaims now a tok =
     (case jwtHeader tok of
        Inl e \<Rightarrow> Inl (jwtErrorClass e)
      | Inr kid \<Rightarrow>
         (case keyFunc a kid of
            Inl e \<Rightarrow> Inl e
          | Inr signingKey \<Rightarrow>
             (case jwtClaims tok (ak_KeySecret signingKey) of
                Inl e \<Rightarrow> Inl (jwtErrorClass e)
              | Inr claims \<Rightarrow>
                 (case tc_iat claims of
                    None \<Rightarrow> Inl ErrInvalidToken
                  | Some iat \<Rightarrow>
                     if (case iat of None \<Rightarrow> False | Some t \<Rightarrow> t > now + clockSkewLeeway)
                     then Inl ErrInvalidToken
                     else
                       let p = \<lparr>pr_Method = MethodToken,
                                pr_ClientID = (case tc_clientId claims of None \<Rightarrow> [] | Some c \<Rightarrow> c),
                                pr_HasClientID = (tc_clientId claims \<noteq> None),
                                pr_cap = ak_cap signingKey, pr_ExpiresAt = tc_exp claims\<rparr>
                       in case tc_capability claims of
                            None \<Rightarrow> Inr p
                          | Some None \<Rightarrow> Inl ErrInvalidToken
                          | Some (Some c) \<Rightarrow> Inr (p\<lparr>pr_cap := Intersect c (ak_cap signingKey)\<rparr>)))))"

text \<open>\<open>Authenticate\<close> on the extracted bearer token and key.\<close>

definition Authenticate ::
  "(string \<Rightarrow> jwt_error + string option) \<Rightarrow> (string \<Rightarrow> string \<Rightarrow> jwt_error + TokenClaims) \<Rightarrow>
   int \<Rightarrow> Authenticator \<Rightarrow> string option \<Rightarrow> string option \<Rightarrow> auth_error + Principal" where
  "Authenticate jwtHeader jwtClaims now a tok key =
     (case tok of
        Some t \<Rightarrow> verifyToken jwtHeader jwtClaims now a t
      | None \<Rightarrow>
          (case key of
             Some k \<Rightarrow>
               (case matchKey a k of
                  None \<Rightarrow> Inl ErrInvalidKey
                | Some ak \<Rightarrow> Inr \<lparr>pr_Method = MethodBasic, pr_ClientID = [], pr_HasClientID = False,
                     pr_cap = ak_cap ak, pr_ExpiresAt = 0\<rparr>)
           | None \<Rightarrow> Inl ErrNoCredentials))"

fun AuthErrorInfo :: "auth_error \<Rightarrow> int \<times> int \<times> string" where
  "AuthErrorInfo ErrTokenExpired = (40142, 401, ''token expired'')"
| "AuthErrorInfo ErrCapabilityDenied =
     (40160, 401, ''requested capability not permitted by the key'')"
| "AuthErrorInfo ErrTimestampNotCurrent = (40104, 401, ''token request timestamp not current'')"
| "AuthErrorInfo ErrNonceReplayed = (40105, 401, ''token request nonce replayed'')"
| "AuthErrorInfo ErrInvalidCapability = (40000, 400, ''invalid capability'')"
| "AuthErrorInfo ErrInvalidTTL = (40003, 400, ''invalid ttl'')"
| "AuthErrorInfo ErrClientIDMismatch = (40102, 401, ''clientId not permitted by credential'')"
| "AuthErrorInfo ErrUnknownApp = (40400, 404, ''application not found'')"
| "AuthErrorInfo ErrInvalidJWT = (40144, 401, ''invalid JWT format'')"
| "AuthErrorInfo ErrInvalidToken = (40101, 401, ''invalid credentials'')"
| "AuthErrorInfo ErrInvalidKey = (40101, 401, ''invalid credentials'')"
| "AuthErrorInfo ErrNoCredentials = (40101, 401, ''no credentials provided'')"

subsection \<open>Client ids\<close>

definition ResolveClientID :: "Principal \<Rightarrow> string \<Rightarrow> auth_error + string" where
  "ResolveClientID p param =
     (if pr_Method p = MethodBasic then
        (if param = [] then Inr WildcardClientID else Inr param)
      else if \<not> pr_HasClientID p then
        (if param \<noteq> [] then Inl ErrClientIDMismatch else Inr [])
      else if pr_ClientID p = WildcardClientID then
        (if param = [] then Inr WildcardClientID
         else if param = WildcardClientID then Inl ErrClientIDMismatch
         else Inr param)
      else if param = [] \<or> param = pr_ClientID p then Inr (pr_ClientID p)
      else Inl ErrClientIDMismatch)"

definition MessageClientID :: "string \<Rightarrow> string \<Rightarrow> string option" where
  "MessageClientID connClientID opClientID =
     (if connClientID = [] then (if opClientID = [] then Some [] else None)
      else if connClientID = WildcardClientID then
        (if opClientID = WildcardClientID then None else Some opClientID)
      else if opClientID = [] \<or> opClientID = connClientID then Some connClientID
      else None)"

subsection \<open>Token requests\<close>

record TokenRequest =
  tr_KeyName :: string
  tr_TTL :: int
  tr_Capability :: string
  tr_ClientID :: string
  tr_Timestamp :: int
  tr_Nonce :: string
  tr_MAC :: string

definition tokenRequestText :: "TokenRequest \<Rightarrow> string" where
  "tokenRequestText tr =
     (let nl = [CHR 0x0A]; ttl = (if tr_TTL tr \<noteq> 0 then itoa (tr_TTL tr) else [])
      in tr_KeyName tr @ nl @ ttl @ nl @ tr_Capability tr @ nl @ tr_ClientID tr @ nl @
         itoa (tr_Timestamp tr) @ nl @ tr_Nonce tr @ nl)"

definition recordNonce :: "int \<Rightarrow> string \<Rightarrow> Authenticator \<Rightarrow> bool \<times> Authenticator" where
  "recordNonce now nonce a =
     (let a1 = (if now - au_nonceReaped a > tokenRequestTimestampWindow
                then a\<lparr>au_seenNonces := filter (\<lambda>(n, e). \<not> now > e) (au_seenNonces a),
                       au_nonceReaped := now\<rparr>
                else a)
      in case map_of (au_seenNonces a1) nonce of
           Some e \<Rightarrow> if now < e then (False, a1)
                     else (True, a1\<lparr>au_seenNonces :=
                       gput nonce (now + tokenRequestTimestampWindow) (au_seenNonces a1)\<rparr>)
         | None \<Rightarrow> (True, a1\<lparr>au_seenNonces :=
                       gput nonce (now + tokenRequestTimestampWindow) (au_seenNonces a1)\<rparr>))"

text \<open>\<open>ValidateTokenRequest\<close>; \<open>macOf secret text\<close> is the base64 of the HMAC, \<open>basicKey\<close> what
  \<open>extractKey\<close> finds on the request. It returns the error, if any, and the authenticator.\<close>

definition ValidateTokenRequest ::
  "(string \<Rightarrow> string \<Rightarrow> string) \<Rightarrow> int \<Rightarrow> TokenRequest \<Rightarrow> string option \<Rightarrow> Authenticator \<Rightarrow>
   auth_error option \<times> Authenticator" where
  "ValidateTokenRequest macOf now tr basicKey a =
     (case map_of (au_byName a) (tr_KeyName tr) of
        None \<Rightarrow> (Some ErrInvalidToken, a)
      | Some key \<Rightarrow>
          let macAuthenticated = (tr_MAC tr \<noteq> []);
              ts = tr_Timestamp tr * 1000000
          in if macAuthenticated \<and> tr_MAC tr \<noteq> macOf (ak_KeySecret key) (tokenRequestText tr)
             then (Some ErrInvalidToken, a)
             else if \<not> macAuthenticated \<and> basicKey \<noteq> Some (ak_raw key) then (Some ErrInvalidToken, a)
             else if tr_Timestamp tr = 0 \<and> macAuthenticated then (Some ErrTimestampNotCurrent, a)
             else if tr_Timestamp tr \<noteq> 0 \<and>
                 (now - ts > tokenRequestTimestampWindow \<or> now - ts < - tokenRequestTimestampWindow)
             then (Some ErrTimestampNotCurrent, a)
             else if tr_Nonce tr = [] then
               (if macAuthenticated then Some ErrNonceReplayed else None, a)
             else (case recordNonce now (tr_Nonce tr) a of
                     (True, a') \<Rightarrow> (None, a')
                   | (False, a') \<Rightarrow> (Some ErrNonceReplayed, a')))"

text \<open>\<open>time.Duration(ttlMs) * time.Millisecond\<close> is an int64 product.\<close>

definition ttlDuration :: "int \<Rightarrow> int" where
  "ttlDuration ttlMs = wrap64 (ttlMs * 1000000)"

definition ValidateTTL :: "int \<Rightarrow> auth_error option" where
  "ValidateTTL ttlMs =
     (if ttlMs < 0 then Some ErrInvalidTTL
      else if ttlDuration ttlMs > maxTokenTTL then Some ErrInvalidTTL
      else None)"

record Minted =
  mt_kid :: string
  mt_secret :: string
  mt_issued :: int
  mt_expires :: int
  mt_capability :: "perms option"
  mt_clientId :: "string option"
  mt_jti :: "string option"

text \<open>\<open>MintToken\<close>: the claims that are signed and the key that signs them. \<open>parsed\<close> is the decoded
  JSON of the requested capability, \<open>None\<close> when it does not parse.\<close>

definition MintToken :: "int \<Rightarrow> TokenRequest \<Rightarrow> perms option \<Rightarrow> Authenticator \<Rightarrow> auth_error + Minted" where
  "MintToken now tr parsed a =
     (case map_of (au_byName a) (tr_KeyName tr) of
        None \<Rightarrow> Inl ErrInvalidToken
      | Some key \<Rightarrow>
          let ttl = ttlDuration (tr_TTL tr);
              ttl1 = (if ttl \<le> 0 then defaultTokenTTL else ttl)
          in if ttl > 0 \<and> ttl > maxTokenTTL then Inl ErrInvalidTTL
             else
               let tok = \<lparr>mt_kid = KeyName key, mt_secret = ak_KeySecret key, mt_issued = now,
                     mt_expires = now + ttl1, mt_capability = None,
                     mt_clientId = (if tr_ClientID tr \<noteq> [] then Some (tr_ClientID tr) else None),
                     mt_jti = (if tr_Nonce tr \<noteq> [] then Some (tr_Nonce tr) else None)\<rparr>
               in if tr_Capability tr = [] then Inr tok
                  else case parsed of
                         None \<Rightarrow> Inl ErrInvalidCapability
                       | Some requested \<Rightarrow>
                           let narrowed = Intersect requested (ak_cap key)
                           in if IsEmpty narrowed then Inl ErrCapabilityDenied
                              else Inr (tok\<lparr>mt_capability := Some narrowed\<rparr>))"

section \<open>Lemmas\<close>

definition plain_cap :: "perms \<Rightarrow> bool" where
  "plain_cap c \<longleftrightarrow> (\<forall>(pat, ops) \<in> set c. plain_pattern pat)"

lemma Intersect_bound:
  "plain_cap c \<Longrightarrow> plain_cap d \<Longrightarrow> Permits (Intersect c d) ch x \<Longrightarrow> Permits c ch x \<and> Permits d ch x"
  unfolding plain_cap_def by (rule Intersect_sound)

lemma keyFunc_Inr: "keyFunc a kid = Inr k \<Longrightarrow> \<exists>n. kid = Some n \<and> map_of (au_byName a) n = Some k"
  by (auto simp: keyFunc_def split: option.splits prod.splits if_splits)

text \<open>A run of nonce checks at the given times.\<close>

fun nonces :: "(int \<times> string) list \<Rightarrow> Authenticator \<Rightarrow> Authenticator" where
  "nonces [] a = a"
| "nonces ((t, n) # es) a = nonces es (snd (recordNonce t n a))"

definition reaped :: "int \<Rightarrow> Authenticator \<Rightarrow> Authenticator" where
  "reaped now a = (if now - au_nonceReaped a > tokenRequestTimestampWindow
     then a\<lparr>au_seenNonces := filter (\<lambda>(n, e). \<not> now > e) (au_seenNonces a), au_nonceReaped := now\<rparr>
     else a)"

lemma recordNonce_reaped:
  "recordNonce now n a =
     (if \<exists>e. map_of (au_seenNonces (reaped now a)) n = Some e \<and> now < e then (False, reaped now a)
      else (True, (reaped now a)\<lparr>au_seenNonces :=
        gput n (now + tokenRequestTimestampWindow) (au_seenNonces (reaped now a))\<rparr>))"
  by (cases "map_of (au_seenNonces (reaped now a)) n")
    (simp_all add: recordNonce_def reaped_def [symmetric] Let_def)

lemma reaped_keeps:
  assumes "map_of (au_seenNonces a) n = Some e" "t < e"
  shows "map_of (au_seenNonces (reaped t a)) n = Some e"
proof -
  have "map_of (filter (\<lambda>(n, e). \<not> t > e) xs) n = Some e" if "map_of xs n = Some e" for xs :: "(string, int) gomap"
    using that assms(2) by (induction xs) (auto split: if_splits)
  with assms(1) show ?thesis by (simp add: reaped_def)
qed

lemma recordNonce_keeps:
  assumes "map_of (au_seenNonces a) n = Some e" "t < e"
  shows "\<exists>e'. map_of (au_seenNonces (snd (recordNonce t m a))) n = Some e' \<and> e \<le> e'"
  using reaped_keeps [OF assms] assms(2)
  by (cases "m = n") (auto simp: recordNonce_reaped)

lemma nonces_keep:
  assumes "map_of (au_seenNonces a) n = Some e" "\<forall>(t, m) \<in> set es. t < e"
  shows "\<exists>e'. map_of (au_seenNonces (nonces es a)) n = Some e' \<and> e \<le> e'"
  using assms
proof (induction es arbitrary: a e)
  case (Cons p es)
  obtain t m where p: "p = (t, m)" by (cases p)
  obtain e1 where e1: "map_of (au_seenNonces (snd (recordNonce t m a))) n = Some e1" "e \<le> e1"
    using recordNonce_keeps [OF Cons.prems(1), of t m] Cons.prems(2) p by auto
  have "\<forall>(t, m) \<in> set es. t < e1" using Cons.prems(2) e1(2) by fastforce
  from Cons.IH [OF e1(1) this] e1(2) show ?case by (auto simp: p)
qed simp

lemma recordNonce_new:
  "recordNonce t n a = (True, a') \<Longrightarrow>
     map_of (au_seenNonces a') n = Some (t + tokenRequestTimestampWindow)"
  by (auto simp: recordNonce_reaped split: if_splits)

lemma recordNonce_seen:
  "map_of (au_seenNonces a) n = Some e \<Longrightarrow> t < e \<Longrightarrow> fst (recordNonce t n a) = False"
  using reaped_keeps [of a n e t] by (simp add: recordNonce_reaped)

lemma Validate_accepts:
  assumes "ValidateTokenRequest macOf now tr basic a = (None, a')" "tr_MAC tr \<noteq> []"
  shows "\<bar>now - tr_Timestamp tr * 1000000\<bar> \<le> tokenRequestTimestampWindow \<and> tr_Nonce tr \<noteq> [] \<and>
    recordNonce now (tr_Nonce tr) a = (True, a')"
  using assms
  by (auto simp: ValidateTokenRequest_def Let_def split: option.splits if_splits prod.splits bool.splits)

section \<open>Properties\<close>



text \<open>ClientIds cannot be forged: whatever clientId a request asks for and whatever an
  operation carries, the identity stamped on it is never the wildcard, is empty for a token
  without a clientId claim, and is the claim itself for a token with a concrete one.\<close>

theorem stamped_client_id_authorised:
  assumes "ResolveClientID p param = Inr conn" "MessageClientID conn opid = Some stamped"
  shows "stamped \<noteq> WildcardClientID \<and>
    (pr_Method p = MethodToken \<longrightarrow>
       (\<not> pr_HasClientID p \<longrightarrow> stamped = []) \<and>
       (pr_HasClientID p \<and> pr_ClientID p \<noteq> WildcardClientID \<longrightarrow> stamped = pr_ClientID p))"
proof -
  have w: "MessageClientID c i = Some st \<Longrightarrow> st \<noteq> WildcardClientID" for c i st
    by (auto simp: MessageClientID_def WildcardClientID_def split: if_splits)
  show ?thesis
    using assms w [OF assms(2)]
    by (auto simp: ResolveClientID_def MessageClientID_def split: if_splits)
qed

theorem stamped_client_id_authorised_witness:
  "\<exists>stamped. MessageClientID ''amy'' [] = Some stamped \<and> stamped = ''amy''"
proof -
  let ?p = "\<lparr>pr_Method = MethodToken, pr_ClientID = ''amy'', pr_HasClientID = True, pr_cap = [], pr_ExpiresAt = 0\<rparr>"
  have "ResolveClientID ?p [] = Inr ''amy''" "MessageClientID ''amy'' [] = Some ''amy''"
    by (simp_all add: ResolveClientID_def MessageClientID_def WildcardClientID_def)
  with stamped_client_id_authorised [OF this] show ?thesis by simp
qed

text \<open>C38: a captured token request cannot be replayed: after a mac-authenticated request whose
  timestamp is in the past was accepted, sending it again at any later time is rejected, whatever
  other requests came in between at times before the second attempt.\<close>

theorem replayed_request_rejected:
  assumes "ValidateTokenRequest macOf t1 tr basic a = (None, a1)" "tr_MAC tr \<noteq> []"
    and "tr_Timestamp tr * 1000000 < t1" "t1 \<le> t2"
    and "\<forall>(t, n) \<in> set es. t \<le> t2" "a2 = nonces es a1"
  shows "fst (ValidateTokenRequest macOf t2 tr basic a2) \<noteq> None"
proof
  assume "fst (ValidateTokenRequest macOf t2 tr basic a2) = None"
  then obtain a3 where "ValidateTokenRequest macOf t2 tr basic a2 = (None, a3)" by (metis prod.collapse)
  from Validate_accepts [OF this assms(2)]
  have r: "t2 - tr_Timestamp tr * 1000000 \<le> tokenRequestTimestampWindow"
    "recordNonce t2 (tr_Nonce tr) a2 = (True, a3)" by auto
  have "recordNonce t1 (tr_Nonce tr) a = (True, a1)" using Validate_accepts [OF assms(1,2)] by simp
  then have e: "map_of (au_seenNonces a1) (tr_Nonce tr) = Some (t1 + tokenRequestTimestampWindow)"
    by (rule recordNonce_new)
  have lt: "t2 < t1 + tokenRequestTimestampWindow" using r(1) assms(3) by simp
  then have "\<forall>(t, n) \<in> set es. t < t1 + tokenRequestTimestampWindow" using assms(5) by fastforce
  from nonces_keep [OF e this] obtain e' where "map_of (au_seenNonces a2) (tr_Nonce tr) = Some e'"
    "t1 + tokenRequestTimestampWindow \<le> e'" by (auto simp: assms(6))
  with recordNonce_seen [of a2 "tr_Nonce tr" e' t2] lt r(2) show False by simp
qed

definition demo_auth :: Authenticator where
  "demo_auth = NewAuthenticator [\<lparr>ak_AppID = ''app'', ak_KeyID = ''k1'', ak_KeySecret = ''s'',
     ak_cap = AllowAllCapability, ak_raw = ''app.k1:s''\<rparr>]"

definition demo_request :: "int \<Rightarrow> TokenRequest" where
  "demo_request ts = \<lparr>tr_KeyName = ''app.k1'', tr_TTL = 0, tr_Capability = [], tr_ClientID = [],
     tr_Timestamp = ts, tr_Nonce = ''n1'', tr_MAC = ''mac''\<rparr>"

theorem replayed_request_rejected_witness:
  "let r1 = ValidateTokenRequest (\<lambda>s t. ''mac'') (1001 * second) (demo_request 1000000) None demo_auth
   in fst r1 = None \<and>
      fst (ValidateTokenRequest (\<lambda>s t. ''mac'') (1002 * second) (demo_request 1000000) None (snd r1)) \<noteq> None"
proof -
  let ?r = "ValidateTokenRequest (\<lambda>s t. ''mac'') (1001 * second) (demo_request 1000000) None demo_auth"
  have f: "fst ?r = None" by code_simp
  then have "?r = (None, snd ?r)" by (metis prod.collapse)
  from replayed_request_rejected [OF this, of "1002 * second" "[]" "snd ?r"] f show ?thesis
    by (simp add: Let_def demo_request_def second_def)
qed

text \<open>A request stamped in the future escapes the guard: one dated a minute ahead is accepted,
  and accepted again two minutes later, when its nonce is forgotten but its timestamp is still
  within the window.\<close>

theorem future_request_replay_accepted:
  "let r1 = ValidateTokenRequest (\<lambda>s t. ''mac'') (1000 * second) (demo_request 1060000) None demo_auth;
       r2 = ValidateTokenRequest (\<lambda>s t. ''mac'') (1121 * second) (demo_request 1060000) None (snd r1)
   in fst r1 = None \<and> fst r2 = None"
  by code_simp

text \<open>A minted token lives at least one nanosecond and at most 24 hours, whatever ttl the
  request asks for, is signed with the key the request names, and its capability, when the
  request asks for one, is the non-empty intersection of the requested one with the key's.\<close>

theorem minted_token_bounded:
  assumes "MintToken now tr parsed a = Inr t"
  shows "mt_issued t < mt_expires t \<and> mt_expires t \<le> mt_issued t + maxTokenTTL \<and>
    (\<exists>k. map_of (au_byName a) (tr_KeyName tr) = Some k \<and> mt_kid t = KeyName k \<and>
       mt_secret t = ak_KeySecret k \<and>
       (if tr_Capability tr = [] then mt_capability t = None
        else \<exists>c. parsed = Some c \<and> mt_capability t = Some (Intersect c (ak_cap k)) \<and>
               \<not> IsEmpty (Intersect c (ak_cap k))))"
  using assms
  by (auto simp: MintToken_def Let_def defaultTokenTTL_def maxTokenTTL_def second_def
      split: option.splits if_splits)

theorem minted_token_bounded_witness:
  "\<exists>t. MintToken 5 (demo_request 1000) None demo_auth = Inr t \<and> mt_expires t \<le> mt_issued t + maxTokenTTL"
proof -
  have "case MintToken 5 (demo_request 1000) None demo_auth of Inr t \<Rightarrow> True | _ \<Rightarrow> False" by code_simp
  then obtain t where t: "MintToken 5 (demo_request 1000) None demo_auth = Inr t" by (auto split: sum.splits)
  with minted_token_bounded [OF t] show ?thesis by simp
qed

text \<open>The ttl check rejects every ttl above 24 hours that fits an int64 duration, but the
  product with a millisecond wraps: a ttl of 18446744073709 ms, some 584 years, passes it.\<close>

theorem ttl_check_wraps:
  "(\<forall>ttl. 0 \<le> ttl \<and> ttl < 9223372036854 \<longrightarrow> (ValidateTTL ttl = None \<longleftrightarrow> ttl \<le> 86400000)) \<and>
   ValidateTTL 18446744073709 = None"
  by (auto simp: ValidateTTL_def ttlDuration_def wrap64_def maxTokenTTL_def second_def split: if_splits)

theorem ttl_check_wraps_witness: "ValidateTTL 86400000 = None \<and> ValidateTTL 86400001 \<noteq> None"
  using ttl_check_wraps by auto

end
