(* ===== verification/Wire.thy ===== *)
theory Wire
  imports Protocol "HOL-Library.Word"
begin

unbundle bit_operations_syntax

text \<open>
  The frames of \<open>internal/protocol/message.go\<close>: \<open>ProtocolMessage\<close> with its details and the flag
  bits of ATTACH and ATTACHED. Flags are an int64 and kept at that width.
\<close>

type_synonym flags = "64 word"

definition FlagHasPresence :: flags where "FlagHasPresence = push_bit 0 1"
definition FlagHasBacklog :: flags where "FlagHasBacklog = push_bit 1 1"
definition FlagResumed :: flags where "FlagResumed = push_bit 2 1"
definition FlagAttachResume :: flags where "FlagAttachResume = push_bit 5 1"
definition FlagPresence :: flags where "FlagPresence = push_bit 16 1"
definition FlagPublish :: flags where "FlagPublish = push_bit 17 1"
definition FlagSubscribe :: flags where "FlagSubscribe = push_bit 18 1"
definition FlagPresenceSubscribe :: flags where "FlagPresenceSubscribe = push_bit 19 1"
definition FlagAnnotationPublish :: flags where "FlagAnnotationPublish = push_bit 21 1"
definition FlagAnnotationSubscribe :: flags where "FlagAnnotationSubscribe = push_bit 22 1"

lemmas flag_defs = FlagHasPresence_def FlagHasBacklog_def FlagResumed_def FlagAttachResume_def
  FlagPresence_def FlagPublish_def FlagSubscribe_def FlagPresenceSubscribe_def
  FlagAnnotationPublish_def FlagAnnotationSubscribe_def

record ConnectionDetails =
  cd_ClientID :: string
  cd_ConnectionKey :: string
  cd_MaxMessageSize :: int
  cd_MaxFrameSize :: int
  cd_MaxInboundRate :: int
  cd_ConnectionStateTTLMs :: int
  cd_MaxIdleIntervalMs :: int

text \<open>\<open>Res\<close> lists the \<open>Serials\<close> of each \<open>PublishResult\<close>; \<open>Auth\<close> is the access token.\<close>

record ProtocolMessage =
  pm_Action :: Action
  pm_ID :: string
  pm_ConnectionID :: string
  pm_Channel :: "string option"
  pm_ChannelSerial :: string
  pm_MsgSerial :: "int option"
  pm_Count :: int
  pm_Res :: "string list list"
  pm_Flags :: flags
  pm_Messages :: "Message list"
  pm_Presence :: "PresenceMessage list"
  pm_Annotations :: "Annotation list"
  pm_Error :: "ErrorInfo option"
  pm_Params :: "(string, string) gomap"
  pm_ConnectionDetails :: "ConnectionDetails option"
  pm_Auth :: "string option"

definition frame :: "Action \<Rightarrow> ProtocolMessage" where
  "frame a = \<lparr>pm_Action = a, pm_ID = [], pm_ConnectionID = [], pm_Channel = None,
     pm_ChannelSerial = [], pm_MsgSerial = None, pm_Count = 0, pm_Res = [], pm_Flags = 0,
     pm_Messages = [], pm_Presence = [], pm_Annotations = [], pm_Error = None, pm_Params = [],
     pm_ConnectionDetails = None, pm_Auth = None\<rparr>"

definition GetChannel :: "ProtocolMessage \<Rightarrow> string" where
  "GetChannel msg = (case pm_Channel msg of None \<Rightarrow> [] | Some c \<Rightarrow> c)"

definition GetMsgSerial :: "ProtocolMessage \<Rightarrow> int" where
  "GetMsgSerial msg = (case pm_MsgSerial msg of None \<Rightarrow> 0 | Some n \<Rightarrow> n)"

definition errorInfo :: "string \<Rightarrow> int \<Rightarrow> int \<Rightarrow> ErrorInfo" where
  "errorInfo message code status = \<lparr>ei_Message = message, ei_Code = code, ei_StatusCode = status\<rparr>"

lemma frame_sel [simp]:
  "pm_Action (frame a) = a" "pm_Channel (frame a) = None" "pm_MsgSerial (frame a) = None"
  "pm_Messages (frame a) = []" "pm_Presence (frame a) = []" "pm_Annotations (frame a) = []"
  "pm_Error (frame a) = None" "pm_Flags (frame a) = 0" "pm_ChannelSerial (frame a) = []"
  by (simp_all add: frame_def)

end
