(* ===== verification/Attachment.thy ===== *)
theory Attachment
  imports MemoryHistory Wire Runes
begin

unbundle bit_operations_syntax

text \<open>
  \<open>internal/realtime/attachment.go\<close> and \<open>rewind.go\<close>: the channel modes of an ATTACH, the
  attachment of one connection to one channel, and the frames it sends: ATTACHED and the presence
  SYNC, the replay of a resume or a rewind, then one frame group per live ChannelMessage. An
  operation returns the frames in the order of its \<open>send\<close> calls; a cancelled send ends the
  goroutine, so what reaches the connection is a prefix of them. The history and presence reads
  go to the channel's store, whose context may be cancelled (\<open>ctxErr\<close>).
\<close>

section \<open>Channel modes\<close>

definition defaultModes :: flags where
  "defaultModes = FlagPresence OR FlagPublish OR FlagSubscribe OR FlagPresenceSubscribe
     OR FlagAnnotationPublish"

definition modeMask :: flags where
  "modeMask = defaultModes OR FlagAnnotationSubscribe"

definition resolveModes :: "flags \<Rightarrow> flags" where
  "resolveModes fl = (let m = fl AND modeMask in if m \<noteq> 0 then m else defaultModes)"

definition modeParamNames :: "(flags \<times> string) list" where
  "modeParamNames =
     [(FlagPresence, ''presence''), (FlagPublish, ''publish''), (FlagSubscribe, ''subscribe''),
      (FlagPresenceSubscribe, ''presence_subscribe''),
      (FlagAnnotationSubscribe, ''annotation_subscribe''),
      (FlagAnnotationPublish, ''annotation_publish'')]"

text \<open>The inner loop of \<open>parseModesParam\<close>: one token against the table.\<close>

definition modeToken :: "string \<Rightarrow> flags" where
  "modeToken tok =
     (let t = map lowerRune (trimSpace (runes tok))
      in foldl (\<lambda>m (bit, name). if t = bytes name then m OR bit else m) 0 modeParamNames)"

definition parseModesParam :: "string \<Rightarrow> flags" where
  "parseModesParam s = foldl (\<lambda>m tok. m OR modeToken tok) 0 (split_on CHR '','' s)"

definition modesParamString :: "flags \<Rightarrow> string" where
  "modesParamString modes =
     join_with CHR '','' (map snd (filter (\<lambda>(bit, name). modes AND bit \<noteq> 0) modeParamNames))"

definition resolveRequestedModes :: "flags \<Rightarrow> (string, string) gomap \<Rightarrow> flags" where
  "resolveRequestedModes fl params =
     (case map_of params ''modes'' of
        Some s \<Rightarrow> let m = parseModesParam s in if m \<noteq> 0 then m else resolveModes fl
      | None \<Rightarrow> resolveModes fl)"

section \<open>Rewind\<close>

datatype rewindMode = rewindNone | rewindCount int | rewindDuration int

datatype rewind_error = RewindSyntax | RewindNotPositive

text \<open>\<open>fl unit s\<close> stands for \<open>strconv.ParseFloat\<close> and the float arithmetic on its result:
  \<open>None\<close> is a parse error, otherwise whether the number is at most zero, and the int64 that
  \<open>time.Duration(x * float64(unit))\<close> gives.\<close>

type_synonym float_parser = "int \<Rightarrow> string \<Rightarrow> (bool \<times> int) option"

definition rewindFloat :: "float_parser \<Rightarrow> int \<Rightarrow> string \<Rightarrow> rewind_error + rewindMode" where
  "rewindFloat fl u s =
     (case fl u s of
        None \<Rightarrow> Inl RewindSyntax
      | Some (nonpos, dur) \<Rightarrow> if nonpos then Inl RewindNotPositive else Inr (rewindDuration dur))"

definition ParseRewind :: "float_parser \<Rightarrow> string \<Rightarrow> rewind_error + rewindMode" where
  "ParseRewind fl s =
     (if s = [] then Inr rewindNone
      else if has_suffix s ''s'' then rewindFloat fl 1000000000 (trim_suffix s ''s'')
      else if has_suffix s ''m'' then rewindFloat fl 60000000000 (trim_suffix s ''m'')
      else case parse_int64 s of
             None \<Rightarrow> Inl RewindSyntax
           | Some n \<Rightarrow> if n \<le> 0 then Inl RewindNotPositive else Inr (rewindCount n))"

section \<open>The attachment\<close>

definition defaultReplayCap :: int where "defaultReplayCap = 1000"
definition ParamAppendMode :: string where "ParamAppendMode = ''appendMode''"
definition AppendModeFull :: string where "AppendModeFull = ''full''"

record attachment =
  at_channelName :: string
  at_stream :: Stream
  at_resumeFrom :: string
  at_rewindParam :: string
  at_params :: "(string, string) gomap"
  at_modes :: flags
  at_requestedModes :: flags
  at_curSerial :: string
  at_replayCap :: int
  at_connID :: string
  at_echo :: bool
  at_appendModeFull :: bool
  at_seen :: "string list"

definition newAttachment :: "string \<Rightarrow> Stream \<Rightarrow> string \<Rightarrow> bool \<Rightarrow> flags \<Rightarrow> flags \<Rightarrow>
    (string, string) gomap \<Rightarrow> string \<Rightarrow> bool \<Rightarrow> attachment" where
  "newAttachment name stream resumeFrom attachResume requestedModes modes params connID echo =
     \<lparr>at_channelName = name, at_stream = stream, at_resumeFrom = resumeFrom,
      at_rewindParam = (if resumeFrom = [] \<and> \<not> attachResume then gget [] params ''rewind'' else []),
      at_params = params, at_modes = modes, at_requestedModes = requestedModes, at_curSerial = [],
      at_replayCap = defaultReplayCap, at_connID = connID, at_echo = echo,
      at_appendModeFull = (gget [] params ParamAppendMode = AppendModeFull), at_seen = []\<rparr>"

definition hasMode :: "attachment \<Rightarrow> flags \<Rightarrow> bool" where
  "hasMode a mode \<longleftrightarrow> at_modes a AND mode \<noteq> 0"

definition applyReattach :: "flags \<Rightarrow> flags \<Rightarrow> (string, string) gomap \<Rightarrow> attachment \<Rightarrow>
    attachment \<times> string" where
  "applyReattach requestedModes modes params a =
     (a\<lparr>at_requestedModes := requestedModes, at_modes := modes, at_params := params,
        at_appendModeFull := (gget [] params ParamAppendMode = AppendModeFull)\<rparr>, at_curSerial a)"

definition recheckCapability :: "flags \<Rightarrow> attachment \<Rightarrow> attachment" where
  "recheckCapability newPermitted a = a\<lparr>at_modes := at_requestedModes a AND newPermitted\<rparr>"

definition setCurSerial :: "string \<Rightarrow> attachment \<Rightarrow> attachment" where
  "setCurSerial serial a = a\<lparr>at_curSerial := serial\<rparr>"

definition recognisedParams :: "string list" where
  "recognisedParams = [''rewind'', ''modes'', ''delta'', ParamAppendMode]"

definition echoParams :: "attachment \<Rightarrow> (string, string) gomap" where
  "echoParams a =
     (let echo = filter (\<lambda>(k, v). k \<in> set recognisedParams) (at_params a)
      in if map_of echo ''modes'' \<noteq> None then gput ''modes'' (modesParamString (at_modes a)) echo
         else echo)"

subsection \<open>Delivery of one ChannelMessage\<close>

text \<open>The append delta as the message that is sent.\<close>

definition deltaMessage :: "MessageBody \<Rightarrow> Message" where
  "deltaMessage d = MessageBody.extend d (Message.fields None)"

definition appendUnseen :: "string list \<Rightarrow> Message \<Rightarrow> bool" where
  "appendUnseen seen m \<longleftrightarrow> HasAppendDelta m \<and> m_Serial m \<noteq> [] \<and> m_Serial m \<notin> set seen"

definition resolveOne :: "bool \<Rightarrow> Message \<Rightarrow> Message" where
  "resolveOne asDeltas m =
     (case m_Alt m of
        None \<Rightarrow> m
      | Some d \<Rightarrow> if asDeltas then deltaMessage d else m\<lparr>m_Alt := None\<rparr>)"

definition resolveAppends :: "Message list \<Rightarrow> bool \<Rightarrow> attachment \<Rightarrow> attachment \<times> Message list" where
  "resolveAppends msgs backlog a =
     (let asDeltas = (\<not> backlog \<and> \<not> at_appendModeFull a);
          asDeltas = (asDeltas \<and> \<not> list_ex (appendUnseen (at_seen a)) msgs);
          a' = a\<lparr>at_seen := at_seen a @ filter (\<lambda>s. s \<noteq> []) (map m_Serial msgs)\<rparr>
      in if \<not> list_ex HasAppendDelta msgs then (a', msgs)
         else (a', map (resolveOne asDeltas) msgs))"

definition channelFrame :: "Action \<Rightarrow> attachment \<Rightarrow> string \<Rightarrow> ProtocolMessage" where
  "channelFrame act a serial =
     (frame act)\<lparr>pm_Channel := Some (at_channelName a), pm_ChannelSerial := serial\<rparr>"

definition summaryMessage :: "Annotation \<Rightarrow> Message" where
  "summaryMessage an = zeroMessage\<lparr>m_Action := MessageSummary, m_Serial := a_MessageSerial an,
     m_Summary := a_Summary an\<rparr>"

definition forward :: "ChannelMessage \<Rightarrow> bool \<Rightarrow> attachment \<Rightarrow> attachment \<times> ProtocolMessage list" where
  "forward cm backlog a =
     (if cm_Messages cm \<noteq> [] then
        if \<not> hasMode a FlagSubscribe then (a, [])
        else let selfEcho = (at_connID a \<noteq> [] \<and> m_ConnectionID (hd (cm_Messages cm)) = at_connID a)
             in if \<not> at_echo a \<and> selfEcho then (a, [])
                else (case resolveAppends (cm_Messages cm) backlog a of (a', msgs) \<Rightarrow>
                  (a', [(channelFrame ActionMessage a (cm_ChannelSerial cm))\<lparr>pm_Messages := msgs\<rparr>]))
      else if cm_Presence cm \<noteq> [] then
        if \<not> hasMode a FlagPresenceSubscribe then (a, [])
        else (a, [(channelFrame ActionPresence a (cm_ChannelSerial cm))\<lparr>pm_Presence := cm_Presence cm\<rparr>])
      else if cm_Annotations cm \<noteq> [] then
        (a, (if hasMode a FlagSubscribe
             then map (\<lambda>an. (channelFrame ActionMessage a (cm_ChannelSerial cm))
                        \<lparr>pm_Messages := [summaryMessage an]\<rparr>) (cm_Annotations cm)
             else []) @
            (if hasMode a FlagAnnotationSubscribe
             then [(channelFrame ActionAnnotation a (cm_ChannelSerial cm))
                     \<lparr>pm_Annotations := cm_Annotations cm\<rparr>]
             else []))
      else (a, []))"

fun forwardAll :: "ChannelMessage list \<Rightarrow> bool \<Rightarrow> attachment \<Rightarrow> attachment \<times> ProtocolMessage list" where
  "forwardAll [] backlog a = (a, [])"
| "forwardAll (cm # cms) backlog a =
     (case forward cm backlog a of (a', fs) \<Rightarrow>
        case forwardAll cms backlog a' of (a'', fs') \<Rightarrow> (a'', fs @ fs'))"

subsection \<open>Replay\<close>

text \<open>The result of a replay computation: what to replay, the attach point, whether RESUMED is
  set, and the error to surface.\<close>

type_synonym replay = "ChannelMessage list \<times> string \<times> bool \<times> ErrorInfo option"

definition reverseAndNormalise :: "ChannelMessage list \<Rightarrow> ChannelMessage list" where
  "reverseAndNormalise cms = rev (map (\<lambda>cm. cm\<lparr>cm_Messages := rev (cm_Messages cm)\<rparr>) cms)"

definition truncatedInfo :: "string \<Rightarrow> int \<Rightarrow> ErrorInfo" where
  "truncatedInfo what n = errorInfo
     (what @ '' was truncated to the most recent '' @ itoa n @ '' messages'') 40012 200"

definition computeResumeReplay :: "bool \<Rightarrow> channelStore \<Rightarrow> string \<Rightarrow> attachment \<Rightarrow> replay" where
  "computeResumeReplay ctxErr cs anchor a =
     (if at_resumeFrom a = anchor then ([], at_resumeFrom a, True, None)
      else case History ctxErr (zeroQuery\<lparr>hq_Direction := DirectionBackwards,
                  hq_EndChannelSerial := anchor, hq_Limit := at_replayCap a + 1\<rparr>) cs of
             Inl e \<Rightarrow> ([], at_resumeFrom a, False,
               Some (errorInfo ''history lookup failed; resume replay was skipped'' 40000 500))
           | Inr page \<Rightarrow>
               let cms = hp_ChannelMessages page;
                   gap = takeWhile (\<lambda>cm. \<not> cm_ChannelSerial cm \<le> at_resumeFrom a) cms
               in if length gap < length cms
                  then (reverseAndNormalise gap, at_resumeFrom a, True, None)
                  else if int (length cms) \<le> at_replayCap a
                  then (reverseAndNormalise cms, at_resumeFrom a, True, None)
                  else (reverseAndNormalise (take (nat (at_replayCap a)) cms), at_resumeFrom a, False,
                        Some (truncatedInfo ''replay'' (at_replayCap a))))"

text \<open>\<open>dur.Milliseconds()\<close> truncates toward zero.\<close>

definition milliseconds :: "int \<Rightarrow> int" where
  "milliseconds dur = (if dur \<ge> 0 then dur div 1000000 else - ((- dur) div 1000000))"

definition rewindWindow :: "bool \<Rightarrow> channelStore \<Rightarrow> Channel \<Rightarrow> string \<Rightarrow> HistoryQuery \<Rightarrow> int \<Rightarrow> bool \<Rightarrow>
    attachment \<Rightarrow> replay" where
  "rewindWindow ctxErr cs ch anchor query capLimit exceeds a =
     (case History ctxErr query cs of
        Inl e \<Rightarrow> ([], anchor, False,
          Some (errorInfo ''history lookup failed; rewind replay was skipped'' 40000 500))
      | Inr page \<Rightarrow>
          let cms = hp_ChannelMessages page
          in if int (length cms) > capLimit
             then (reverseAndNormalise (take (nat capLimit) cms),
                   cm_ChannelSerial (cms ! nat capLimit), False,
                   if exceeds then Some (truncatedInfo ''rewind'' (at_replayCap a)) else None)
             else (reverseAndNormalise cms, InitialChannelSerial ch, False, None))"

definition computeRewindReplay :: "bool \<Rightarrow> int \<Rightarrow> float_parser \<Rightarrow> channelStore \<Rightarrow> Channel \<Rightarrow> string \<Rightarrow>
    attachment \<Rightarrow> replay" where
  "computeRewindReplay ctxErr nowMs fl cs ch anchor a =
     (let q = zeroQuery\<lparr>hq_Direction := DirectionBackwards, hq_EndChannelSerial := anchor\<rparr>
      in case ParseRewind fl (at_rewindParam a) of
           Inl e \<Rightarrow> ([], anchor, False, Some (errorInfo ''invalid rewind value'' 40000 400))
         | Inr (rewindCount count) \<Rightarrow>
             let capLimit = min count (at_replayCap a)
             in rewindWindow ctxErr cs ch anchor (q\<lparr>hq_Limit := capLimit + 1\<rparr>) capLimit
                  (count > at_replayCap a) a
         | Inr (rewindDuration dur) \<Rightarrow>
             let capLimit = at_replayCap a;
                 startMs = max (wrap64 (nowMs - milliseconds dur)) 1
             in rewindWindow ctxErr cs ch anchor
                  (q\<lparr>hq_Start := startMs, hq_Limit := capLimit + 1\<rparr>) capLimit True a
         | Inr rewindNone \<Rightarrow> ([], anchor, False, None))"

definition computeReplay :: "bool \<Rightarrow> int \<Rightarrow> float_parser \<Rightarrow> channelStore \<Rightarrow> Channel \<Rightarrow> string \<Rightarrow>
    attachment \<Rightarrow> replay" where
  "computeReplay ctxErr nowMs fl cs ch anchor a =
     (if at_resumeFrom a \<noteq> [] then computeResumeReplay ctxErr cs anchor a
      else if at_rewindParam a \<noteq> [] then computeRewindReplay ctxErr nowMs fl cs ch anchor a
      else ([], anchor, False, None))"

subsection \<open>The run loop\<close>

definition presentSnapshot :: "PresenceMessage list \<Rightarrow> PresenceMessage list" where
  "presentSnapshot members = map (\<lambda>m. m\<lparr>p_Action := PresencePresent\<rparr>) members"

definition syncFrame :: "attachment \<Rightarrow> PresenceMessage list \<Rightarrow> string \<Rightarrow> ProtocolMessage" where
  "syncFrame a members asOf =
     (channelFrame ActionSync a (asOf @ '':''))\<lparr>pm_Presence := members\<rparr>"

text \<open>The part of \<open>run\<close> before the live loop; \<open>None\<close> is the nil dereference of a stream whose
  channel was never initialised.\<close>

definition runAttach :: "bool \<Rightarrow> int \<Rightarrow> float_parser \<Rightarrow> channelStore \<Rightarrow> Channel \<Rightarrow> attachment \<Rightarrow>
    (attachment \<times> ProtocolMessage list) option" where
  "runAttach ctxErr nowMs fl cs ch a =
     (case StreamChannelSerial ch (at_stream a) of
        None \<Rightarrow> None
      | Some anchor \<Rightarrow>
          (case computeReplay ctxErr nowMs fl cs ch anchor a of (replay, attachPoint, resumed, errInfo) \<Rightarrow>
             let a1 = setCurSerial attachPoint a;
                 sync = (if hasMode a1 FlagPresenceSubscribe
                         then case Members ctxErr cs of
                                Inl e \<Rightarrow> ([], [])
                              | Inr (members, asOf) \<Rightarrow>
                                  if members \<noteq> [] then (presentSnapshot members, asOf) else ([], [])
                         else ([], []));
                 fl1 = (if resumed then at_modes a1 OR FlagResumed else at_modes a1);
                 fl2 = (if replay \<noteq> [] then fl1 OR FlagHasBacklog else fl1);
                 fl3 = (if fst sync \<noteq> [] then fl2 OR FlagHasPresence else fl2);
                 attached = (channelFrame ActionAttached a1 attachPoint)
                   \<lparr>pm_Flags := fl3, pm_Error := errInfo, pm_Params := echoParams a1\<rparr>;
                 syncs = (if fst sync \<noteq> [] then [syncFrame a1 (fst sync) (snd sync)] else [])
             in case forwardAll replay True a1 of (a2, fs) \<Rightarrow> Some (a2, attached # syncs @ fs)))"

text \<open>One turn of the live loop.\<close>

definition liveStep :: "ChannelMessage \<Rightarrow> attachment \<Rightarrow> attachment \<times> ProtocolMessage list" where
  "liveStep cm a = forward cm False (setCurSerial (cm_ChannelSerial cm) a)"

definition resync :: "bool \<Rightarrow> channelStore \<Rightarrow> attachment \<Rightarrow> ProtocolMessage list" where
  "resync ctxErr cs a =
     (if \<not> hasMode a FlagPresenceSubscribe then []
      else case Members ctxErr cs of
             Inl e \<Rightarrow> []
           | Inr (members, asOf) \<Rightarrow> [syncFrame a (presentSnapshot members) asOf])"

section \<open>Lemmas on modes\<close>

lemma modeToken_name: "(b, name) \<in> set modeParamNames \<Longrightarrow> modeToken name = b"
proof -
  assume "(b, name) \<in> set modeParamNames"
  moreover have "list_all (\<lambda>(bit, name). modeToken name = bit) modeParamNames" by code_simp
  ultimately show ?thesis by (auto simp: list_all_iff)
qed

lemma no_comma: "(b, name) \<in> set modeParamNames \<Longrightarrow> CHR '','' \<notin> set name"
proof -
  assume "(b, name) \<in> set modeParamNames"
  moreover have "list_all (\<lambda>(bit, name). CHR '','' \<notin> set name) modeParamNames" by code_simp
  ultimately show ?thesis by (auto simp: list_all_iff)
qed

lemma modeToken_Nil: "modeToken [] = 0"
  by code_simp

lemma parse_join:
  assumes "set ps \<subseteq> set modeParamNames"
  shows "parseModesParam (join_with CHR '','' (map snd ps)) = foldl (OR) 0 (map fst ps)"
proof (cases "ps = []")
  case True
  then show ?thesis by (simp add: parseModesParam_def modeToken_Nil)
next
  case False
  have "\<forall>x \<in> set (map snd ps). CHR '','' \<notin> set x" using assms no_comma by fastforce
  with False have sp: "split_on CHR '','' (join_with CHR '','' (map snd ps)) = map snd ps"
    by (simp add: split_join)
  have "foldl (\<lambda>m tok. m OR modeToken tok) z (map snd ps) = foldl (OR) z (map fst ps)" for z
    using assms by (induction ps arbitrary: z) (auto simp: modeToken_name)
  then show ?thesis by (simp add: parseModesParam_def sp)
qed

lemma one_bit:
  fixes m :: flags
  shows "(if m AND push_bit n 1 \<noteq> 0 then push_bit n 1 else 0) = m AND push_bit n 1"
proof -
  have "m AND push_bit n 1 = (if bit m n then push_bit n 1 else 0)"
    by (rule bit_eqI) (auto simp: bit_simps)
  then show ?thesis by simp
qed

lemma foldl_or_filter:
  "foldl (OR) z (map fst (filter (\<lambda>(b, n). m AND b \<noteq> 0) ps)) =
     foldl (\<lambda>acc (b, n). acc OR (if m AND b \<noteq> 0 then b else 0)) (z :: flags) ps"
  by (induction ps arbitrary: z) auto

lemma modes_subset:
  "at_modes (recheckCapability p a) AND p = at_modes (recheckCapability p a)"
  "at_modes (recheckCapability p a) AND at_requestedModes a = at_modes (recheckCapability p a)"
  by (simp_all add: recheckCapability_def ac_simps)

section \<open>Properties\<close>

text \<open>The modes an ATTACHED frame echoes as text decode to the modes its flags carry: parsing
  the printed mode list gives back exactly the recognised mode bits, for every flag word, so a
  client that re-attaches with the echoed \<open>modes\<close> parameter requests the set it holds.\<close>

theorem modes_param_roundtrip:
  "parseModesParam (modesParamString m) = m AND modeMask"
proof -
  have "parseModesParam (modesParamString m) =
      foldl (OR) 0 (map fst (filter (\<lambda>(b, n). m AND b \<noteq> 0) modeParamNames))"
    unfolding modesParamString_def by (rule parse_join) auto
  also have "\<dots> = foldl (\<lambda>acc (b, n). acc OR (if m AND b \<noteq> 0 then b else 0)) 0 modeParamNames"
    by (rule foldl_or_filter)
  also have "\<dots> = m AND modeMask"
    unfolding modeParamNames_def modeMask_def defaultModes_def flag_defs
    by (simp only: foldl.simps prod.case one_bit bit.conj_disj_distrib or.left_neutral ac_simps)
  finally show ?thesis .
qed

end
