(* ===== verification/Replay.thy ===== *)
theory Replay
  imports Attachment
begin

text \<open>
  What a resume replays: the page a backwards history read returns is the list of items grouped
  by channelSerial, so the replay of \<open>computeResumeReplay\<close> is compared with the gap of the log
  between the client's cursor and the live anchor.
\<close>

section \<open>Pages as grouped items\<close>

definition put :: "ChannelMessage list \<Rightarrow> string \<times> HistItem \<Rightarrow> ChannelMessage list" where
  "put cms p = putItem (fst p) (snd p) cms"

definition grouped :: "(string \<times> HistItem) list \<Rightarrow> ChannelMessage list" where
  "grouped ps = foldl put [] ps"

lemma flatScan_grouped:
  assumes "hq_Limit q > 0" "c \<le> hq_Limit q" "0 \<le> c" "hq_Cursor q = []"
  shows "hp_ChannelMessages (scanPage (flatScan q ps page c)) =
    foldl put (hp_ChannelMessages page) (take (nat (hq_Limit q - c)) ps)"
  using assms
proof (induction ps arbitrary: page c)
  case (Cons p ps)
  show ?case
  proof (cases "c = hq_Limit q")
    case True
    with Cons.prems show ?thesis by (cases p) (simp add: skips_def emitHist_def scanPage_def)
  next
    case False
    then have "nat (hq_Limit q - c) = Suc (nat (hq_Limit q - (c + 1)))" using Cons.prems by simp
    with Cons.prems False Cons.IH [of "c + 1"] show ?thesis
      by (cases p) (simp add: skips_def emitHist_def put_def)
  qed
qed (simp add: scanPage_def)

lemma put_append: "xs \<noteq> [] \<Longrightarrow> put (cms @ xs) p = cms @ put xs p"
  by (auto simp: put_def putItem_def butlast_append)

lemma put_not_Nil [simp]: "put cms p \<noteq> []"
  by (auto simp: put_def putItem_def)

lemma foldl_put_append: "xs \<noteq> [] \<Longrightarrow> foldl put (cms @ xs) ps = cms @ foldl put xs ps"
  by (induction ps arbitrary: xs) (simp_all add: put_append)

lemma put_new:
  "cms = [] \<or> cm_ChannelSerial (last cms) \<noteq> fst p \<Longrightarrow> put cms p = cms @ put [] p"
  by (auto simp: put_def putItem_def)

lemma grouped_append:
  assumes "cms = [] \<or> ps = [] \<or> cm_ChannelSerial (last cms) \<noteq> fst (hd ps)"
  shows "foldl put cms ps = cms @ grouped ps"
proof (cases ps)
  case (Cons p ps')
  with assms have "put cms p = cms @ put [] p" by (intro put_new) auto
  with Cons show ?thesis by (simp add: grouped_def foldl_put_append)
qed (simp add: grouped_def)

lemma foldl_put_hd: "xs \<noteq> [] \<Longrightarrow> cm_ChannelSerial (hd (foldl put xs ps)) = cm_ChannelSerial (hd xs)"
proof (induction ps arbitrary: xs)
  case (Cons p ps)
  have "cm_ChannelSerial (hd (put xs p)) = cm_ChannelSerial (hd xs)"
    using Cons.prems by (cases xs) (auto simp: put_def putItem_def it_Append_sel)
  with Cons.IH show ?case by simp
qed simp

lemma grouped_hd: "cm_ChannelSerial (hd (grouped (p # ps))) = fst p"
  by (simp add: grouped_def foldl_put_hd) (simp add: put_def putItem_def it_Append_sel)

lemma grouped_Nil_iff [simp]: "grouped ps = [] \<longleftrightarrow> ps = []"
proof
  have "xs \<noteq> [] \<Longrightarrow> foldl put xs ps \<noteq> []" for xs ps by (induction ps arbitrary: xs) simp_all
  then show "grouped ps = [] \<Longrightarrow> ps = []" by (cases ps) (auto simp: grouped_def)
qed (simp add: grouped_def)

section \<open>Blocks of messages\<close>

definition messagesOnly :: "string \<Rightarrow> Message list \<Rightarrow> ChannelMessage" where
  "messagesOnly s ms = zeroChannelMessage\<lparr>cm_ChannelSerial := s, cm_Messages := ms\<rparr>"

definition block :: "string \<times> Message list \<Rightarrow> (string \<times> HistItem) list" where
  "block b = map (\<lambda>m. (fst b, ItemMessage m)) (snd b)"

lemma messagesOnly_sel [simp]:
  "cm_ChannelSerial (messagesOnly s ms) = s" "cm_Messages (messagesOnly s ms) = ms"
  by (simp_all add: messagesOnly_def)

lemma foldl_put_block:
  "foldl put [messagesOnly s ms] (map (\<lambda>m. (s, ItemMessage m)) ms') = [messagesOnly s (ms @ ms')]"
proof (induction ms' arbitrary: ms)
  case (Cons m ms')
  have "put [messagesOnly s ms] (s, ItemMessage m) = [messagesOnly s (ms @ [m])]"
    by (simp add: put_def putItem_def messagesOnly_def)
  with Cons show ?case by simp
qed simp

lemma grouped_block: "ms \<noteq> [] \<Longrightarrow> grouped (block (s, ms)) = [messagesOnly s ms]"
proof (cases ms)
  case (Cons m ms')
  have "put [] (s, ItemMessage m) = [messagesOnly s [m]]"
    by (simp add: put_def putItem_def messagesOnly_def zeroChannelMessage_def)
  with Cons show ?thesis by (simp add: grouped_def block_def foldl_put_block)
qed simp

lemma grouped_blocks:
  assumes "distinct (map fst bs)" "\<forall>b \<in> set bs. snd b \<noteq> []"
  shows "grouped (concat (map block bs)) = map (\<lambda>(s, ms). messagesOnly s ms) bs"
  using assms
proof (induction bs)
  case (Cons b bs)
  obtain s ms where b: "b = (s, ms)" by (cases b)
  have g: "grouped (block b) = [messagesOnly s ms]"
    using Cons.prems by (simp add: b grouped_block)
  have "concat (map block bs) = [] \<or> fst (hd (concat (map block bs))) \<noteq> s"
  proof (cases bs)
    case (Cons b' bs')
    then show ?thesis using Cons.prems by (cases b'; cases "snd b'") (auto simp: b block_def)
  qed simp
  then have "grouped (block b @ concat (map block bs)) =
      [messagesOnly s ms] @ grouped (concat (map block bs))"
    using grouped_append [of "[messagesOnly s ms]" "concat (map block bs)"] g
    by (auto simp: grouped_def)
  with Cons show ?case by (simp add: b)
qed (simp add: grouped_def)

section \<open>The replay page\<close>

text \<open>The message blocks of the log up to the anchor, newest first, each in reverse batch order.\<close>

definition blocks :: "string \<Rightarrow> ChannelMessage list \<Rightarrow> (string \<times> Message list) list" where
  "blocks anchor L = map (\<lambda>cm. (cm_ChannelSerial cm, rev (cm_Messages cm)))
     (rev (filter (\<lambda>cm. cm_Messages cm \<noteq> [] \<and> cm_ChannelSerial cm \<le> anchor) L))"

definition resumeQuery :: "string \<Rightarrow> int \<Rightarrow> HistoryQuery" where
  "resumeQuery anchor lim = zeroQuery\<lparr>hq_Direction := DirectionBackwards,
     hq_EndChannelSerial := anchor, hq_Limit := lim\<rparr>"

lemma resumeQuery_sel [simp]:
  "hq_Limit (resumeQuery anchor lim) = lim" "hq_Cursor (resumeQuery anchor lim) = []"
  "forwards (resumeQuery anchor lim) = False" "hq_Collapse (resumeQuery anchor lim) = False"
  "hq_Kind (resumeQuery anchor lim) = []"
  "anchor \<noteq> [] \<Longrightarrow> hist_sel (resumeQuery anchor lim) s \<longleftrightarrow> s \<le> anchor"
  by (simp_all add: resumeQuery_def zeroQuery_def forwards_def hist_sel_def TimestampBounds_def
      in_bounds_def)

lemma cm_pairs_messages:
  "cm_pairs [] cm = map (\<lambda>m. (cm_ChannelSerial cm, ItemMessage m)) (cm_Messages cm)"
  by (simp add: cm_pairs_def CMItems_def Normalize_def kind_defs)

lemma pairs_blocks:
  "rev (concat (map (cm_pairs []) (filter (\<lambda>cm. cm_ChannelSerial cm \<le> anchor) L))) =
     concat (map block (blocks anchor L))"
proof (induction L)
  case (Cons cm L)
  then show ?case
    by (cases "cm_Messages cm = []") (auto simp: blocks_def block_def cm_pairs_messages rev_map)
qed (simp add: blocks_def)

lemma replay_page:
  assumes "mem_inv (g, cs)" "anchor \<noteq> []" "lim > 0"
  shows "\<exists>page. History False (resumeQuery anchor lim) cs = Inr page \<and>
    hp_ChannelMessages page = grouped (take (nat lim) (concat (map block (blocks anchor (log_of cs)))))"
proof -
  let ?q = "resumeQuery anchor lim"
  have so: "sorted_wrt (<) (cs_order cs)" and li: "log_inv cs"
    using assms(1) by (simp_all add: mem_inv_def order_inv_def)
  have ser: "s \<in> set (cs_order cs) \<Longrightarrow> cm_ChannelSerial (cmAt cs s) = s" for s
    using li by (force simp: log_inv_def cmAt_def gget_def split: option.split)
  have "map (cmAt cs) (filter (\<lambda>s. s \<le> anchor) (cs_order cs)) =
      filter (\<lambda>cm. cm_ChannelSerial cm \<le> anchor) (log_of cs)"
    unfolding log_of_def filter_map comp_def
    by (rule arg_cong [where f = "map (cmAt cs)"], rule filter_cong) (simp_all add: ser)
  moreover have sel: "filter (hist_sel ?q) (cs_order cs) = filter (\<lambda>s. s \<le> anchor) (cs_order cs)"
    using assms(2) by (simp cong: filter_cong)
  ultimately have "rev (hist_pairs ?q cs) = concat (map block (blocks anchor (log_of cs)))"
    using assms(2) unfolding pairs_blocks [symmetric] hist_pairs_def
    by (simp add: sel comp_def flip: map_map [of "cm_pairs []" "cmAt cs", unfolded comp_def])
  with History_flat [OF so, of ?q] flatScan_grouped [of ?q 0 "rev (hist_pairs ?q cs)" zeroPage] assms(3)
  show ?thesis by (simp add: grouped_def zeroPage_def)
qed

section \<open>The resume\<close>

lemma computeResumeReplay_query:
  "computeResumeReplay ctxErr cs anchor a =
     (if at_resumeFrom a = anchor then ([], at_resumeFrom a, True, None)
      else case History ctxErr (resumeQuery anchor (at_replayCap a + 1)) cs of
             Inl e \<Rightarrow> ([], at_resumeFrom a, False,
               Some (errorInfo ''history lookup failed; resume replay was skipped'' 40000 500))
           | Inr page \<Rightarrow>
               let cms = hp_ChannelMessages page;
                   gap = takeWhile (\<lambda>cm. at_resumeFrom a < cm_ChannelSerial cm) cms
               in if length gap < length cms
                  then (reverseAndNormalise gap, at_resumeFrom a, True, None)
                  else if int (length cms) \<le> at_replayCap a
                  then (reverseAndNormalise cms, at_resumeFrom a, True, None)
                  else (reverseAndNormalise (take (nat (at_replayCap a)) cms), at_resumeFrom a, False,
                        Some (truncatedInfo ''replay'' (at_replayCap a))))"
  unfolding computeResumeReplay_def resumeQuery_def not_le ..

text \<open>The gap: the message ChannelMessages of the log strictly after the cursor, up to the anchor.\<close>

definition gapCMs :: "string \<Rightarrow> string \<Rightarrow> ChannelMessage list \<Rightarrow> ChannelMessage list" where
  "gapCMs from anchor L = filter (\<lambda>cm. cm_Messages cm \<noteq> [] \<and> from < cm_ChannelSerial cm \<and>
     cm_ChannelSerial cm \<le> anchor) L"

definition replayed :: "ChannelMessage list \<Rightarrow> ChannelMessage list" where
  "replayed gap = map (\<lambda>cm. messagesOnly (cm_ChannelSerial cm) (cm_Messages cm)) gap"

definition messageCount :: "ChannelMessage list \<Rightarrow> nat" where
  "messageCount cms = length (concat (map cm_Messages cms))"

lemma length_block [simp]: "length (block b) = length (snd b)"
  by (simp add: block_def)

lemma sorted_blocks:
  assumes "mem_inv (g, cs)"
  shows "sorted_wrt (\<lambda>b b'. fst b > fst b') (blocks anchor (log_of cs))"
proof -
  have "sorted_wrt (<) (map cm_ChannelSerial (log_of cs))"
    using assms log_serials [of cs] by (simp add: mem_inv_def order_inv_def)
  then show ?thesis
    by (simp add: blocks_def sorted_wrt_map sorted_wrt_rev sorted_wrt_filter)
qed

lemma takeWhile_desc:
  "sorted_wrt (\<lambda>b b'. f b > f b') bs \<Longrightarrow> takeWhile (\<lambda>b. r < f b) bs = filter (\<lambda>b. (r :: string) < f b) bs"
proof (induction bs)
  case (Cons b bs)
  show ?case
  proof (cases "r < f b")
    case False
    then have "\<forall>x \<in> set bs. \<not> r < f x" using Cons.prems by auto
    with False show ?thesis by (simp add: filter_empty_conv)
  qed (use Cons in simp)
qed simp

lemma desc_distinct: "sorted_wrt (\<lambda>b b'. f b > f b') bs \<Longrightarrow> distinct (map (f :: 'a \<Rightarrow> string) bs)"
  by (induction bs) auto

lemma gap_self [simp]: "gapCMs r r L = []"
  by (auto simp: gapCMs_def filter_empty_conv)

lemma sorted_takeWhile_blocks:
  "mem_inv (g, cs) \<Longrightarrow> sorted_wrt (\<lambda>b b'. fst b > fst b') (takeWhile P (blocks anchor (log_of cs)))"
  using sorted_blocks [of g cs anchor] by (metis sorted_wrt_append takeWhile_dropWhile_id)

lemma gap_blocks:
  assumes "mem_inv (g, cs)"
  shows "takeWhile (\<lambda>b. from < fst b) (blocks anchor (log_of cs)) =
    map (\<lambda>cm. (cm_ChannelSerial cm, rev (cm_Messages cm))) (rev (gapCMs from anchor (log_of cs)))"
  unfolding takeWhile_desc [OF sorted_blocks [OF assms]]
  by (simp add: blocks_def gapCMs_def filter_map comp_def rev_filter conj_ac)

lemma reverse_blocks:
  "reverseAndNormalise (map (\<lambda>(s, ms). messagesOnly s ms)
     (map (\<lambda>cm. (cm_ChannelSerial cm, rev (cm_Messages cm))) (rev gap))) = replayed gap"
  by (simp add: reverseAndNormalise_def replayed_def rev_map messagesOnly_def comp_def)

lemma block_lengths:
  "length (concat (map block (map (\<lambda>cm. (cm_ChannelSerial cm, rev (cm_Messages cm))) (rev gap)))) =
     messageCount gap"
  by (simp add: messageCount_def length_concat comp_def rev_map [symmetric] sum_list_rev)

lemma count_ge_length: "\<forall>cm \<in> set gap. cm_Messages cm \<noteq> [] \<Longrightarrow> length gap \<le> messageCount gap"
proof (induction gap)
  case (Cons cm gap)
  then show ?case by (cases "cm_Messages cm") (auto simp: messageCount_def)
qed simp

text \<open>A page whose first blocks are a whole gap, followed by older items.\<close>

lemma grouped_gap:
  assumes "distinct (map fst bs)" "\<forall>b \<in> set bs. snd b \<noteq> [] \<and> from < fst b"
    and "ps = [] \<or> fst (hd ps) \<le> from"
  shows "grouped (concat (map block bs) @ ps) = map (\<lambda>(s, ms). messagesOnly s ms) bs @ grouped ps"
    and "takeWhile (\<lambda>cm. from < cm_ChannelSerial cm) (grouped (concat (map block bs) @ ps)) =
      map (\<lambda>(s, ms). messagesOnly s ms) bs"
proof -
  let ?M = "\<lambda>(s, ms). messagesOnly s ms"
  have g: "grouped (concat (map block bs)) = map ?M bs"
    using assms(1,2) by (intro grouped_blocks) auto
  have newer: "\<forall>cm \<in> set (map ?M bs). from < cm_ChannelSerial cm" using assms(2) by auto
  have "map ?M bs = [] \<or> ps = [] \<or> cm_ChannelSerial (last (map ?M bs)) \<noteq> fst (hd ps)"
  proof (cases "bs = []")
    case False
    then have "last (map ?M bs) \<in> set (map ?M bs)" by (intro last_in_set) simp
    with newer have "from < cm_ChannelSerial (last (map ?M bs))" by blast
    with assms(3) show ?thesis by auto
  qed simp
  from grouped_append [OF this] show eq: "grouped (concat (map block bs) @ ps) = map ?M bs @ grouped ps"
    using g by (simp add: grouped_def)
  have "takeWhile (\<lambda>cm. from < cm_ChannelSerial cm) (grouped ps) = []"
  proof (cases ps)
    case (Cons p ps')
    then obtain cm cms where "grouped ps = cm # cms" by (metis grouped_Nil_iff list.exhaust list.simps(3))
    moreover have "cm_ChannelSerial cm = fst p" using grouped_hd [of p ps'] Cons calculation by simp
    ultimately show ?thesis using assms(3) Cons by simp
  qed (simp add: grouped_def)
  then show "takeWhile (\<lambda>cm. from < cm_ChannelSerial cm) (grouped (concat (map block bs) @ ps)) = map ?M bs"
    unfolding eq using newer by (subst takeWhile_append2) auto
qed

lemma hd_concat_blocks:
  "ps = take k (concat (map block (dropWhile (\<lambda>b. from < fst b) bs))) \<Longrightarrow>
     \<forall>b \<in> set bs. snd b \<noteq> [] \<Longrightarrow> ps = [] \<or> fst (hd ps) \<le> (from :: string)"
proof (cases "dropWhile (\<lambda>b. from < fst b) bs")
  case (Cons b bs')
  assume ps: "ps = take k (concat (map block (dropWhile (\<lambda>b. from < fst b) bs)))"
    and ne: "\<forall>b \<in> set bs. snd b \<noteq> []"
  have "b \<in> set bs" using Cons by (metis list.set_intros(1) set_dropWhileD)
  moreover have "fst b \<le> from" using Cons by (metis hd_dropWhile list.sel(1) list.simps(3) not_le)
  ultimately show ?thesis using ps ne Cons by (cases k; cases "snd b") (auto simp: block_def)
qed simp

lemma resume_whole:
  assumes "at_resumeFrom a \<noteq> anchor"
    and "History ctxErr (resumeQuery anchor (at_replayCap a + 1)) cs = Inr page"
    and "hp_ChannelMessages page = M @ rest"
    and "takeWhile (\<lambda>cm. at_resumeFrom a < cm_ChannelSerial cm) (hp_ChannelMessages page) = M"
    and "int (length M) \<le> at_replayCap a"
  shows "computeResumeReplay ctxErr cs anchor a = (reverseAndNormalise M, at_resumeFrom a, True, None)"
proof -
  have "takeWhile (\<lambda>cm. at_resumeFrom a < cm_ChannelSerial cm) (M @ rest) = M"
    using assms(3,4) by simp
  with assms(1,2,3,5) show ?thesis
    by (cases "rest = []") (simp_all add: computeResumeReplay_query Let_def del: takeWhile_eq_all_conv)
qed

lemma resume_exact:
  assumes inv: "mem_inv (g, cs)" and "anchor \<noteq> []"
    and fits: "int (messageCount (gapCMs (at_resumeFrom a) anchor (log_of cs))) \<le> at_replayCap a"
  shows "computeResumeReplay False cs anchor a =
    (replayed (gapCMs (at_resumeFrom a) anchor (log_of cs)), at_resumeFrom a, True, None)"
proof (cases "at_resumeFrom a = anchor")
  case True
  then show ?thesis by (auto simp: computeResumeReplay_def replayed_def)
next
  case False
  let ?r = "at_resumeFrom a" and ?gap = "gapCMs (at_resumeFrom a) anchor (log_of cs)"
  let ?bs = "blocks anchor (log_of cs)" and ?lim = "at_replayCap a + 1"
  let ?new = "takeWhile (\<lambda>b. ?r < fst b) ?bs" and ?old = "dropWhile (\<lambda>b. ?r < fst b) ?bs"
  define ps where "ps = take (nat ?lim - messageCount ?gap) (concat (map block ?old))"
  have ne: "\<forall>b \<in> set ?bs. snd b \<noteq> []" by (auto simp: blocks_def)
  have new: "?new = map (\<lambda>cm. (cm_ChannelSerial cm, rev (cm_Messages cm))) (rev ?gap)"
    by (rule gap_blocks [OF inv])
  have len: "length (concat (map block ?new)) = messageCount ?gap" unfolding new by (rule block_lengths)
  have "sorted_wrt (\<lambda>b b'. fst b > fst b') ?bs" by (rule sorted_blocks [OF inv])
  then have d: "distinct (map fst ?new)"
    by (simp add: takeWhile_desc distinct_map_filter desc_distinct)
  have n: "\<forall>b \<in> set ?new. snd b \<noteq> [] \<and> ?r < fst b" using ne by (auto dest: set_takeWhileD)
  obtain page where h: "History False (resumeQuery anchor ?lim) cs = Inr page"
    and "hp_ChannelMessages page = grouped (take (nat ?lim) (concat (map block ?bs)))"
    using replay_page [OF inv assms(2), of ?lim] fits by force
  moreover have "concat (map block ?bs) = concat (map block ?new) @ concat (map block ?old)"
    by (simp only: takeWhile_dropWhile_id flip: concat_append map_append)
  moreover have "take (nat ?lim) (concat (map block ?new)) = concat (map block ?new)"
    using len fits by (intro take_all) linarith
  ultimately have cms: "hp_ChannelMessages page = grouped (concat (map block ?new) @ ps)"
    by (simp only: take_append len ps_def)
  have old: "ps = [] \<or> fst (hd ps) \<le> ?r" by (rule hd_concat_blocks [OF ps_def ne])
  have full: "hp_ChannelMessages page = map (\<lambda>(s, ms). messagesOnly s ms) ?new @ grouped ps"
    unfolding cms by (rule grouped_gap(1) [OF d n old])
  have tw: "takeWhile (\<lambda>cm. ?r < cm_ChannelSerial cm) (hp_ChannelMessages page) =
      map (\<lambda>(s, ms). messagesOnly s ms) ?new"
    unfolding cms by (rule grouped_gap(2) [OF d n old])
  have m: "map (\<lambda>(s, ms). messagesOnly s ms) ?new =
      map (\<lambda>(s, ms). messagesOnly s ms) (map (\<lambda>cm. (cm_ChannelSerial cm, rev (cm_Messages cm))) (rev ?gap))"
    by (simp only: new)
  have "length ?gap \<le> messageCount ?gap" by (rule count_ge_length) (simp add: gapCMs_def)
  then have "int (length (map (\<lambda>(s, ms). messagesOnly s ms) ?new)) \<le> at_replayCap a"
    using fits unfolding m by simp
  from resume_whole [OF False h full tw this] show ?thesis
    unfolding m reverse_blocks .
qed

section \<open>The live anchor\<close>

lemma entries_live: "chan_ok ch \<Longrightarrow> ch_entries ch = hd (ch_entries ch) # map Some (live ch)"
proof -
  have "None \<notin> set xs \<Longrightarrow> map Some (map the xs) = xs" for xs :: "ChannelMessage option list"
    by (induction xs) auto
  then show "chan_ok ch \<Longrightarrow> ?thesis"
    by (cases "ch_entries ch") (auto simp: chan_ok_def live_def)
qed

lemma anchor_split:
  assumes inv: "mem_inv (g, cs)" and ch: "cs_appender cs = Some ch"
    and anchor: "StreamChannelSerial ch st = Some anchor"
  defines "k \<equiv> st_cursor st"
  shows "pending ch st = map Some (drop k (log_of cs))"
    and "\<forall>cm \<in> set (take k (log_of cs)). cm_ChannelSerial cm \<le> anchor"
    and "\<forall>cm \<in> set (drop k (log_of cs)). anchor < cm_ChannelSerial cm"
    and "anchor \<noteq> []"
proof -
  let ?L = "log_of cs"
  have a: "chan_ok ch" "live ch = ?L" "minted g (ch_initialSerial ch)"
    "\<forall>s \<in> set (cs_order cs). ch_initialSerial ch < s"
    "map_option cm_ChannelSerial (hd (ch_entries ch)) = Some (ch_initialSerial ch)"
    using inv ch by (auto simp: mem_inv_def app_inv_def)
  have serials: "map cm_ChannelSerial ?L = cs_order cs" "sorted_wrt (<) (map cm_ChannelSerial ?L)"
    using inv log_serials [of cs] by (auto simp: mem_inv_def order_inv_def)
  have e: "ch_entries ch = hd (ch_entries ch) # map Some ?L"
    using entries_live [OF a(1)] a(2) by simp
  then show "pending ch st = map Some (drop k ?L)"
    unfolding pending_def k_def by (metis drop_Suc drop_map list.sel(3))
  let ?S = "ch_initialSerial ch # map cm_ChannelSerial ?L"
  have S: "sorted_wrt (<) ?S" using serials a(4) by simp
  have k: "k \<le> length ?L"
    using anchor e by (auto simp: StreamChannelSerial_def k_def split: if_splits)
      (metis length_Cons length_map less_Suc_eq_le)
  have nth: "anchor = ?S ! k"
  proof -
    have "map_option cm_ChannelSerial (ch_entries ch ! k) = Some anchor"
      using anchor by (auto simp: StreamChannelSerial_def k_def split: if_splits)
    moreover have "ch_entries ch ! k = (hd (ch_entries ch) # map Some ?L) ! k" using e by simp
    ultimately show ?thesis using a(5) k by (cases k) auto
  qed
  show "anchor \<noteq> []"
  proof (cases k)
    case 0
    then show ?thesis using nth minted_length [OF a(3)] by auto
  next
    case (Suc j)
    then have "ch_initialSerial ch < anchor" using nth k a(4) serials(1) [symmetric] by simp
    then show ?thesis by auto
  qed
  show "\<forall>cm \<in> set (take k ?L). cm_ChannelSerial cm \<le> anchor"
  proof
    fix cm assume "cm \<in> set (take k ?L)"
    then obtain i where "i < k" "i < length ?L" "cm = ?L ! i" by (auto simp: in_set_conv_nth)
    then show "cm_ChannelSerial cm \<le> anchor"
      using sorted_wrt_nth_less [OF S, of "Suc i" k] k nth by (cases "Suc i = k") auto
  qed
  show "\<forall>cm \<in> set (drop k ?L). anchor < cm_ChannelSerial cm"
  proof
    fix cm assume "cm \<in> set (drop k ?L)"
    then obtain i where "k + i < length ?L" "cm = ?L ! (k + i)"
      by (auto simp: in_set_conv_nth less_diff_conv add.commute) blast
    then show "anchor < cm_ChannelSerial cm"
      using sorted_wrt_nth_less [OF S, of k "Suc (k + i)"] nth by auto
  qed
qed

lemma gap_messages:
  assumes "mem_inv (g, cs)" "cs_appender cs = Some ch" "StreamChannelSerial ch st = Some anchor"
    and "from \<le> anchor"
  shows "concat (map cm_Messages (gapCMs from anchor (log_of cs))) @
      concat (map cm_Messages (map the (pending ch st))) =
    concat (map cm_Messages (filter (\<lambda>cm. from < cm_ChannelSerial cm) (log_of cs)))"
proof -
  let ?L = "log_of cs" and ?k = "st_cursor st"
  note sp = anchor_split [OF assms(1-3)]
  have skip: "concat (map cm_Messages (filter (\<lambda>cm. cm_Messages cm \<noteq> [] \<and> P cm) xs)) =
      concat (map cm_Messages (filter P xs))" for P xs by (induction xs) auto
  have "gapCMs from anchor (drop ?k ?L) = []" using sp(3) by (auto simp: gapCMs_def filter_empty_conv)
  moreover have "gapCMs from anchor (take ?k ?L) =
      filter (\<lambda>cm. cm_Messages cm \<noteq> [] \<and> from < cm_ChannelSerial cm) (take ?k ?L)"
    unfolding gapCMs_def by (rule filter_cong) (use sp(2) in auto)
  moreover have "gapCMs from anchor ?L = gapCMs from anchor (take ?k ?L) @ gapCMs from anchor (drop ?k ?L)"
    by (simp add: gapCMs_def flip: filter_append)
  ultimately have "concat (map cm_Messages (gapCMs from anchor ?L)) =
      concat (map cm_Messages (filter (\<lambda>cm. from < cm_ChannelSerial cm) (take ?k ?L)))"
    by (simp add: skip)
  moreover have "filter (\<lambda>cm. from < cm_ChannelSerial cm) (drop ?k ?L) = drop ?k ?L"
    using sp(3) assms(4) by (auto simp: filter_id_conv)
  then have "filter (\<lambda>cm. from < cm_ChannelSerial cm) ?L =
      filter (\<lambda>cm. from < cm_ChannelSerial cm) (take ?k ?L) @ drop ?k ?L"
    by (metis append_take_drop_id filter_append)
  ultimately show ?thesis by (simp add: sp(1) comp_def)
qed

section \<open>Properties\<close>

text \<open>C10: a resume loses nothing and repeats nothing: when the client's cursor is not beyond the
  stream's anchor and the gap holds at most \<open>replayCap\<close> messages, the attach is RESUMED without
  error at the client's cursor, it replays exactly the message ChannelMessages between cursor and
  anchor, oldest first and each in batch order, and the messages replayed followed by the ones
  the stream has still to deliver are the messages of the log after the cursor.\<close>

theorem resume_is_gapless:
  assumes "reachable series s" "map_of (ms_channels s) name = Some cs" "cs_appender cs = Some ch"
    and "StreamChannelSerial ch (at_stream a) = Some anchor"
    and "at_resumeFrom a \<noteq> []" "at_resumeFrom a \<le> anchor"
    and "int (messageCount (gapCMs (at_resumeFrom a) anchor (log_of cs))) \<le> at_replayCap a"
  shows "\<exists>replay. computeReplay False now fl cs ch anchor a = (replay, at_resumeFrom a, True, None) \<and>
    replay = replayed (gapCMs (at_resumeFrom a) anchor (log_of cs)) \<and>
    concat (map cm_Messages replay) @ concat (map cm_Messages (map the (pending ch (at_stream a)))) =
      concat (map cm_Messages (filter (\<lambda>cm. at_resumeFrom a < cm_ChannelSerial cm) (log_of cs)))"
proof -
  have inv: "mem_inv (ms_gen s, cs)" by (rule reachable_inv [OF assms(1,2)])
  have ne: "anchor \<noteq> []" using anchor_split(4) [OF inv assms(3,4)] .
  have "concat (map cm_Messages (replayed gap)) = concat (map cm_Messages gap)" for gap
    by (simp add: replayed_def comp_def)
  with resume_exact [OF inv ne assms(7)] gap_messages [OF inv assms(3,4,6)] assms(5)
  show ?thesis by (simp add: computeReplay_def)
qed

definition demo_ch :: "MemStorage \<Rightarrow> Channel" where
  "demo_ch s = the (cs_appender (demo_cs s))"

definition demo_attach :: "string \<Rightarrow> nat \<Rightarrow> attachment" where
  "demo_attach from k = newAttachment ''room'' \<lparr>st_cursor = k\<rparr> from False defaultModes defaultModes []
     ''c9'' True"

theorem resume_is_gapless_witness:
  "\<exists>replay. computeReplay False 0 (\<lambda>_ _. None) (demo_cs demo2) (demo_ch demo2)
     ''00000000000006-001@ab'' (demo_attach ''00000000000005-000@ab'' 2) =
     (replay, ''00000000000005-000@ab'', True, None) \<and> length replay = 1"
proof -
  let ?a = "demo_attach ''00000000000005-000@ab'' 2"
  have "cs_appender (demo_cs demo2) = Some (demo_ch demo2)" by code_simp
  moreover have "StreamChannelSerial (demo_ch demo2) (at_stream ?a) = Some ''00000000000006-001@ab''"
    by code_simp
  moreover have "at_resumeFrom ?a \<noteq> []" "at_resumeFrom ?a \<le> ''00000000000006-001@ab''" by code_simp+
  moreover have "int (messageCount (gapCMs (at_resumeFrom ?a) ''00000000000006-001@ab''
      (log_of (demo_cs demo2)))) \<le> at_replayCap ?a" by code_simp
  moreover have "length (replayed (gapCMs (at_resumeFrom ?a) ''00000000000006-001@ab''
      (log_of (demo_cs demo2)))) = 1" by code_simp
  moreover have "at_resumeFrom ?a = ''00000000000005-000@ab''" by code_simp
  ultimately show ?thesis
    using resume_is_gapless [OF demo_reachable(2) demo_channel(2), of "demo_ch demo2" ?a
        "''00000000000006-001@ab''" 0 "\<lambda>_ _. None"] by simp
qed

section \<open>Gaps beyond the cap\<close>

lemma computeResume_long:
  assumes inv: "mem_inv (g, cs)" and "anchor \<noteq> []" "at_resumeFrom a \<noteq> anchor" "0 \<le> at_replayCap a"
    and "distinct (map fst bs)"
    and "take (nat (at_replayCap a + 1)) (concat (map block (blocks anchor (log_of cs)))) =
      concat (map block bs)" "\<forall>b \<in> set bs. snd b \<noteq> [] \<and> at_resumeFrom a < fst b"
  shows "computeResumeReplay False cs anchor a =
    (let cms = map (\<lambda>(s, ms). messagesOnly s ms) bs
     in if int (length cms) \<le> at_replayCap a
        then (reverseAndNormalise cms, at_resumeFrom a, True, None)
        else (reverseAndNormalise (take (nat (at_replayCap a)) cms), at_resumeFrom a, False,
              Some (truncatedInfo ''replay'' (at_replayCap a))))"
proof -
  let ?r = "at_resumeFrom a" and ?M = "map (\<lambda>(s, ms). messagesOnly s ms) bs"
  have g: "grouped (concat (map block bs)) = ?M" using assms(5,7) by (intro grouped_blocks) auto
  have "\<forall>b \<in> set bs. ?r < fst b" using assms(7) by blast
  then have tw: "takeWhile (\<lambda>cm. ?r < cm_ChannelSerial cm) ?M = ?M" by auto
  obtain page where h: "History False (resumeQuery anchor (at_replayCap a + 1)) cs = Inr page"
    and p: "hp_ChannelMessages page = ?M"
    using replay_page [OF inv assms(2), of "at_replayCap a + 1"] assms(4,6) g by auto
  show ?thesis
    using assms(3) h unfolding computeResumeReplay_query p by (simp add: p Let_def tw del: takeWhile_eq_all_conv)
qed

lemma take_prefix_singles:
  "\<forall>b \<in> set bs. length (snd b) = 1 \<Longrightarrow> n \<le> length bs \<Longrightarrow>
     take n (concat (map block (bs @ cs))) = concat (map block (take n bs))"
proof (induction bs arbitrary: n)
  case (Cons b bs)
  then show ?case by (cases n; cases "snd b") (auto simp: block_def)
qed simp

text \<open>C37: a resume across more messages than the cap is reported when every publish carries one
  message: RESUMED is clear, the error is 40012 and exactly the newest \<open>replayCap\<close> messages of the
  gap are replayed, oldest first.\<close>

theorem long_resume_reported:
  assumes "reachable series s" "map_of (ms_channels s) name = Some cs" "anchor \<noteq> []"
    and "0 \<le> at_replayCap a"
    and "\<forall>cm \<in> set (gapCMs (at_resumeFrom a) anchor (log_of cs)). length (cm_Messages cm) = 1"
    and "at_replayCap a < int (length (gapCMs (at_resumeFrom a) anchor (log_of cs)))"
  defines "gap \<equiv> gapCMs (at_resumeFrom a) anchor (log_of cs)"
  shows "computeResumeReplay False cs anchor a =
    (replayed (drop (length gap - nat (at_replayCap a)) gap), at_resumeFrom a, False,
     Some (truncatedInfo ''replay'' (at_replayCap a)))"
proof -
  let ?r = "at_resumeFrom a" and ?bs = "blocks anchor (log_of cs)" and ?n = "nat (at_replayCap a + 1)"
  let ?pair = "\<lambda>cm. (cm_ChannelSerial cm, rev (cm_Messages cm))"
  let ?new = "takeWhile (\<lambda>b. ?r < fst b) ?bs"
  have inv: "mem_inv (ms_gen s, cs)" by (rule reachable_inv [OF assms(1,2)])
  have new: "?new = map ?pair (rev gap)" unfolding gap_def by (rule gap_blocks [OF inv])
  have one: "\<forall>b \<in> set ?new. length (snd b) = 1" using assms(5) by (auto simp: new gap_def)
  have n: "?n \<le> length ?new" using assms(4,6) by (simp add: new gap_def)
  have ne: "?r \<noteq> anchor" using assms(4,6) by (auto simp: gap_self)
  have dist: "distinct (map fst (take ?n ?new))"
    using distinct_take [OF desc_distinct [OF sorted_takeWhile_blocks [OF inv]]] by (simp only: take_map)
  have tk: "take ?n (concat (map block ?bs)) = concat (map block (take ?n ?new))"
    using take_prefix_singles [OF one n, of "dropWhile (\<lambda>b. ?r < fst b) ?bs"] by simp
  have ok: "\<forall>b \<in> set (take ?n ?new). snd b \<noteq> [] \<and> ?r < fst b"
    using one by (fastforce dest: in_set_takeD set_takeWhileD)
  have "int (length (map (\<lambda>(s, ms). messagesOnly s ms) (take ?n ?new))) = at_replayCap a + 1"
    using n assms(4) by (simp only: length_map length_take min_absorb2 int_nat_eq) simp
  then have "computeResumeReplay False cs anchor a =
      (reverseAndNormalise (take (nat (at_replayCap a)) (map (\<lambda>(s, ms). messagesOnly s ms) (take ?n ?new))),
       ?r, False, Some (truncatedInfo ''replay'' (at_replayCap a)))"
    unfolding computeResume_long [OF inv assms(3) ne assms(4) dist tk ok] Let_def by simp
  moreover have "take (nat (at_replayCap a)) (map (\<lambda>(s, ms). messagesOnly s ms) (take ?n ?new)) =
      map (\<lambda>(s, ms). messagesOnly s ms) (map ?pair (rev (drop (length gap - nat (at_replayCap a)) gap)))"
  proof -
    have "nat (at_replayCap a) \<le> length gap" using assms(4,6) by (simp add: gap_def)
    then have "take (nat (at_replayCap a)) (rev gap) = rev (drop (length gap - nat (at_replayCap a)) gap)"
      by (simp add: rev_drop)
    then show ?thesis using assms(4) by (simp add: new take_map nat_add_distrib)
  qed
  ultimately show ?thesis by (simp only: reverse_blocks)
qed

definition demo3 :: MemStorage where
  "demo3 = do_write 6 (OpMutate demo_append) demo2"

definition demo_batch :: MemStorage where
  "demo_batch = do_write 6 (OpStore ''fresh'' [zeroMessage, zeroMessage, zeroMessage]) demo0"

lemma demo3_steps: "storage_step demo2 demo3" "storage_step demo0 demo_batch"
proof -
  have g: "ms_gen demo2 = \<lparr>seriesID = ''ab'', lastTs = 6, lastCounter = 1\<rparr>"
    "map_of (ms_channels demo2) ''room'' \<noteq> None" by code_simp+
  show "storage_step demo2 demo3" unfolding demo3_def
    by (rule do_write_step) (simp_all add: g clock_ok_demo gen_inv_def width_defs)
  show "storage_step demo0 demo_batch" unfolding demo_batch_def
    by (rule do_write_step) (simp_all add: demo_gens clock_ok_demo gen_inv_def width_defs)
qed

lemma demo3_reachable: "reachable ''ab'' demo3" "reachable ''ab'' demo_batch"
  using demo_reachable(2,3) demo3_steps unfolding reachable_def by (meson rtranclp.rtrancl_into_rtrancl)+

lemma demo3_channel: "map_of (ms_channels demo3) ''room'' = Some (demo_cs demo3)"
  "map_of (ms_channels demo_batch) ''room'' = Some (demo_cs demo_batch)"
  by code_simp+

theorem long_resume_reported_witness:
  "fst (computeResumeReplay False (demo_cs demo3) ''00000000000006-002@ab''
     ((demo_attach ''00000000000005-000@ab'' 3)\<lparr>at_replayCap := 1\<rparr>)) \<noteq> []"
proof -
  let ?a = "(demo_attach ''00000000000005-000@ab'' 3)\<lparr>at_replayCap := 1\<rparr>"
  let ?gap = "gapCMs (at_resumeFrom ?a) ''00000000000006-002@ab'' (log_of (demo_cs demo3))"
  have "''00000000000006-002@ab'' \<noteq> ([] :: string)" "0 \<le> at_replayCap ?a" by code_simp+
  moreover have "\<forall>cm \<in> set ?gap. length (cm_Messages cm) = 1" by code_simp
  moreover have "at_replayCap ?a < int (length ?gap)" by code_simp
  moreover have "replayed (drop (length ?gap - nat (at_replayCap ?a)) ?gap) \<noteq> []" by code_simp
  ultimately show ?thesis using long_resume_reported [OF demo3_reachable(1) demo3_channel(1)] by simp
qed

text \<open>The cap is compared with the number of ChannelMessages, but the history limit counts
  messages: when the gap is one publish of more than \<open>replayCap + 1\<close> messages, only the last
  \<open>replayCap + 1\<close> of them are replayed and the attach still claims RESUMED, without an error.\<close>

theorem batched_resume_loses_silently:
  assumes "reachable series s" "map_of (ms_channels s) name = Some cs" "anchor \<noteq> []"
    and "gapCMs (at_resumeFrom a) anchor (log_of cs) = [cm]"
    and "1 \<le> at_replayCap a" "at_replayCap a + 1 < int (length (cm_Messages cm))"
  shows "computeResumeReplay False cs anchor a =
    ([messagesOnly (cm_ChannelSerial cm)
       (drop (length (cm_Messages cm) - nat (at_replayCap a + 1)) (cm_Messages cm))],
     at_resumeFrom a, True, None)"
proof -
  let ?r = "at_resumeFrom a" and ?bs = "blocks anchor (log_of cs)" and ?n = "nat (at_replayCap a + 1)"
  let ?b = "(cm_ChannelSerial cm, take ?n (rev (cm_Messages cm)))"
  have inv: "mem_inv (ms_gen s, cs)" by (rule reachable_inv [OF assms(1,2)])
  have new: "takeWhile (\<lambda>b. ?r < fst b) ?bs = [(cm_ChannelSerial cm, rev (cm_Messages cm))]"
    using gap_blocks [OF inv, of ?r anchor] assms(4) by simp
  have "?bs = [(cm_ChannelSerial cm, rev (cm_Messages cm))] @ dropWhile (\<lambda>b. ?r < fst b) ?bs"
    by (metis new takeWhile_dropWhile_id)
  then obtain rest where bs: "?bs = (cm_ChannelSerial cm, rev (cm_Messages cm)) # rest" by auto
  have "?r \<noteq> anchor" using assms(4) by auto
  moreover have "take ?n (concat (map block ?bs)) = concat (map block [?b])"
    using assms(5,6) by (simp add: bs block_def take_map)
  moreover have "?r < cm_ChannelSerial cm" using new by (metis fst_conv list.set_intros(1) set_takeWhileD)
  moreover have "cm_Messages cm \<noteq> []" using assms(5,6) by auto
  ultimately show ?thesis
    using computeResume_long [OF inv assms(3) _ _, of a "[?b]"] assms(5,6)
    by (simp add: Let_def reverseAndNormalise_def messagesOnly_def rev_take)
qed

theorem batched_resume_loses_silently_witness:
  "\<exists>cm. fst (computeResumeReplay False (demo_cs demo_batch) ''00000000000006-000@ab''
     ((demo_attach ''00000000000005-000@ab'' 1)\<lparr>at_replayCap := 1\<rparr>)) = [cm] \<and> length (cm_Messages cm) = 2"
proof -
  let ?a = "(demo_attach ''00000000000005-000@ab'' 1)\<lparr>at_replayCap := 1\<rparr>"
  let ?gap = "gapCMs (at_resumeFrom ?a) ''00000000000006-000@ab'' (log_of (demo_cs demo_batch))"
  have "''00000000000006-000@ab'' \<noteq> ([] :: string)" "at_replayCap ?a = 1" by code_simp+
  moreover have "?gap = [hd ?gap]" "length (cm_Messages (hd ?gap)) = 3" by code_simp+
  ultimately show ?thesis
    using batched_resume_loses_silently [OF demo3_reachable(2) demo3_channel(2),
        of "''00000000000006-000@ab''" ?a "hd ?gap"] by simp
qed

end
