(* ===== verification/Delivery.thy ===== *)
theory Delivery
  imports Attachment
begin

unbundle bit_operations_syntax

text \<open>
  Delivery of streamed appends (\<open>attachment.forward\<close> and \<open>resolveAppends\<close>): a subscriber may get
  an append as its delta only, so the aggregate it holds depends on what it got before. The
  client that applies every MESSAGE frame in order is modelled here, and its state compared with
  the newest version in the store's log.
\<close>

section \<open>The client\<close>

text \<open>The client's copy of the data of each message, by message serial: a create, update or delete
  replaces it, an append extends what it has, a summary leaves it.\<close>

type_synonym client_view = "string \<Rightarrow> goany option"

definition applyMessage :: "client_view \<Rightarrow> Message \<Rightarrow> client_view" where
  "applyMessage v m =
     (case m_Action m of
        MessageAppend \<Rightarrow> v(m_Serial m :=
          (case v (m_Serial m) of
             None \<Rightarrow> None
           | Some d \<Rightarrow> (case concatData d (m_Data m) of Inl e \<Rightarrow> None | Inr d' \<Rightarrow> Some d')))
      | MessageSummary \<Rightarrow> v
      | _ \<Rightarrow> v(m_Serial m := Some (m_Data m)))"

definition applyFrames :: "client_view \<Rightarrow> ProtocolMessage list \<Rightarrow> client_view" where
  "applyFrames v fs = foldl applyMessage v (concat (map pm_Messages fs))"

section \<open>Logs whose appends extend the version before\<close>

definition log_data :: "ChannelMessage list \<Rightarrow> string \<Rightarrow> goany option" where
  "log_data L x = (if log_versions L x = [] then None else Some (m_Data (last (log_versions L x))))"

definition plainAction :: "MessageAction \<Rightarrow> bool" where
  "plainAction a \<longleftrightarrow> a \<in> {MessageCreate, MessageUpdate, MessageDelete}"

definition version_ok :: "ChannelMessage list \<Rightarrow> Message \<Rightarrow> bool" where
  "version_ok P m \<longleftrightarrow> m_Serial m \<noteq> [] \<and> plainAction (m_Action m) \<and>
     (case m_Alt m of
        None \<Rightarrow> True
      | Some d \<Rightarrow> m_Action d = MessageAppend \<and> m_Serial d = m_Serial m \<and>
          (case log_data P (m_Serial m) of
             None \<Rightarrow> False
           | Some x \<Rightarrow> concatData x (m_Data d) = Inr (m_Data m)))"

definition cm_ok :: "ChannelMessage list \<Rightarrow> ChannelMessage \<Rightarrow> bool" where
  "cm_ok P cm \<longleftrightarrow> distinct (map m_Serial (cm_Messages cm)) \<and> list_all (version_ok P) (cm_Messages cm)"

fun chained :: "ChannelMessage list \<Rightarrow> ChannelMessage list \<Rightarrow> bool" where
  "chained P [] = True"
| "chained P (cm # cms) = (cm_ok P cm \<and> chained (P @ [cm]) cms)"

lemma chained_append: "chained P (as @ bs) \<longleftrightarrow> chained P as \<and> chained (P @ as) bs"
  by (induction as arbitrary: P) auto

lemma chained_suffix: "chained [] (P @ cms) \<Longrightarrow> chained P cms"
  by (simp add: chained_append)

lemma log_data_snoc:
  "distinct (map m_Serial (cm_Messages cm)) \<Longrightarrow> m \<in> set (cm_Messages cm) \<Longrightarrow>
     log_data (P @ [cm]) (m_Serial m) = Some (m_Data m)"
proof -
  assume d: "distinct (map m_Serial (cm_Messages cm))" and m: "m \<in> set (cm_Messages cm)"
  have "filter (\<lambda>m'. m_Serial m' = m_Serial m) ms = [m]"
    if "distinct (map m_Serial ms)" "m \<in> set ms" for ms
    using that
  proof (induction ms)
    case (Cons m' ms)
    then show ?case by (cases "m' = m") (auto simp: filter_empty_conv dest: image_eqI [OF sym])
  qed simp
  with d m show ?thesis
    by (simp add: log_data_def log_versions_def log_messages_def)
qed

lemma log_data_other:
  "x \<notin> m_Serial ` set (cm_Messages cm) \<Longrightarrow> log_data (P @ [cm]) x = log_data P x"
proof -
  assume "x \<notin> m_Serial ` set (cm_Messages cm)"
  then have "log_versions (P @ [cm]) x = log_versions P x"
    by (auto simp: log_versions_def log_messages_def filter_empty_conv)
  then show ?thesis by (simp add: log_data_def)
qed

lemma log_data_latest: "log_data L x = map_option m_Data (log_latest L x)"
  by (simp add: log_data_def log_latest_def)

section \<open>One delivery\<close>

lemma delta_sel [simp]:
  "m_Action (deltaMessage d) = m_Action d" "m_Serial (deltaMessage d) = m_Serial d"
  "m_Data (deltaMessage d) = m_Data d"
  by (simp_all add: deltaMessage_def MessageBody.defs Message.defs)

lemma apply_plain:
  "plainAction (m_Action m) \<Longrightarrow> applyMessage v m = v(m_Serial m := Some (m_Data m))"
  by (auto simp: applyMessage_def plainAction_def)

lemma apply_resolved:
  assumes "version_ok P m" "asDeltas \<longrightarrow> HasAppendDelta m \<longrightarrow> v (m_Serial m) = log_data P (m_Serial m)"
  shows "applyMessage v (resolveOne asDeltas m) = v(m_Serial m := Some (m_Data m))"
proof (cases "m_Alt m")
  case None
  with assms(1) show ?thesis by (simp add: resolveOne_def version_ok_def apply_plain)
next
  case (Some d)
  show ?thesis
  proof (cases asDeltas)
    case True
    with Some assms show ?thesis
      by (auto simp: resolveOne_def version_ok_def applyMessage_def HasAppendDelta_def
          split: option.splits)
  next
    case False
    with Some assms show ?thesis by (simp add: resolveOne_def version_ok_def apply_plain)
  qed
qed

lemma apply_all:
  assumes "list_all (version_ok P) ms" "distinct (map m_Serial ms)"
    and "\<forall>m \<in> set ms. asDeltas \<longrightarrow> HasAppendDelta m \<longrightarrow> v (m_Serial m) = log_data P (m_Serial m)"
  shows "(\<forall>m \<in> set ms. foldl applyMessage v (map (resolveOne asDeltas) ms) (m_Serial m) = Some (m_Data m)) \<and>
    (\<forall>x. x \<notin> m_Serial ` set ms \<longrightarrow> foldl applyMessage v (map (resolveOne asDeltas) ms) x = v x)"
  using assms
proof (induction ms arbitrary: v)
  case (Cons m ms)
  let ?v = "v(m_Serial m := Some (m_Data m))"
  have "applyMessage v (resolveOne asDeltas m) = ?v" using Cons.prems by (intro apply_resolved [of P]) auto
  moreover have "m_Serial m \<notin> m_Serial ` set ms" using Cons.prems(2) by simp
  moreover from this have "\<forall>m' \<in> set ms. m_Serial m' \<noteq> m_Serial m" by (auto simp: image_iff)
  moreover have "(\<forall>m' \<in> set ms. foldl applyMessage ?v (map (resolveOne asDeltas) ms) (m_Serial m') = Some (m_Data m')) \<and>
      (\<forall>x. x \<notin> m_Serial ` set ms \<longrightarrow> foldl applyMessage ?v (map (resolveOne asDeltas) ms) x = ?v x)"
    using Cons.prems calculation by (intro Cons.IH) auto
  ultimately show ?case by auto
qed simp

text \<open>A client is in step with an attachment when it holds, for every message the attachment has
  delivered, the data of the newest version of the log so far.\<close>

definition in_step :: "ChannelMessage list \<Rightarrow> attachment \<Rightarrow> client_view \<Rightarrow> bool" where
  "in_step P a v \<longleftrightarrow> (\<forall>x \<in> set (at_seen a). v x = log_data P x)"

lemma resolveAppends_map:
  "\<exists>asDeltas. resolveAppends msgs backlog a =
     (a\<lparr>at_seen := at_seen a @ filter (\<lambda>s. s \<noteq> []) (map m_Serial msgs)\<rparr>, map (resolveOne asDeltas) msgs) \<and>
   (asDeltas \<longrightarrow> \<not> list_ex (appendUnseen (at_seen a)) msgs)"
proof -
  have "\<not> list_ex HasAppendDelta msgs \<Longrightarrow> map (resolveOne b) msgs = msgs" for b
    by (rule map_idI) (auto simp: list_ex_iff resolveOne_def HasAppendDelta_def split: option.split)
  then show ?thesis by (simp add: resolveAppends_def Let_def) blast
qed

lemma summaries_ignored: "applyFrames v (map (\<lambda>an. (channelFrame ActionMessage a s)
    \<lparr>pm_Messages := [summaryMessage an]\<rparr>) ans) = v"
  by (induction ans) (simp_all add: applyFrames_def applyMessage_def summaryMessage_def)

lemma forward_in_step:
  assumes "in_step P a v" "cm_ok P cm" "hasMode a FlagSubscribe" "at_echo a"
    and "forward cm backlog a = (a', fs)"
  shows "in_step (P @ [cm]) a' (applyFrames v fs) \<and>
    set (at_seen a') = set (at_seen a) \<union> m_Serial ` set (cm_Messages cm)"
proof (cases "cm_Messages cm = []")
  case True
  then have "at_seen a' = at_seen a" "applyFrames v fs = v"
    using assms(3,5) summaries_ignored [of v a "cm_ChannelSerial cm" "cm_Annotations cm"]
    by (auto simp: forward_def applyFrames_def channelFrame_def split: if_splits)
  with True assms(1) show ?thesis by (simp add: in_step_def log_data_other)
next
  case False
  obtain asDeltas where r: "resolveAppends (cm_Messages cm) backlog a =
      (a\<lparr>at_seen := at_seen a @ filter (\<lambda>s. s \<noteq> []) (map m_Serial (cm_Messages cm))\<rparr>,
       map (resolveOne asDeltas) (cm_Messages cm))"
    and un: "asDeltas \<longrightarrow> \<not> list_ex (appendUnseen (at_seen a)) (cm_Messages cm)"
    using resolveAppends_map by blast
  have ok: "distinct (map m_Serial (cm_Messages cm))" "list_all (version_ok P) (cm_Messages cm)"
    using assms(2) by (simp_all add: cm_ok_def)
  then have ne: "\<forall>m \<in> set (cm_Messages cm). m_Serial m \<noteq> []" by (simp add: list_all_iff version_ok_def)
  have fs: "applyFrames v fs = foldl applyMessage v (map (resolveOne asDeltas) (cm_Messages cm))"
    and seen: "set (at_seen a') = set (at_seen a) \<union> m_Serial ` set (cm_Messages cm)"
    using assms(3,4,5) r False ne by (auto simp: forward_def applyFrames_def Let_def)
  have "\<forall>m \<in> set (cm_Messages cm). asDeltas \<longrightarrow> HasAppendDelta m \<longrightarrow> v (m_Serial m) = log_data P (m_Serial m)"
    using un ne assms(1) by (auto simp: list_ex_iff appendUnseen_def in_step_def)
  note app = apply_all [OF ok(2,1) this]
  have "applyFrames v fs x = log_data (P @ [cm]) x" if "x \<in> set (at_seen a')" for x
  proof (cases "x \<in> m_Serial ` set (cm_Messages cm)")
    case True
    then show ?thesis using app fs log_data_snoc [OF ok(1)] by auto
  next
    case False
    then show ?thesis using app fs that seen assms(1) by (auto simp: in_step_def log_data_other)
  qed
  then show ?thesis using seen by (simp add: in_step_def)
qed

section \<open>The store keeps logs chained\<close>

lemma merge_version_ok:
  assumes "MergeVersion current mut vs = Inr v" "IsMutation (m_Action mut)"
    and "m_Serial current = x" "x \<noteq> []" "log_data P x = Some (m_Data current)"
  shows "version_ok P v \<and> m_Serial v = x \<and> m_ConnectionID v = m_ConnectionID current"
proof -
  note c = MergeVersion_carries [OF assms(1)]
  have "version_ok P v"
  proof (cases "m_Alt v")
    case (Some d)
    then have "m_Action mut = MessageAppend" using c(9) by (simp add: HasAppendDelta_def)
    with Some MergeVersion_delta [OF assms(1)] MergeVersion_data [OF assms(1)] assms(3-5) c(2,8)
    show ?thesis by (auto simp: version_ok_def plainAction_def)
  qed (use c(2,8) assms(3,4) in \<open>simp add: version_ok_def plainAction_def\<close>)
  then show ?thesis using c(2,4) assms(3) by simp
qed

definition no_deltas :: "store_op \<Rightarrow> bool" where
  "no_deltas op = (case op of OpStore fresh msgs \<Rightarrow> list_all (\<lambda>m. m_Alt m = None) msgs | _ \<Rightarrow> True)"

lemma stampIDs_Alt: "list_all (\<lambda>m. m_Alt m = None) ms \<Longrightarrow> list_all (\<lambda>m. m_Alt m = None) (stampIDs b i ms)"
  by (induction b i ms rule: stampIDs.induct) auto

lemma StampMessageIDs_Alt:
  "StampMessageIDs fresh ms = Inr (b, ms') \<Longrightarrow> list_all (\<lambda>m. m_Alt m = None) ms \<Longrightarrow>
     list_all (\<lambda>m. m_Alt m = None) ms'"
  by (auto simp: StampMessageIDs_def stampIDs_Alt Let_def split: sum.splits prod.splits if_splits)

lemma stampCreates_ok:
  "list_all (\<lambda>m. m_Alt m = None) ms \<Longrightarrow>
     list_all (\<lambda>m. m_Alt m = None \<and> m_Action m = MessageCreate) (stampCreates s i ms)"
  by (induction s i ms rule: stampCreates.induct) (auto simp: StampCreateVersion_def Let_def)

lemma cm_ok_create:
  assumes "list_all (\<lambda>m. m_Alt m = None \<and> m_Action m = MessageCreate) (cm_Messages cm)"
    and "cm_shape K cm"
  shows "cm_ok P cm"
  using assms MessageSerial_nonempty
  by (fastforce simp: cm_ok_def cm_shape_def version_ok_def plainAction_def list_all_iff)

lemma exec_cm_ok:
  assumes inv: "mem_inv (g, cs)" and clk: "clock_ok now g" and nd: "no_deltas op"
    and ex: "exec ctxErr now op (g, cs) = (st', Inr (Some cm, False))"
  shows "cm_ok (log_of cs) cm"
proof -
  have sh: "\<exists>K. cm_shape K cm"
  proof -
    obtain cs' where e: "st' = (advance now g, cs')" "ext_step now g cs cm cs'" "mem_inv st'"
      by (rule exec_fresh [OF inv clk ex]) auto
    then have "log_inv cs'" "cm \<in> set (log_of cs')" by (simp_all add: mem_inv_def ext_log)
    then show ?thesis by (force simp: log_inv_def log_of_def cmAt_def gget_def split: option.splits)
  qed
  show ?thesis
  proof (cases op)
    case (OpStore fresh msgs)
    with ex have "Store ctxErr now fresh msgs (g, cs) = (st', Inr (Some cm, False))" by simp
    then obtain msgs1 where st: "StampMessageIDs fresh msgs = Inr (cm_ID cm, msgs1)"
      "cm_Messages cm = stampCreates (cm_ChannelSerial cm) 0 msgs1"
      by (rule Store_fresh [OF inv clk]) auto
    have "list_all (\<lambda>m. m_Alt m = None) msgs" using nd OpStore by (simp add: no_deltas_def)
    from stampCreates_ok [OF StampMessageIDs_Alt [OF st(1) this]] have "list_all (\<lambda>m. m_Alt m = None \<and> m_Action m = MessageCreate) (cm_Messages cm)"
      unfolding st(2) .
    with sh show ?thesis using cm_ok_create by blast
  next
    case (OpMutate mut)
    with ex have mu: "Mutate ctxErr now mut (g, cs) = (st', Inr (Some cm, False))" by simp
    then have im: "IsMutation (m_Action mut)" "m_Serial mut \<noteq> []" by (auto simp: Mutate_def split: if_splits)
    obtain current version where c: "map_of (cs_latest cs) (m_Serial mut) = Some current"
      "cm_Messages cm = [version]"
      "MergeVersion current mut (MessageSerial (cm_ChannelSerial cm) 0) = Inr version"
      using mu by (rule Mutate_fresh [OF inv clk]) auto
    have "log_latest (log_of cs) (m_Serial mut) = Some current"
      using inv c(1) by (simp add: mem_inv_def derived_inv_def)
    moreover from this have "m_Serial current = m_Serial mut"
      using last_in_set [of "log_versions (log_of cs) (m_Serial mut)"]
      by (auto simp: log_latest_def log_versions_def split: if_splits)
    ultimately show ?thesis
      using merge_version_ok [OF c(3) im(1)] im(2) by (simp add: cm_ok_def c(2) log_data_latest)
  next
    case (OpAnnotation anns)
    then have "cm_Messages cm = []" using ex
      by (auto simp: StoreAnnotation_def zeroChannelMessage_def Let_def
          split: if_splits option.splits sum.splits prod.splits)
    then show ?thesis by (simp add: cm_ok_def)
  next
    case (OpPresence ps)
    then have "cm_Messages cm = []" using ex
      by (auto simp: StorePresence_def zeroChannelMessage_def Let_def
          split: if_splits option.splits sum.splits prod.splits)
    then show ?thesis by (simp add: cm_ok_def)
  qed
qed

lemma run_chained:
  assumes "mem_inv s" "may_all mem_may mem_run calls s" "run_all mem_run calls s = (s', rs)"
    and "\<forall>c \<in> set calls. no_deltas (snd (snd c))" "chained [] (mem_log s)"
  shows "chained [] (mem_log s')"
  using assms
proof (induction calls arbitrary: s rs)
  case (Cons c calls)
  obtain ctxErr now op where c: "c = (ctxErr, now, op)" by (cases c)
  obtain g cs where s: "s = (g, cs)" by (cases s)
  obtain s1 r where r: "mem_run c s = (s1, r)" by fastforce
  obtain rs1 where rs: "run_all mem_run calls s1 = (s', rs1)"
    using Cons.prems(3) r by (auto split: prod.splits)
  have may: "mem_may c s" "may_all mem_may mem_run calls s1" using Cons.prems(2) r by simp_all
  have "chained [] (mem_log s1)"
  proof (cases "\<exists>cm. r = Inr (Some cm, False)")
    case True
    then obtain cm where cm: "r = Inr (Some cm, False)" by blast
    have "cm_ok (log_of cs) cm"
      using Cons.prems(1,4) may(1) r cm by (intro exec_cm_ok) (auto simp: mem_may_def mem_run_def c s)
    with memory.run_log [OF Cons.prems(1) may(1) r] Cons.prems(5) cm show ?thesis
      by (simp add: fresh_cms_def chained_append mem_log_def s)
  next
    case False
    then have "fresh_cms [r] = []"
      by (auto simp: fresh_cms_def split: sum.splits option.splits bool.splits)
    with memory.run_log [OF Cons.prems(1) may(1) r] Cons.prems(5) show ?thesis by simp
  qed
  with Cons.IH [OF memory.run_ok [OF Cons.prems(1) may(1) r] may(2) rs] Cons.prems(4) show ?case by simp
qed simp

section \<open>Runs of an attachment\<close>

text \<open>What happens to a live attachment: the stream yields a ChannelMessage, the client re-attaches
  with other modes or parameters, or a re-authentication rechecks the capability.\<close>

datatype att_event =
    LiveCM ChannelMessage
  | Reattach flags flags "(string, string) gomap"
  | Recheck flags

fun att_step :: "att_event \<Rightarrow> attachment \<Rightarrow> attachment \<times> ProtocolMessage list" where
  "att_step (LiveCM cm) a = liveStep cm a"
| "att_step (Reattach req modes params) a = (fst (applyReattach req modes params a), [])"
| "att_step (Recheck permitted) a = (recheckCapability permitted a, [])"

fun att_run :: "att_event list \<Rightarrow> attachment \<Rightarrow> attachment \<times> ProtocolMessage list" where
  "att_run [] a = (a, [])"
| "att_run (e # es) a =
     (case att_step e a of (a', fs) \<Rightarrow> case att_run es a' of (a'', fs') \<Rightarrow> (a'', fs @ fs'))"

fun subscribed :: "att_event list \<Rightarrow> attachment \<Rightarrow> bool" where
  "subscribed [] a = hasMode a FlagSubscribe"
| "subscribed (e # es) a = (hasMode a FlagSubscribe \<and> subscribed es (fst (att_step e a)))"

definition live_cms :: "att_event list \<Rightarrow> ChannelMessage list" where
  "live_cms es = concat (map (\<lambda>e. case e of LiveCM cm \<Rightarrow> [cm] | _ \<Rightarrow> []) es)"

lemma att_step_echo: "at_echo (fst (att_step e a)) = at_echo a"
  by (cases e) (auto simp: liveStep_def forward_def setCurSerial_def resolveAppends_def Let_def
      applyReattach_def recheckCapability_def)

lemma att_step_quiet:
  "(\<forall>cm. e \<noteq> LiveCM cm) \<Longrightarrow> at_seen (fst (att_step e a)) = at_seen a \<and> snd (att_step e a) = []"
  by (cases e) (auto simp: applyReattach_def recheckCapability_def)

lemma live_in_step:
  assumes "in_step P a v" "cm_ok P cm" "hasMode a FlagSubscribe" "at_echo a"
    and "att_step (LiveCM cm) a = (a', fs)"
  shows "in_step (P @ [cm]) a' (applyFrames v fs) \<and>
    set (at_seen a') = set (at_seen a) \<union> m_Serial ` set (cm_Messages cm)"
  using forward_in_step [of P "setCurSerial (cm_ChannelSerial cm) a" v cm False a' fs] assms
  by (simp add: liveStep_def setCurSerial_def in_step_def hasMode_def)

lemma run_in_step:
  assumes "in_step P a v" "chained P (live_cms es)" "subscribed es a" "at_echo a"
    and "att_run es a = (a', fs)"
  shows "in_step (P @ live_cms es) a' (applyFrames v fs) \<and>
    set (at_seen a') = set (at_seen a) \<union> m_Serial ` set (log_messages (live_cms es))"
  using assms
proof (induction es arbitrary: P a v fs)
  case Nil
  then show ?case by (simp add: live_cms_def applyFrames_def log_messages_def)
next
  case (Cons e es)
  obtain a1 fs1 where e: "att_step e a = (a1, fs1)" by fastforce
  obtain fs2 where r: "att_run es a1 = (a', fs2)" "fs = fs1 @ fs2"
    using Cons.prems(5) e by (auto split: prod.splits)
  have f: "applyFrames v fs = applyFrames (applyFrames v fs1) fs2" by (simp add: applyFrames_def r(2))
  have a1: "at_echo a1" "subscribed es a1"
    using Cons.prems(3,4) att_step_echo [of e a] e by simp_all
  show ?case
  proof (cases "\<exists>cm. e = LiveCM cm")
    case True
    then obtain cm where cm: "e = LiveCM cm" by blast
    have l: "live_cms (e # es) = cm # live_cms es" by (simp add: live_cms_def cm)
    have s: "in_step (P @ [cm]) a1 (applyFrames v fs1)"
      "set (at_seen a1) = set (at_seen a) \<union> m_Serial ` set (cm_Messages cm)"
      using live_in_step [of P a v cm a1 fs1] Cons.prems(1-4) e cm l by auto
    have "chained (P @ [cm]) (live_cms es)" using Cons.prems(2) l by simp
    from Cons.IH [OF s(1) this a1(2,1) r(1)] show ?thesis by (simp add: l f s(2) log_messages_def image_Un Un_assoc)
  next
    case False
    then have "live_cms (e # es) = live_cms es" by (cases e) (auto simp: live_cms_def)
    moreover have "at_seen a1 = at_seen a" "fs1 = []" using att_step_quiet [of e a] False e by auto
    moreover from this have "in_step P a1 v" using Cons.prems(1) by (simp add: in_step_def)
    ultimately show ?thesis using Cons.IH [of P a1 v fs2] Cons.prems(2) a1 r f by (simp add: applyFrames_def)
  qed
qed

section \<open>Properties\<close>


definition demo_calls :: "store_call list" where
  "demo_calls = [(False, 6, OpStore ''fresh'' [demo_msg]), (False, 7, OpMutate demo_append)]"

definition demo_start :: store_state where
  "demo_start = (\<lparr>seriesID = ''ab'', lastTs = 5, lastCounter = 0\<rparr>, demo_cs demo0)"

definition demo_end :: store_state where
  "demo_end = fst (run_all mem_run demo_calls demo_start)"

definition demo_sub :: attachment where
  "demo_sub = newAttachment ''room'' \<lparr>st_cursor = 0\<rparr> [] False defaultModes defaultModes [] ''c9'' True"


text \<open>The subscribe mode must be held throughout: \<open>seen\<close> survives a re-attach that drops the mode,
  so an append that arrives while it is dropped is skipped, the next one comes as a delta, and the
  client's aggregate misses the skipped text.\<close>

definition stale_events :: "att_event list" where
  "stale_events = (case mem_log (fst (run_all mem_run
       (demo_calls @ [(False, 8, OpMutate (demo_append\<lparr>m_Data := AnyStr ''!''\<rparr>))]) demo_start)) of
     [c1, c2, c3] \<Rightarrow> [LiveCM c1, Reattach FlagPresence FlagPresence [], LiveCM c2,
       Reattach defaultModes defaultModes [], LiveCM c3] | _ \<Rightarrow> [])"

theorem stale_after_resubscribe:
  "log_data (live_cms stale_events) demo_target = Some (AnyStr ''Hello!'') \<and>
   applyFrames (\<lambda>_. None) (snd (att_run stale_events demo_sub)) demo_target = Some (AnyStr ''Hel!'')"
  by code_simp

text \<open>With \<open>echo=false\<close> the test for the connection's own publishes compares the connectionId of
  the message, which a new version carries over from the creator: whoever made the update, the
  creator's connection is not sent it.\<close>

theorem echo_hides_edits_by_others:
  assumes "MergeVersion current mut vs = Inr v" "m_ConnectionID current = at_connID a"
    and "at_connID a \<noteq> []" "\<not> at_echo a" "cm_Messages cm = [v]"
  shows "forward cm backlog a = (a, [])"
  using assms MergeVersion_carries(4) [OF assms(1)] by (simp add: forward_def Let_def)

theorem echo_hides_edits_by_others_witness:
  "forward (zeroChannelMessage\<lparr>cm_Messages :=
      [projr (MergeVersion (demo_msg\<lparr>m_ConnectionID := ''c9''\<rparr>) demo_append ''v'')]\<rparr>) False
     (demo_sub\<lparr>at_echo := False\<rparr>) = (demo_sub\<lparr>at_echo := False\<rparr>, [])"
proof -
  let ?cur = "demo_msg\<lparr>m_ConnectionID := ''c9''\<rparr>"
  obtain v where v: "MergeVersion ?cur demo_append ''v'' = Inr v"
    by (cases "MergeVersion ?cur demo_append ''v''")
      (auto simp: MergeVersion_error_iff demo_msg_def demo_append_def)
  have "m_ConnectionID ?cur = at_connID (demo_sub\<lparr>at_echo := False\<rparr>)"
    "at_connID (demo_sub\<lparr>at_echo := False\<rparr>) \<noteq> []" by code_simp+
  then show ?thesis
    using echo_hides_edits_by_others [OF v, of "demo_sub\<lparr>at_echo := False\<rparr>"] v by simp
qed

end
