(* ===== verification/Manager.thy ===== *)
theory Manager
  imports MemoryStore
begin

text \<open>
  \<open>internal/core/manager.go\<close> over the in-memory backend: the registry of channels of a process.
  A registered channel has its store bound once \<open>store.Channel\<close> has returned; the registry's lock
  is released in between, so \<open>GetChannel\<close> is two critical sections.
\<close>

section \<open>Definitions\<close>

text \<open>\<open>mg_channels\<close>: the registered names, with whether \<open>ch.store\<close> is set.\<close>

record Manager =
  mg_store :: MemStorage
  mg_channels :: "(string, bool) gomap"

definition NewManager :: "MemStorage \<Rightarrow> Manager" where
  "NewManager store = \<lparr>mg_store = store, mg_channels = []\<rparr>"

text \<open>The first critical section: \<open>True\<close> when the channel was registered already and is returned.\<close>

definition lookupOrReserve :: "string \<Rightarrow> Manager \<Rightarrow> Manager \<times> bool" where
  "lookupOrReserve name m =
     (case map_of (mg_channels m) name of
        Some b \<Rightarrow> (m, True)
      | None \<Rightarrow> (m\<lparr>mg_channels := gput name False (mg_channels m)\<rparr>, False))"

text \<open>The storage call and what follows; \<open>storeErr\<close> is the error of a backend that fails.\<close>

definition bindStore :: "bool \<Rightarrow> int \<Rightarrow> string \<Rightarrow> Manager \<Rightarrow> Manager \<times> bool" where
  "bindStore storeErr now name m =
     (if storeErr then (m\<lparr>mg_channels := gdel name (mg_channels m)\<rparr>, False)
      else (case StorageChannel now name (Some (newChannel name)) (mg_store m) of (s', cs) \<Rightarrow>
        (m\<lparr>mg_store := s', mg_channels := gput name True (mg_channels m)\<rparr>, True)))"

text \<open>The whole call; \<open>False\<close> is the error return.\<close>

definition ManagerGetChannel :: "bool \<Rightarrow> int \<Rightarrow> string \<Rightarrow> Manager \<Rightarrow> Manager \<times> bool" where
  "ManagerGetChannel storeErr now name m =
     (case lookupOrReserve name m of (m', found) \<Rightarrow>
        if found then (m', True) else bindStore storeErr now name m')"

section \<open>Properties\<close>

definition bound :: "Manager \<Rightarrow> bool" where
  "bound m \<longleftrightarrow> (\<forall>name b. map_of (mg_channels m) name = Some b \<longrightarrow>
     b \<and> map_of (ms_channels (mg_store m)) name \<noteq> None)"

lemma StorageChannel_has:
  "StorageChannel now name app s = (s', cs) \<Longrightarrow> map_of (ms_channels s') name = Some cs \<and>
     (\<forall>n. map_of (ms_channels s) n \<noteq> None \<longrightarrow> map_of (ms_channels s') n = map_of (ms_channels s) n)"
  by (auto simp: StorageChannel_def Let_def update_conv' split: option.splits prod.splits)

lemma bound_new: "bound (NewManager s)"
  by (simp add: bound_def NewManager_def)

lemma GetChannel_bound:
  assumes "bound m" "ManagerGetChannel storeErr now name m = (m', ok)"
  shows "bound m' \<and> (ok \<longrightarrow> map_of (ms_channels (mg_store m')) name \<noteq> None) \<and> (\<not> ok \<longrightarrow> storeErr) \<and>
    (\<forall>n. map_of (ms_channels (mg_store m)) n \<noteq> None \<longrightarrow>
       map_of (ms_channels (mg_store m')) n = map_of (ms_channels (mg_store m)) n)"
proof (cases "map_of (mg_channels m) name")
  case (Some b)
  with assms show ?thesis by (auto simp: ManagerGetChannel_def lookupOrReserve_def bound_def)
next
  case None
  show ?thesis
  proof (cases storeErr)
    case True
    with None assms show ?thesis
      by (auto simp: ManagerGetChannel_def lookupOrReserve_def bindStore_def bound_def update_conv'
          delete_conv' split: if_splits) blast
  next
    case False
    obtain s' cs where s: "StorageChannel now name (Some (newChannel name)) (mg_store m) = (s', cs)"
      by fastforce
    from StorageChannel_has [OF s] None assms False s show ?thesis
      by (auto simp: ManagerGetChannel_def lookupOrReserve_def bindStore_def bound_def update_conv'
          split: if_splits) blast
  qed
qed

text \<open>The lock is not held across the storage call: while the first caller of a name is still in
  \<open>store.Channel\<close>, a second caller is handed the registered channel, whose \<open>store\<close> is still nil.\<close>

theorem get_channel_race:
  assumes "map_of (mg_channels m) name = None" "lookupOrReserve name m = (m1, found1)"
    and "lookupOrReserve name m1 = (m2, found2)"
  shows "\<not> found1 \<and> found2 \<and> map_of (mg_channels m2) name = Some False"
  using assms by (auto simp: lookupOrReserve_def update_conv')

theorem get_channel_race_witness:
  "map_of (mg_channels (fst (lookupOrReserve ''room'' (fst (lookupOrReserve ''room''
     (NewManager (NewStorage ''ab'')))))) ) ''room'' = Some False"
  using get_channel_race [of "NewManager (NewStorage ''ab'')" "''room''"
      "fst (lookupOrReserve ''room'' (NewManager (NewStorage ''ab'')))"
      "snd (lookupOrReserve ''room'' (NewManager (NewStorage ''ab'')))"]
  by (simp add: NewManager_def prod_eq_iff)

end
