(* ===== verification/Connection.thy ===== *)
theory Connection
  imports Attachment Auth Manager
begin

unbundle bit_operations_syntax

text \<open>
  \<open>internal/realtime/connection.go\<close>, \<open>mutation.go\<close>, \<open>presence.go\<close>, \<open>annotation.go\<close> and
  \<open>reauth.go\<close>: one live connection. Its read loop dispatches inbound frames; publishes are
  validated and stamped there and handed, one task per frame, to the publish worker, which runs
  the tasks in order and answers each with an ACK or a NACK. A handler is a function on the
  channel registry of the process and the connection; the tasks, closures in the source, are
  values of a datatype. \<open>cn_outbound\<close> holds every frame queued so far; a connection whose context
  is cancelled takes no further step, so the case where \<open>queue\<close> gives up does not arise.
\<close>

section \<open>State\<close>

datatype task =
    TaskNack int "ErrorInfo option"
  | TaskPublish int string "Message list"
  | TaskMutate int string Message
  | TaskPresence int string "PresenceMessage list"
  | TaskAnnotation int string "Annotation list"

record connection =
  cn_id :: string
  cn_key :: string
  cn_clientID :: string
  cn_cap :: perms
  cn_tokenExpiry :: int
  cn_heartbeatInterval :: int
  cn_echo :: bool
  cn_attachments :: "(string, attachment) gomap"
  cn_publishQ :: "task list"
  cn_entered :: "(string, string list) gomap"
  cn_clientClosed :: bool
  cn_lastMsgSerial :: int
  cn_outbound :: "ProtocolMessage list"

text \<open>What a step takes from its environment: the clock in milliseconds, a fresh batch id, whether
  the backend fails to open a channel, and whether the context of a storage call is cancelled.\<close>

record env =
  en_now :: int
  en_fresh :: string
  en_chErr :: bool
  en_ctxErr :: bool

type_synonym sys = "Manager \<times> connection"

text \<open>The connection \<open>HandleWebSocket\<close> builds; \<open>run\<close> starts it with CONNECTED.\<close>

definition newConnection :: "string \<Rightarrow> string \<Rightarrow> string \<Rightarrow> perms \<Rightarrow> int \<Rightarrow> int \<Rightarrow> bool \<Rightarrow> connection" where
  "newConnection connID connKey clientID cap tokenExpiry heartbeatInterval echo =
     \<lparr>cn_id = connID, cn_key = connKey, cn_clientID = clientID, cn_cap = cap, cn_tokenExpiry = tokenExpiry,
      cn_heartbeatInterval = heartbeatInterval, cn_echo = echo, cn_attachments = [], cn_publishQ = [],
      cn_entered = [], cn_clientClosed = False, cn_lastMsgSerial = - 1, cn_outbound = []\<rparr>"

definition queue :: "ProtocolMessage \<Rightarrow> connection \<Rightarrow> connection" where
  "queue f c = c\<lparr>cn_outbound := cn_outbound c @ [f]\<rparr>"

definition enqueuePublish :: "task \<Rightarrow> connection \<Rightarrow> connection" where
  "enqueuePublish t c = c\<lparr>cn_publishQ := cn_publishQ c @ [t]\<rparr>"

definition enqueueNack :: "int \<Rightarrow> ErrorInfo option \<Rightarrow> connection \<Rightarrow> connection" where
  "enqueueNack msgSerial errInfo c = enqueuePublish (TaskNack msgSerial errInfo) c"

definition nack :: "int \<Rightarrow> ErrorInfo option \<Rightarrow> connection \<Rightarrow> connection" where
  "nack msgSerial errInfo c =
     queue ((frame ActionNack)\<lparr>pm_MsgSerial := Some msgSerial, pm_Count := 1, pm_Error := errInfo\<rparr>) c"

definition ack :: "int \<Rightarrow> string list list \<Rightarrow> connection \<Rightarrow> connection" where
  "ack msgSerial res c =
     queue ((frame ActionAck)\<lparr>pm_MsgSerial := Some msgSerial, pm_Count := 1, pm_Res := res\<rparr>) c"

definition errorFrame :: "string \<Rightarrow> ErrorInfo \<Rightarrow> ProtocolMessage" where
  "errorFrame name e = (frame ActionError)\<lparr>pm_Channel := Some name, pm_Error := Some e\<rparr>"

text \<open>A storage write on an opened channel. A caller has opened the channel, by \<open>GetChannel\<close> in the
  same task or by attaching to it, and channels are never closed, so the first branch stands for
  no code.\<close>

definition writeChannel :: "env \<Rightarrow> string \<Rightarrow> store_op \<Rightarrow> Manager \<Rightarrow> Manager \<times> store_result" where
  "writeChannel e name op m =
     (case map_of (ms_channels (mg_store m)) name of
        None \<Rightarrow> (m, Inl ErrTargetNotFound)
      | Some cs \<Rightarrow>
          (case exec (en_ctxErr e) (en_now e) op (ms_gen (mg_store m), cs) of (st', r) \<Rightarrow>
             (m\<lparr>mg_store := putChannel name st' (mg_store m)\<rparr>, r)))"

section \<open>Details and the msgSerial gate\<close>

definition connectionDetails :: "connection \<Rightarrow> ConnectionDetails" where
  "connectionDetails c =
     \<lparr>cd_ClientID = cn_clientID c, cd_ConnectionKey = cn_key c, cd_MaxMessageSize = 65536,
      cd_MaxFrameSize = 524288, cd_MaxInboundRate = 1000, cd_ConnectionStateTTLMs = 120000,
      cd_MaxIdleIntervalMs = milliseconds (cn_heartbeatInterval c)\<rparr>"

definition startConnection :: "ErrorInfo option \<Rightarrow> connection \<Rightarrow> connection" where
  "startConnection resumeError c = queue ((frame ActionConnected)\<lparr>pm_ConnectionID := cn_id c,
     pm_ConnectionDetails := Some (connectionDetails c), pm_Error := resumeError\<rparr>) c"

definition acceptMsgSerial :: "int \<Rightarrow> connection \<Rightarrow> connection \<times> bool" where
  "acceptMsgSerial serial c =
     (if cn_lastMsgSerial c = - 1 \<or> serial \<ge> wrap64 (cn_lastMsgSerial c + 1)
      then (c\<lparr>cn_lastMsgSerial := serial\<rparr>, True) else (c, False))"

definition handleHeartbeat :: "ProtocolMessage \<Rightarrow> connection \<Rightarrow> connection" where
  "handleHeartbeat msg c = queue ((frame ActionHeartbeat)\<lparr>pm_ID := pm_ID msg\<rparr>) c"

definition handleClose :: "connection \<Rightarrow> connection" where
  "handleClose c = queue (frame ActionClosed) (c\<lparr>cn_clientClosed := True\<rparr>)"

section \<open>Attach and detach\<close>

definition OpPublish :: Op where "OpPublish = ''publish''"
definition OpSubscribe :: Op where "OpSubscribe = ''subscribe''"
definition opPresence :: Op where "opPresence = ''presence''"
definition OpAnnotationPublish :: Op where "OpAnnotationPublish = ''annotation-publish''"
definition OpAnnotationSubscribe :: Op where "OpAnnotationSubscribe = ''annotation-subscribe''"

definition permittedModes :: "perms \<Rightarrow> string \<Rightarrow> flags" where
  "permittedModes cap channel =
     (let m = 0;
          m = (if Permits cap channel OpSubscribe then m OR (FlagSubscribe OR FlagPresenceSubscribe) else m);
          m = (if Permits cap channel OpPublish then m OR FlagPublish else m);
          m = (if Permits cap channel opPresence then m OR FlagPresence else m);
          m = (if Permits cap channel OpAnnotationPublish then m OR FlagAnnotationPublish else m);
          m = (if Permits cap channel OpAnnotationSubscribe then m OR FlagAnnotationSubscribe else m)
      in m)"

definition attachFailed :: "string \<Rightarrow> connection \<Rightarrow> connection" where
  "attachFailed name c =
     queue (errorFrame name (errorInfo ''failed to attach to channel'' 50000 500)) c"

text \<open>\<open>ch.Attach\<close> waits for the channel to be ready; \<open>Blocked\<close> leaves the read loop waiting.\<close>

definition freshAttach :: "env \<Rightarrow> string \<Rightarrow> flags \<Rightarrow> flags \<Rightarrow> ProtocolMessage \<Rightarrow> sys \<Rightarrow> sys" where
  "freshAttach e name requested effective msg s =
     (case s of (m, c) \<Rightarrow>
        (case ManagerGetChannel (en_chErr e) (en_now e) name m of (m', ok) \<Rightarrow>
           if \<not> ok then (m', attachFailed name c)
           else (case Option.bind (map_of (ms_channels (mg_store m')) name) cs_appender of
                   None \<Rightarrow> (m', c)
                 | Some ch \<Rightarrow>
                    (case Attach (en_ctxErr e) (en_ctxErr e) ch of
                       Blocked \<Rightarrow> (m', c)
                     | Cancelled \<Rightarrow> (m', attachFailed name c)
                     | Got stream \<Rightarrow>
                         (m', c\<lparr>cn_attachments := gput name
                           (newAttachment name stream (pm_ChannelSerial msg)
                              (pm_Flags msg AND FlagAttachResume \<noteq> 0) requested effective
                              (pm_Params msg) (cn_id c) (cn_echo c)) (cn_attachments c)\<rparr>)))))"

definition handleAttach :: "env \<Rightarrow> ProtocolMessage \<Rightarrow> sys \<Rightarrow> sys" where
  "handleAttach e msg s =
     (case s of (m, c) \<Rightarrow>
        let name = GetChannel msg
        in if \<not> ValidChannelName (runes name)
           then (m, queue (errorFrame name (errorInfo ''invalid channel name'' 40010 400)) c)
           else let requested = resolveRequestedModes (pm_Flags msg) (pm_Params msg);
                    effective = requested AND permittedModes (cn_cap c) name
                in if effective = 0
                   then (m, queue (errorFrame name
                          (errorInfo ''insufficient capability to attach to channel'' 40160 401)) c)
                   else case map_of (cn_attachments c) name of
                          Some a \<Rightarrow>
                            (case applyReattach requested effective (pm_Params msg) a of (a', serial) \<Rightarrow>
                               (m, queue ((frame ActionAttached)\<lparr>pm_Channel := Some name,
                                     pm_ChannelSerial := serial, pm_Flags := effective OR FlagResumed,
                                     pm_Params := echoParams a'\<rparr>)
                                   (c\<lparr>cn_attachments := gput name a' (cn_attachments c)\<rparr>)))
                        | None \<Rightarrow> freshAttach e name requested effective msg s)"

text \<open>The members a connection entered leave one by one, in the order of the set's iteration.\<close>

definition leaveOf :: "string \<Rightarrow> string \<Rightarrow> PresenceMessage" where
  "leaveOf connID clientID = zeroPresence\<lparr>p_Action := PresenceLeave, p_ClientID := clientID,
     p_ConnectionID := connID\<rparr>"

definition publishLeaves :: "env \<Rightarrow> string \<Rightarrow> string \<Rightarrow> string list \<Rightarrow> Manager \<Rightarrow> Manager" where
  "publishLeaves e connID channel clients m =
     (case ManagerGetChannel (en_chErr e) (en_now e) channel m of (m', ok) \<Rightarrow>
        if \<not> ok then m' else fst (writeChannel e channel (OpPresence (map (leaveOf connID) clients)) m'))"

definition leaveChannel :: "env \<Rightarrow> string \<Rightarrow> sys \<Rightarrow> sys" where
  "leaveChannel e channel s =
     (case s of (m, c) \<Rightarrow>
        let clients = gget [] (cn_entered c) channel
        in if clients = [] then (m, c)
           else (publishLeaves e (cn_id c) channel clients m,
                 c\<lparr>cn_entered := gdel channel (cn_entered c)\<rparr>))"

definition handleDetach :: "env \<Rightarrow> string \<Rightarrow> sys \<Rightarrow> sys" where
  "handleDetach e name s =
     (if name = [] then s
      else case leaveChannel e name s of (m, c) \<Rightarrow>
        (m, queue ((frame ActionDetached)\<lparr>pm_Channel := Some name\<rparr>)
              (c\<lparr>cn_attachments := gdel name (cn_attachments c)\<rparr>)))"

definition handleSync :: "env \<Rightarrow> ProtocolMessage \<Rightarrow> sys \<Rightarrow> sys" where
  "handleSync e msg s =
     (case s of (m, c) \<Rightarrow>
        (case map_of (cn_attachments c) (GetChannel msg) of
           None \<Rightarrow> (m, c)
         | Some a \<Rightarrow>
            (case map_of (ms_channels (mg_store m)) (GetChannel msg) of
               None \<Rightarrow> (m, c)
             | Some cs \<Rightarrow> (m, c\<lparr>cn_outbound := cn_outbound c @ resync (en_ctxErr e) cs a\<rparr>))))"

section \<open>Publishing messages\<close>

text \<open>Stamp each message with the resolved clientId and the connection; \<open>None\<close> when one is refused.\<close>

fun stampMessages :: "connection \<Rightarrow> Message list \<Rightarrow> Message list option" where
  "stampMessages c [] = Some []"
| "stampMessages c (m # ms) =
     (case MessageClientID (cn_clientID c) (m_ClientID m) of
        None \<Rightarrow> None
      | Some cid \<Rightarrow> map_option (Cons (m\<lparr>m_ClientID := cid, m_ConnectionID := cn_id c\<rparr>)) (stampMessages c ms))"

definition handleMutation :: "ProtocolMessage \<Rightarrow> connection \<Rightarrow> connection" where
  "handleMutation msg c =
     (let msgSerial = GetMsgSerial msg
      in case pm_Messages msg of
           [m] \<Rightarrow>
             if \<not> IsMutation (m_Action m) \<or> m_Serial m = []
             then enqueueNack msgSerial
                    (Some (errorInfo ''a mutation requires an action and a target serial'' 40000 400)) c
             else (case MessageClientID (cn_clientID c)
                          (case m_Version m of None \<Rightarrow> [] | Some v \<Rightarrow> v_ClientID v) of
                     None \<Rightarrow> enqueueNack msgSerial
                       (Some (errorInfo ''operation clientId not permitted'' 40012 400)) c
                   | Some stamped \<Rightarrow>
                       enqueuePublish (TaskMutate msgSerial (GetChannel msg) (m\<lparr>m_ClientID := stamped\<rparr>)) c)
         | _ \<Rightarrow> enqueueNack msgSerial
                 (Some (errorInfo ''a mutation must carry exactly one message'' 40000 400)) c)"

definition handleMessage :: "ProtocolMessage \<Rightarrow> connection \<Rightarrow> connection" where
  "handleMessage msg c =
     (let msgSerial = GetMsgSerial msg; channel = GetChannel msg
      in if \<not> ValidChannelName (runes channel)
         then enqueueNack msgSerial (Some (errorInfo ''invalid channel name'' 40010 400)) c
         else if pm_Messages msg = [] then enqueueNack msgSerial None c
         else if list_ex (\<lambda>m. IsMutation (m_Action m)) (pm_Messages msg) then handleMutation msg c
         else if (case map_of (cn_attachments c) channel of
                    Some a \<Rightarrow> \<not> hasMode a FlagPublish | None \<Rightarrow> False)
         then enqueueNack msgSerial
                (Some (errorInfo ''publish requires an attachment with the publish mode'' 40160 401)) c
         else if \<not> Permits (cn_cap c) channel OpPublish
         then enqueueNack msgSerial
                (Some (errorInfo ''insufficient capability to publish'' 40160 401)) c
         else case stampMessages c (pm_Messages msg) of
                None \<Rightarrow> enqueueNack msgSerial None c
              | Some msgs \<Rightarrow> enqueuePublish (TaskPublish msgSerial channel msgs) c)"

section \<open>Presence\<close>

definition presenceID :: "string \<Rightarrow> int \<Rightarrow> nat \<Rightarrow> string" where
  "presenceID connectionID msgSerial idx =
     connectionID @ '':'' @ itoa msgSerial @ '':'' @ itoa (int idx)"

definition resolvePresenceClientID :: "string \<Rightarrow> string \<Rightarrow> string option" where
  "resolvePresenceClientID connClientID msgClientID =
     (if connClientID = [] then None
      else if connClientID = WildcardClientID
      then (if msgClientID = [] \<or> msgClientID = WildcardClientID then None else Some msgClientID)
      else if msgClientID = [] \<or> msgClientID = connClientID then Some connClientID
      else None)"

fun stampPresenceFrame :: "connection \<Rightarrow> int \<Rightarrow> nat \<Rightarrow> PresenceMessage list \<Rightarrow>
    PresenceMessage list option" where
  "stampPresenceFrame c msgSerial i [] = Some []"
| "stampPresenceFrame c msgSerial i (p # ps) =
     (case resolvePresenceClientID (cn_clientID c) (p_ClientID p) of
        None \<Rightarrow> None
      | Some cid \<Rightarrow>
          map_option (Cons (p\<lparr>p_ClientID := cid, p_ConnectionID := cn_id c,
              p_ID := (if p_ID p = [] then presenceID (cn_id c) msgSerial i else p_ID p)\<rparr>))
            (stampPresenceFrame c msgSerial (Suc i) ps))"

definition recordPresence :: "string \<Rightarrow> string \<Rightarrow> PresenceAction \<Rightarrow> connection \<Rightarrow> connection" where
  "recordPresence channel clientID act c =
     (if act = PresenceLeave \<or> act = PresenceAbsent then
        (case map_of (cn_entered c) channel of
           None \<Rightarrow> c
         | Some clients \<Rightarrow>
             let rest = removeAll clientID clients
             in c\<lparr>cn_entered := (if rest = [] then gdel channel (cn_entered c)
                               else gput channel rest (cn_entered c))\<rparr>)
      else c\<lparr>cn_entered := gput channel (List.insert clientID (gget [] (cn_entered c) channel))
             (cn_entered c)\<rparr>)"

definition handlePresence :: "ProtocolMessage \<Rightarrow> connection \<Rightarrow> connection" where
  "handlePresence msg c =
     (let msgSerial = GetMsgSerial msg; channel = GetChannel msg
      in if channel = [] \<or> pm_Presence msg = [] then enqueueNack msgSerial None c
         else if (case map_of (cn_attachments c) channel of
                    None \<Rightarrow> True | Some a \<Rightarrow> \<not> hasMode a FlagPresence)
         then enqueueNack msgSerial
                (Some (errorInfo ''presence requires an attachment with the presence mode'' 40160 401)) c
         else case stampPresenceFrame c msgSerial 0 (pm_Presence msg) of
                None \<Rightarrow> enqueueNack msgSerial (Some (errorInfo ''invalid clientId for presence'' 91000 400)) c
              | Some ps \<Rightarrow> enqueuePublish (TaskPresence msgSerial channel ps)
                  (foldl (\<lambda>c p. recordPresence channel (p_ClientID p) (p_Action p) c) c ps))"

section \<open>Annotations\<close>

fun annotationErrorInfo :: "annotation_error \<Rightarrow> ErrorInfo" where
  "annotationErrorInfo MissingMessageSerial =
     errorInfo ''annotations must reference a message (missing messageSerial)'' 40000 400"
| "annotationErrorInfo MissingType = errorInfo ''annotations must include a type'' 40000 400"
| "annotationErrorInfo MalformedType = errorInfo ''malformed annotation type'' 40000 400"
| "annotationErrorInfo (UnknownAggregation x) =
     errorInfo (''unknown annotation aggregation type: '' @ x) 40000 400"
| "annotationErrorInfo AnonymousNotAllowed = errorInfo
     ''aggregation method not allowed for anonymous client publish; allowed methods are: multiple.v1, total.v1''
     40000 400"

fun stampAnnotations :: "connection \<Rightarrow> int \<Rightarrow> Annotation list \<Rightarrow> ErrorInfo + Annotation list" where
  "stampAnnotations c now [] = Inr []"
| "stampAnnotations c now (an # ans) =
     (case MessageClientID (cn_clientID c) (a_ClientID an) of
        None \<Rightarrow> Inl (errorInfo ''invalid clientId for annotation'' 40012 400)
      | Some cid \<Rightarrow>
          (case Validate (an\<lparr>a_ClientID := cid, a_ConnectionID := cn_id c,
               a_Timestamp := (if a_Timestamp an = 0 then now else a_Timestamp an)\<rparr>) of
             Inl verr \<Rightarrow> Inl (annotationErrorInfo verr)
           | Inr an' \<Rightarrow>
               (case stampAnnotations c now ans of Inl e \<Rightarrow> Inl e | Inr ans' \<Rightarrow> Inr (an' # ans'))))"

definition handleAnnotation :: "int \<Rightarrow> ProtocolMessage \<Rightarrow> connection \<Rightarrow> connection" where
  "handleAnnotation now msg c =
     (let msgSerial = GetMsgSerial msg; channel = GetChannel msg
      in if channel = [] \<or> pm_Annotations msg = [] then enqueueNack msgSerial None c
         else if (case map_of (cn_attachments c) channel of
                    None \<Rightarrow> True | Some a \<Rightarrow> \<not> hasMode a FlagAnnotationPublish) \<or>
                 \<not> Permits (cn_cap c) channel OpAnnotationPublish
         then enqueueNack msgSerial
                (Some (errorInfo ''insufficient capability to publish annotations'' 40160 401)) c
         else case stampAnnotations c now (pm_Annotations msg) of
                Inl e \<Rightarrow> enqueueNack msgSerial (Some e) c
              | Inr ans \<Rightarrow> enqueuePublish (TaskAnnotation msgSerial channel ans) c)"

section \<open>The publish worker\<close>

definition mutationOps :: "MessageAction \<Rightarrow> Op \<times> Op" where
  "mutationOps a = (if a = MessageDelete then (OpMessageDeleteOwn, OpMessageDeleteAny)
     else (OpMessageUpdateOwn, OpMessageUpdateAny))"

definition ownsMessage :: "string \<Rightarrow> string \<Rightarrow> bool" where
  "ownsMessage callerClientID creator \<longleftrightarrow>
     callerClientID \<noteq> [] \<and> callerClientID \<noteq> WildcardClientID \<and> callerClientID = creator"

definition authorizeMutation :: "bool \<Rightarrow> connection \<Rightarrow> channelStore \<Rightarrow> string \<Rightarrow> Message \<Rightarrow>
    ErrorInfo option" where
  "authorizeMutation ctxErr c cs channel m =
     (case mutationOps (m_Action m) of (ownOp, anyOp) \<Rightarrow>
        (case MutationGrant (cn_cap c) channel ownOp anyOp of
           MutationAllowed \<Rightarrow> None
         | MutationDeniedCapability \<Rightarrow>
             Some (errorInfo ''insufficient capability for message mutation'' 40160 401)
         | MutationNeedsOwnership \<Rightarrow>
             (case LatestVersion ctxErr (m_Serial m) cs of
                Inl ErrTargetNotFound \<Rightarrow> Some (errorInfo ''target message not found'' 40400 404)
              | Inl e \<Rightarrow> Some (errorInfo ''mutation authorization failed'' 50000 500)
              | Inr latest \<Rightarrow>
                  if ownsMessage (cn_clientID c) (m_ClientID latest) then None
                  else Some (errorInfo
                    ''insufficient capability: caller does not own the target message'' 40160 401))))"

fun mutateError :: "storage_error \<Rightarrow> ErrorInfo option" where
  "mutateError ErrTargetNotFound = Some (errorInfo ''target message not found'' 40400 404)"
| "mutateError ErrIncompatibleAppend = Some (errorInfo
     ''append data type is incompatible with the target's current data'' 40000 400)"
| "mutateError e = None"

fun annotateError :: "storage_error \<Rightarrow> ErrorInfo option" where
  "annotateError ErrTargetNotFound = Some (errorInfo ''target message not found'' 40400 404)"
| "annotateError e = None"

text \<open>The result of a task; \<open>None\<close> is a panic of the worker: the dereference of a nil
  ChannelMessage or the index of the first message of one that has none.\<close>

definition runMutate :: "env \<Rightarrow> int \<Rightarrow> string \<Rightarrow> Message \<Rightarrow> sys \<Rightarrow> sys option" where
  "runMutate e n channel mut s =
     (case s of (m, c) \<Rightarrow>
        (case ManagerGetChannel (en_chErr e) (en_now e) channel m of (m1, ok) \<Rightarrow>
           if \<not> ok then Some (m1, nack n None c)
           else (case map_of (ms_channels (mg_store m1)) channel of
                   None \<Rightarrow> None
                 | Some cs \<Rightarrow>
                    (case authorizeMutation (en_ctxErr e) c cs channel mut of
                       Some errInfo \<Rightarrow> Some (m1, nack n (Some errInfo) c)
                     | None \<Rightarrow>
                        (case writeChannel e channel (OpMutate mut) m1 of (m2, r) \<Rightarrow>
                           (case r of
                              Inl err \<Rightarrow> Some (m2, nack n (mutateError err) c)
                            | Inr (cm, _) \<Rightarrow>
                                (case cm of
                                   None \<Rightarrow> None
                                 | Some cm \<Rightarrow>
                                    (case cm_Messages cm of
                                       [] \<Rightarrow> None
                                     | v # _ \<Rightarrow> Some (m2, ack n [[VersionSerial v]] c)))))))))"

fun runTask :: "env \<Rightarrow> task \<Rightarrow> sys \<Rightarrow> sys option" where
  "runTask e (TaskNack n errInfo) (m, c) = Some (m, nack n errInfo c)"
| "runTask e (TaskPublish n channel msgs) (m, c) =
     (case ManagerGetChannel (en_chErr e) (en_now e) channel m of (m1, ok) \<Rightarrow>
        if \<not> ok then Some (m1, nack n None c)
        else (case writeChannel e channel (OpStore (en_fresh e) msgs) m1 of
                (m2, Inl err) \<Rightarrow> Some (m2, nack n None c)
              | (m2, Inr (None, _)) \<Rightarrow> None
              | (m2, Inr (Some cm, _)) \<Rightarrow> Some (m2, ack n [map m_Serial (cm_Messages cm)] c)))"
| "runTask e (TaskMutate n channel mut) s = runMutate e n channel mut s"
| "runTask e (TaskPresence n channel ps) (m, c) =
     (case writeChannel e channel (OpPresence ps) m of
        (m2, Inl err) \<Rightarrow> Some (m2, nack n None c)
      | (m2, Inr _) \<Rightarrow> Some (m2, ack n [] c))"
| "runTask e (TaskAnnotation n channel ans) (m, c) =
     (case writeChannel e channel (OpAnnotation ans) m of
        (m2, Inl err) \<Rightarrow> Some (m2, nack n (annotateError err) c)
      | (m2, Inr (None, _)) \<Rightarrow> None
      | (m2, Inr (Some cm, _)) \<Rightarrow> Some (m2, ack n [map a_Serial (cm_Annotations cm)] c))"

text \<open>One turn of \<open>publishLoop\<close>.\<close>

definition publishLoop :: "env \<Rightarrow> sys \<Rightarrow> sys option" where
  "publishLoop e s =
     (case s of (m, c) \<Rightarrow>
        (case cn_publishQ c of
           [] \<Rightarrow> Some (m, c)
         | t # ts \<Rightarrow> runTask e t (m, c\<lparr>cn_publishQ := ts\<rparr>)))"

section \<open>Re-authentication\<close>

definition failReauth :: "string \<Rightarrow> int \<Rightarrow> connection \<Rightarrow> connection" where
  "failReauth message code c =
     queue ((frame ActionError)\<lparr>pm_Error := Some (errorInfo message code 401)\<rparr>) c"

definition setAuth :: "perms \<Rightarrow> int \<Rightarrow> connection \<Rightarrow> connection" where
  "setAuth cap expiry c = c\<lparr>cn_cap := cap, cn_tokenExpiry := expiry\<rparr>"

definition reconcileOne :: "env \<Rightarrow> string \<Rightarrow> sys \<Rightarrow> sys" where
  "reconcileOne e name s =
     (case s of (m, c) \<Rightarrow>
        (case map_of (cn_attachments c) name of
           None \<Rightarrow> (m, c)
         | Some a \<Rightarrow>
             let a' = recheckCapability (permittedModes (cn_cap c) name) a
             in if at_modes a' \<noteq> 0
                then (m, c\<lparr>cn_attachments := gput name a' (cn_attachments c)\<rparr>)
                else (case leaveChannel e name (m, c\<lparr>cn_attachments := gdel name (cn_attachments c)\<rparr>) of
                        (m', c') \<Rightarrow> (m', queue (errorFrame name (errorInfo
                          ''insufficient capability to remain attached to channel'' 40160 401)) c'))))"

definition reconcileAttachmentCapabilities :: "env \<Rightarrow> sys \<Rightarrow> sys" where
  "reconcileAttachmentCapabilities e s =
     foldl (\<lambda>s name. reconcileOne e name s) s (map fst (cn_attachments (snd s)))"

text \<open>\<open>verify\<close> is the verification of the token by the process's authenticator.\<close>

definition handleAuth :: "(string \<Rightarrow> auth_error + Principal) \<Rightarrow> env \<Rightarrow> ProtocolMessage \<Rightarrow> sys \<Rightarrow> sys" where
  "handleAuth verify e msg s =
     (case s of (m, c) \<Rightarrow>
        (case pm_Auth msg of
           None \<Rightarrow> (m, failReauth ''AUTH frame carried no access token'' 40101 c)
         | Some tok \<Rightarrow>
             if tok = [] then (m, failReauth ''AUTH frame carried no access token'' 40101 c)
             else (case verify tok of
                     Inl err \<Rightarrow> (m, failReauth ''invalid token'' 40101 c)
                   | Inr p \<Rightarrow>
                      (case ResolveClientID p [] of
                         Inl err \<Rightarrow> (m, failReauth
                           ''token clientId is incompatible with the connection'' 40102 c)
                       | Inr newClientID \<Rightarrow>
                          if newClientID \<noteq> cn_clientID c
                          then (m, failReauth ''token clientId is incompatible with the connection'' 40102 c)
                          else (case reconcileAttachmentCapabilities e
                                       (m, setAuth (pr_cap p) (pr_ExpiresAt p) c) of (m', c') \<Rightarrow>
                                 (m', queue ((frame ActionConnected)\<lparr>pm_ConnectionID := cn_id c',
                                        pm_ConnectionDetails := Some (connectionDetails c')\<rparr>) c'))))))"

section \<open>Dispatch and teardown\<close>

definition gated :: "(ProtocolMessage \<Rightarrow> connection \<Rightarrow> connection) \<Rightarrow> ProtocolMessage \<Rightarrow> sys \<Rightarrow> sys" where
  "gated handler msg s =
     (case s of (m, c) \<Rightarrow>
        (case acceptMsgSerial (GetMsgSerial msg) c of (c', accepted) \<Rightarrow>
           (m, if accepted then handler msg c' else c')))"

definition dispatch :: "(string \<Rightarrow> auth_error + Principal) \<Rightarrow> env \<Rightarrow> ProtocolMessage \<Rightarrow> sys \<Rightarrow> sys" where
  "dispatch verify e msg s =
     (case pm_Action msg of
        ActionAttach \<Rightarrow> handleAttach e msg s
      | ActionDetach \<Rightarrow> handleDetach e (GetChannel msg) s
      | ActionMessage \<Rightarrow> gated handleMessage msg s
      | ActionPresence \<Rightarrow> gated handlePresence msg s
      | ActionAnnotation \<Rightarrow> gated (handleAnnotation (en_now e)) msg s
      | ActionSync \<Rightarrow> handleSync e msg s
      | ActionAuth \<Rightarrow> handleAuth verify e msg s
      | ActionHeartbeat \<Rightarrow> (fst s, handleHeartbeat msg (snd s))
      | ActionClose \<Rightarrow> (fst s, handleClose (snd s))
      | _ \<Rightarrow> s)"

definition emitTeardownLeaves :: "env \<Rightarrow> sys \<Rightarrow> sys" where
  "emitTeardownLeaves e s =
     (case s of (m, c) \<Rightarrow>
        (foldl (\<lambda>m (channel, clients). publishLeaves e (cn_id c) channel clients m) m (cn_entered c),
         c\<lparr>cn_entered := []\<rparr>))"

end
