(* ===== verification/Sessions.thy ===== *)
theory Sessions
  imports Connection
begin

unbundle bit_operations_syntax

text \<open>
  \<open>internal/realtime/server.go\<close>, \<open>internal/id/id.go\<close> and the token timer of \<open>reauth.go\<close>: how a
  connection comes to be (the upgrade request, the connection key that carries an identity over
  a reconnect), the registry of live connections, and how a connection ends (the leaves of its
  presence members, at once or after the grace window, and the paced shutdown).
\<close>

section \<open>Connection keys\<close>

text \<open>\<open>base64.RawURLEncoding\<close>: the URL alphabet, no padding; the decoder skips line breaks.\<close>

definition b64alphabet :: string where
  "b64alphabet = ''ABCDEFGHIJKLMNOPQRSTUVWXYZabcdefghijklmnopqrstuvwxyz0123456789-_''"

definition b64char :: "nat \<Rightarrow> char" where
  "b64char n = b64alphabet ! (n mod 64)"

fun b64encode :: "nat list \<Rightarrow> string" where
  "b64encode [] = []"
| "b64encode [a] = [b64char (a div 4), b64char (a mod 4 * 16)]"
| "b64encode [a, b] = [b64char (a div 4), b64char (a mod 4 * 16 + b div 16), b64char (b mod 16 * 4)]"
| "b64encode (a # b # c # xs) = b64char (a div 4) # b64char (a mod 4 * 16 + b div 16) #
     b64char (b mod 16 * 4 + c div 64) # b64char (c mod 64) # b64encode xs"

definition b64decodedLen :: "string \<Rightarrow> nat option" where
  "b64decodedLen s =
     (let t = filter (\<lambda>c. c \<noteq> CHR 0x0A \<and> c \<noteq> CHR 0x0D) s
      in if list_all (\<lambda>c. c \<in> set b64alphabet) t \<and> length t mod 4 \<noteq> 1
         then Some (length t * 6 div 8) else None)"

definition ValidConnectionID :: "string \<Rightarrow> bool" where
  "ValidConnectionID s \<longleftrightarrow> length s = 12 \<and> b64decodedLen s = Some 9"

definition connectionKeySuffixBytes :: nat where "connectionKeySuffixBytes = 9"

text \<open>\<open>hmac secret connID\<close> is the HMAC-SHA256 of the crypto library, 32 bytes.\<close>

type_synonym hmac = "string \<Rightarrow> string \<Rightarrow> nat list"

definition connectionKeySuffix :: "hmac \<Rightarrow> string \<Rightarrow> string \<Rightarrow> string" where
  "connectionKeySuffix hmac secret connID = b64encode (take connectionKeySuffixBytes (hmac secret connID))"

definition NewConnectionKey :: "hmac \<Rightarrow> string \<Rightarrow> string \<Rightarrow> string" where
  "NewConnectionKey hmac secret connID = connID @ connectionKeySuffix hmac secret connID"

definition VerifyConnectionKey :: "hmac \<Rightarrow> string \<Rightarrow> string \<Rightarrow> string option" where
  "VerifyConnectionKey hmac secret key =
     (if length key \<noteq> 24 then None
      else let connID = take 12 key; gotSuffix = drop 12 key
           in if \<not> ValidConnectionID connID then None
              else if gotSuffix \<noteq> connectionKeySuffix hmac secret connID then None
              else Some connID)"

section \<open>The upgrade request\<close>

datatype Format = FormatJSON | FormatMsgpack

definition FormatFromQuery :: "string \<Rightarrow> Format option" where
  "FormatFromQuery v = (if v = [] \<or> v = ''json'' then Some FormatJSON
     else if v = ''msgpack'' then Some FormatMsgpack else None)"

text \<open>\<open>strconv.ParseBool\<close>.\<close>

definition parseBool :: "string \<Rightarrow> bool option" where
  "parseBool v =
     (if v \<in> {''1'', ''t'', ''T'', ''TRUE'', ''true'', ''True''} then Some True
      else if v \<in> {''0'', ''f'', ''F'', ''FALSE'', ''false'', ''False''} then Some False
      else None)"

definition echoFromQuery :: "string \<Rightarrow> bool" where
  "echoFromQuery v = (if v = [] then True else case parseBool v of None \<Rightarrow> True | Some b \<Rightarrow> b)"

datatype close_code = ClosePolicyViolation | CloseNormalClosure

definition rejectWithError :: "auth_error \<Rightarrow> ProtocolMessage \<times> close_code" where
  "rejectWithError err =
     (case AuthErrorInfo err of (code, statusCode, msg) \<Rightarrow>
        ((frame ActionError)\<lparr>pm_Error := Some (errorInfo msg code statusCode)\<rparr>,
         if code \<ge> 40140 \<and> code < 40150 then CloseNormalClosure else ClosePolicyViolation))"

text \<open>The connectionId of the new connection and the error a declined resume carries.\<close>

definition resumeIdentity :: "hmac \<Rightarrow> string \<Rightarrow> string \<Rightarrow> (string, string) gomap \<Rightarrow>
    string \<times> ErrorInfo option" where
  "resumeIdentity hmac secret fresh query =
     (let resumeKey = gget [] query ''resume'';
          resumeKey = (if resumeKey = [] then gget [] query ''recover'' else resumeKey)
      in if resumeKey = [] then (fresh, None)
         else case VerifyConnectionKey hmac secret resumeKey of
                Some resumedID \<Rightarrow> (resumedID, None)
              | None \<Rightarrow> (fresh, Some (errorInfo
                  ''invalid connection key; resume/recover could not be satisfied'' 80018 400)))"

datatype ws_outcome =
    BadFormat | UpgradeFailed | Rejected ProtocolMessage close_code | Opened connection

text \<open>\<open>authres\<close> is what \<open>Authenticate\<close> returns for the request, \<open>upgraded\<close> whether the WebSocket
  upgrade succeeds, \<open>fresh\<close> the random connectionId.\<close>

definition HandleWebSocket :: "hmac \<Rightarrow> string \<Rightarrow> int \<Rightarrow> string \<Rightarrow> (string, string) gomap \<Rightarrow>
    auth_error + Principal \<Rightarrow> bool \<Rightarrow> ws_outcome" where
  "HandleWebSocket hmac secret heartbeatInterval fresh query authres upgraded =
     (if FormatFromQuery (gget [] query ''format'') = None then BadFormat
      else let resolved = (case authres of Inl e \<Rightarrow> Inl e
                 | Inr p \<Rightarrow> (case ResolveClientID p (gget [] query ''clientId'') of
                              Inl e \<Rightarrow> Inl e | Inr clientID \<Rightarrow> Inr (p, clientID)))
           in if \<not> upgraded then UpgradeFailed
              else case resolved of
                     Inl err \<Rightarrow> (case rejectWithError err of (f, code) \<Rightarrow> Rejected f code)
                   | Inr (p, clientID) \<Rightarrow>
                       (case resumeIdentity hmac secret fresh query of (connID, resumeError) \<Rightarrow>
                          Opened (startConnection resumeError
                            (newConnection connID (NewConnectionKey hmac secret connID) clientID
                               (pr_cap p) (pr_ExpiresAt p) heartbeatInterval
                               (echoFromQuery (gget [] query ''echo''))))))"

section \<open>The registry of live connections\<close>

text \<open>A connection object is named by a handle; \<open>rg_ids\<close> gives each live one its connectionId.\<close>

record registry =
  rg_ids :: "(nat, string) gomap"
  rg_byKey :: "(string, nat) gomap"

definition register :: "nat \<Rightarrow> string \<Rightarrow> registry \<Rightarrow> registry" where
  "register h connID r = r\<lparr>rg_ids := gput h connID (rg_ids r), rg_byKey := gput connID h (rg_byKey r)\<rparr>"

definition deregister :: "nat \<Rightarrow> string \<Rightarrow> registry \<Rightarrow> registry" where
  "deregister h connID r = r\<lparr>rg_ids := gdel h (rg_ids r),
     rg_byKey := (if map_of (rg_byKey r) connID = Some h then gdel connID (rg_byKey r) else rg_byKey r)\<rparr>"

definition ResolveConnectionKey :: "hmac \<Rightarrow> string \<Rightarrow> string \<Rightarrow> registry \<Rightarrow> string option" where
  "ResolveConnectionKey hmac secret key r =
     (case VerifyConnectionKey hmac secret key of
        None \<Rightarrow> None
      | Some connID \<Rightarrow> (case map_of (rg_byKey r) connID of None \<Rightarrow> None | Some c \<Rightarrow> Some connID))"

section \<open>Delayed leaves\<close>

text \<open>The members of one connection: clientId to member serial.\<close>

definition ownedMembers :: "string \<Rightarrow> PresenceMessage list \<Rightarrow> (string, string) gomap" where
  "ownedMembers connID members =
     foldl (\<lambda>owned p. if p_ConnectionID p = connID then gput (p_ClientID p) (p_Serial p) owned else owned)
       [] members"

type_synonym stale = "(string, (string, string) gomap) gomap"

definition captureChannel :: "env \<Rightarrow> string \<Rightarrow> Manager \<times> stale \<Rightarrow> string \<Rightarrow> Manager \<times> stale" where
  "captureChannel e connID s channel =
     (case s of (m, stale) \<Rightarrow>
        (case ManagerGetChannel (en_chErr e) (en_now e) channel m of (m', ok) \<Rightarrow>
           if \<not> ok then (m', stale)
           else (case map_of (ms_channels (mg_store m')) channel of
                   None \<Rightarrow> (m', stale)
                 | Some cs \<Rightarrow>
                    (case Members (en_ctxErr e) cs of
                       Inl err \<Rightarrow> (m', stale)
                     | Inr (members, _) \<Rightarrow>
                         let owned = ownedMembers connID members
                         in (m', if owned \<noteq> [] then gput channel owned stale else stale)))))"

text \<open>What is left for the reaper; nothing when the server is shutting down.\<close>

definition scheduleConnectionLeaves :: "bool \<Rightarrow> env \<Rightarrow> string \<Rightarrow> string list \<Rightarrow> Manager \<Rightarrow> Manager \<times> stale" where
  "scheduleConnectionLeaves reaperDone e connID channels m =
     (if reaperDone then (m, []) else foldl (captureChannel e connID) (m, []) channels)"

definition fireConnectionLeaves :: "env \<Rightarrow> string \<Rightarrow> string \<Rightarrow> (string, string) gomap \<Rightarrow> Manager \<Rightarrow> Manager" where
  "fireConnectionLeaves e connID channel owned m =
     (case ManagerGetChannel (en_chErr e) (en_now e) channel m of (m', ok) \<Rightarrow>
        if \<not> ok then m'
        else (case map_of (ms_channels (mg_store m')) channel of
                None \<Rightarrow> m'
              | Some cs \<Rightarrow>
                 (case Members (en_ctxErr e) cs of
                    Inl err \<Rightarrow> m'
                  | Inr (members, _) \<Rightarrow>
                      let current = ownedMembers connID members;
                          leaving = filter (\<lambda>(clientID, captured). gget [] current clientID = captured) owned;
                          leaves = map (\<lambda>(clientID, captured). leaveOf connID clientID) leaving
                      in if leaves = [] then m'
                         else fst (writeChannel e channel (OpPresence leaves) m'))))"

definition fireAll :: "env \<Rightarrow> string \<Rightarrow> stale \<Rightarrow> Manager \<Rightarrow> Manager" where
  "fireAll e connID stale m = foldl (\<lambda>m (channel, owned). fireConnectionLeaves e connID channel owned m) m stale"

definition scheduleTeardownLeaves :: "bool \<Rightarrow> env \<Rightarrow> sys \<Rightarrow> sys \<times> stale" where
  "scheduleTeardownLeaves reaperDone e s =
     (case s of (m, c) \<Rightarrow>
        if cn_entered c = [] then (s, [])
        else case scheduleConnectionLeaves reaperDone e (cn_id c) (map fst (cn_entered c)) m of (m', stale) \<Rightarrow>
          ((m', c\<lparr>cn_entered := []\<rparr>), stale))"

text \<open>The end of \<open>run\<close>, once the worker has stopped: tasks still queued are dropped.\<close>

definition teardown :: "bool \<Rightarrow> bool \<Rightarrow> env \<Rightarrow> sys \<Rightarrow> sys \<times> stale" where
  "teardown shuttingDown reaperDone e s =
     (if cn_clientClosed (snd s) \<or> shuttingDown then (emitTeardownLeaves e s, [])
      else scheduleTeardownLeaves reaperDone e s)"

section \<open>Token expiry\<close>

text \<open>Instants and durations in nanoseconds; the zero time is 0.\<close>

definition preExpiryWindow :: int where "preExpiryWindow = 30 * second"
definition noWarningMargin :: int where "noWarningMargin = 5500 * 1000000"

datatype auth_wait = WaitReauth | WaitPrompt int | WaitExpiry int | AuthDone

text \<open>The head of the loop, and its two phases; a timer that is past fires at once.\<close>

definition authEnter :: "int \<Rightarrow> int \<Rightarrow> auth_wait" where
  "authEnter now expiry =
     (if expiry = 0 then WaitReauth
      else if expiry - now > noWarningMargin then WaitPrompt expiry
      else WaitExpiry expiry)"

fun authDeadline :: "auth_wait \<Rightarrow> int option" where
  "authDeadline WaitReauth = None"
| "authDeadline (WaitPrompt expiry) = Some (expiry - preExpiryWindow)"
| "authDeadline (WaitExpiry expiry) = Some expiry"
| "authDeadline AuthDone = None"

datatype auth_event = Reauth int | TimerFired

definition disconnectExpired :: ProtocolMessage where
  "disconnectExpired = (frame ActionDisconnected)\<lparr>pm_Error := Some (errorInfo ''token expired'' 40142 401)\<rparr>"

fun authLoop :: "int \<Rightarrow> auth_event \<Rightarrow> auth_wait \<Rightarrow> auth_wait \<times> ProtocolMessage list" where
  "authLoop now (Reauth expiry) AuthDone = (AuthDone, [])"
| "authLoop now (Reauth expiry) w = (authEnter now expiry, [])"
| "authLoop now TimerFired (WaitPrompt expiry) = (WaitExpiry expiry, [frame ActionAuth])"
| "authLoop now TimerFired (WaitExpiry expiry) = (AuthDone, [disconnectExpired])"
| "authLoop now TimerFired w = (w, [])"

section \<open>Shutdown\<close>

text \<open>\<open>Shutdown\<close> with the deadline of its context (\<open>None\<close>: no deadline): the interval, then the
  loop. A closure is graceful (DISCONNECTED) or forced; \<open>race\<close> decides when the pacing timer and
  the deadline are due at the same instant.\<close>

definition pacingInterval :: "int \<Rightarrow> int option \<Rightarrow> nat \<Rightarrow> int" where
  "pacingInterval now deadline n =
     (case deadline of
        None \<Rightarrow> 0
      | Some dl \<Rightarrow> if n = 0 then 0
                  else let window = dl - now in if window \<le> 0 then 0 else window div int n)"

datatype closure = Disconnect int nat | ForceClose int nat

fun shutdownLoop :: "bool \<Rightarrow> int \<Rightarrow> int option \<Rightarrow> int \<Rightarrow> nat list \<Rightarrow> closure list" where
  "shutdownLoop race interval deadline now [] = []"
| "shutdownLoop race interval deadline now [c] = [Disconnect now c]"
| "shutdownLoop race interval deadline now (c # c' # cs) = Disconnect now c #
     (case deadline of
        None \<Rightarrow> shutdownLoop race interval deadline (now + interval) (c' # cs)
      | Some dl \<Rightarrow>
          if dl < now + interval \<or> dl = now + interval \<and> race
          then map (ForceClose (max now dl)) (c' # cs)
          else shutdownLoop race interval deadline (now + interval) (c' # cs))"

definition Shutdown :: "bool \<Rightarrow> int option \<Rightarrow> int \<Rightarrow> nat list \<Rightarrow> closure list" where
  "Shutdown race deadline now conns =
     (if conns = [] then []
      else shutdownLoop race (pacingInterval now deadline (length conns)) deadline now conns)"

end
