(* ===== verification/ConnectionLaws.thy ===== *)
theory ConnectionLaws
  imports Connection
begin

unbundle bit_operations_syntax

text \<open>
  A connection as a transition system: the read loop, the publish worker, the attachments'
  goroutines and the rest of the process take turns. The accounting of answers, the authorisation
  of what is queued and the agreement of modes and capability are invariants of every
  interleaving.
\<close>

section \<open>The steps of a connection\<close>

definition publishQCap :: nat where "publishQCap = 16"

definition enqueues :: "ProtocolMessage \<Rightarrow> bool" where
  "enqueues msg \<longleftrightarrow> pm_Action msg \<in> {ActionMessage, ActionPresence, ActionAnnotation}"

text \<open>The msgSerial of a frame that passes the gate.\<close>

definition accepted :: "ProtocolMessage \<Rightarrow> connection \<Rightarrow> int list" where
  "accepted msg c =
     (if enqueues msg \<and> snd (acceptMsgSerial (GetMsgSerial msg) c) then [GetMsgSerial msg] else [])"

definition putAttachment :: "string \<Rightarrow> attachment \<times> ProtocolMessage list \<Rightarrow> connection \<Rightarrow> connection" where
  "putAttachment name r c = c\<lparr>cn_attachments := gput name (fst r) (cn_attachments c),
     cn_outbound := cn_outbound c @ snd r\<rparr>"

text \<open>\<open>conn_step verify s ns s'\<close>: one step, which accepts the msgSerials \<open>ns\<close>. \<open>others\<close> is
  whatever the other connections and the REST handlers do to the shared store.\<close>

inductive conn_step :: "(string \<Rightarrow> auth_error + Principal) \<Rightarrow> sys \<Rightarrow> int list \<Rightarrow> sys \<Rightarrow> bool" for verify where
  recv: "enqueues msg \<longrightarrow> length (cn_publishQ c) < publishQCap \<Longrightarrow>
    conn_step verify (m, c) (accepted msg c) (dispatch verify e msg (m, c))"
| work: "cn_publishQ c \<noteq> [] \<Longrightarrow> publishLoop e (m, c) = Some s' \<Longrightarrow> conn_step verify (m, c) [] s'"
| start: "map_of (cn_attachments c) name = Some a \<Longrightarrow> runAttach ctxErr now fl cs ch a = Some r \<Longrightarrow>
    conn_step verify (m, c) [] (m, putAttachment name r c)"
| live: "map_of (cn_attachments c) name = Some a \<Longrightarrow>
    conn_step verify (m, c) [] (m, putAttachment name (liveStep cm a) c)"
| others: "conn_step verify (m, c) [] (m', c)"

inductive conn_trace :: "(string \<Rightarrow> auth_error + Principal) \<Rightarrow> sys \<Rightarrow> int list \<Rightarrow> sys \<Rightarrow> bool" for verify where
  idle: "conn_trace verify s [] s"
| more: "conn_trace verify s ns s' \<Longrightarrow> conn_step verify s' ns' s'' \<Longrightarrow> conn_trace verify s (ns @ ns') s''"

inductive_cases conn_stepE: "conn_step verify s ns s'"

section \<open>Answers\<close>

definition answers :: "ProtocolMessage list \<Rightarrow> int list" where
  "answers fs = map GetMsgSerial (filter (\<lambda>f. pm_Action f = ActionAck \<or> pm_Action f = ActionNack) fs)"

fun taskSerial :: "task \<Rightarrow> int" where
  "taskSerial (TaskNack n _) = n"
| "taskSerial (TaskPublish n _ _) = n"
| "taskSerial (TaskMutate n _ _) = n"
| "taskSerial (TaskPresence n _ _) = n"
| "taskSerial (TaskAnnotation n _ _) = n"

text \<open>The frames answered, then the ones waiting for the worker.\<close>

definition account :: "connection \<Rightarrow> int list" where
  "account c = answers (cn_outbound c) @ map taskSerial (cn_publishQ c)"

lemma answers_append [simp]: "answers (as @ bs) = answers as @ answers bs"
  by (simp add: answers_def)

lemma answers_one [simp]:
  "answers [f] = (if pm_Action f = ActionAck \<or> pm_Action f = ActionNack then [GetMsgSerial f] else [])"
  "answers [] = []"
  by (simp_all add: answers_def)

lemma queue_sel [simp]:
  "cn_publishQ (queue f c) = cn_publishQ c" "cn_outbound (queue f c) = cn_outbound c @ [f]"
  "cn_attachments (queue f c) = cn_attachments c" "cn_entered (queue f c) = cn_entered c"
  "cn_id (queue f c) = cn_id c" "cn_clientID (queue f c) = cn_clientID c" "cn_cap (queue f c) = cn_cap c"
  "cn_lastMsgSerial (queue f c) = cn_lastMsgSerial c"
  by (simp_all add: queue_def)

lemma enqueuePublish_sel [simp]:
  "cn_publishQ (enqueuePublish t c) = cn_publishQ c @ [t]" "cn_outbound (enqueuePublish t c) = cn_outbound c"
  "cn_attachments (enqueuePublish t c) = cn_attachments c" "cn_entered (enqueuePublish t c) = cn_entered c"
  "cn_id (enqueuePublish t c) = cn_id c" "cn_clientID (enqueuePublish t c) = cn_clientID c"
  "cn_cap (enqueuePublish t c) = cn_cap c" "cn_lastMsgSerial (enqueuePublish t c) = cn_lastMsgSerial c"
  by (simp_all add: enqueuePublish_def)

text \<open>What a publish handler does to the connection: it adds exactly one task.\<close>

lemma handleMutation_task:
  "\<exists>t. handleMutation msg c = enqueuePublish t c \<and> taskSerial t = GetMsgSerial msg"
  by (auto simp: handleMutation_def enqueueNack_def Let_def intro: taskSerial.simps
      split: list.split option.split)

lemma handleMessage_task:
  "\<exists>t. handleMessage msg c = enqueuePublish t c \<and> taskSerial t = GetMsgSerial msg"
  using handleMutation_task [of msg c]
  by (auto simp: handleMessage_def enqueueNack_def Let_def split: option.split)

lemma handleAnnotation_task:
  "\<exists>t. handleAnnotation now msg c = enqueuePublish t c \<and> taskSerial t = GetMsgSerial msg"
  by (auto simp: handleAnnotation_def enqueueNack_def Let_def split: option.split sum.split)

lemma recordPresence_sel [simp]:
  "cn_publishQ (recordPresence ch x act c) = cn_publishQ c" "cn_outbound (recordPresence ch x act c) = cn_outbound c"
  "cn_attachments (recordPresence ch x act c) = cn_attachments c"
  "cn_id (recordPresence ch x act c) = cn_id c" "cn_clientID (recordPresence ch x act c) = cn_clientID c"
  "cn_cap (recordPresence ch x act c) = cn_cap c"
  "cn_lastMsgSerial (recordPresence ch x act c) = cn_lastMsgSerial c"
  by (simp_all add: recordPresence_def Let_def split: option.split)

definition recordAll :: "string \<Rightarrow> PresenceMessage list \<Rightarrow> connection \<Rightarrow> connection" where
  "recordAll ch ps c = foldl (\<lambda>c p. recordPresence ch (p_ClientID p) (p_Action p) c) c ps"

lemma recordAll_sel [simp]:
  "cn_publishQ (recordAll ch ps c) = cn_publishQ c" "cn_outbound (recordAll ch ps c) = cn_outbound c"
  "cn_attachments (recordAll ch ps c) = cn_attachments c"
  "cn_id (recordAll ch ps c) = cn_id c" "cn_clientID (recordAll ch ps c) = cn_clientID c"
  "cn_cap (recordAll ch ps c) = cn_cap c" "cn_lastMsgSerial (recordAll ch ps c) = cn_lastMsgSerial c"
  unfolding recordAll_def by (induction ps arbitrary: c) simp_all

lemma handlePresence_task:
  "\<exists>t ps. handlePresence msg c = enqueuePublish t (recordAll (GetChannel msg) ps c) \<and>
     taskSerial t = GetMsgSerial msg \<and> (ps = [] \<or> map_of (cn_attachments c) (GetChannel msg) \<noteq> None)"
proof -
  have "c = recordAll (GetChannel msg) [] c" by (simp add: recordAll_def)
  then show ?thesis
    unfolding handlePresence_def enqueueNack_def Let_def recordAll_def [symmetric]
    by (auto split: option.split) (metis taskSerial.simps)+
qed

text \<open>The other handlers add no task and no answer; they keep the identity and the gate.\<close>

definition quiet :: "connection \<Rightarrow> connection \<Rightarrow> bool" where
  "quiet c c' \<longleftrightarrow> answers (cn_outbound c') = answers (cn_outbound c) \<and> cn_publishQ c' = cn_publishQ c \<and> cn_id c' = cn_id c \<and>
     cn_clientID c' = cn_clientID c \<and> cn_lastMsgSerial c' = cn_lastMsgSerial c"

lemma quiet_account: "quiet c c' \<Longrightarrow> account c' = account c"
  by (simp add: quiet_def account_def)

lemma quiet_refl [simp]: "quiet c c"
  by (simp add: quiet_def)

lemma quiet_trans: "quiet a b \<Longrightarrow> quiet b c \<Longrightarrow> quiet a c"
  by (simp add: quiet_def)

lemma quiet_queue: "pm_Action f \<notin> {ActionAck, ActionNack} \<Longrightarrow> quiet c c' \<Longrightarrow> quiet c (queue f c')"
  by (auto simp: quiet_def)

lemma errorFrame_action [simp]: "pm_Action (errorFrame name e) = ActionError"
  by (simp add: errorFrame_def)

lemma leaveChannel_quiet: "quiet (snd s) (snd (leaveChannel e ch s))"
  by (cases s) (simp add: leaveChannel_def quiet_def Let_def)

lemma handleAttach_quiet: "quiet (snd s) (snd (handleAttach e msg s))"
proof (cases s)
  case (Pair m c)
  show ?thesis
    unfolding Pair handleAttach_def freshAttach_def attachFailed_def Let_def
    by (auto intro!: quiet_queue simp: quiet_def applyReattach_def
        split: option.split prod.split outcome.split)
qed

lemma handleDetach_quiet: "quiet (snd s) (snd (handleDetach e name s))"
proof -
  obtain m c where l: "leaveChannel e name s = (m, c)" by fastforce
  have "quiet (snd s) c" using leaveChannel_quiet [of s e name] l by simp
  then have "quiet (snd s) (c\<lparr>cn_attachments := gdel name (cn_attachments c)\<rparr>)"
    by (simp add: quiet_def)
  then show ?thesis by (auto simp: handleDetach_def l intro: quiet_queue)
qed

lemma answers_none: "\<forall>f \<in> set fs. pm_Action f \<notin> {ActionAck, ActionNack} \<Longrightarrow> answers fs = []"
  by (auto simp: answers_def filter_empty_conv)

lemma handleSync_quiet: "quiet (snd s) (snd (handleSync e msg s))"
proof -
  have "answers (resync ctxErr cs a) = []" for ctxErr cs a
    by (rule answers_none) (auto simp: resync_def syncFrame_def channelFrame_def split: sum.splits if_splits)
  then show ?thesis
    by (cases s) (auto simp: handleSync_def quiet_def split: option.split)
qed

lemma reconcileOne_quiet: "quiet (snd s) (snd (reconcileOne e name s))"
proof (cases s)
  case (Pair m c)
  let ?c = "c\<lparr>cn_attachments := gdel name (cn_attachments c)\<rparr>"
  have q: "quiet c ?c" by (simp add: quiet_def)
  obtain m' c' where l: "leaveChannel e name (m, ?c) = (m', c')" by fastforce
  have "quiet c c'" using leaveChannel_quiet [of "(m, ?c)" e name] l quiet_trans [OF q] by simp
  then show ?thesis
    unfolding Pair reconcileOne_def Let_def
    by (auto simp: l intro!: quiet_queue split: option.split) (auto simp: quiet_def)
qed

lemma reconcile_quiet: "quiet (snd s) (snd (reconcileAttachmentCapabilities e s))"
proof -
  have "quiet (snd s) (snd (foldl (\<lambda>s name. reconcileOne e name s) s names))" for names
  proof (induction names arbitrary: s)
    case (Cons name names)
    from quiet_trans [OF reconcileOne_quiet Cons.IH] show ?case by simp
  qed simp
  then show ?thesis by (simp add: reconcileAttachmentCapabilities_def)
qed

lemma handleAuth_quiet: "quiet (snd s) (snd (handleAuth verify e msg s))"
proof (cases s)
  case (Pair m c)
  have "quiet c (snd (reconcileAttachmentCapabilities e (m, setAuth cap x c)))" for cap x
    using reconcile_quiet [of "(m, setAuth cap x c)" e] by (simp add: setAuth_def quiet_def)
  then show ?thesis
    unfolding Pair handleAuth_def failReauth_def
    by (auto intro!: quiet_queue split: option.split sum.split prod.split) (metis snd_conv)+
qed

lemma acceptMsgSerial_sel [simp]:
  "account (fst (acceptMsgSerial n c)) = account c" "cn_attachments (fst (acceptMsgSerial n c)) = cn_attachments c"
  "cn_entered (fst (acceptMsgSerial n c)) = cn_entered c" "cn_publishQ (fst (acceptMsgSerial n c)) = cn_publishQ c"
  "cn_id (fst (acceptMsgSerial n c)) = cn_id c" "cn_clientID (fst (acceptMsgSerial n c)) = cn_clientID c"
  "cn_cap (fst (acceptMsgSerial n c)) = cn_cap c"
  by (simp_all add: acceptMsgSerial_def account_def)

lemma gated_account:
  assumes "\<And>c. \<exists>t c'. handler msg c = enqueuePublish t c' \<and> taskSerial t = GetMsgSerial msg \<and> quiet c c'"
  shows "account (snd (gated handler msg (m, c))) =
      account c @ (if snd (acceptMsgSerial (GetMsgSerial msg) c) then [GetMsgSerial msg] else [])"
    and "cn_lastMsgSerial (snd (gated handler msg (m, c))) = cn_lastMsgSerial (fst (acceptMsgSerial (GetMsgSerial msg) c))"
    and "cn_id (snd (gated handler msg (m, c))) = cn_id c"
    and "cn_clientID (snd (gated handler msg (m, c))) = cn_clientID c"
proof -
  obtain c1 b where a: "acceptMsgSerial (GetMsgSerial msg) c = (c1, b)" by fastforce
  obtain t c' where h: "handler msg c1 = enqueuePublish t c'" "taskSerial t = GetMsgSerial msg" "quiet c1 c'"
    using assms by blast
  note s = acceptMsgSerial_sel [of "GetMsgSerial msg" c]
  show "account (snd (gated handler msg (m, c))) =
      account c @ (if snd (acceptMsgSerial (GetMsgSerial msg) c) then [GetMsgSerial msg] else [])"
    using a h s by (auto simp: gated_def account_def quiet_def)
  show "cn_lastMsgSerial (snd (gated handler msg (m, c))) = cn_lastMsgSerial (fst (acceptMsgSerial (GetMsgSerial msg) c))"
    "cn_id (snd (gated handler msg (m, c))) = cn_id c"
    "cn_clientID (snd (gated handler msg (m, c))) = cn_clientID c"
    using a h s by (auto simp: gated_def quiet_def)
qed

lemma quiet_handlers:
  "\<exists>t c'. handleMessage msg c = enqueuePublish t c' \<and> taskSerial t = GetMsgSerial msg \<and> quiet c c'"
  "\<exists>t c'. handleAnnotation now msg c = enqueuePublish t c' \<and> taskSerial t = GetMsgSerial msg \<and> quiet c c'"
  "\<exists>t c'. handlePresence msg c = enqueuePublish t c' \<and> taskSerial t = GetMsgSerial msg \<and> quiet c c'"
proof -
  show "\<exists>t c'. handleMessage msg c = enqueuePublish t c' \<and> taskSerial t = GetMsgSerial msg \<and> quiet c c'"
    using handleMessage_task quiet_refl by blast
  show "\<exists>t c'. handleAnnotation now msg c = enqueuePublish t c' \<and> taskSerial t = GetMsgSerial msg \<and> quiet c c'"
    using handleAnnotation_task quiet_refl by blast
  have "quiet c (recordAll ch ps c)" for ch ps by (simp add: quiet_def)
  then show "\<exists>t c'. handlePresence msg c = enqueuePublish t c' \<and> taskSerial t = GetMsgSerial msg \<and> quiet c c'"
    using handlePresence_task [of msg c] by blast
qed

lemma dispatch_account:
  "account (snd (dispatch verify e msg (m, c))) = account c @ accepted msg c"
  "cn_lastMsgSerial (snd (dispatch verify e msg (m, c))) =
     (if accepted msg c = [] then cn_lastMsgSerial c else GetMsgSerial msg)"
  "cn_id (snd (dispatch verify e msg (m, c))) = cn_id c \<and>
   cn_clientID (snd (dispatch verify e msg (m, c))) = cn_clientID c"
proof -
  note g = gated_account [of handleMessage msg, OF quiet_handlers(1), of m c]
    gated_account [of "handleAnnotation (en_now e)" msg, OF quiet_handlers(2), of m c]
    gated_account [of handlePresence msg, OF quiet_handlers(3), of m c]
  note q = handleAttach_quiet [of "(m, c)" e msg] handleDetach_quiet [of "(m, c)" e "GetChannel msg"]
    handleSync_quiet [of "(m, c)" e msg] handleAuth_quiet [of "(m, c)" verify e msg]
  have h: "quiet c (handleHeartbeat msg c)" "quiet c (handleClose c)"
    by (simp_all add: handleHeartbeat_def handleClose_def quiet_def)
  have a: "snd (acceptMsgSerial n c) \<Longrightarrow> cn_lastMsgSerial (fst (acceptMsgSerial n c)) = n"
    "\<not> snd (acceptMsgSerial n c) \<Longrightarrow> cn_lastMsgSerial (fst (acceptMsgSerial n c)) = cn_lastMsgSerial c" for n
    by (auto simp: acceptMsgSerial_def split: if_splits)
  show "account (snd (dispatch verify e msg (m, c))) = account c @ accepted msg c"
    using g q h by (cases "pm_Action msg")
      (auto simp: dispatch_def accepted_def enqueues_def quiet_account)
  show "cn_lastMsgSerial (snd (dispatch verify e msg (m, c))) =
     (if accepted msg c = [] then cn_lastMsgSerial c else GetMsgSerial msg)"
    using g q h a by (cases "pm_Action msg")
      (auto simp: dispatch_def accepted_def enqueues_def quiet_def)
  show "cn_id (snd (dispatch verify e msg (m, c))) = cn_id c \<and>
   cn_clientID (snd (dispatch verify e msg (m, c))) = cn_clientID c"
    using g q h by (cases "pm_Action msg") (auto simp: dispatch_def quiet_def)
qed

lemma answer_frames [simp]:
  "cn_publishQ (nack n err c) = cn_publishQ c" "answers (cn_outbound (nack n err c)) = answers (cn_outbound c) @ [n]"
  "cn_publishQ (ack n res c) = cn_publishQ c" "answers (cn_outbound (ack n res c)) = answers (cn_outbound c) @ [n]"
  by (simp_all add: nack_def ack_def GetMsgSerial_def)

text \<open>A task writes exactly one answer and touches nothing else of the connection.\<close>

definition answered :: "int \<Rightarrow> connection \<Rightarrow> connection \<Rightarrow> bool" where
  "answered n c c' \<longleftrightarrow> (\<exists>err. c' = nack n err c) \<or> (\<exists>res. c' = ack n res c)"

lemma runTask_answers:
  "runTask e t (m, c) = Some s' \<Longrightarrow> answered (taskSerial t) c (snd s')"
  unfolding answered_def
  by (cases t) (fastforce simp: runMutate_def split: prod.splits if_splits option.splits sum.splits list.splits)+

lemma answered_sel:
  "answered n c c' \<Longrightarrow> answers (cn_outbound c') = answers (cn_outbound c) @ [n] \<and>
     cn_publishQ c' = cn_publishQ c \<and> cn_attachments c' = cn_attachments c \<and> cn_entered c' = cn_entered c \<and>
     cn_id c' = cn_id c \<and> cn_clientID c' = cn_clientID c \<and> cn_cap c' = cn_cap c \<and>
     cn_lastMsgSerial c' = cn_lastMsgSerial c"
  by (auto simp: answered_def) (auto simp: nack_def ack_def)

lemma publishLoop_answers:
  assumes "publishLoop e (m, c) = Some s'" "cn_publishQ c = t # ts"
  shows "answered (taskSerial t) (c\<lparr>cn_publishQ := ts\<rparr>) (snd s')"
  using assms runTask_answers [of e t m "c\<lparr>cn_publishQ := ts\<rparr>" s'] by (simp add: publishLoop_def)

section \<open>The frames of an attachment\<close>

definition att_frame :: "ProtocolMessage \<Rightarrow> bool" where
  "att_frame f \<longleftrightarrow> pm_Action f \<in> {ActionMessage, ActionPresence, ActionAnnotation, ActionAttached, ActionSync}"

definition same_att :: "attachment \<Rightarrow> attachment \<Rightarrow> bool" where
  "same_att a a' \<longleftrightarrow> at_modes a' = at_modes a \<and> at_requestedModes a' = at_requestedModes a \<and>
     at_channelName a' = at_channelName a"

lemma forward_frames:
  "same_att a (fst (forward cm b a)) \<and> list_all att_frame (snd (forward cm b a))"
proof -
  obtain a' ms where r: "resolveAppends (cm_Messages cm) b a = (a', ms)" by fastforce
  then have "same_att a a'" by (auto simp: resolveAppends_def Let_def same_att_def split: if_splits)
  then show ?thesis
    by (auto simp: forward_def r Let_def att_frame_def channelFrame_def same_att_def list_all_iff)
qed

lemma forwardAll_frames:
  "same_att a (fst (forwardAll cms b a)) \<and> list_all att_frame (snd (forwardAll cms b a))"
proof (induction cms b a rule: forwardAll.induct)
  case (2 cm cms b a)
  obtain a1 fs1 where f: "forward cm b a = (a1, fs1)" by fastforce
  obtain a2 fs2 where g: "forwardAll cms b a1 = (a2, fs2)" by fastforce
  from 2 [OF f [symmetric]] forward_frames [of a cm b] f g show ?case by (auto simp: same_att_def)
qed (simp add: same_att_def)

lemma liveStep_frames:
  "same_att a (fst (liveStep cm a)) \<and> list_all att_frame (snd (liveStep cm a))"
  using forward_frames [of "setCurSerial (cm_ChannelSerial cm) a" cm False]
  by (simp add: liveStep_def setCurSerial_def same_att_def)

lemma runAttach_frames:
  assumes "runAttach ctxErr now fl cs ch a = Some (a', fs)"
  shows "same_att a a' \<and> list_all att_frame fs"
proof -
  obtain anchor where an: "StreamChannelSerial ch (at_stream a) = Some anchor"
    using assms by (auto simp: runAttach_def split: option.splits)
  obtain replay p r i where cr: "computeReplay ctxErr now fl cs ch anchor a = (replay, p, r, i)"
    by (metis prod_cases4)
  obtain a2 fs2 where f: "forwardAll replay True (setCurSerial p a) = (a2, fs2)" by fastforce
  have "a' = a2" "\<exists>x ys. fs = x # ys @ fs2 \<and> pm_Action x = ActionAttached \<and> list_all att_frame ys"
    using assms unfolding runAttach_def an option.case cr prod.case f Let_def
    by (auto simp: att_frame_def syncFrame_def channelFrame_def)
  with forwardAll_frames [of "setCurSerial p a" replay True] f show ?thesis
    by (auto simp: att_frame_def setCurSerial_def same_att_def list_all_iff)
qed

lemma att_frames_quiet: "list_all att_frame (snd r) \<Longrightarrow> quiet c (putAttachment name r c)"
proof -
  assume "list_all att_frame (snd r)"
  then have "answers (snd r) = []" by (intro answers_none) (auto simp: list_all_iff att_frame_def)
  then show ?thesis by (simp add: quiet_def putAttachment_def)
qed

section \<open>Accounting over a trace\<close>

lemma step_account:
  assumes "conn_step verify s ns s'"
  shows "account (snd s') = account (snd s) @ ns"
    and "cn_lastMsgSerial (snd s') = (if ns = [] then cn_lastMsgSerial (snd s) else last ns)"
    and "cn_id (snd s') = cn_id (snd s) \<and> cn_clientID (snd s') = cn_clientID (snd s)"
proof -
  have "account (snd s') = account (snd s) @ ns \<and>
    cn_lastMsgSerial (snd s') = (if ns = [] then cn_lastMsgSerial (snd s) else last ns) \<and>
    cn_id (snd s') = cn_id (snd s) \<and> cn_clientID (snd s') = cn_clientID (snd s)"
    using assms
  proof cases
    case (recv msg c m e)
    then show ?thesis using dispatch_account [of verify e msg m c] by (auto simp: accepted_def)
  next
    case (work c e m)
    then obtain t ts where q: "cn_publishQ c = t # ts" by (cases "cn_publishQ c") auto
    with work answered_sel [OF publishLoop_answers [OF work(4) q]] show ?thesis by (simp add: account_def)
  next
    case (start c name a ctxErr now fl cs ch r m)
    then have q: "quiet c (putAttachment name r c)"
      by (intro att_frames_quiet) (use runAttach_frames in \<open>cases r; auto\<close>)
    show ?thesis using start quiet_account [OF q] q by (simp add: quiet_def)
  next
    case (live c name a m cm)
    have q: "quiet c (putAttachment name (liveStep cm a) c)"
      using liveStep_frames by (auto intro: att_frames_quiet)
    show ?thesis using live quiet_account [OF q] q by (simp add: quiet_def)
  qed simp
  then show "account (snd s') = account (snd s) @ ns"
    "cn_lastMsgSerial (snd s') = (if ns = [] then cn_lastMsgSerial (snd s) else last ns)"
    "cn_id (snd s') = cn_id (snd s) \<and> cn_clientID (snd s') = cn_clientID (snd s)" by simp_all
qed

lemma trace_account:
  "conn_trace verify s ns s' \<Longrightarrow> account (snd s') = account (snd s) @ ns \<and>
     cn_lastMsgSerial (snd s') = (if ns = [] then cn_lastMsgSerial (snd s) else last ns)"
proof (induction rule: conn_trace.induct)
  case (more s ns s' ns' s'')
  then show ?case using step_account(1,2) [OF more(2)] by auto
qed simp

text \<open>The msgSerials that pass the gate increase, as long as they stay in the range a client counts
  through: from 0 up to the last int64 that has a successor.\<close>

definition msg_range :: "int \<Rightarrow> bool" where
  "msg_range n \<longleftrightarrow> 0 \<le> n \<and> n < 2 ^ 63 - 1"

lemma step_gate:
  assumes "conn_step verify s ns s'" "ns \<noteq> []" "msg_range (cn_lastMsgSerial (snd s))"
  shows "\<exists>n. ns = [n] \<and> cn_lastMsgSerial (snd s) < n"
  using assms
proof cases
  case (recv msg c m e)
  then have "snd (acceptMsgSerial (GetMsgSerial msg) c)" "ns = [GetMsgSerial msg]"
    using assms(2) by (auto simp: accepted_def split: if_splits)
  moreover have "wrap64 (cn_lastMsgSerial c + 1) = cn_lastMsgSerial c + 1"
    using assms(3) recv by (intro wrap64_id) (auto simp: msg_range_def int64_range_def)
  ultimately show ?thesis using assms(3) recv
    by (auto simp: acceptMsgSerial_def msg_range_def split: if_splits)
qed (use assms(2) in auto)

lemma trace_increasing:
  "conn_trace verify s ns s' \<Longrightarrow> cn_lastMsgSerial (snd s) = - 1 \<Longrightarrow> \<forall>n \<in> set ns. msg_range n \<Longrightarrow>
     sorted_wrt (<) ns"
proof (induction rule: conn_trace.induct)
  case (more s ns s' ns' s'')
  then have IH: "sorted_wrt (<) ns" by simp
  show ?case
  proof (cases "ns = [] \<or> ns' = []")
    case True
    have "length ns' \<le> 1" using more(2) by cases (auto simp: accepted_def)
    then have "sorted_wrt (<) ns'" by (cases ns') auto
    with True IH show ?thesis by auto
  next
    case False
    have l: "cn_lastMsgSerial (snd s') = last ns" using trace_account [OF more(1)] False by simp
    moreover have "last ns \<in> set ns" using False by simp
    ultimately obtain n where n: "ns' = [n]" "last ns < n"
      using step_gate [OF more(2)] more.prems(2) False by fastforce
    have "x \<le> last ns" if "x \<in> set ns" for x
      using IH that False by (cases ns rule: rev_cases) (auto simp: sorted_wrt_append)
    with n IH show ?thesis by (force simp: sorted_wrt_append)
  qed
qed simp

section \<open>What is queued is authorised\<close>

text \<open>The identities a connection may put on an operation.\<close>

definition speaks :: "string \<Rightarrow> string \<Rightarrow> bool" where
  "speaks clientID x \<longleftrightarrow>
     (if clientID = [] then x = [] else if clientID = WildcardClientID then x \<noteq> WildcardClientID
      else x = clientID)"

fun task_ok :: "string \<Rightarrow> string \<Rightarrow> task \<Rightarrow> bool" where
  "task_ok connID clientID (TaskNack n err) = True"
| "task_ok connID clientID (TaskPublish n ch ms) =
     list_all (\<lambda>m. m_ConnectionID m = connID \<and> speaks clientID (m_ClientID m) \<and> \<not> IsMutation (m_Action m)) ms"
| "task_ok connID clientID (TaskMutate n ch m) =
     (speaks clientID (m_ClientID m) \<and> IsMutation (m_Action m) \<and> m_Serial m \<noteq> [])"
| "task_ok connID clientID (TaskPresence n ch ps) =
     list_all (\<lambda>p. p_ConnectionID p = connID \<and> speaks clientID (p_ClientID p) \<and> p_ClientID p \<noteq> [] \<and>
       p_ID p \<noteq> []) ps"
| "task_ok connID clientID (TaskAnnotation n ch ans) =
     list_all (\<lambda>a. a_ConnectionID a = connID \<and> speaks clientID (a_ClientID a)) ans"

lemma MessageClientID_speaks: "MessageClientID clientID x = Some y \<Longrightarrow> speaks clientID y"
  by (auto simp: MessageClientID_def speaks_def split: if_splits)

lemma stampMessages_ok:
  "stampMessages c ms = Some ms' \<Longrightarrow> \<not> list_ex (\<lambda>m. IsMutation (m_Action m)) ms \<Longrightarrow>
     task_ok (cn_id c) (cn_clientID c) (TaskPublish n ch ms')"
  by (induction ms arbitrary: ms') (auto simp: MessageClientID_speaks split: option.splits)

lemma stampPresence_ok:
  "stampPresenceFrame c n i ps = Some ps' \<Longrightarrow> task_ok (cn_id c) (cn_clientID c) (TaskPresence n ch ps')"
  by (induction ps arbitrary: i ps')
    (auto simp: resolvePresenceClientID_def speaks_def presenceID_def split: option.splits if_splits)

lemma Validate_sel:
  "Validate a = Inr a' \<Longrightarrow> a_ClientID a' = a_ClientID a \<and> a_ConnectionID a' = a_ConnectionID a"
  by (auto simp: Validate_def split: if_splits prod.splits)

lemma stampAnnotations_ok:
  "stampAnnotations c now ans = Inr ans' \<Longrightarrow> task_ok (cn_id c) (cn_clientID c) (TaskAnnotation n ch ans')"
  by (induction ans arbitrary: ans')
    (auto simp: MessageClientID_speaks dest!: Validate_sel split: option.splits sum.splits)

lemma handleMutation_ok:
  "\<exists>t. handleMutation msg c = enqueuePublish t c \<and> task_ok (cn_id c) (cn_clientID c) t"
  by (auto simp: handleMutation_def enqueueNack_def Let_def MessageClientID_speaks
      intro: exI [of _ "TaskNack _ _"] split: list.split option.split)

lemma handleMessage_ok:
  "\<exists>t. handleMessage msg c = enqueuePublish t c \<and> task_ok (cn_id c) (cn_clientID c) t"
  using handleMutation_ok [of msg c] stampMessages_ok [of c "pm_Messages msg"]
  by (auto simp: handleMessage_def enqueueNack_def Let_def intro: exI [of _ "TaskNack _ _"]
      split: option.split)

lemma handleAnnotation_ok:
  "\<exists>t. handleAnnotation now msg c = enqueuePublish t c \<and> task_ok (cn_id c) (cn_clientID c) t"
  using stampAnnotations_ok [of c now "pm_Annotations msg"]
  by (auto simp: handleAnnotation_def enqueueNack_def Let_def intro: exI [of _ "TaskNack _ _"]
      split: option.split sum.split)

lemma handlePresence_ok:
  "\<exists>t ps. handlePresence msg c = enqueuePublish t (recordAll (GetChannel msg) ps c) \<and>
     task_ok (cn_id c) (cn_clientID c) t \<and> (ps = [] \<or> map_of (cn_attachments c) (GetChannel msg) \<noteq> None)"
proof -
  let ?ch = "GetChannel msg"
  have nk: "\<exists>t ps. enqueuePublish (TaskNack n err) c = enqueuePublish t (recordAll ?ch ps c) \<and>
     task_ok (cn_id c) (cn_clientID c) t \<and> (ps = [] \<or> map_of (cn_attachments c) ?ch \<noteq> None)" for n err
    by (rule exI [of _ "TaskNack n err"], rule exI [of _ "[]"]) (simp add: recordAll_def)
  show ?thesis
  proof (cases "?ch = [] \<or> pm_Presence msg = [] \<or> stampPresenceFrame c (GetMsgSerial msg) 0 (pm_Presence msg) = None \<or>
      (case map_of (cn_attachments c) ?ch of None \<Rightarrow> True | Some a \<Rightarrow> \<not> hasMode a FlagPresence)")
    case True
    then show ?thesis using nk by (auto simp: handlePresence_def enqueueNack_def Let_def)
  next
    case False
    then obtain ps where "stampPresenceFrame c (GetMsgSerial msg) 0 (pm_Presence msg) = Some ps" by auto
    moreover from this have "task_ok (cn_id c) (cn_clientID c) (TaskPresence (GetMsgSerial msg) ?ch ps)"
      by (rule stampPresence_ok)
    moreover have "map_of (cn_attachments c) ?ch \<noteq> None" using False by (auto split: option.splits)
    ultimately show ?thesis using False unfolding handlePresence_def Let_def recordAll_def [symmetric]
      by (auto simp del: task_ok.simps)
  qed
qed

section \<open>The invariant of a connection\<close>

definition att_ok :: "perms \<Rightarrow> string \<Rightarrow> attachment \<Rightarrow> bool" where
  "att_ok cap name a \<longleftrightarrow> at_channelName a = name \<and>
     at_modes a = at_requestedModes a AND permittedModes cap name \<and> at_modes a \<noteq> 0"

definition conn_inv :: "connection \<Rightarrow> bool" where
  "conn_inv c \<longleftrightarrow>
     (\<forall>name a. map_of (cn_attachments c) name = Some a \<longrightarrow> att_ok (cn_cap c) name a) \<and>
     (\<forall>name xs. map_of (cn_entered c) name = Some xs \<longrightarrow> xs \<noteq> [] \<and> map_of (cn_attachments c) name \<noteq> None) \<and>
     list_all (task_ok (cn_id c) (cn_clientID c)) (cn_publishQ c) \<and> length (cn_publishQ c) \<le> publishQCap"

lemma same_att_ok: "same_att a a' \<Longrightarrow> att_ok cap name a \<Longrightarrow> att_ok cap name a'"
  by (auto simp: same_att_def att_ok_def)

lemma conn_inv_enqueue:
  "conn_inv c \<Longrightarrow> task_ok (cn_id c) (cn_clientID c) t \<Longrightarrow> length (cn_publishQ c) < publishQCap \<Longrightarrow>
     conn_inv (enqueuePublish t c)"
  by (simp add: conn_inv_def)

lemma conn_inv_queue [simp]: "conn_inv (queue f c) = conn_inv c"
  by (simp add: conn_inv_def)

lemma insert_not_Nil [simp]: "List.insert x xs \<noteq> []"
  by (cases xs) (auto simp: List.insert_def)

lemma conn_inv_record:
  "conn_inv c \<Longrightarrow> map_of (cn_attachments c) ch \<noteq> None \<Longrightarrow> conn_inv (recordPresence ch x act c)"
  by (auto simp: conn_inv_def recordPresence_def Let_def update_conv' delete_conv' split: option.splits if_splits)

lemma conn_inv_recordAll:
  "conn_inv c \<Longrightarrow> ps = [] \<or> map_of (cn_attachments c) ch \<noteq> None \<Longrightarrow> conn_inv (recordAll ch ps c)"
  unfolding recordAll_def by (induction ps arbitrary: c) (auto simp: conn_inv_record)

lemma conn_inv_accept: "conn_inv (fst (acceptMsgSerial n c)) = conn_inv c"
  by (simp add: conn_inv_def)

lemma gated_inv:
  assumes "conn_inv c" "length (cn_publishQ c) < publishQCap"
    and "\<And>c. \<exists>t ps. handler msg c = enqueuePublish t (recordAll (GetChannel msg) ps c) \<and>
      task_ok (cn_id c) (cn_clientID c) t \<and> (ps = [] \<or> map_of (cn_attachments c) (GetChannel msg) \<noteq> None)"
  shows "conn_inv (snd (gated handler msg (m, c)))"
proof -
  obtain c1 b where a: "acceptMsgSerial (GetMsgSerial msg) c = (c1, b)" by fastforce
  have c1: "conn_inv c1" "length (cn_publishQ c1) < publishQCap"
    using assms(1,2) a conn_inv_accept [of "GetMsgSerial msg" c] acceptMsgSerial_sel(4) [of "GetMsgSerial msg" c]
    by simp_all
  obtain t ps where h: "handler msg c1 = enqueuePublish t (recordAll (GetChannel msg) ps c1)"
    "task_ok (cn_id c1) (cn_clientID c1) t" "ps = [] \<or> map_of (cn_attachments c1) (GetChannel msg) \<noteq> None"
    using assms(3) by blast
  have "conn_inv (handler msg c1)"
    unfolding h(1) using conn_inv_recordAll [OF c1(1) h(3)] h(2) c1(2) by (intro conn_inv_enqueue) simp_all
  with c1(1) a show ?thesis by (simp add: gated_def)
qed

lemma leaveChannel_conn:
  "cn_attachments (snd (leaveChannel e ch (m, c))) = cn_attachments c"
  "cn_cap (snd (leaveChannel e ch (m, c))) = cn_cap c"
  "(\<forall>xs. map_of (cn_entered c) ch = Some xs \<longrightarrow> xs \<noteq> []) \<Longrightarrow>
     map_of (cn_entered (snd (leaveChannel e ch (m, c)))) name =
       (if name = ch then None else map_of (cn_entered c) name)"
  by (auto simp: leaveChannel_def Let_def gget_def delete_conv' split: option.splits)

text \<open>Removing an attachment together with what was entered through it.\<close>

lemma leave_inv:
  assumes "conn_inv c"
    and "cn_attachments c' = gdel name (cn_attachments c)" "cn_cap c' = cn_cap c" "quiet c c'"
    and "\<And>n. map_of (cn_entered c') n = (if n = name then None else map_of (cn_entered c) n)"
  shows "conn_inv c'"
  using assms unfolding conn_inv_def quiet_def by (auto simp: delete_conv')

lemma handleDetach_inv: "conn_inv c \<Longrightarrow> conn_inv (snd (handleDetach e name (m, c)))"
proof -
  assume inv: "conn_inv c"
  obtain m' c' where l: "leaveChannel e name (m, c) = (m', c')" by fastforce
  note lc = leaveChannel_conn(1,2) [of e name m c] leaveChannel_conn(3) [of c name e m] leaveChannel_quiet [of "(m, c)" e name]
  have "conn_inv (c'\<lparr>cn_attachments := gdel name (cn_attachments c')\<rparr>)"
    using lc l inv by (intro leave_inv [OF inv, of _ name]) (auto simp: conn_inv_def quiet_def)
  then show ?thesis using inv by (simp add: handleDetach_def l)
qed

lemma put_att_inv:
  "conn_inv c \<Longrightarrow> att_ok (cn_cap c) name a \<Longrightarrow>
     conn_inv (c\<lparr>cn_attachments := gput name a (cn_attachments c)\<rparr>)"
  by (auto simp: conn_inv_def update_conv')

lemma freshAttach_inv:
  assumes "conn_inv c" "effective = requested AND permittedModes (cn_cap c) name" "effective \<noteq> 0"
  shows "conn_inv (snd (freshAttach e name requested effective msg (m, c)))"
proof -
  have new: "att_ok (cn_cap c) name (newAttachment name st sr ar requested effective ps i ec)" for st sr ar ps i ec
    using assms(2,3) by (simp add: att_ok_def newAttachment_def)
  show ?thesis
    unfolding freshAttach_def attachFailed_def
    by (simp add: assms(1) put_att_inv [OF assms(1) new] split: option.split prod.split outcome.split)
qed

lemma reattach_ok:
  assumes "conn_inv c" "map_of (cn_attachments c) name = Some a"
    "effective = requested AND permittedModes (cn_cap c) name" "effective \<noteq> 0"
  shows "att_ok (cn_cap c) name (fst (applyReattach requested effective ps a))"
  using assms by (auto simp: conn_inv_def att_ok_def applyReattach_def)

lemma handleAttach_inv: "conn_inv c \<Longrightarrow> conn_inv (snd (handleAttach e msg (m, c)))"
proof -
  assume inv: "conn_inv c"
  let ?n = "GetChannel msg" and ?r = "resolveRequestedModes (pm_Flags msg) (pm_Params msg)"
  let ?eff = "?r AND permittedModes (cn_cap c) ?n"
  show ?thesis
  proof (cases "?eff \<noteq> 0 \<and> map_of (cn_attachments c) ?n \<noteq> None")
    case True
    then obtain a where a: "map_of (cn_attachments c) ?n = Some a" "?eff \<noteq> 0" by auto
    from put_att_inv [OF inv reattach_ok [OF inv a(1) refl a(2), of "pm_Params msg"]] a inv
    show ?thesis by (simp add: handleAttach_def Let_def case_prod_beta)
  next
    case False
    with inv freshAttach_inv [OF inv refl, of ?r ?n e msg m] show ?thesis
      by (auto simp: handleAttach_def Let_def)
  qed
qed

lemma reconcileOne_att:
  assumes "reconcileOne e name (m, c) = (m', c')"
    and "\<forall>n xs. map_of (cn_entered c) n = Some xs \<longrightarrow> xs \<noteq> [] \<and> map_of (cn_attachments c) n \<noteq> None"
  shows "cn_cap c' = cn_cap c"
    and "n \<noteq> name \<Longrightarrow> map_of (cn_attachments c') n = map_of (cn_attachments c) n"
    and "map_of (cn_attachments c') name =
      Option.bind (map_of (cn_attachments c) name) (\<lambda>a.
        let a' = recheckCapability (permittedModes (cn_cap c) name) a in if at_modes a' \<noteq> 0 then Some a' else None)"
    and "\<forall>n xs. map_of (cn_entered c') n = Some xs \<longrightarrow> xs \<noteq> [] \<and> map_of (cn_attachments c') n \<noteq> None"
proof -
  let ?d = "c\<lparr>cn_attachments := gdel name (cn_attachments c)\<rparr>"
  obtain m1 c1 where l: "leaveChannel e name (m, ?d) = (m1, c1)" by fastforce
  have lc: "cn_attachments c1 = gdel name (cn_attachments c)" "cn_cap c1 = cn_cap c"
    "\<And>n. map_of (cn_entered c1) n = (if n = name then None else map_of (cn_entered c) n)"
    using leaveChannel_conn(1,2) [of e name m ?d] leaveChannel_conn(3) [of ?d name e m] l assms(2) by auto
  show "cn_cap c' = cn_cap c"
    using assms(1) l lc by (auto simp: reconcileOne_def Let_def split: option.splits if_splits)
  show "n \<noteq> name \<Longrightarrow> map_of (cn_attachments c') n = map_of (cn_attachments c) n"
    using assms(1) l lc by (auto simp: reconcileOne_def Let_def update_conv' delete_conv' split: option.splits if_splits)
  show "map_of (cn_attachments c') name =
      Option.bind (map_of (cn_attachments c) name) (\<lambda>a.
        let a' = recheckCapability (permittedModes (cn_cap c) name) a in if at_modes a' \<noteq> 0 then Some a' else None)"
    using assms(1) l lc by (auto simp: reconcileOne_def Let_def update_conv' delete_conv' split: option.splits if_splits)
  show "\<forall>n xs. map_of (cn_entered c') n = Some xs \<longrightarrow> xs \<noteq> [] \<and> map_of (cn_attachments c') n \<noteq> None"
  proof (cases "map_of (cn_attachments c') name = None")
    case True
    with assms(1) l lc assms(2) show ?thesis
      by (auto simp: reconcileOne_def Let_def update_conv' delete_conv' split: option.splits if_splits)
        blast+
  next
    case False
    with assms(1) l lc have "cn_entered c' = cn_entered c"
      "\<And>n. map_of (cn_attachments c) n \<noteq> None \<Longrightarrow> map_of (cn_attachments c') n \<noteq> None"
      by (auto simp: reconcileOne_def Let_def update_conv' delete_conv' split: option.splits if_splits)
    with assms(2) show ?thesis by metis
  qed
qed

lemma reconcile_att:
  assumes "foldl (\<lambda>s name. reconcileOne e name s) (m, c) names = (m', c')"
    and "\<forall>n xs. map_of (cn_entered c) n = Some xs \<longrightarrow> xs \<noteq> [] \<and> map_of (cn_attachments c) n \<noteq> None"
    and "\<forall>n a. map_of (cn_attachments c) n = Some a \<longrightarrow> at_channelName a = n \<and> (n \<in> set names \<or> att_ok (cn_cap c) n a)"
  shows "cn_cap c' = cn_cap c \<and>
    (\<forall>n a. map_of (cn_attachments c') n = Some a \<longrightarrow> att_ok (cn_cap c) n a) \<and>
    (\<forall>n xs. map_of (cn_entered c') n = Some xs \<longrightarrow> xs \<noteq> [] \<and> map_of (cn_attachments c') n \<noteq> None)"
  using assms
proof (induction names arbitrary: m c)
  case (Cons name names)
  obtain m1 c1 where r: "reconcileOne e name (m, c) = (m1, c1)" by fastforce
  note ra = reconcileOne_att [OF r Cons.prems(2)]
  have "at_channelName a = n \<and> (n \<in> set names \<or> att_ok (cn_cap c1) n a)"
    if a: "map_of (cn_attachments c1) n = Some a" for n a
  proof (cases "n = name")
    case True
    with a ra(3) obtain a0 where "map_of (cn_attachments c) name = Some a0"
      "a = recheckCapability (permittedModes (cn_cap c) name) a0" "at_modes a \<noteq> 0"
      by (auto simp: Let_def split: Option.bind_splits if_splits)
    with True Cons.prems(3) ra(1) show ?thesis by (auto simp: att_ok_def recheckCapability_def)
  next
    case False
    with a ra(1,2) Cons.prems(3) show ?thesis by auto
  qed
  with Cons.IH [of m1 c1] Cons.prems(1) r ra(1,4) show ?case by simp
qed auto

lemma handleAuth_inv: "conn_inv c \<Longrightarrow> conn_inv (snd (handleAuth verify e msg (m, c)))"
proof -
  assume inv: "conn_inv c"
  have "conn_inv (snd (reconcileAttachmentCapabilities e (m, setAuth cap x c)))" for cap x
  proof -
    let ?c = "setAuth cap x c"
    obtain m' c' where r: "reconcileAttachmentCapabilities e (m, ?c) = (m', c')" by fastforce
    have "quiet c c'" using reconcile_quiet [of "(m, ?c)" e] r by (simp add: setAuth_def quiet_def)
    moreover have "cn_cap c' = cn_cap ?c \<and>
      (\<forall>n a. map_of (cn_attachments c') n = Some a \<longrightarrow> att_ok (cn_cap ?c) n a) \<and>
      (\<forall>n xs. map_of (cn_entered c') n = Some xs \<longrightarrow> xs \<noteq> [] \<and> map_of (cn_attachments c') n \<noteq> None)"
    proof (rule reconcile_att)
      show "foldl (\<lambda>s name. reconcileOne e name s) (m, ?c) (map fst (cn_attachments ?c)) = (m', c')"
        using r by (simp add: reconcileAttachmentCapabilities_def)
      show "\<forall>n xs. map_of (cn_entered ?c) n = Some xs \<longrightarrow> xs \<noteq> [] \<and> map_of (cn_attachments ?c) n \<noteq> None"
        using inv by (simp add: conn_inv_def setAuth_def)
      show "\<forall>n a. map_of (cn_attachments ?c) n = Some a \<longrightarrow> at_channelName a = n \<and>
          (n \<in> set (map fst (cn_attachments ?c)) \<or> att_ok (cn_cap ?c) n a)"
        using inv by (auto simp: conn_inv_def setAuth_def att_ok_def dest: map_of_SomeD intro: rev_image_eqI)
    qed
    ultimately show ?thesis using inv r by (simp add: conn_inv_def quiet_def)
  qed
  then show ?thesis using inv unfolding handleAuth_def failReauth_def
    by (auto split: option.split sum.split prod.split) (metis snd_conv)+
qed

lemma plain_handler:
  assumes "\<exists>t. h = enqueuePublish t c \<and> task_ok (cn_id c) (cn_clientID c) t"
  shows "\<exists>t ps. h = enqueuePublish t (recordAll ch ps c) \<and> task_ok (cn_id c) (cn_clientID c) t \<and>
    (ps = [] \<or> Q)"
proof -
  have "recordAll ch [] c = c" by (simp add: recordAll_def)
  with assms show ?thesis by metis
qed

lemma dispatch_inv:
  assumes "conn_inv c" "enqueues msg \<longrightarrow> length (cn_publishQ c) < publishQCap"
  shows "conn_inv (snd (dispatch verify e msg (m, c)))"
proof -
  have h: "conn_inv (handleHeartbeat msg c)" "conn_inv (handleClose c)" "conn_inv (snd (handleSync e msg (m, c)))"
    using assms(1) by (auto simp: handleHeartbeat_def handleClose_def handleSync_def conn_inv_def queue_def split: option.split)
  note g = gated_inv [OF assms(1), of handleMessage msg m, OF _ plain_handler [OF handleMessage_ok]]
    gated_inv [OF assms(1), of "handleAnnotation (en_now e)" msg m, OF _ plain_handler [OF handleAnnotation_ok]]
    gated_inv [OF assms(1), of handlePresence msg m, OF _ handlePresence_ok]
  show ?thesis
    using assms(2) h g handleAttach_inv [OF assms(1)] handleDetach_inv [OF assms(1)] handleAuth_inv [OF assms(1)] assms(1)
    by (cases "pm_Action msg") (auto simp: dispatch_def enqueues_def)
qed

lemma put_same_inv:
  assumes "conn_inv c" "map_of (cn_attachments c) name = Some a" "same_att a (fst r)"
  shows "conn_inv (putAttachment name r c)"
proof -
  have "att_ok (cn_cap c) name (fst r)" using assms same_att_ok by (auto simp: conn_inv_def)
  from put_att_inv [OF assms(1) this] show ?thesis by (simp add: conn_inv_def putAttachment_def)
qed

lemma step_inv: "conn_step verify s ns s' \<Longrightarrow> conn_inv (snd s) \<Longrightarrow> conn_inv (snd s')"
proof (induction rule: conn_step.induct)
  case (work c e m s')
  then obtain t ts where q: "cn_publishQ c = t # ts" by (cases "cn_publishQ c") auto
  from answered_sel [OF publishLoop_answers [OF work(2) q]] work(3) q show ?case by (simp add: conn_inv_def)
next
  case (start c name a ctxErr now fl cs ch r m)
  then show ?case using put_same_inv [of c name a r] runAttach_frames [of ctxErr now fl cs ch a "fst r" "snd r"] by simp
next
  case (live c name a m cm)
  then show ?case using put_same_inv [of c name a] liveStep_frames [of a cm] by simp
qed (simp_all add: dispatch_inv)

lemma trace_inv: "conn_trace verify s ns s' \<Longrightarrow> conn_inv (snd s) \<Longrightarrow> conn_inv (snd s')"
  by (induction rule: conn_trace.induct) (auto intro: step_inv)

end
