(* ===== verification/Worker.thy ===== *)
theory Worker
  imports ConnectionLaws MemoryHistory
begin

unbundle bit_operations_syntax

text \<open>
  The connection and the store together: what the publish worker writes, that it always
  answers, and the properties of a connection in every interleaving of its goroutines.
\<close>

section \<open>The store under the worker\<close>

lemma GetChannel_steps:
  assumes "clock_ok now (ms_gen (mg_store m))" "ManagerGetChannel storeErr now name m = (m', ok)"
  shows "storage_step\<^sup>*\<^sup>* (mg_store m) (mg_store m')"
    and "ms_gen (mg_store m') = ms_gen (mg_store m) \<or> ms_gen (mg_store m') = advance now (ms_gen (mg_store m))"
proof -
  obtain s' cs where s: "StorageChannel now name (Some (newChannel name)) (mg_store m) = (s', cs)" by fastforce
  from storage_step.open_channel [OF assms(1) _ this] have "storage_step (mg_store m) s'" by blast
  then show "storage_step\<^sup>*\<^sup>* (mg_store m) (mg_store m')"
    using assms(2) s by (auto simp: ManagerGetChannel_def lookupOrReserve_def bindStore_def
        split: option.splits if_splits)
  show "ms_gen (mg_store m') = ms_gen (mg_store m) \<or> ms_gen (mg_store m') = advance now (ms_gen (mg_store m))"
    using assms(2) by (auto simp: ManagerGetChannel_def lookupOrReserve_def bindStore_def StorageChannel_def
        Mint_def Let_def split: option.splits if_splits prod.splits)
qed

lemma writeChannel_steps:
  assumes "reachable series (mg_store m)" "clock_ok (en_now e) (ms_gen (mg_store m))"
    and "writeChannel e name op m = (m', r)"
  shows "storage_step\<^sup>*\<^sup>* (mg_store m) (mg_store m')"
    and "ms_gen (mg_store m') = ms_gen (mg_store m) \<or>
      ms_gen (mg_store m') = advance (en_now e) (ms_gen (mg_store m))"
    and "bound m \<Longrightarrow> bound m'"
    and "r = Inr (cm, d) \<Longrightarrow> cm \<noteq> None"
proof -
  show "bound m \<Longrightarrow> bound m'"
    using assms(3) by (auto simp: writeChannel_def putChannel_def bound_def update_conv' split: option.splits prod.splits) blast
  have "storage_step\<^sup>*\<^sup>* (mg_store m) (mg_store m') \<and> (ms_gen (mg_store m') = ms_gen (mg_store m) \<or>
      ms_gen (mg_store m') = advance (en_now e) (ms_gen (mg_store m))) \<and> (r = Inr (cm, d) \<longrightarrow> cm \<noteq> None)"
  proof (cases "map_of (ms_channels (mg_store m)) name")
    case None
    with assms(3) show ?thesis by (auto simp: writeChannel_def)
  next
    case (Some cs)
    obtain st' r' where x: "exec (en_ctxErr e) (en_now e) op (ms_gen (mg_store m), cs) = (st', r')" by fastforce
    have m': "mg_store m' = putChannel name st' (mg_store m)" "r' = r"
      using assms(3) Some x by (auto simp: writeChannel_def)
    have inv: "mem_inv (ms_gen (mg_store m), cs)" by (rule reachable_inv [OF assms(1) Some])
    have "storage_step (mg_store m) (mg_store m')"
      unfolding m' by (rule storage_step.write_channel [OF assms(2) Some x])
    moreover have "ms_gen (mg_store m') = fst st'" by (simp add: m' putChannel_def case_prod_beta)
    moreover have "cm \<noteq> None" if "r = Inr (cm, d)"
    proof (cases d)
      case True
      from exec_duplicate [of "en_ctxErr e" "en_now e" op "ms_gen (mg_store m)" cs st' cm] x m' that True
        dup_logged [OF inv] show ?thesis by fastforce
    next
      case False
      with x m' that have "exec (en_ctxErr e) (en_now e) op (ms_gen (mg_store m), cs) = (st', Inr (cm, False))" by simp
      then show ?thesis by (rule exec_fresh [OF inv assms(2)]) simp
    qed
    ultimately show ?thesis using exec_inv [OF inv assms(2) x] by auto
  qed
  then show "storage_step\<^sup>*\<^sup>* (mg_store m) (mg_store m')"
    "ms_gen (mg_store m') = ms_gen (mg_store m) \<or> ms_gen (mg_store m') = advance (en_now e) (ms_gen (mg_store m))"
    "r = Inr (cm, d) \<Longrightarrow> cm \<noteq> None" by blast+
qed

text \<open>Room for \<open>k\<close> more serials in the 14 digits of the millisecond.\<close>

definition room :: "nat \<Rightarrow> MemStorage \<Rightarrow> bool" where
  "room k s \<longleftrightarrow> gen_inv (ms_gen s) \<and> lastTs (ms_gen s) + int k < 10 ^ 14"

lemma room_clock: "room (Suc k) s \<Longrightarrow> now + int k < 10 ^ 14 \<Longrightarrow> clock_ok now (ms_gen s)"
  by (simp add: room_def clock_ok_def)

lemma room_advance:
  assumes "room (Suc k) s" "now + int k < 10 ^ 14"
    and "ms_gen s' = ms_gen s \<or> ms_gen s' = advance now (ms_gen s)"
  shows "room k s'"
proof -
  have c: "clock_ok now (ms_gen s)" by (rule room_clock [OF assms(1,2)])
  from advance_time [OF c] clock_ok_gen_inv [OF c] assms show ?thesis by (auto simp: room_def)
qed

lemma reachable_steps: "reachable series s \<Longrightarrow> storage_step\<^sup>*\<^sup>* s s' \<Longrightarrow> reachable series s'"
  by (simp add: reachable_def)

text \<open>The manager's part of what a task needs and leaves.\<close>

definition store_ok :: "string \<Rightarrow> nat \<Rightarrow> Manager \<Rightarrow> bool" where
  "store_ok series k m \<longleftrightarrow> reachable series (mg_store m) \<and> bound m \<and> room k (mg_store m)"

lemma store_ok_less: "store_ok series (Suc k) m \<Longrightarrow> store_ok series k m"
  by (simp add: store_ok_def room_def)

lemma GetChannel_store_ok:
  assumes "store_ok series (Suc k) m" "now + int k < 10 ^ 14" "ManagerGetChannel storeErr now name m = (m', ok)"
  shows "store_ok series k m'" "ok \<Longrightarrow> map_of (ms_channels (mg_store m')) name \<noteq> None"
proof -
  have c: "clock_ok now (ms_gen (mg_store m))" using assms(1,2) room_clock by (auto simp: store_ok_def)
  note st = GetChannel_steps [OF c assms(3)]
  have "bound m" using assms(1) by (simp add: store_ok_def)
  note b = GetChannel_bound [OF this assms(3)]
  show "store_ok series k m'"
    using assms(1,2) st b reachable_steps room_advance by (metis store_ok_def)
  show "ok \<Longrightarrow> map_of (ms_channels (mg_store m')) name \<noteq> None" using b by blast
qed

lemma writeChannel_store_ok:
  assumes "store_ok series (Suc k) m" "en_now e + int k < 10 ^ 14" "writeChannel e name op m = (m', r)"
  shows "store_ok series k m'" "r = Inr (cm, d) \<Longrightarrow> cm \<noteq> None"
proof -
  have r: "reachable series (mg_store m)" "clock_ok (en_now e) (ms_gen (mg_store m))" "bound m"
    using assms(1,2) room_clock by (auto simp: store_ok_def)
  note st = writeChannel_steps [OF r(1,2) assms(3)]
  show "store_ok series k m'"
    using assms(1,2) st(1,2) st(3) [OF r(3)] reachable_steps room_advance by (metis store_ok_def)
  show "r = Inr (cm, d) \<Longrightarrow> cm \<noteq> None" by (rule st(4))
qed

section \<open>The worker answers\<close>

text \<open>A mutation task whose message carries no id of its own.\<close>

fun plain :: "task \<Rightarrow> bool" where
  "plain (TaskMutate n ch mut) = (m_ID mut = [])"
| "plain t = True"

lemma Mutate_messages:
  "Mutate ctxErr now mut st = (st', Inr (Some cm, d)) \<Longrightarrow> m_ID mut = [] \<Longrightarrow> cm_Messages cm \<noteq> []"
  by (auto simp: Mutate_def Let_def split: prod.splits if_splits option.splits sum.splits)

lemma runMutate_total:
  assumes "store_ok series (Suc (Suc k)) m" "en_now e + int (Suc k) < 10 ^ 14" "m_ID mut = []"
  shows "\<exists>m' c'. runMutate e n ch mut (m, c) = Some (m', c') \<and> store_ok series k m'"
proof -
  obtain m1 ok where g: "ManagerGetChannel (en_chErr e) (en_now e) ch m = (m1, ok)" by fastforce
  note s1 = GetChannel_store_ok [OF assms(1,2) g]
  show ?thesis
  proof (cases ok)
    case False
    with g store_ok_less [OF s1(1)] show ?thesis by (simp add: runMutate_def)
  next
    case True
    then obtain cs where cs: "map_of (ms_channels (mg_store m1)) ch = Some cs" using s1(2) by auto
    obtain m2 r where w: "writeChannel e ch (OpMutate mut) m1 = (m2, r)" by fastforce
    note s2 = writeChannel_store_ok [OF s1(1) _ w]
    have "cm_Messages cm \<noteq> []" if "r = Inr (Some cm, d)" for cm d
      using w cs that assms(3) Mutate_messages by (auto simp: writeChannel_def split: prod.splits)
    then show ?thesis
      using g True cs w s2 store_ok_less [OF s1(1)] assms(2)
      by (auto simp: runMutate_def split: option.split sum.split list.split)
  qed
qed

lemma runTask_total:
  assumes "store_ok series (Suc (Suc k)) m" "en_now e + int (Suc k) < 10 ^ 14" "plain t"
  shows "\<exists>m' c'. runTask e t (m, c) = Some (m', c') \<and> store_ok series k m'"
proof -
  have w: "store_ok series k m2" "r = Inr (cm, d) \<Longrightarrow> cm \<noteq> None"
    if "store_ok series (Suc k) m1" "writeChannel e ch op m1 = (m2, r)" for m1 ch op m2 r cm d
    using writeChannel_store_ok [OF that(1) _ that(2)] assms(2) by auto
  have g: "store_ok series (Suc k) m1" if "ManagerGetChannel (en_chErr e) (en_now e) ch m = (m1, ok)" for m1 ch ok
    using GetChannel_store_ok(1) [OF assms(1,2) that] .
  note less = store_ok_less [OF assms(1)]
  show ?thesis
  proof (cases t)
    case (TaskPublish n ch ms)
    then show ?thesis
      by (auto simp: store_ok_less [OF g] intro: w(1) [OF g] dest: w(2) [OF g] split: prod.split sum.split option.split)
  next
    case (TaskPresence n ch ps)
    then show ?thesis by (auto dest: w(1) [OF less] split: prod.split sum.split)
  next
    case (TaskAnnotation n ch ans)
    then show ?thesis by (auto dest: w [OF less] split: prod.split sum.split option.split)
  qed (use assms less runMutate_total store_ok_less in auto)
qed

text \<open>The worker runs through the queue, each task at the environment of its turn.\<close>

fun drain :: "env list \<Rightarrow> sys \<Rightarrow> sys option" where
  "drain [] s = Some s"
| "drain (e # es) s = Option.bind (publishLoop e s) (drain es)"

lemma drain_total:
  assumes "store_ok series (2 * length es) m" "\<forall>e \<in> set es. en_now e + 2 * int (length es) < 10 ^ 14"
    and "length (cn_publishQ c) = length es" "list_all plain (cn_publishQ c)"
  shows "\<exists>m' c'. drain es (m, c) = Some (m', c') \<and> cn_publishQ c' = [] \<and>
    answers (cn_outbound c') = answers (cn_outbound c) @ map taskSerial (cn_publishQ c)"
  using assms
proof (induction es arbitrary: m c)
  case (Cons e es)
  then obtain t ts where q: "cn_publishQ c = t # ts" by (cases "cn_publishQ c") auto
  have "store_ok series (Suc (Suc (2 * length es))) m" "en_now e + int (Suc (2 * length es)) < 10 ^ 14" "plain t"
    using Cons.prems q by auto
  from runTask_total [OF this, of "c\<lparr>cn_publishQ := ts\<rparr>"] obtain m1 c1
    where r: "publishLoop e (m, c) = Some (m1, c1)" "store_ok series (2 * length es) m1"
    using q by (auto simp: publishLoop_def)
  from answered_sel [OF publishLoop_answers [OF r(1) q]]
  have c1: "answers (cn_outbound c1) = answers (cn_outbound c) @ [taskSerial t]" "cn_publishQ c1 = ts" by simp_all
  have "\<exists>m' c'. drain es (m1, c1) = Some (m', c') \<and> cn_publishQ c' = [] \<and>
    answers (cn_outbound c') = answers (cn_outbound c1) @ map taskSerial (cn_publishQ c1)"
    using Cons.prems q c1 by (intro Cons.IH r(2)) auto
  with r(1) c1 q show ?case by auto
qed simp

section \<open>The creator of a message\<close>

text \<open>Every version of a message carries the clientId of the message as it was created.\<close>

definition one_creator :: "channelStore \<Rightarrow> bool" where
  "one_creator cs \<longleftrightarrow> (\<forall>s. \<forall>v \<in> set (log_versions (log_of cs) s).
     m_ClientID v = m_ClientID (hd (log_versions (log_of cs) s)))"

lemma distinct_filter_single:
  "distinct (map f xs) \<Longrightarrow> x \<in> set xs \<Longrightarrow> filter (\<lambda>y. f y = f x) xs = [x]"
proof (induction xs)
  case (Cons y xs)
  then show ?case by (cases "x = y") (auto simp: filter_empty_conv image_iff)
qed simp

lemma logged_shape:
  assumes "mem_inv (g, cs)" "cm \<in> set (log_of cs)"
  shows "cm_shape (set (cs_order cs)) cm"
proof -
  obtain x where x: "x \<in> set (cs_order cs)" "cm = cmAt cs x" using assms(2) by (auto simp: log_of_def)
  have l: "log_inv cs" using assms(1) by (simp add: mem_inv_def)
  with x(1) obtain cm' where "map_of (cs_byCS cs) x = Some cm'" by (fastforce simp: log_inv_def)
  with l x(2) show ?thesis by (auto simp: log_inv_def cmAt_def gget_def)
qed

lemma new_serial_versions:
  assumes "mem_inv (g, cs)" "ser \<notin> set (cs_order cs)"
  shows "log_versions (log_of cs) (MessageSerial ser (int i)) = []"
proof -
  have "m_Serial v \<noteq> MessageSerial ser (int i)" if "v \<in> set (log_messages (log_of cs))" for v
    using that logged_shape [OF assms(1)] assms(2) by (fastforce simp: log_messages_def cm_shape_def)
  then show ?thesis by (simp add: log_versions_def filter_empty_conv)
qed

lemma one_creator_fresh:
  assumes "mem_inv (g, cs)" "one_creator cs" "ext_step now g cs cm cs'" "distinct (map m_Serial (cm_Messages cm))"
    and "\<forall>m \<in> set (cm_Messages cm). (\<exists>i. m_Serial m = MessageSerial (cm_ChannelSerial cm) (int i)) \<or>
      log_versions (log_of cs) (m_Serial m) \<noteq> [] \<and>
      m_ClientID m = m_ClientID (last (log_versions (log_of cs) (m_Serial m)))"
  shows "one_creator cs'"
  unfolding one_creator_def
proof (intro allI ballI)
  fix s v
  let ?old = "log_versions (log_of cs) s" and ?new = "filter (\<lambda>m. m_Serial m = s) (cm_Messages cm)"
  assume v: "v \<in> set (log_versions (log_of cs') s)"
  have L: "log_versions (log_of cs') s = ?old @ ?new" using ext_log [OF assms(3)] by simp
  have same: "w \<in> set ?old \<Longrightarrow> m_ClientID w = m_ClientID (hd ?old)" for w using assms(2) by (simp add: one_creator_def)
  show "m_ClientID v = m_ClientID (hd (log_versions (log_of cs') s))"
  proof (cases "v \<in> set ?old")
    case True
    then have "?old \<noteq> []" by auto
    with same [OF True] show ?thesis by (simp add: L)
  next
    case False
    with v have m: "v \<in> set (cm_Messages cm)" "m_Serial v = s" by (auto simp: L)
    then have single: "?new = [v]" using distinct_filter_single [OF assms(4) m(1)] by simp
    from assms(5) m consider (new) i where "s = MessageSerial (cm_ChannelSerial cm) (int i)"
      | (old) "?old \<noteq> []" "m_ClientID v = m_ClientID (last ?old)" by auto
    then show ?thesis
    proof cases
      case new
      then have "?old = []" using new_serial_versions [OF assms(1) ext_fresh [OF assms(3)]] by simp
      with single show ?thesis by (simp add: L)
    next
      case old
      with same [of "last ?old"] show ?thesis by (simp add: L)
    qed
  qed
qed

lemma exec_one_creator:
  assumes "mem_inv (g, cs)" "clock_ok now g" "one_creator cs" "exec ctxErr now op (g, cs) = ((g', cs'), r)"
  shows "one_creator cs'"
proof (cases "\<exists>c. r = Inr (c, False)")
  case False
  then have "cs' = cs" using assms(4) exec_error [of ctxErr now op g cs] exec_duplicate [of ctxErr now op g cs]
    by (cases r) auto
  with assms(3) show ?thesis by simp
next
  case True
  then obtain c where x: "exec ctxErr now op (g, cs) = ((g', cs'), Inr (c, False))" using assms(4) by auto
  from x obtain cm where cm: "c = Some cm" "ext_step now g cs cm cs'" "mem_inv (g', cs')"
    by (rule exec_fresh [OF assms(1,2)]) auto
  have "log_of cs' = log_of cs @ [cm]" by (rule ext_log [OF cm(2)])
  then have "cm \<in> set (log_of cs')" by simp
  then have dist: "distinct (map m_Serial (cm_Messages cm))"
    using logged_shape [OF cm(3)] by (simp add: cm_shape_def)
  have "\<forall>m \<in> set (cm_Messages cm). (\<exists>i. m_Serial m = MessageSerial (cm_ChannelSerial cm) (int i)) \<or>
      log_versions (log_of cs) (m_Serial m) \<noteq> [] \<and>
      m_ClientID m = m_ClientID (last (log_versions (log_of cs) (m_Serial m)))"
  proof (cases op)
    case (OpStore fresh ms)
    with x have "Store ctxErr now fresh ms (g, cs) = ((g', cs'), Inr (Some cm, False))" by (simp add: cm)
    then obtain ms1 where "cm_Messages cm = stampCreates (cm_ChannelSerial cm) 0 ms1"
      by (rule Store_fresh [OF assms(1,2)]) auto
    with stampCreates_sel [of "cm_ChannelSerial cm" 0 ms1] show ?thesis
      by (metis (no_types, lifting) imageE image_eqI list.set_map)
  next
    case (OpMutate mut)
    with x have "Mutate ctxErr now mut (g, cs) = ((g', cs'), Inr (Some cm, False))" by (simp add: cm)
    then obtain cur v where v: "map_of (cs_latest cs) (m_Serial mut) = Some cur" "cm_Messages cm = [v]"
      "MergeVersion cur mut (MessageSerial (cm_ChannelSerial cm) 0) = Inr v"
      by (rule Mutate_fresh [OF assms(1,2)]) auto
    have d: "derived_inv cs" "log_inv cs" using assms(1) by (simp_all add: mem_inv_def)
    note f = latest_version_facts(1,2) [OF d v(1)] and c = MergeVersion_carries(2,3) [OF v(3)]
    have "m_ClientID cur = m_ClientID (last (log_versions (log_of cs) (m_Serial mut)))"
      using d(1) v(1) f(1) by (auto simp: derived_inv_def log_latest_def)
    with f c v(2) show ?thesis by simp
  next
    case (OpAnnotation anns)
    with x cm(1) have "cm_Messages cm = []"
      by (auto simp: StoreAnnotation_def Let_def zeroChannelMessage_def split: if_splits option.splits prod.splits)
    then show ?thesis by simp
  next
    case (OpPresence ps)
    with x cm(1) have "cm_Messages cm = []"
      by (auto simp: StorePresence_def Let_def zeroChannelMessage_def split: if_splits option.splits prod.splits)
    then show ?thesis by simp
  qed
  with one_creator_fresh [OF assms(1,3) cm(2) dist] show ?thesis by simp
qed

lemma step_one_creator:
  assumes "storage_step s s'" "storage_inv s"
    and "\<forall>name cs. map_of (ms_channels s) name = Some cs \<longrightarrow> one_creator cs"
  shows "\<forall>name cs. map_of (ms_channels s') name = Some cs \<longrightarrow> one_creator cs"
  using assms(1)
proof (cases rule: storage_step.cases)
  case (open_channel now app name cs)
  have "one_creator (newChannelStore x)" for x
    by (simp add: one_creator_def newChannelStore_def log_versions_def log_messages_def log_of_def)
  with open_channel assms(3) show ?thesis
    by (auto simp: StorageChannel_def Let_def update_conv' split: option.splits prod.splits if_splits)
next
  case (write_channel now name cs ctxErr op st' r)
  obtain g' cs' where st: "st' = (g', cs')" by fastforce
  have "mem_inv (ms_gen s, cs)" using assms(2) write_channel(3) by (simp add: storage_inv_def)
  from exec_one_creator [OF this write_channel(2)] assms(3) write_channel(3,4) st have "one_creator cs'" by blast
  with assms(3) st show ?thesis by (auto simp: write_channel(1) putChannel_def update_conv' split: if_splits)
qed

lemma reachable_one_creator:
  assumes "reachable series s" "map_of (ms_channels s) name = Some cs"
  shows "one_creator cs"
proof -
  have "storage_step\<^sup>*\<^sup>* (NewStorage series) s" using assms(1) by (simp add: reachable_def)
  then have "storage_inv s \<and> (\<forall>name cs. map_of (ms_channels s) name = Some cs \<longrightarrow> one_creator cs)"
  proof (induction rule: rtranclp_induct)
    case base
    then show ?case by (simp add: storage_inv_def NewStorage_def)
  next
    case (step s s')
    then show ?case using storage_step_inv step_one_creator by blast
  qed
  with assms(2) show ?thesis by blast
qed

section \<open>Properties\<close>

lemma start_facts [simp]:
  "account (startConnection err (newConnection i k cl cap x hb ec)) = []"
  "conn_inv (startConnection err (newConnection i k cl cap x hb ec))"
  "cn_lastMsgSerial (startConnection err (newConnection i k cl cap x hb ec)) = - 1"
  by (simp_all add: account_def conn_inv_def startConnection_def newConnection_def)

text \<open>C5: the accounting of answers. Over every interleaving of the read loop, the publish worker
  and the attachments' goroutines of a connection, the ACKs and NACKs queued so far followed by
  the tasks still waiting are exactly the msgSerials accepted so far, in the order they were
  accepted: every accepted frame is answered at most once, in order, and none is forgotten. As
  long as the client counts through the non-negative int64 range these msgSerials increase
  strictly, so no msgSerial is answered twice.\<close>

theorem acks_in_order:
  assumes "conn_trace verify (m, startConnection err (newConnection i k cl cap x hb ec)) ns (m', c')"
  shows "answers (cn_outbound c') @ map taskSerial (cn_publishQ c') = ns \<and>
    ((\<forall>n \<in> set ns. msg_range n) \<longrightarrow> sorted_wrt (<) ns)"
  using trace_account [OF assms] trace_increasing [OF assms] account_def [of c'] by simp

text \<open>C22: the publish worker answers everything. With the store in a reachable state, every
  registered channel bound, and room in the clock for two serials per task, the worker runs
  through any queue of tasks without a panic and has then queued one answer per task, in
  order; a mutation must not carry an id of its own.\<close>

theorem worker_answers_all:
  assumes "reachable series (mg_store m)" "bound m" "room (2 * length es) (mg_store m)"
    and "\<forall>e \<in> set es. en_now e + 2 * int (length es) < 10 ^ 14"
    and "length (cn_publishQ c) = length es" "list_all plain (cn_publishQ c)"
  shows "\<exists>m' c'. drain es (m, c) = Some (m', c') \<and> cn_publishQ c' = [] \<and>
    answers (cn_outbound c') = answers (cn_outbound c) @ map taskSerial (cn_publishQ c)"
  using drain_total assms by (simp add: store_ok_def)


text \<open>The log of a channel, empty while the channel was never opened.\<close>

definition channel_log :: "string \<Rightarrow> Manager \<Rightarrow> ChannelMessage list" where
  "channel_log name m = (case map_of (ms_channels (mg_store m)) name of None \<Rightarrow> [] | Some cs \<Rightarrow> log_of cs)"

lemma GetChannel_log:
  assumes "bound m" "ManagerGetChannel storeErr now ch m = (m1, ok)"
  shows "channel_log name m1 = channel_log name m"
    and "map_of (ms_channels (mg_store m)) ch = None \<Longrightarrow> map_of (ms_channels (mg_store m1)) ch = Some cs \<Longrightarrow>
      cs_latest cs = []"
proof -
  have n: "log_of (newChannelStore x) = []" "cs_latest (newChannelStore x) = []" for x
    by (simp_all add: newChannelStore_def log_of_def)
  show "channel_log name m1 = channel_log name m"
    using assms n by (auto simp: ManagerGetChannel_def lookupOrReserve_def bindStore_def StorageChannel_def
        channel_log_def Let_def update_conv' split: option.splits if_splits prod.splits)
  show "map_of (ms_channels (mg_store m)) ch = None \<Longrightarrow> map_of (ms_channels (mg_store m1)) ch = Some cs \<Longrightarrow>
      cs_latest cs = []"
    using assms n by (auto simp: ManagerGetChannel_def lookupOrReserve_def bindStore_def StorageChannel_def
        Let_def update_conv' split: option.splits if_splits prod.splits)
qed

lemma writeChannel_other: "writeChannel e ch op m = (m', r) \<Longrightarrow> name \<noteq> ch \<Longrightarrow> channel_log name m' = channel_log name m"
  by (auto simp: writeChannel_def putChannel_def channel_log_def split: option.splits prod.splits)

lemma authorized_owner:
  assumes "reachable series (mg_store m)" "map_of (ms_channels (mg_store m)) ch = Some cs"
    and "LatestVersion ctxErr s cs = Inr latest"
  shows "log_versions (channel_log ch m) s \<noteq> [] \<and> m_ClientID (hd (log_versions (channel_log ch m) s)) = m_ClientID latest"
proof -
  let ?vs = "log_versions (log_of cs) s"
  have d: "derived_inv cs" using reachable_inv [OF assms(1,2)] by (simp add: mem_inv_def)
  have "log_latest (log_of cs) s = Some latest"
    using assms(3) d by (auto simp: LatestVersion_def derived_inv_def split: if_splits option.splits)
  then have l: "?vs \<noteq> []" "m_ClientID latest = m_ClientID (last ?vs)"
    by (auto simp: log_latest_def split: if_splits)
  then have "last ?vs \<in> set ?vs" by simp
  then have "m_ClientID (last ?vs) = m_ClientID (hd ?vs)"
    using reachable_one_creator [OF assms(1,2)] unfolding one_creator_def by blast
  with l assms(2) show ?thesis by (simp add: channel_log_def)
qed

lemma authorize_None:
  assumes "reachable series (mg_store m)" "bound m" "ManagerGetChannel storeErr now ch m = (m1, ok)"
    and "map_of (ms_channels (mg_store m1)) ch = Some cs" "authorizeMutation ctxErr c cs ch mut = None"
  shows "Permits (cn_cap c) ch (snd (mutationOps (m_Action mut))) \<or>
    Permits (cn_cap c) ch (fst (mutationOps (m_Action mut))) \<and> cn_clientID c \<noteq> [] \<and>
    cn_clientID c \<noteq> WildcardClientID \<and> log_versions (channel_log ch m) (m_Serial mut) \<noteq> [] \<and>
    m_ClientID (hd (log_versions (channel_log ch m) (m_Serial mut))) = cn_clientID c"
proof (cases "Permits (cn_cap c) ch (snd (mutationOps (m_Action mut)))")
  case False
  with assms(5) obtain latest where own: "Permits (cn_cap c) ch (fst (mutationOps (m_Action mut)))"
    "LatestVersion ctxErr (m_Serial mut) cs = Inr latest" "ownsMessage (cn_clientID c) (m_ClientID latest)"
    by (auto simp: authorizeMutation_def MutationGrant_def case_prod_beta
        split: if_splits sum.splits storage_error.splits)
  have "map_of (ms_channels (mg_store m)) ch = Some cs"
  proof (cases "map_of (ms_channels (mg_store m)) ch")
    case None
    from GetChannel_log(2) [OF assms(2,3) None assms(4)] own(2) show ?thesis
      by (simp add: LatestVersion_def split: if_splits)
  next
    case (Some cs0)
    with GetChannel_bound [OF assms(2,3)] assms(4) show ?thesis by (metis option.distinct(1))
  qed
  from authorized_owner [OF assms(1) this own(2)] own show ?thesis by (auto simp: ownsMessage_def)
qed simp

text \<open>C9: who may change a message. If the mutation worker changes a channel's log at all, then
  the connection's capability grants the operation on any message of the channel, or it grants
  it on own messages and the message was created under exactly the connection's clientId, which
  is neither anonymous nor the wildcard. No other channel's log changes.\<close>

theorem mutation_needs_grant:
  assumes "reachable series (mg_store m)" "bound m" "mutationOps (m_Action mut) = (ownOp, anyOp)"
    and "runMutate e n ch mut (m, c) = Some (m', c')" "channel_log name m' \<noteq> channel_log name m"
  shows "name = ch \<and> (Permits (cn_cap c) ch anyOp \<or>
    Permits (cn_cap c) ch ownOp \<and> cn_clientID c \<noteq> [] \<and> cn_clientID c \<noteq> WildcardClientID \<and>
    (\<exists>v vs. log_versions (channel_log ch m) (m_Serial mut) = v # vs \<and> m_ClientID v = cn_clientID c))"
proof -
  obtain m1 ok where g: "ManagerGetChannel (en_chErr e) (en_now e) ch m = (m1, ok)" by fastforce
  note l1 = GetChannel_log(1) [OF assms(2) g]
  obtain m2 r where w: "writeChannel e ch (OpMutate mut) m1 = (m2, r)" by fastforce
  obtain cs where cs: "map_of (ms_channels (mg_store m1)) ch = Some cs" "m' = m1 \<or>
      m' = m2 \<and> authorizeMutation (en_ctxErr e) c cs ch mut = None"
    using assms(4) g w l1 assms(5) by (auto simp: runMutate_def split: if_splits option.splits sum.splits list.splits)
  with assms(5) l1 have a: "m' = m2" "authorizeMutation (en_ctxErr e) c cs ch mut = None" by auto
  have "name = ch" using writeChannel_other [OF w] l1 assms(5) a(1) by metis
  with authorize_None [OF assms(1,2) g cs(1) a(2)] assms(3) show ?thesis
    by (cases "log_versions (channel_log ch m) (m_Serial mut)") auto
qed

section \<open>Concrete runs\<close>

definition demo_env :: env where
  "demo_env = \<lparr>en_now = 6, en_fresh = ''fr'', en_chErr = False, en_ctxErr = False\<rparr>"

definition demo_conn :: connection where
  "demo_conn = startConnection None (newConnection ''c1'' ''c1-key'' ''amy''
     [(''room'', [''publish'', ''subscribe'', ''presence'', ''message-update-own''])] 0 15000000000 True)"

definition demo_verify :: "string \<Rightarrow> auth_error + Principal" where
  "demo_verify tok = Inl ErrInvalidToken"

definition demo_frame :: "int \<Rightarrow> ProtocolMessage" where
  "demo_frame n = (frame ActionMessage)\<lparr>pm_MsgSerial := Some n, pm_Channel := Some ''room'',
     pm_Messages := [zeroMessage\<lparr>m_Data := AnyStr ''hi''\<rparr>]\<rparr>"

definition demo_queued :: sys where
  "demo_queued = dispatch demo_verify demo_env (demo_frame 7) (NewManager demo1, demo_conn)"

definition demo_done :: sys where
  "demo_done = the (publishLoop demo_env demo_queued)"

lemma demo_runs:
  "publishLoop demo_env demo_queued = Some demo_done" "cn_publishQ (snd demo_queued) \<noteq> []"
  "accepted (demo_frame 7) demo_conn = [7]"
  by code_simp+

lemma demo_trace: "conn_trace demo_verify (NewManager demo1, demo_conn) [7] (fst demo_done, snd demo_done)"
proof -
  have "conn_step demo_verify (NewManager demo1, demo_conn) (accepted (demo_frame 7) demo_conn) demo_queued"
    unfolding demo_queued_def
    by (rule conn_step.recv) (simp add: demo_conn_def startConnection_def newConnection_def publishQCap_def)
  then have s1: "conn_trace demo_verify (NewManager demo1, demo_conn) [7] demo_queued"
    using conn_trace.more [OF conn_trace.idle] by (simp add: demo_runs)
  obtain m c where q: "demo_queued = (m, c)" by fastforce
  have "conn_step demo_verify demo_queued [] demo_done"
    using demo_runs(1,2) unfolding q by (intro conn_step.work) simp_all
  from conn_trace.more [OF s1 this] show ?thesis by simp
qed

theorem acks_in_order_witness:
  "answers (cn_outbound (snd demo_done)) @ map taskSerial (cn_publishQ (snd demo_done)) = [7] \<and>
     sorted_wrt (<) [7 :: int]"
  using acks_in_order [OF demo_trace [unfolded demo_conn_def]]
  by (simp add: msg_range_def)


theorem worker_answers_all_witness:
  "\<exists>m' c'. drain [demo_env] demo_queued = Some (m', c') \<and> cn_publishQ c' = [] \<and>
    answers (cn_outbound c') = [7]"
proof -
  have q: "fst demo_queued = NewManager demo1" by (simp add: demo_queued_def dispatch_def demo_frame_def gated_def frame_def split: prod.split)
  have a: "length (cn_publishQ (snd demo_queued)) = length [demo_env]" "list_all plain (cn_publishQ (snd demo_queued))"
    "map taskSerial (cn_publishQ (snd demo_queued)) = [7]" "answers (cn_outbound (snd demo_queued)) = []"
    by code_simp+
  have "reachable ''ab'' (mg_store (fst demo_queued))" "bound (fst demo_queued)"
    "room (2 * length [demo_env]) (mg_store (fst demo_queued))"
    by (simp_all add: q bound_def NewManager_def demo_reachable room_def demo_gens gen_inv_def width_defs)
  from worker_answers_all [OF this _ a(1,2)] a show ?thesis by (simp add: demo_env_def)
qed

theorem mutation_needs_grant_witness:
  "\<exists>v vs. log_versions (channel_log ''room'' (NewManager demo1)) demo_target = v # vs \<and> m_ClientID v = ''amy''"
proof -
  have "case runMutate demo_env 1 ''room'' demo_append (NewManager demo1, demo_conn) of None \<Rightarrow> False
    | Some (m', c') \<Rightarrow> channel_log ''room'' m' \<noteq> channel_log ''room'' (NewManager demo1)"
    by code_simp
  then obtain m' c' where r: "runMutate demo_env 1 ''room'' demo_append (NewManager demo1, demo_conn) = Some (m', c')"
    "channel_log ''room'' m' \<noteq> channel_log ''room'' (NewManager demo1)" by (auto split: option.splits)
  have "reachable ''ab'' (mg_store (NewManager demo1))" by (simp add: NewManager_def demo_reachable)
  note t = mutation_needs_grant [OF this bound_new prod.collapse [symmetric] r]
  have "\<not> Permits (cn_cap demo_conn) ''room'' (snd (mutationOps (m_Action demo_append)))"
    "cn_clientID demo_conn = ''amy''" "m_Serial demo_append = demo_target" by code_simp+
  with t show ?thesis by simp
qed

section \<open>Where the connection falls short\<close>

text \<open>A mutation whose message reuses the id of a logged presence event is answered with that
  event's ChannelMessage, which has no messages; the worker indexes its first message and the
  process panics.\<close>

theorem mutation_id_clash_panics:
  "runMutate demo_env 1 ''room'' (demo_append\<lparr>m_ID := ''c1:0:0''\<rparr>)
     (NewManager (do_write 6 (OpPresence [zeroPresence\<lparr>p_Action := PresenceEnter, p_ClientID := ''amy'',
        p_ConnectionID := ''c1'', p_ID := ''c1:0:0''\<rparr>]) demo1), demo_conn) = None"
  by code_simp

text \<open>DETACH publishes the leaves of a channel at once, from the read loop, while an ENTER accepted
  before it still waits for the worker: the member enters after it has left, and the connection
  no longer records it, so that its teardown does not remove it either.\<close>

definition demo_attach_frame :: ProtocolMessage where
  "demo_attach_frame = (frame ActionAttach)\<lparr>pm_Channel := Some ''room''\<rparr>"

definition demo_enter :: ProtocolMessage where
  "demo_enter = (frame ActionPresence)\<lparr>pm_MsgSerial := Some 0, pm_Channel := Some ''room'',
     pm_Presence := [zeroPresence\<lparr>p_Action := PresenceEnter\<rparr>]\<rparr>"

definition demo_detach :: ProtocolMessage where
  "demo_detach = (frame ActionDetach)\<lparr>pm_Channel := Some ''room''\<rparr>"

definition demo_overtaken :: sys where
  "demo_overtaken = emitTeardownLeaves demo_env (the (publishLoop demo_env
     (foldl (\<lambda>s f. dispatch demo_verify demo_env f s) (NewManager demo0, demo_conn)
       [demo_attach_frame, demo_enter, demo_detach])))"

theorem detach_overtakes_enter:
  "map p_ClientID (map snd (cs_members (demo_cs (mg_store (fst demo_overtaken))))) = [''amy''] \<and>
     cn_attachments (snd demo_overtaken) = [] \<and> cn_entered (snd demo_overtaken) = []"
  by code_simp

text \<open>The msgSerial gate forgets its baseline at two values a client may send: after -1 and after
  the largest int64 the same frame passes again and is answered a second time.\<close>

theorem msg_serial_gate_reopens:
  assumes "n = - 1 \<or> n = 2 ^ 63 - 1" "cn_lastMsgSerial c = - 1"
  shows "snd (acceptMsgSerial n c) \<and> snd (acceptMsgSerial n (fst (acceptMsgSerial n c)))"
  using assms by (auto simp: acceptMsgSerial_def wrap64_def)

theorem msg_serial_gate_reopens_witness:
  "snd (acceptMsgSerial (2 ^ 63 - 1) (fst (acceptMsgSerial (2 ^ 63 - 1) demo_conn)))"
  using msg_serial_gate_reopens [of "2 ^ 63 - 1" demo_conn]
  by (simp add: demo_conn_def startConnection_def newConnection_def queue_def)

end
