(* ===== verification/SessionLaws.thy ===== *)
theory SessionLaws
  imports Sessions Worker
begin

text \<open>
  What connection keys, the registry, the delayed leaves, the token timer and the shutdown
  guarantee.
\<close>

section \<open>Keys and identity\<close>

lemma length_b64: "length (b64encode xs) = (length xs * 4 + 2) div 3"
  by (induction xs rule: b64encode.induct) simp_all

lemma suffix_length:
  "length (hmac secret connID) = 32 \<Longrightarrow> length (connectionKeySuffix hmac secret connID) = 12"
  by (simp add: connectionKeySuffix_def connectionKeySuffixBytes_def length_b64)

lemma verify_iff:
  assumes "\<And>i. length (hmac secret i) = 32"
  shows "VerifyConnectionKey hmac secret key = Some connID \<longleftrightarrow>
    ValidConnectionID connID \<and> key = NewConnectionKey hmac secret connID"
proof
  assume "VerifyConnectionKey hmac secret key = Some connID"
  then have "connID = take 12 key" "ValidConnectionID connID" "drop 12 key = connectionKeySuffix hmac secret connID"
    by (auto simp: VerifyConnectionKey_def Let_def split: if_splits)
  then show "ValidConnectionID connID \<and> key = NewConnectionKey hmac secret connID"
    by (metis NewConnectionKey_def append_take_drop_id)
next
  assume "ValidConnectionID connID \<and> key = NewConnectionKey hmac secret connID"
  moreover have "length (connectionKeySuffix hmac secret connID) = 12" using suffix_length [of hmac secret connID] assms by simp
  ultimately show "VerifyConnectionKey hmac secret key = Some connID"
    by (simp add: VerifyConnectionKey_def NewConnectionKey_def ValidConnectionID_def Let_def)
qed

section \<open>The registry\<close>

datatype reg_op = Register nat string | Deregister nat string

fun reg_run :: "reg_op list \<Rightarrow> registry \<Rightarrow> registry" where
  "reg_run [] r = r"
| "reg_run (Register h i # ops) r = reg_run ops (register h i r)"
| "reg_run (Deregister h i # ops) r = reg_run ops (deregister h i r)"

text \<open>\<open>HandleWebSocket\<close> registers a connection once, under a handle of its own, and deregisters it
  under the same connectionId.\<close>

fun reg_ok :: "reg_op list \<Rightarrow> nat set \<Rightarrow> registry \<Rightarrow> bool" where
  "reg_ok [] used r = True"
| "reg_ok (Register h i # ops) used r = (h \<notin> used \<and> reg_ok ops (insert h used) (register h i r))"
| "reg_ok (Deregister h i # ops) used r = (map_of (rg_ids r) h = Some i \<and> reg_ok ops used (deregister h i r))"

definition reg_inv :: "nat set \<Rightarrow> registry \<Rightarrow> bool" where
  "reg_inv used r \<longleftrightarrow> (\<forall>i h. map_of (rg_byKey r) i = Some h \<longrightarrow> map_of (rg_ids r) h = Some i) \<and>
     (\<forall>h. map_of (rg_ids r) h \<noteq> None \<longrightarrow> h \<in> used)"

lemma reg_run_inv:
  "reg_ok ops used r \<Longrightarrow> reg_inv used r \<Longrightarrow> \<exists>used'. reg_inv used' (reg_run ops r)"
proof (induction ops arbitrary: used r)
  case (Cons opn ops)
  show ?case
  proof (cases opn)
    case (Register h i)
    with Cons.prems have "reg_inv (insert h used) (register h i r)"
      by (auto simp: reg_inv_def register_def)
    with Register Cons.IH [of "insert h used" "register h i r"] Cons.prems show ?thesis by simp
  next
    case (Deregister h i)
    with Cons.prems have "reg_inv used (deregister h i r)"
      by (auto simp: reg_inv_def deregister_def split: if_splits) (metis option.inject)
    with Deregister Cons.IH [of used "deregister h i r"] Cons.prems show ?thesis by simp
  qed
qed auto

section \<open>Members of a channel\<close>

definition members_of :: "channelStore \<Rightarrow> PresenceMessage set" where
  "members_of cs = snd ` set (cs_members cs)"

lemma foldMember_keyed:
  assumes "gmap_ok ms" "\<forall>(k, p) \<in> set ms. k = member_of p"
  shows "gmap_ok (foldl foldMember ms ps) \<and> (\<forall>(k, p) \<in> set (foldl foldMember ms ps). k = member_of p)"
  using assms
proof (induction ps arbitrary: ms)
  case (Cons q ps)
  have "gmap_ok (foldMember ms q)" using Cons.prems by (simp add: foldMember_def Let_def)
  moreover have "\<forall>(k, p) \<in> set (foldMember ms q). k = member_of p"
    using Cons.prems by (auto simp: foldMember_def Let_def member_of_def dest!: gput_memD gdel_memD split: if_splits)
  ultimately show ?case using Cons.IH by simp
qed simp

lemma members_keyed:
  assumes "mem_inv (g, cs)"
  shows "gmap_ok (cs_members cs)" "(k, p) \<in> set (cs_members cs) \<Longrightarrow> k = member_of p"
  using foldMember_keyed [of "[]" "log_presence (log_of cs)"] assms
  by (auto simp: mem_inv_def derived_inv_def log_members_def)

lemma member_iff:
  assumes "mem_inv (g, cs)"
  shows "p \<in> members_of cs \<longleftrightarrow> map_of (cs_members cs) (member_of p) = Some p"
  using members_keyed [OF assms] by (force simp: members_of_def gmap_ok_mem)

lemma numbered_mem:
  assumes "numbered s xs" "x \<in> set xs"
  shows "\<exists>i. x = MessageSerial s (int i)"
proof -
  obtain i where i: "i < length xs" "x = xs ! i" using assms(2) by (auto simp: in_set_conv_nth)
  have "xs ! i = map (\<lambda>i. MessageSerial s (int i)) [0 ..< length xs] ! i"
    using assms(1) unfolding numbered_def by (rule arg_cong)
  with i show ?thesis by auto
qed

lemma member_serial:
  assumes "mem_inv (g, cs)" "p \<in> members_of cs"
  shows "p_Serial p \<noteq> []"
proof -
  have "log_members (log_of cs) = cs_members cs" using assms(1) by (simp add: mem_inv_def derived_inv_def)
  then have "map_of (foldl foldMember [] (log_presence (log_of cs))) (member_of p) = Some p"
    using assms member_iff by (simp add: log_members_def)
  then have "p \<in> set (filter (\<lambda>q. member_of q = member_of p) (log_presence (log_of cs)))"
    unfolding foldMember_last Let_def by (metis last_in_set option.distinct(1) option.inject)
  then obtain cm where cm: "cm \<in> set (log_of cs)" "p \<in> set (cm_Presence cm)" by (auto simp: log_presence_def)
  then have "numbered (cm_ChannelSerial cm) (map p_Serial (cm_Presence cm))"
    using logged_shape [OF assms(1)] by (simp add: cm_shape_def)
  from numbered_mem [OF this, of "p_Serial p"] cm(2) show ?thesis by (auto simp: MessageSerial_def)
qed

lemma Members_set: "Members False cs = Inr (ms, s) \<Longrightarrow> set ms = members_of cs"
  by (force simp: Members_def members_of_def)

text \<open>The members of a connection, when no two entries share a connection and a client.\<close>

lemma owned_snoc:
  "ownedMembers connID (ms @ [p]) = (if p_ConnectionID p = connID
     then gput (p_ClientID p) (p_Serial p) (ownedMembers connID ms) else ownedMembers connID ms)"
  "ownedMembers connID [] = []"
  by (simp_all add: ownedMembers_def)

lemma owned_ok: "gmap_ok (ownedMembers connID ms)"
  by (induction ms rule: rev_induct) (simp_all add: owned_snoc)

lemma owned_map:
  assumes "\<And>p q. p \<in> set ms \<Longrightarrow> q \<in> set ms \<Longrightarrow> p_ConnectionID p = p_ConnectionID q \<Longrightarrow>
    p_ClientID p = p_ClientID q \<Longrightarrow> p = q"
  shows "map_of (ownedMembers connID ms) cl = Some s \<longleftrightarrow>
    (\<exists>p \<in> set ms. p_ConnectionID p = connID \<and> p_ClientID p = cl \<and> p_Serial p = s)"
  using assms
proof (induction ms rule: rev_induct)
  case (snoc p ms)
  have IH: "map_of (ownedMembers connID ms) cl = Some s \<longleftrightarrow>
    (\<exists>p \<in> set ms. p_ConnectionID p = connID \<and> p_ClientID p = cl \<and> p_Serial p = s)"
    by (rule snoc.IH) (rule snoc.prems; simp)
  show ?case
  proof (cases "p_ConnectionID p = connID \<and> p_ClientID p = cl")
    case True
    then have "q = p" if "q \<in> set ms" "p_ConnectionID q = connID" "p_ClientID q = cl" for q
      using snoc.prems [of q p] that by simp
    with True show ?thesis by (auto simp: owned_snoc)
  next
    case False
    then have "map_of (ownedMembers connID (ms @ [p])) cl = map_of (ownedMembers connID ms) cl"
      by (auto simp: owned_snoc)
    with IH False show ?thesis by auto
  qed
qed (simp add: owned_snoc)

lemma owned_members:
  assumes "mem_inv (g, cs)" "Members False cs = Inr (ms, s)"
  shows "map_of (ownedMembers connID ms) cl = Some x \<longleftrightarrow>
      (\<exists>p \<in> members_of cs. p_ConnectionID p = connID \<and> p_ClientID p = cl \<and> p_Serial p = x)"
proof -
  have "p = q" if "p \<in> set ms" "q \<in> set ms" "p_ConnectionID p = p_ConnectionID q" "p_ClientID p = p_ClientID q" for p q
    using that member_iff [OF assms(1)] unfolding Members_set [OF assms(2)] member_of_def by (metis option.inject)
  from owned_map [of ms connID cl x, OF this] show ?thesis unfolding Members_set [OF assms(2)] .
qed

lemma leaves_members:
  "map_of (foldl foldMember ms (stampPresence ser i (map (leaveOf connID) cls))) k =
     (if k \<in> MemberKey connID ` set cls then None else map_of ms k)"
  by (induction cls arbitrary: ms i)
    (auto simp: foldMember_def Let_def StampPresenceMember_def leaveOf_def zeroPresence_def)

lemma StorePresence_leaves:
  assumes "cls \<noteq> []"
  shows "map_of (cs_members (snd (fst (StorePresence False now (map (leaveOf connID) cls) (g, cs))))) k =
    (if k \<in> MemberKey connID ` set cls then None else map_of (cs_members cs) k)"
proof -
  have n: "seenID (cs_byID cs) (map (p_ID \<circ> leaveOf connID) cls) = None"
    by (simp add: seenID_None leaveOf_def zeroPresence_def)
  show ?thesis
    using assms n by (simp add: StorePresence_def Let_def case_prod_beta indexPresences_maps leaves_members)
qed

lemma fire_members:
  assumes "reachable series (mg_store m)" "bound m" "\<not> en_chErr e" "\<not> en_ctxErr e"
    and "map_of (ms_channels (mg_store m)) channel = Some cs"
    and "gmap_ok owned" "\<forall>x \<in> snd ` set owned. x \<noteq> []"
  shows "\<exists>cs'. map_of (ms_channels (mg_store (fireConnectionLeaves e connID channel owned m))) channel = Some cs' \<and>
    (\<forall>k p. map_of (cs_members cs') k = Some p \<longleftrightarrow> map_of (cs_members cs) k = Some p \<and>
       \<not> (p_ConnectionID p = connID \<and> map_of owned (p_ClientID p) = Some (p_Serial p)))"
proof -
  obtain m1 ok where g: "ManagerGetChannel (en_chErr e) (en_now e) channel m = (m1, ok)" by fastforce
  have ok: "ok" and cs: "map_of (ms_channels (mg_store m1)) channel = Some cs"
    using GetChannel_bound [OF assms(2) g] assms(3,5) by simp_all
  have inv: "mem_inv (ms_gen (mg_store m), cs)" by (rule reachable_inv [OF assms(1,5)])
  obtain ms asOf where ms: "Members False cs = Inr (ms, asOf)" by (auto simp: Members_def)
  note cur = owned_members [OF inv ms, of connID]
  define cls where "cls = map fst (filter (\<lambda>(cl, x). gget [] (ownedMembers connID ms) cl = x) owned)"
  have lv: "map (\<lambda>(cl, x). leaveOf connID cl) (filter (\<lambda>(cl, x). gget [] (ownedMembers connID ms) cl = x) owned) =
      map (leaveOf connID) cls"
    and ne: "filter (\<lambda>(cl, x). gget [] (ownedMembers connID ms) cl = x) owned = [] \<longleftrightarrow> cls = []"
    by (simp_all add: cls_def case_prod_beta)
  have leaving: "cl \<in> set cls \<longleftrightarrow> (\<exists>p \<in> members_of cs. p_ConnectionID p = connID \<and> p_ClientID p = cl \<and>
      map_of owned cl = Some (p_Serial p))" for cl
  proof -
    have "cl \<in> set cls \<longleftrightarrow> (\<exists>x. (cl, x) \<in> set owned \<and> gget [] (ownedMembers connID ms) cl = x)"
      by (force simp: cls_def)
    also have "\<dots> \<longleftrightarrow> (\<exists>x. map_of owned cl = Some x \<and> map_of (ownedMembers connID ms) cl = Some x)"
      using assms(6,7) by (force simp: gmap_ok_mem gget_def split: option.splits)
    also have "\<dots> \<longleftrightarrow> (\<exists>p \<in> members_of cs. p_ConnectionID p = connID \<and> p_ClientID p = cl \<and>
        map_of owned cl = Some (p_Serial p))" unfolding cur by auto
    finally show ?thesis .
  qed
  have gone: "k \<in> MemberKey connID ` set cls \<longleftrightarrow> p_ConnectionID p = connID \<and> map_of owned (p_ClientID p) = Some (p_Serial p)"
    if p: "map_of (cs_members cs) k = Some p" for k p
  proof -
    have k: "k = member_of p" using members_keyed [OF inv] p by (auto dest: map_of_SomeD)
    then have pm: "p \<in> members_of cs" using p member_iff [OF inv] by simp
    have "q = p" if "q \<in> members_of cs" "member_of q = k" for q
      using that p k member_iff [OF inv, of q] by simp
    then show ?thesis using pm k unfolding member_of_def image_iff Bex_def leaving
      by (metis member_of_def)
  qed
  show ?thesis
  proof (cases "cls = []")
    case True
    then have "fireConnectionLeaves e connID channel owned m = m1"
      using g ok cs ms lv ne assms(4) by (simp add: fireConnectionLeaves_def Let_def)
    moreover have "k \<notin> MemberKey connID ` set cls" for k using True by simp
    ultimately show ?thesis using cs gone by auto
  next
    case False
    let ?st = "fst (StorePresence False (en_now e) (map (leaveOf connID) cls) (ms_gen (mg_store m1), cs))"
    have "map_of (ms_channels (mg_store (fireConnectionLeaves e connID channel owned m))) channel = Some (snd ?st)"
      using g ok cs ms lv ne False assms(4)
      by (simp add: fireConnectionLeaves_def Let_def writeChannel_def putChannel_def case_prod_beta)
    with StorePresence_leaves [OF False, of "en_now e" connID "ms_gen (mg_store m1)" cs] gone show ?thesis by auto
  qed
qed

lemma capture_owned:
  assumes "mem_inv (g, cs)" "Members False cs = Inr (ms, asOf)"
  shows "\<forall>x \<in> snd ` set (ownedMembers connID ms). x \<noteq> []"
proof -
  have "x \<noteq> []" if "(cl, x) \<in> set (ownedMembers connID ms)" for cl x
    using that owned_members [OF assms, of connID cl x] member_serial [OF assms(1)] owned_ok [of connID ms]
    by (auto simp: gmap_ok_mem)
  then show ?thesis by auto
qed

section \<open>The token timer\<close>

text \<open>The loop when no re-authentication arrives: each timer fires at its deadline, or at once when
  that is past.\<close>

fun phase :: "auth_wait \<Rightarrow> nat" where
  "phase (WaitPrompt _) = 2" | "phase (WaitExpiry _) = 1" | "phase _ = 0"

function timers :: "int \<Rightarrow> auth_wait \<Rightarrow> (int \<times> ProtocolMessage) list" where
  "timers now w =
     (case authDeadline w of
        None \<Rightarrow> []
      | Some d \<Rightarrow> let t = max now d in
          map (Pair t) (snd (authLoop t TimerFired w)) @ timers t (fst (authLoop t TimerFired w)))"
  by pat_completeness auto
termination
proof (relation "measure (\<lambda>(now, w). phase w)")
  fix now w d t
  assume "authDeadline w = Some d"
  then show "((t, fst (authLoop t TimerFired w)), now, w) \<in> measure (\<lambda>(now, w). phase w)" by (cases w) auto
qed simp

lemmas timers_simps = timers.simps [of _ WaitReauth] timers.simps [of _ AuthDone]
  timers.simps [of _ "WaitPrompt _"] timers.simps [of _ "WaitExpiry _"]

section \<open>Pacing\<close>

lemma pacing_fits:
  assumes "now < dl" "int k * iv < dl - now" "0 \<le> iv" "length cs = Suc k"
  shows "\<exists>ts. shutdownLoop race iv (Some dl) now cs = map2 Disconnect ts cs \<and>
    length ts = length cs \<and> (\<forall>t \<in> set ts. now \<le> t \<and> t < dl)"
  using assms
proof (induction race iv "Some dl" now cs arbitrary: k rule: shutdownLoop.induct)
  case (2 race iv now c)
  then show ?case by (intro exI [of _ "[now]"]) simp
next
  case (3 race iv now c c' cs)
  then obtain j where k: "k = Suc j" "length (c' # cs) = Suc j" by auto
  have "int k * iv = iv + int j * iv" using k by (simp add: algebra_simps)
  moreover have "0 \<le> int j * iv" using 3(5) by simp
  ultimately have t: "now + iv < dl" "int j * iv < dl - (now + iv)" using 3(4) by linarith+
  then obtain ts where ts: "shutdownLoop race iv (Some dl) (now + iv) (c' # cs) = map2 Disconnect ts (c' # cs)"
    "length ts = length (c' # cs)" "\<forall>t \<in> set ts. now + iv \<le> t \<and> t < dl"
    using 3(2) [of dl j] k 3(5) by auto
  have "shutdownLoop race iv (Some dl) now (c # c' # cs) = map2 Disconnect (now # ts) (c # c' # cs)"
    using ts(1) t by simp
  moreover have "\<forall>t \<in> set (now # ts). now \<le> t \<and> t < dl" using ts(3) 3(3,5) by auto
  ultimately show ?case using ts(2) by (metis length_Cons)
qed simp

section \<open>Properties\<close>

text \<open>Connection keys. With an HMAC of 32 bytes, a key authenticates a connectionId exactly when
  the id is well-formed and the key is the one this process issues for it: every issued key is
  accepted for its own id and no other string is, in particular not the bare connectionId.\<close>

theorem connection_key_roundtrip:
  assumes "\<forall>i. length (hmac secret i) = 32"
  shows "VerifyConnectionKey hmac secret key = Some connID \<longleftrightarrow>
    ValidConnectionID connID \<and> key = NewConnectionKey hmac secret connID"
  using verify_iff assms by blast

theorem connection_key_roundtrip_witness:
  "VerifyConnectionKey (\<lambda>s i. replicate 32 7) ''s'' (NewConnectionKey (\<lambda>s i. replicate 32 7) ''s'' ''abcdefghijkl'') =
     Some ''abcdefghijkl''"
proof -
  have "ValidConnectionID ''abcdefghijkl''" by code_simp
  with connection_key_roundtrip [of "\<lambda>s i. replicate 32 7" "''s''"] show ?thesis by simp
qed

text \<open>A REST request publishes on behalf of live connections only. After any sequence of
  registrations and deregistrations, each connection under a handle of its own, a key resolves
  only to the connectionId it was issued for, and only while a registered connection holds it.\<close>

theorem resolved_key_is_live:
  assumes "\<forall>i. length (hmac secret i) = 32" "reg_ok ops {} \<lparr>rg_ids = [], rg_byKey = []\<rparr>"
    and "r = reg_run ops \<lparr>rg_ids = [], rg_byKey = []\<rparr>" "ResolveConnectionKey hmac secret key r = Some connID"
  shows "key = NewConnectionKey hmac secret connID \<and> (\<exists>h. map_of (rg_ids r) h = Some connID)"
proof -
  have "reg_inv {} \<lparr>rg_ids = [], rg_byKey = []\<rparr>" by (simp add: reg_inv_def)
  from reg_run_inv [OF assms(2) this] obtain used where "reg_inv used r" using assms(3) by blast
  moreover obtain h where "VerifyConnectionKey hmac secret key = Some connID" "map_of (rg_byKey r) connID = Some h"
    using assms(4) by (auto simp: ResolveConnectionKey_def split: option.splits)
  ultimately show ?thesis using verify_iff [of hmac secret key connID] assms(1) by (auto simp: reg_inv_def)
qed

theorem resolved_key_is_live_witness:
  "\<exists>h. map_of (rg_ids (reg_run [Register 1 ''abcdefghijkl'', Register 2 ''abcdefghijkl'', Deregister 1 ''abcdefghijkl'']
     \<lparr>rg_ids = [], rg_byKey = []\<rparr>)) h = Some ''abcdefghijkl''"
proof -
  let ?ops = "[Register 1 ''abcdefghijkl'', Register 2 ''abcdefghijkl'', Deregister 1 ''abcdefghijkl'']"
  let ?h = "\<lambda>s i. replicate 32 7"
  have "ResolveConnectionKey ?h ''s'' (NewConnectionKey ?h ''s'' ''abcdefghijkl'')
      (reg_run ?ops \<lparr>rg_ids = [], rg_byKey = []\<rparr>) = Some ''abcdefghijkl''" by code_simp
  moreover have "reg_ok ?ops {} \<lparr>rg_ids = [], rg_byKey = []\<rparr>" by code_simp
  ultimately show ?thesis using resolved_key_is_live [of ?h "''s''" ?ops] by simp
qed

text \<open>C34: what an opened connection may claim. A connection is opened only for a request that
  authenticated; it holds the capability and expiry of that credential and the clientId the
  credential allows for the request, its key verifies to its own connectionId whenever the fresh
  id is well-formed, and its connectionId is the fresh one unless the request presented the
  issued key of that connectionId.\<close>

theorem opened_connection_identity:
  assumes "\<forall>i. length (hmac secret i) = 32" "ValidConnectionID fresh"
    and "HandleWebSocket hmac secret hb fresh query authres upgraded = Opened c"
  shows "(\<exists>p. authres = Inr p \<and> cn_cap c = pr_cap p \<and> cn_tokenExpiry c = pr_ExpiresAt p \<and>
      ResolveClientID p (gget [] query ''clientId'') = Inr (cn_clientID c)) \<and>
    VerifyConnectionKey hmac secret (cn_key c) = Some (cn_id c) \<and>
    (cn_id c = fresh \<or> NewConnectionKey hmac secret (cn_id c) \<in>
       {gget [] query ''resume'', gget [] query ''recover''})"
proof -
  obtain connID err where r: "resumeIdentity hmac secret fresh query = (connID, err)" by fastforce
  have v: "VerifyConnectionKey hmac secret k = Some i \<longleftrightarrow> ValidConnectionID i \<and> k = NewConnectionKey hmac secret i" for k i
    using verify_iff assms(1) by blast
  have i: "ValidConnectionID connID \<and> (connID = fresh \<or> NewConnectionKey hmac secret connID \<in>
       {gget [] query ''resume'', gget [] query ''recover''})"
    using r assms(2) v by (auto simp: resumeIdentity_def Let_def split: if_splits option.splits)
  show ?thesis
    using assms(3) r i v
    by (auto simp: HandleWebSocket_def Let_def newConnection_def startConnection_def queue_def
        split: if_splits sum.splits prod.splits)
qed

theorem opened_connection_identity_witness:
  "case HandleWebSocket (\<lambda>s i. replicate 32 7) ''s'' 15000000000 ''abcdefghijkl'' [(''clientId'', ''amy'')]
     (Inr \<lparr>pr_Method = MethodBasic, pr_ClientID = [], pr_HasClientID = False, pr_cap = [], pr_ExpiresAt = 0\<rparr>) True of
     Opened c \<Rightarrow> VerifyConnectionKey (\<lambda>s i. replicate 32 7) ''s'' (cn_key c) = Some (cn_id c) | _ \<Rightarrow> False"
proof -
  let ?h = "\<lambda>s i. replicate 32 7" and ?q = "[(''clientId'', ''amy'')]"
  let ?p = "\<lparr>pr_Method = MethodBasic, pr_ClientID = [], pr_HasClientID = False, pr_cap = [], pr_ExpiresAt = 0\<rparr>"
  have "case HandleWebSocket ?h ''s'' 15000000000 ''abcdefghijkl'' ?q (Inr ?p) True of Opened c \<Rightarrow> True | _ \<Rightarrow> False"
    by code_simp
  then obtain c where c: "HandleWebSocket ?h ''s'' 15000000000 ''abcdefghijkl'' ?q (Inr ?p) True = Opened c"
    by (auto split: ws_outcome.splits)
  have "ValidConnectionID ''abcdefghijkl''" by code_simp
  from opened_connection_identity [OF _ this c] c show ?thesis by simp
qed



text \<open>C35: a token cannot be outlived. Without a re-authentication the token timer of a connection
  that enters the loop at \<open>now\<close> queues DISCONNECTED with the token-expired error at the expiry, or
  at once when that is past, and stops; if more than the warning margin of 5.5 seconds is left,
  an AUTH prompt precedes it, 30 seconds before the expiry or at once.\<close>

theorem token_expiry_enforced:
  assumes "expiry \<noteq> 0"
  shows "timers now (authEnter now expiry) =
    (if expiry - now > 5500000000
     then [(max now (expiry - 30000000000), frame ActionAuth), (expiry, disconnectExpired)]
     else [(max now expiry, disconnectExpired)])"
  using assms
  by (auto simp: authEnter_def noWarningMargin_def preExpiryWindow_def second_def timers_simps Let_def max_def)

theorem token_expiry_enforced_witness:
  "timers 0 (authEnter 0 60000000000) = [(30000000000, frame ActionAuth), (60000000000, disconnectExpired)]"
  using token_expiry_enforced [of 60000000000 0] by simp



section \<open>Where the teardown falls short\<close>

text \<open>A client that resumes and re-enters before the server notices that the old transport is gone
  loses its member: the teardown of the old connection captures the re-entered entry, whose
  serial does not change any more, and the reaper removes it although the new connection is
  live.\<close>

definition demo_reentered :: MemStorage where
  "demo_reentered = do_write 6 (OpPresence [zeroPresence\<lparr>p_Action := PresenceEnter, p_ClientID := ''amy'',
     p_ConnectionID := ''c1''\<rparr>]) demo2"

theorem late_teardown_evicts_resumed_member:
  "case teardown False False demo_env (NewManager demo_reentered, demo_conn\<lparr>cn_entered := [(''room'', [''amy''])]\<rparr>) of
     ((m, c), stale) \<Rightarrow> map fst (cs_members (demo_cs (mg_store m))) = [''c1:amy''] \<and>
       cs_members (demo_cs (mg_store (fireAll demo_env ''c1'' stale m))) = []"
  by code_simp

text \<open>A connection that the shutdown closes by force, or whose transport drops while the server is
  shutting down, writes no leaves at all: its members stay in the store.\<close>

theorem straggler_members_stay:
  assumes "\<not> cn_clientClosed c"
  shows "fst (fst (teardown False True e (m, c))) = m \<and> snd (teardown False True e (m, c)) = [] \<and>
    cn_entered (snd (fst (teardown False True e (m, c)))) = []"
  using assms by (simp add: teardown_def scheduleTeardownLeaves_def scheduleConnectionLeaves_def)

theorem straggler_members_stay_witness:
  "fst (fst (teardown False True demo_env (NewManager demo2, demo_conn\<lparr>cn_entered := [(''room'', [''amy''])]\<rparr>))) =
     NewManager demo2"
  using straggler_members_stay [of "demo_conn\<lparr>cn_entered := [(''room'', [''amy''])]\<rparr>" demo_env "NewManager demo2"]
  by (simp add: demo_conn_def startConnection_def newConnection_def queue_def)

end
