(* ===== verification/Rest.thy ===== *)
theory Rest
  imports Sessions Base64
begin

text \<open>
  \<open>internal/rest/server.go\<close>: the REST endpoint. A handler takes the request as the HTTP library
  presents it and the channel registry, and returns the registry and one response. Decoding a
  body is the codec of the library, a parameter; encoding a reply is not modelled and cannot
  fail on the values at hand. Texts the code builds from quoted values or library errors are
  given by their constant part.
\<close>

section \<open>Requests and responses\<close>

text \<open>\<open>rq_auth\<close> is what \<open>Authenticate\<close> returns for the request, \<open>rq_body\<close> is \<open>None\<close> when reading the
  body fails; the path values are empty where the route has none.\<close>

record request =
  rq_auth :: "auth_error + Principal"
  rq_query :: "(string, string) gomap"
  rq_clientIDHeader :: string
  rq_contentType :: string
  rq_accept :: string
  rq_body :: "string option"
  rq_name :: string
  rq_serial :: string

record codec =
  dc_message :: "Format \<Rightarrow> string \<Rightarrow> Message option"
  dc_messages :: "Format \<Rightarrow> string \<Rightarrow> Message list option"
  dc_annotation :: "Format \<Rightarrow> string \<Rightarrow> Annotation option"
  dc_annotations :: "Format \<Rightarrow> string \<Rightarrow> Annotation list option"

datatype reply =
    PublishReply string string "string list"
  | MutateReply string
  | MessageReply Message
  | MessagesReply "Message list"
  | AnnotationReply string string "string list"
  | AnnotationsReply "Annotation list"
  | PresenceReply "PresenceMessage list"
  | TimeReply int
  | StatsReply
  | TokenReply Minted

text \<open>The queries of the pagination links; their rendering as relative URLs is the library's.\<close>

record links =
  ln_current :: "(string, string) gomap"
  ln_first :: "(string, string) gomap"
  ln_next :: "(string, string) gomap option"

record errorReply =
  er_Status :: int
  er_Code :: int
  er_Message :: string
  er_HRef :: string
  er_Format :: Format

datatype response =
    Failed errorReply
  | Replied int Format reply "links option"
  | Panicked

section \<open>Formats\<close>

text \<open>The part before a parameter separator, trimmed when there is one.\<close>

definition mediaType :: "string \<Rightarrow> int list" where
  "mediaType ct = (if CHR '';'' \<in> set ct then trimSpace (runes (takeWhile (\<lambda>c. c \<noteq> CHR '';'') ct)) else runes ct)"

definition contentTypeFormat :: "string \<Rightarrow> Format option" where
  "contentTypeFormat ct =
     (let t = mediaType ct
      in if t = [] \<or> t = bytes ''application/json'' then Some FormatJSON
         else if t = bytes ''application/x-msgpack'' \<or> t = bytes ''application/msgpack'' then Some FormatMsgpack
         else None)"

text \<open>One element of an Accept header: trimmed, then cut at the separator and trimmed again.\<close>

definition acceptPart :: "string \<Rightarrow> Format option" where
  "acceptPart part =
     (let t = trimSpace (runes part);
          t = (if of_char CHR '';'' \<in> set t then trimSpace (takeWhile (\<lambda>c. c \<noteq> of_char CHR '';'') t) else t)
      in if t = bytes ''*/*'' \<or> t = bytes ''application/*'' \<or> t = bytes ''application/json'' then Some FormatJSON
         else if t = bytes ''application/x-msgpack'' \<or> t = bytes ''application/msgpack'' then Some FormatMsgpack
         else None)"

fun firstFormat :: "string list \<Rightarrow> Format option" where
  "firstFormat [] = None"
| "firstFormat (part # parts) = (case acceptPart part of Some f \<Rightarrow> Some f | None \<Rightarrow> firstFormat parts)"

definition acceptFormat :: "string \<Rightarrow> Format option" where
  "acceptFormat accept = (if accept = [] then Some FormatJSON else firstFormat (split_on CHR '','' accept))"

section \<open>Errors\<close>

definition errHref :: "int \<Rightarrow> string" where
  "errHref code = ''https://help.ably.io/error/'' @ itoa code"

definition writeErrorInfo :: "request \<Rightarrow> int \<Rightarrow> int \<Rightarrow> string \<Rightarrow> response" where
  "writeErrorInfo r statusCode code msg =
     (let code = (if code = 0 then 50000 else code);
          statusCode = (if statusCode = 0 then 500 else statusCode)
      in Failed \<lparr>er_Status = statusCode, er_Code = code, er_Message = msg, er_HRef = errHref code,
           er_Format = (case acceptFormat (rq_accept r) of None \<Rightarrow> FormatJSON | Some f \<Rightarrow> f)\<rparr>)"

definition writeCapabilityError :: "request \<Rightarrow> string \<Rightarrow> response" where
  "writeCapabilityError r msg = writeErrorInfo r 401 40160 msg"

definition writeAuthError :: "request \<Rightarrow> auth_error \<Rightarrow> response" where
  "writeAuthError r err = (case AuthErrorInfo err of (code, status, msg) \<Rightarrow> writeErrorInfo r status code msg)"

definition HandleNotFound :: "request \<Rightarrow> response" where
  "HandleNotFound r = writeErrorInfo r 404 40400 ''requested resource not found''"

section \<open>Identity and capability\<close>

definition authenticate :: "request \<Rightarrow> response + Principal" where
  "authenticate r = (case rq_auth r of Inl e \<Rightarrow> Inl (writeAuthError r e) | Inr p \<Rightarrow> Inr p)"

definition authorize :: "request \<Rightarrow> Principal \<Rightarrow> string \<Rightarrow> Op \<Rightarrow> response option" where
  "authorize r p channel op =
     (if Permits (pr_cap p) channel op then None
      else Some (writeCapabilityError r ''insufficient capability''))"

definition requestClientIDParam :: "request \<Rightarrow> string option" where
  "requestClientIDParam r =
     (if gget [] (rq_query r) ''clientId'' \<noteq> [] then Some (gget [] (rq_query r) ''clientId'')
      else if rq_clientIDHeader r \<noteq> [] then b64decode (rq_clientIDHeader r)
      else Some [])"

definition resolveRequestClientID :: "request \<Rightarrow> Principal \<Rightarrow> response + string" where
  "resolveRequestClientID r p =
     (case requestClientIDParam r of
        None \<Rightarrow> Inl (writeErrorInfo r 400 40012 ''invalid clientId; must be base64-encoded if passed by header'')
      | Some param \<Rightarrow>
          (case ResolveClientID p param of Inl e \<Rightarrow> Inl (writeAuthError r e) | Inr clientID \<Rightarrow> Inr clientID))"

text \<open>\<open>conns\<close> is \<open>ResolveConnectionKey\<close> of the realtime server, \<open>None\<close> without one.\<close>

definition resolveConnectionKey :: "(string \<Rightarrow> string option) option \<Rightarrow> string \<Rightarrow> string option" where
  "resolveConnectionKey conns key = (case conns of None \<Rightarrow> None | Some f \<Rightarrow> f key)"

section \<open>Bodies\<close>

text \<open>The first byte of a JSON body that is no blank, or of a msgpack body.\<close>

definition looksLikeArray :: "string \<Rightarrow> Format \<Rightarrow> bool" where
  "looksLikeArray body format =
     (case format of
        FormatJSON \<Rightarrow>
          (case dropWhile (\<lambda>b. b \<in> {CHR '' '', CHR 0x09, CHR 0x0A, CHR 0x0D}) body of
             [] \<Rightarrow> False | b # _ \<Rightarrow> b = CHR ''['')
      | FormatMsgpack \<Rightarrow>
          (case body of
             [] \<Rightarrow> False
           | b # _ \<Rightarrow> let first = of_char b :: nat
                      in first div 16 = 9 \<or> first = 220 \<or> first = 221))"

definition parseMessages :: "codec \<Rightarrow> string \<Rightarrow> Format \<Rightarrow> Message list option" where
  "parseMessages dc body format =
     (if body = [] then None
      else if looksLikeArray body format then dc_messages dc format body
      else map_option (\<lambda>m. [m]) (dc_message dc format body))"

definition parseAnnotations :: "codec \<Rightarrow> string \<Rightarrow> Format \<Rightarrow> Annotation list option" where
  "parseAnnotations dc body format =
     (if body = [] then None
      else if looksLikeArray body format then dc_annotations dc format body
      else map_option (\<lambda>a. [a]) (dc_annotation dc format body))"

section \<open>History queries and links\<close>

definition defaultHistoryLimit :: int where "defaultHistoryLimit = 100"
definition maxHistoryLimit :: int where "maxHistoryLimit = 1000"
definition internalCursorParam :: string where "internalCursorParam = ''from''"

definition queryDirection :: "string \<Rightarrow> Direction option" where
  "queryDirection v =
     (if v = [] \<or> v = ''backwards'' then Some DirectionBackwards
      else if v = ''forwards'' then Some DirectionForwards else None)"

text \<open>A time bound: absent is 0.\<close>

definition queryTime :: "string \<Rightarrow> int option" where
  "queryTime v =
     (if v = [] then Some 0
      else case parse_int64 v of None \<Rightarrow> None | Some n \<Rightarrow> if n < 0 then None else Some n)"

definition queryLimit :: "string \<Rightarrow> int option" where
  "queryLimit v =
     (if v = [] then Some defaultHistoryLimit
      else case parse_int64 v of
             None \<Rightarrow> None
           | Some n \<Rightarrow> if n < 1 \<or> n > maxHistoryLimit then None else Some n)"

definition parseHistoryQuery :: "(string, string) gomap \<Rightarrow> HistoryQuery option" where
  "parseHistoryQuery qs =
     (let get = gget [] qs
      in case queryDirection (get ''direction'') of
           None \<Rightarrow> None
         | Some dir \<Rightarrow>
            (case queryTime (get ''start'') of
               None \<Rightarrow> None
             | Some start \<Rightarrow>
                (case queryTime (get ''end'') of
                   None \<Rightarrow> None
                 | Some endt \<Rightarrow>
                    (case queryLimit (get ''limit'') of
                       None \<Rightarrow> None
                     | Some lim \<Rightarrow>
                         Some (zeroQuery\<lparr>hq_Direction := dir, hq_Start := start, hq_End := endt, hq_Limit := lim,
                           hq_Cursor := get internalCursorParam,
                           hq_EndChannelSerial := (if get ''fromSerial'' \<noteq> [] then get ''fromSerial''
                             else get ''from_serial'')\<rparr>)))))"

definition flattenHistory :: "ChannelMessage list \<Rightarrow> Message list" where
  "flattenHistory cms = concat (map cm_Messages cms)"

definition flattenPresence :: "ChannelMessage list \<Rightarrow> PresenceMessage list" where
  "flattenPresence cms = concat (map cm_Presence cms)"

definition flattenAnnotations :: "ChannelMessage list \<Rightarrow> Annotation list" where
  "flattenAnnotations cms = concat (map cm_Annotations cms)"

definition lastMessageSerial :: "HistoryPage \<Rightarrow> string" where
  "lastMessageSerial page =
     (if hp_ChannelMessages page = [] then []
      else let cm = last (hp_ChannelMessages page)
           in if cm_Messages cm \<noteq> [] then m_Serial (last (cm_Messages cm))
              else if cm_Presence cm \<noteq> [] then p_Serial (last (cm_Presence cm)) else [])"

definition lastVersionSerial :: "HistoryPage \<Rightarrow> string" where
  "lastVersionSerial page =
     (if hp_ChannelMessages page = [] then []
      else let cm = last (hp_ChannelMessages page)
           in if cm_Messages cm \<noteq> [] then VersionSerial (last (cm_Messages cm)) else [])"

definition lastAnnotationSerial :: "HistoryPage \<Rightarrow> string" where
  "lastAnnotationSerial page =
     (if hp_ChannelMessages page = [] then []
      else let cm = last (hp_ChannelMessages page)
           in if cm_Annotations cm \<noteq> [] then a_Serial (last (cm_Annotations cm)) else [])"

definition writeLinkHeaders :: "request \<Rightarrow> string \<Rightarrow> bool \<Rightarrow> links" where
  "writeLinkHeaders r boundary hasMore =
     \<lparr>ln_current = rq_query r, ln_first = gdel internalCursorParam (rq_query r),
      ln_next = (if boundary \<noteq> [] \<and> hasMore then Some (gput internalCursorParam boundary (rq_query r)) else None)\<rparr>"

definition writeHistoryLinks :: "request \<Rightarrow> HistoryPage \<Rightarrow> links" where
  "writeHistoryLinks r page = writeLinkHeaders r (lastMessageSerial page) (hp_HasMore page)"

section \<open>Reads\<close>

definition OpHistory :: Op where "OpHistory = ''history''"
definition OpStats :: Op where "OpStats = ''stats''"

text \<open>The opening of every channel handler: credentials, path values, capability.\<close>

definition channelRequired :: "request \<Rightarrow> response option" where
  "channelRequired r = (if rq_name r = [] then Some (writeErrorInfo r 400 40010 ''channel name required'') else None)"

definition targetRequired :: "request \<Rightarrow> response option" where
  "targetRequired r = (if rq_name r = [] \<or> rq_serial r = []
     then Some (writeErrorInfo r 400 40000 ''channel name and message serial required'') else None)"

definition entry :: "request \<Rightarrow> response option \<Rightarrow> Op \<Rightarrow> response + Principal" where
  "entry r missing op =
     (case authenticate r of
        Inl resp \<Rightarrow> Inl resp
      | Inr p \<Rightarrow>
          (case missing of
             Some resp \<Rightarrow> Inl resp
           | None \<Rightarrow> (case authorize r p (rq_name r) op of Some resp \<Rightarrow> Inl resp | None \<Rightarrow> Inr p)))"

text \<open>\<open>GetChannel\<close> and what follows it; a channel without a store is the nil dereference.\<close>

definition onChannel :: "env \<Rightarrow> request \<Rightarrow> (Manager \<Rightarrow> channelStore \<Rightarrow> Manager \<times> response) \<Rightarrow> Manager \<Rightarrow>
    Manager \<times> response" where
  "onChannel e r k m =
     (case ManagerGetChannel (en_chErr e) (en_now e) (rq_name r) m of (m', ok) \<Rightarrow>
        if \<not> ok then (m', writeErrorInfo r 500 50000 ''channel unavailable'')
        else (case map_of (ms_channels (mg_store m')) (rq_name r) of
                None \<Rightarrow> (m', Panicked) | Some cs \<Rightarrow> k m' cs))"

text \<open>The query and the Accept header of a paged read.\<close>

definition pagedRead :: "env \<Rightarrow> request \<Rightarrow> response option \<Rightarrow>
    (HistoryQuery \<Rightarrow> Format \<Rightarrow> Manager \<Rightarrow> channelStore \<Rightarrow> Manager \<times> response) \<Rightarrow> Manager \<Rightarrow>
    Manager \<times> response" where
  "pagedRead e r missing k m =
     (case entry r missing OpHistory of
        Inl resp \<Rightarrow> (m, resp)
      | Inr p \<Rightarrow>
          (case parseHistoryQuery (rq_query r) of
             None \<Rightarrow> (m, writeErrorInfo r 400 40003 ''invalid history query'')
           | Some q \<Rightarrow>
               (case acceptFormat (rq_accept r) of
                  None \<Rightarrow> (m, writeErrorInfo r 406 40004 ''no acceptable response format'')
                | Some format \<Rightarrow> onChannel e r (k q format) m)))"

definition HandleHistory :: "env \<Rightarrow> request \<Rightarrow> Manager \<Rightarrow> Manager \<times> response" where
  "HandleHistory e r m = pagedRead e r (channelRequired r) (\<lambda>q format m' cs.
     (case History (en_ctxErr e) (q\<lparr>hq_Collapse := True\<rparr>) cs of
        Inl err \<Rightarrow> (m', writeErrorInfo r 500 50000 ''history failed'')
      | Inr page \<Rightarrow> (m', Replied 200 format (MessagesReply (flattenHistory (hp_ChannelMessages page)))
                         (Some (writeHistoryLinks r page))))) m"

definition HandlePresenceHistory :: "env \<Rightarrow> request \<Rightarrow> Manager \<Rightarrow> Manager \<times> response" where
  "HandlePresenceHistory e r m = pagedRead e r (channelRequired r) (\<lambda>q format m' cs.
     (case History (en_ctxErr e) (q\<lparr>hq_Kind := KindPresence, hq_EndChannelSerial := []\<rparr>) cs of
        Inl err \<Rightarrow> (m', writeErrorInfo r 500 50000 ''history failed'')
      | Inr page \<Rightarrow> (m', Replied 200 format (PresenceReply (flattenPresence (hp_ChannelMessages page)))
                         (Some (writeHistoryLinks r page))))) m"

text \<open>Versions and annotations read forwards unless the request names a direction.\<close>

definition forwardsDefault :: "request \<Rightarrow> HistoryQuery \<Rightarrow> HistoryQuery" where
  "forwardsDefault r q = (if gget [] (rq_query r) ''direction'' = [] then q\<lparr>hq_Direction := DirectionForwards\<rparr> else q)"

definition HandleMessageVersions :: "env \<Rightarrow> request \<Rightarrow> Manager \<Rightarrow> Manager \<times> response" where
  "HandleMessageVersions e r m = pagedRead e r (targetRequired r) (\<lambda>q format m' cs.
     (case Versions (en_ctxErr e) (rq_serial r) (forwardsDefault r q) cs of
        Inl ErrTargetNotFound \<Rightarrow> (m', writeErrorInfo r 404 40400 ''message not found'')
      | Inl err \<Rightarrow> (m', writeErrorInfo r 500 50000 ''versions failed'')
      | Inr page \<Rightarrow> (m', Replied 200 format (MessagesReply (flattenHistory (hp_ChannelMessages page)))
                         (Some (writeLinkHeaders r (lastVersionSerial page) (hp_HasMore page)))))) m"

definition HandleListAnnotations :: "env \<Rightarrow> request \<Rightarrow> Manager \<Rightarrow> Manager \<times> response" where
  "HandleListAnnotations e r m = pagedRead e r (targetRequired r) (\<lambda>q format m' cs.
     (case Annotations (en_ctxErr e) (rq_serial r) (forwardsDefault r q) cs of
        Inl err \<Rightarrow> (m', writeErrorInfo r 500 50000 ''annotations read failed'')
      | Inr page \<Rightarrow> (m', Replied 200 format (AnnotationsReply (flattenAnnotations (hp_ChannelMessages page)))
                         (Some (writeLinkHeaders r (lastAnnotationSerial page) (hp_HasMore page)))))) m"

definition HandleMessage :: "env \<Rightarrow> request \<Rightarrow> Manager \<Rightarrow> Manager \<times> response" where
  "HandleMessage e r m =
     (case entry r (targetRequired r) OpHistory of
        Inl resp \<Rightarrow> (m, resp)
      | Inr p \<Rightarrow>
          (case acceptFormat (rq_accept r) of
             None \<Rightarrow> (m, writeErrorInfo r 406 40004 ''no acceptable response format'')
           | Some format \<Rightarrow> onChannel e r (\<lambda>m' cs.
               (case LatestVersion (en_ctxErr e) (rq_serial r) cs of
                  Inl ErrTargetNotFound \<Rightarrow> (m', writeErrorInfo r 404 40400 ''message not found'')
                | Inl err \<Rightarrow> (m', writeErrorInfo r 500 50000 ''read failed'')
                | Inr msg \<Rightarrow> (m', Replied 200 format (MessageReply msg) None))) m))"

subsection \<open>The presence set\<close>

record restPresenceQuery =
  pq_clientID :: string
  pq_connectionID :: string
  pq_limit :: int
  pq_cursor :: string

definition parsePresenceQuery :: "(string, string) gomap \<Rightarrow> restPresenceQuery option" where
  "parsePresenceQuery qs =
     (case queryLimit (gget [] qs ''limit'') of
        None \<Rightarrow> None
      | Some lim \<Rightarrow> Some \<lparr>pq_clientID = gget [] qs ''clientId'', pq_connectionID = gget [] qs ''connectionId'',
          pq_limit = lim, pq_cursor = gget [] qs internalCursorParam\<rparr>)"

definition memberSelected :: "restPresenceQuery \<Rightarrow> PresenceMessage \<Rightarrow> bool" where
  "memberSelected q p \<longleftrightarrow>
     \<not> (pq_clientID q \<noteq> [] \<and> p_ClientID p \<noteq> pq_clientID q) \<and>
     \<not> (pq_connectionID q \<noteq> [] \<and> p_ConnectionID p \<noteq> pq_connectionID q) \<and>
     \<not> (pq_cursor q \<noteq> [] \<and> p_Serial p \<le> pq_cursor q)"

definition paginateMembers :: "PresenceMessage list \<Rightarrow> restPresenceQuery \<Rightarrow>
    PresenceMessage list \<times> string \<times> bool" where
  "paginateMembers members q =
     (let filtered = sort_key p_Serial (filter (memberSelected q) members);
          cut = (pq_limit q > 0 \<and> int (length filtered) > pq_limit q);
          page = (if cut then take (nat (pq_limit q)) filtered else filtered)
      in (page, if page = [] then [] else p_Serial (last page), cut))"

definition presentMembers :: "PresenceMessage list \<Rightarrow> PresenceMessage list" where
  "presentMembers members = map (\<lambda>p. p\<lparr>p_Action := PresencePresent\<rparr>) members"

definition HandlePresence :: "env \<Rightarrow> request \<Rightarrow> Manager \<Rightarrow> Manager \<times> response" where
  "HandlePresence e r m =
     (case entry r (channelRequired r) OpSubscribe of
        Inl resp \<Rightarrow> (m, resp)
      | Inr p \<Rightarrow>
          (case parsePresenceQuery (rq_query r) of
             None \<Rightarrow> (m, writeErrorInfo r 400 40003 ''limit: must be an integer between 1 and 1000'')
           | Some pq \<Rightarrow>
               (case acceptFormat (rq_accept r) of
                  None \<Rightarrow> (m, writeErrorInfo r 406 40004 ''no acceptable response format'')
                | Some format \<Rightarrow> onChannel e r (\<lambda>m' cs.
                    (case Members (en_ctxErr e) cs of
                       Inl err \<Rightarrow> (m', writeErrorInfo r 500 50000 ''presence failed'')
                     | Inr (members, _) \<Rightarrow>
                         (case paginateMembers members pq of (page, boundary, hasMore) \<Rightarrow>
                            (m', Replied 200 format (PresenceReply (presentMembers page))
                               (Some (writeLinkHeaders r boundary hasMore)))))) m)))"

section \<open>Writes\<close>

definition publishMessageID :: "ChannelMessage \<Rightarrow> string" where
  "publishMessageID cm = (if cm_Messages cm = [] then cm_ID cm else m_ID (hd (cm_Messages cm)))"

definition publishSerials :: "ChannelMessage \<Rightarrow> string list" where
  "publishSerials cm = map m_Serial (cm_Messages cm)"

fun stampPublish :: "(string \<Rightarrow> string option) option \<Rightarrow> request \<Rightarrow> string \<Rightarrow> Message list \<Rightarrow>
    response + Message list" where
  "stampPublish conns r clientID [] = Inr []"
| "stampPublish conns r clientID (msg # msgs) =
     (if m_Action msg \<noteq> MessageCreate
      then Inl (writeErrorInfo r 400 40001 ''action not permitted on POST; use PATCH for mutations'')
      else case MessageClientID clientID (m_ClientID msg) of
             None \<Rightarrow> Inl (writeErrorInfo r 400 40012 ''message clientId not permitted'')
           | Some cid \<Rightarrow>
              (case (if m_ConnectionKey msg = [] then Inr (msg\<lparr>m_ClientID := cid\<rparr>)
                     else case resolveConnectionKey conns (m_ConnectionKey msg) of
                            None \<Rightarrow> Inl (writeErrorInfo r 400 40006 ''invalid connectionKey'')
                          | Some connID \<Rightarrow> Inr (msg\<lparr>m_ClientID := cid, m_ConnectionID := connID, m_ConnectionKey := []\<rparr>)) of
                 Inl resp \<Rightarrow> Inl resp
               | Inr msg' \<Rightarrow>
                   (case stampPublish conns r clientID msgs of
                      Inl resp \<Rightarrow> Inl resp | Inr msgs' \<Rightarrow> Inr (msg' # msgs'))))"

text \<open>Credentials and the identity a write asserts.\<close>

definition identify :: "request \<Rightarrow> response + Principal \<times> string" where
  "identify r =
     (case authenticate r of
        Inl resp \<Rightarrow> Inl resp
      | Inr p \<Rightarrow> (case resolveRequestClientID r p of Inl resp \<Rightarrow> Inl resp | Inr clientID \<Rightarrow> Inr (p, clientID)))"

text \<open>The body of a write, read in the format its Content-Type names.\<close>

definition readBody :: "request \<Rightarrow> response + Format \<times> string" where
  "readBody r =
     (case contentTypeFormat (rq_contentType r) of
        None \<Rightarrow> Inl (writeErrorInfo r 415 40004 ''unsupported Content-Type'')
      | Some format \<Rightarrow>
          (case rq_body r of
             None \<Rightarrow> Inl (writeErrorInfo r 400 40000 ''body'')
           | Some body \<Rightarrow> Inr (format, body)))"

definition preparePublish :: "codec \<Rightarrow> (string \<Rightarrow> string option) option \<Rightarrow> request \<Rightarrow>
    response + Message list \<times> Format" where
  "preparePublish dc conns r =
     (case identify r of
        Inl resp \<Rightarrow> Inl resp
      | Inr (p, clientID) \<Rightarrow>
          if rq_name r = [] then Inl (writeErrorInfo r 400 40010 ''channel name required'')
          else if \<not> ValidChannelName (runes (rq_name r)) then Inl (writeErrorInfo r 400 40010 ''invalid channel name'')
          else (case authorize r p (rq_name r) OpPublish of
                  Some resp \<Rightarrow> Inl resp
                | None \<Rightarrow>
                   (case readBody r of
                      Inl resp \<Rightarrow> Inl resp
                    | Inr (format, body) \<Rightarrow>
                       (case parseMessages dc body format of
                          None \<Rightarrow> Inl (writeErrorInfo r 400 40001 ''decode'')
                        | Some msgs \<Rightarrow>
                            if msgs = [] then Inl (writeErrorInfo r 400 40001 ''no messages'')
                            else (case stampPublish conns r clientID msgs of
                                    Inl resp \<Rightarrow> Inl resp
                                  | Inr msgs' \<Rightarrow>
                                      (case acceptFormat (rq_accept r) of
                                         None \<Rightarrow> Inl (writeErrorInfo r 406 40004 ''no acceptable response format'')
                                       | Some respFormat \<Rightarrow> Inr (msgs', respFormat)))))))"

definition HandlePublish :: "codec \<Rightarrow> (string \<Rightarrow> string option) option \<Rightarrow> env \<Rightarrow> request \<Rightarrow> Manager \<Rightarrow>
    Manager \<times> response" where
  "HandlePublish dc conns e r m =
     (case preparePublish dc conns r of
        Inl resp \<Rightarrow> (m, resp)
      | Inr (msgs, respFormat) \<Rightarrow> onChannel e r (\<lambda>m' cs.
          (case writeChannel e (rq_name r) (OpStore (en_fresh e) msgs) m' of
             (m'', Inl ErrInvalidMessageID) \<Rightarrow> (m'', writeErrorInfo r 400 40031 ''invalid client-specified id'')
           | (m'', Inl err) \<Rightarrow> (m'', writeErrorInfo r 500 50000 ''publish failed'')
           | (m'', Inr (None, _)) \<Rightarrow> (m'', Panicked)
           | (m'', Inr (Some cm, _)) \<Rightarrow> (m'', Replied 201 respFormat
               (PublishReply (rq_name r) (publishMessageID cm) (publishSerials cm)) None))) m)"

definition restAuthorizeMutation :: "bool \<Rightarrow> request \<Rightarrow> Principal \<Rightarrow> string \<Rightarrow> channelStore \<Rightarrow> Message \<Rightarrow>
    response option" where
  "restAuthorizeMutation ctxErr r p clientID cs mut =
     (case mutationOps (m_Action mut) of (ownOp, anyOp) \<Rightarrow>
        (case MutationGrant (pr_cap p) (rq_name r) ownOp anyOp of
           MutationAllowed \<Rightarrow> None
         | MutationDeniedCapability \<Rightarrow> Some (writeCapabilityError r ''insufficient capability for message mutation'')
         | MutationNeedsOwnership \<Rightarrow>
             (case LatestVersion ctxErr (m_Serial mut) cs of
                Inl ErrTargetNotFound \<Rightarrow> Some (writeErrorInfo r 404 40400 ''target message not found'')
              | Inl err \<Rightarrow> Some (writeErrorInfo r 500 50000 ''mutate failed'')
              | Inr latest \<Rightarrow>
                  if ownsMessage clientID (m_ClientID latest) then None
                  else Some (writeCapabilityError r
                    ''insufficient capability: caller does not own the target message''))))"

definition prepareMutate :: "codec \<Rightarrow> request \<Rightarrow> response + Principal \<times> string \<times> Message \<times> Format" where
  "prepareMutate dc r =
     (case identify r of
        Inl resp \<Rightarrow> Inl resp
      | Inr (p, clientID) \<Rightarrow>
          (case targetRequired r of
             Some resp \<Rightarrow> Inl resp
           | None \<Rightarrow>
              (case readBody r of
                 Inl resp \<Rightarrow> Inl resp
               | Inr (format, body) \<Rightarrow>
                   if body = [] then Inl (writeErrorInfo r 400 40001 ''empty body'')
                   else (case dc_message dc format body of
                           None \<Rightarrow> Inl (writeErrorInfo r 400 40001 ''decode mutation'')
                         | Some mut \<Rightarrow>
                             if \<not> IsMutation (m_Action mut)
                             then Inl (writeErrorInfo r 400 40001 ''PATCH requires update/delete/append'')
                             else (case MessageClientID clientID
                                          (case m_Version mut of None \<Rightarrow> [] | Some v \<Rightarrow> v_ClientID v) of
                                     None \<Rightarrow> Inl (writeErrorInfo r 400 40012 ''operation clientId not permitted'')
                                   | Some stamped \<Rightarrow>
                                       (case acceptFormat (rq_accept r) of
                                          None \<Rightarrow> Inl (writeErrorInfo r 406 40004 ''no acceptable response format'')
                                        | Some respFormat \<Rightarrow>
                                            Inr (p, clientID, mut\<lparr>m_Serial := rq_serial r, m_ClientID := stamped\<rparr>,
                                              respFormat)))))))"

definition HandleMutate :: "codec \<Rightarrow> env \<Rightarrow> request \<Rightarrow> Manager \<Rightarrow> Manager \<times> response" where
  "HandleMutate dc e r m =
     (case prepareMutate dc r of
        Inl resp \<Rightarrow> (m, resp)
      | Inr (p, clientID, mut, respFormat) \<Rightarrow> onChannel e r (\<lambda>m' cs.
          (case restAuthorizeMutation (en_ctxErr e) r p clientID cs mut of
             Some resp \<Rightarrow> (m', resp)
           | None \<Rightarrow>
              (case writeChannel e (rq_name r) (OpMutate mut) m' of
                 (m'', Inl ErrTargetNotFound) \<Rightarrow> (m'', writeErrorInfo r 404 40400 ''target message not found'')
               | (m'', Inl ErrIncompatibleAppend) \<Rightarrow> (m'', writeErrorInfo r 400 40013
                   ''append data type is incompatible with the target's current data'')
               | (m'', Inl err) \<Rightarrow> (m'', writeErrorInfo r 500 50000 ''mutate failed'')
               | (m'', Inr (None, _)) \<Rightarrow> (m'', Panicked)
               | (m'', Inr (Some cm, _)) \<Rightarrow>
                   (m'', (case cm_Messages cm of [] \<Rightarrow> Panicked
                          | v # _ \<Rightarrow> Replied 200 respFormat (MutateReply (VersionSerial v)) None))))) m)"

fun stampRestAnnotations :: "request \<Rightarrow> string \<Rightarrow> int \<Rightarrow> Annotation list \<Rightarrow> response + Annotation list" where
  "stampRestAnnotations r clientID now [] = Inr []"
| "stampRestAnnotations r clientID now (an # ans) =
     (case MessageClientID clientID (a_ClientID an) of
        None \<Rightarrow> Inl (writeErrorInfo r 400 40012 ''annotation clientId not permitted'')
      | Some cid \<Rightarrow>
          (case Validate (an\<lparr>a_MessageSerial := rq_serial r, a_ClientID := cid,
               a_Timestamp := (if a_Timestamp an = 0 then now else a_Timestamp an)\<rparr>) of
             Inl verr \<Rightarrow> (let i = annotationErrorInfo verr in Inl (writeErrorInfo r (ei_StatusCode i) (ei_Code i) (ei_Message i)))
           | Inr an' \<Rightarrow>
               (case stampRestAnnotations r clientID now ans of Inl resp \<Rightarrow> Inl resp | Inr ans' \<Rightarrow> Inr (an' # ans'))))"

definition prepareAnnotations :: "codec \<Rightarrow> int \<Rightarrow> request \<Rightarrow> response + Annotation list \<times> Format" where
  "prepareAnnotations dc now r =
     (case identify r of
        Inl resp \<Rightarrow> Inl resp
      | Inr (p, clientID) \<Rightarrow>
          (case targetRequired r of
             Some resp \<Rightarrow> Inl resp
           | None \<Rightarrow>
              (case authorize r p (rq_name r) OpAnnotationPublish of
                 Some resp \<Rightarrow> Inl resp
               | None \<Rightarrow>
                  (case readBody r of
                     Inl resp \<Rightarrow> Inl resp
                   | Inr (format, body) \<Rightarrow>
                      (case parseAnnotations dc body format of
                         None \<Rightarrow> Inl (writeErrorInfo r 400 40001 ''decode'')
                       | Some anns \<Rightarrow>
                           if anns = [] then Inl (writeErrorInfo r 400 40001 ''no annotations'')
                           else (case stampRestAnnotations r clientID now anns of
                                   Inl resp \<Rightarrow> Inl resp
                                 | Inr anns' \<Rightarrow>
                                     (case acceptFormat (rq_accept r) of
                                        None \<Rightarrow> Inl (writeErrorInfo r 406 40004 ''no acceptable response format'')
                                      | Some respFormat \<Rightarrow> Inr (anns', respFormat))))))))"

definition annotationSerials :: "Annotation list \<Rightarrow> string list" where
  "annotationSerials anns = map a_Serial anns"

definition HandlePublishAnnotation :: "codec \<Rightarrow> env \<Rightarrow> request \<Rightarrow> Manager \<Rightarrow> Manager \<times> response" where
  "HandlePublishAnnotation dc e r m =
     (case prepareAnnotations dc (en_now e) r of
        Inl resp \<Rightarrow> (m, resp)
      | Inr (anns, respFormat) \<Rightarrow> onChannel e r (\<lambda>m' cs.
          (case writeChannel e (rq_name r) (OpAnnotation anns) m' of
             (m'', Inl ErrTargetNotFound) \<Rightarrow> (m'', writeErrorInfo r 404 40400 ''target message not found'')
           | (m'', Inl err) \<Rightarrow> (m'', writeErrorInfo r 500 50000 ''annotation publish failed'')
           | (m'', Inr (None, _)) \<Rightarrow> (m'', Panicked)
           | (m'', Inr (Some cm, _)) \<Rightarrow>
               (let serials = annotationSerials (cm_Annotations cm)
                in (m'', Replied 201 respFormat
                      (AnnotationReply (rq_name r) (case serials of [] \<Rightarrow> [] | s # _ \<Rightarrow> s) serials) None)))) m)"

section \<open>Endpoints without a channel\<close>

definition HandleTime :: "int \<Rightarrow> request \<Rightarrow> response" where
  "HandleTime now r =
     (case acceptFormat (rq_accept r) of
        None \<Rightarrow> writeErrorInfo r 406 40004 ''no acceptable response format''
      | Some format \<Rightarrow> Replied 200 format (TimeReply now) None)"

definition statsReply :: "int \<Rightarrow> request \<Rightarrow> response" where
  "statsReply status r =
     (case authenticate r of
        Inl resp \<Rightarrow> resp
      | Inr p \<Rightarrow>
          if \<not> Permits (pr_cap p) ''*'' OpStats
          then writeCapabilityError r ''insufficient capability: stats required''
          else (case acceptFormat (rq_accept r) of
                  None \<Rightarrow> writeErrorInfo r 406 40004 ''no acceptable response format''
                | Some format \<Rightarrow> Replied status format StatsReply None))"

definition HandleStats :: "request \<Rightarrow> response" where "HandleStats r = statsReply 200 r"
definition HandlePostStats :: "request \<Rightarrow> response" where "HandlePostStats r = statsReply 201 r"

text \<open>The status of the readiness probe: \<open>ping\<close> is the backend's check, if it has one.\<close>

definition HandleReadyz :: "bool option \<Rightarrow> int" where
  "HandleReadyz ping = (if ping = Some False then 503 else 200)"

text \<open>\<open>decodeTR\<close> decodes the body, \<open>capJSON\<close> the capability text; \<open>basicKey\<close> is the key on the
  request.\<close>

definition HandleRequestToken :: "(Format \<Rightarrow> string \<Rightarrow> TokenRequest option) \<Rightarrow> (string \<Rightarrow> perms option) \<Rightarrow>
    (string \<Rightarrow> string \<Rightarrow> string) \<Rightarrow> int \<Rightarrow> string \<Rightarrow> string option \<Rightarrow> request \<Rightarrow> Authenticator \<Rightarrow>
    Authenticator \<times> response" where
  "HandleRequestToken decodeTR capJSON macOf now keyName basicKey r a =
     (case readBody r of
        Inl resp \<Rightarrow> (a, resp)
      | Inr (format, body) \<Rightarrow>
         (case decodeTR format body of
            None \<Rightarrow> (a, writeErrorInfo r 400 40001 ''invalid token request body'')
          | Some tr0 \<Rightarrow>
             let tr = (if tr_KeyName tr0 = [] then tr0\<lparr>tr_KeyName := keyName\<rparr> else tr0)
             in if tr_KeyName tr \<noteq> keyName
                then (a, writeErrorInfo r 400 40000 ''keyName mismatch between path and body'')
                else case acceptFormat (rq_accept r) of
                  None \<Rightarrow> (a, writeErrorInfo r 406 40004 ''no acceptable response format'')
                | Some respFormat \<Rightarrow>
                   if tr_Capability tr \<noteq> [] \<and>
                      (case capJSON (tr_Capability tr) of None \<Rightarrow> True | Some c \<Rightarrow> ValidateCapability c \<noteq> None)
                   then (a, writeAuthError r ErrInvalidCapability)
                   else (case ValidateTTL (tr_TTL tr) of
                     Some err \<Rightarrow> (a, writeAuthError r err)
                   | None \<Rightarrow>
                      (case ValidateTokenRequest macOf now tr basicKey a of
                         (Some err, a') \<Rightarrow> (a', writeAuthError r err)
                       | (None, a') \<Rightarrow>
                          (case MintToken now tr (capJSON (tr_Capability tr)) a' of
                             Inl ErrCapabilityDenied \<Rightarrow> (a', writeAuthError r ErrCapabilityDenied)
                           | Inl err \<Rightarrow> (a', writeErrorInfo r 500 50000 ''token minting failed'')
                           | Inr tok \<Rightarrow> (a', Replied 200 respFormat (TokenReply tok) None))))))"

end
