(* ===== verification/RestLaws.thy ===== *)
theory RestLaws
  imports Rest Worker
begin

text \<open>
  The REST endpoint on the store: following the next links of the five listings shows every
  item once, REST and realtime mutations do the same to the store, and what a publish may
  change and under which identity.
\<close>

section \<open>A client that follows the links\<close>

text \<open>It reads a page, and while the response has a next link requests that link. \<open>None\<close> is an
  error response, or a client still following links when its fuel runs out.\<close>

fun browse :: "(request \<Rightarrow> Manager \<Rightarrow> Manager \<times> response) \<Rightarrow> (reply \<Rightarrow> 'a list option) \<Rightarrow> nat \<Rightarrow> request \<Rightarrow>
    Manager \<Rightarrow> 'a list option" where
  "browse h listed 0 r m = None"
| "browse h listed (Suc n) r m =
     (case h r m of
        (m', Replied status format rep (Some ls)) \<Rightarrow>
          (case listed rep of
             None \<Rightarrow> None
           | Some ys \<Rightarrow>
               (case ln_next ls of
                  None \<Rightarrow> Some ys
                | Some qs \<Rightarrow> map_option (\<lambda>zs. ys @ zs) (browse h listed n (r\<lparr>rq_query := qs\<rparr>) m')))
      | _ \<Rightarrow> None)"

fun messagesOf :: "reply \<Rightarrow> Message list option" where
  "messagesOf (MessagesReply ms) = Some ms"
| "messagesOf _ = None"

fun annotationsOf :: "reply \<Rightarrow> Annotation list option" where
  "annotationsOf (AnnotationsReply as) = Some as"
| "annotationsOf _ = None"

fun presenceOf :: "reply \<Rightarrow> PresenceMessage list option" where
  "presenceOf (PresenceReply ps) = Some ps"
| "presenceOf _ = None"

text \<open>The next link of a page.\<close>

definition at_cursor :: "string \<Rightarrow> request \<Rightarrow> request" where
  "at_cursor c r = r\<lparr>rq_query := gput internalCursorParam c (rq_query r)\<rparr>"

section \<open>The contract of a linked listing\<close>

text \<open>\<open>serves x c r m\<close>: the request asks for the page at cursor \<open>c\<close> of the listing \<open>x\<close>. The handler
  answers with that page, and links to the page behind its last item iff there is more.\<close>

locale link_paging =
  fixes serves :: "'x \<Rightarrow> string \<Rightarrow> request \<Rightarrow> Manager \<Rightarrow> bool"
    and page :: "'x \<Rightarrow> string \<Rightarrow> 'a list \<times> bool"
    and key :: "'a \<Rightarrow> string"
    and handle :: "'x \<Rightarrow> request \<Rightarrow> Manager \<Rightarrow> Manager \<times> response"
    and listed :: "reply \<Rightarrow> 'a list option"
  assumes served: "serves x c r m \<Longrightarrow> page x c = (ys, b) \<Longrightarrow>
      \<exists>m' f rep ls. handle x r m = (m', Replied 200 f rep (Some ls)) \<and> listed rep = Some ys \<and>
        ln_next ls = (if b \<and> ys \<noteq> [] \<and> key (last ys) \<noteq> []
          then Some (rq_query (at_cursor (key (last ys)) r)) else None) \<and>
        (\<forall>c'. serves x c' (at_cursor c' r) m')"
begin

lemma browse_follow:
  "serves x c r m \<Longrightarrow> browse (handle x) listed n r m = follow (page x) key n c"
proof (induction n arbitrary: c r m)
  case (Suc n)
  obtain ys b where pg: "page x c = (ys, b)" by fastforce
  from served [OF Suc.prems pg] obtain m' f rep ls where
    h: "handle x r m = (m', Replied 200 f rep (Some ls))" "listed rep = Some ys"
      "ln_next ls = (if b \<and> ys \<noteq> [] \<and> key (last ys) \<noteq> []
        then Some (rq_query (at_cursor (key (last ys)) r)) else None)"
      "\<And>c'. serves x c' (at_cursor c' r) m'" by blast
  have "r\<lparr>rq_query := rq_query (at_cursor c' r)\<rparr> = at_cursor c' r" for c' by (simp add: at_cursor_def)
  with Suc.IH [OF h(4)] h(1-3) pg show ?case by simp
qed simp

end

section \<open>Requests on an open channel\<close>

record listing =
  ls_env :: env
  ls_state :: store_state
  ls_fw :: bool
  ls_lim :: int
  ls_target :: string

definition at_channel :: "env \<Rightarrow> string \<Rightarrow> channelStore \<Rightarrow> Manager \<Rightarrow> bool" where
  "at_channel e name cs m \<longleftrightarrow> bound m \<and> map_of (ms_channels (mg_store m)) name = Some cs \<and>
     \<not> en_chErr e \<and> \<not> en_ctxErr e"

lemma onChannel_open:
  assumes "at_channel e (rq_name r) cs m"
  shows "\<exists>m'. (\<forall>k. onChannel e r k m = k m' cs) \<and> at_channel e (rq_name r) cs m'"
proof -
  obtain m' ok where g: "ManagerGetChannel (en_chErr e) (en_now e) (rq_name r) m = (m', ok)" by fastforce
  have "at_channel e (rq_name r) cs m'" "ok"
    using GetChannel_bound [OF _ g] assms by (auto simp: at_channel_def)
  then show ?thesis using g by (auto simp: onChannel_def at_channel_def)
qed

lemma entry_Inr: "entry r missing op = Inr p \<longleftrightarrow> rq_auth r = Inr p \<and> missing = None \<and> Permits (pr_cap p) (rq_name r) op"
  by (auto simp: entry_def authenticate_def authorize_def split: sum.split option.split)

lemma at_cursor_sel [simp]:
  "rq_auth (at_cursor c r) = rq_auth r" "rq_name (at_cursor c r) = rq_name r"
  "rq_serial (at_cursor c r) = rq_serial r" "rq_accept (at_cursor c r) = rq_accept r"
  by (simp_all add: at_cursor_def)

lemma at_cursor_get:
  "k \<noteq> ''from'' \<Longrightarrow> gget [] (rq_query (at_cursor c r)) k = gget [] (rq_query r) k"
  "gget [] (rq_query (at_cursor c r)) ''from'' = c"
  by (simp_all add: at_cursor_def gget_gput internalCursorParam_def)

lemma parse_at_cursor:
  "parseHistoryQuery (rq_query (at_cursor c r)) =
     map_option (hq_Cursor_update (\<lambda>_. c)) (parseHistoryQuery (rq_query r))"
  by (simp add: parseHistoryQuery_def Let_def at_cursor_get internalCursorParam_def split: option.split)

text \<open>A history request for one page: permitted, well-formed, on an open channel. \<open>adj\<close> is what
  the handler does to the parsed query.\<close>

definition asks :: "(request \<Rightarrow> HistoryQuery \<Rightarrow> HistoryQuery) \<Rightarrow> listing \<Rightarrow> string \<Rightarrow> request \<Rightarrow> Manager \<Rightarrow> bool" where
  "asks adj x c r m \<longleftrightarrow>
     (\<exists>p. rq_auth r = Inr p \<and> Permits (pr_cap p) (rq_name r) OpHistory) \<and>
     rq_name r \<noteq> [] \<and> rq_serial r = ls_target x \<and>
     (\<exists>q. parseHistoryQuery (rq_query r) = Some q \<and> adj r q = pageQuery (ls_fw x) c (ls_lim x)) \<and>
     acceptFormat (rq_accept r) \<noteq> None \<and> at_channel (ls_env x) (rq_name r) (snd (ls_state x)) m"

lemma asks_pagedRead:
  assumes "asks adj x c r m" "missing = None"
    and "\<And>c' q. adj (at_cursor c' r) (q\<lparr>hq_Cursor := c'\<rparr>) = (adj r q)\<lparr>hq_Cursor := c'\<rparr>"
  obtains q f m' where "\<And>k. pagedRead (ls_env x) r missing k m = k q f m' (snd (ls_state x))"
    and "adj r q = pageQuery (ls_fw x) c (ls_lim x)" "\<And>c'. asks adj x c' (at_cursor c' r) m'"
proof -
  obtain p q f where r: "entry r missing OpHistory = Inr p" "parseHistoryQuery (rq_query r) = Some q"
    "adj r q = pageQuery (ls_fw x) c (ls_lim x)" "acceptFormat (rq_accept r) = Some f"
    using assms(1,2) by (auto simp: asks_def entry_Inr)
  obtain m' where m': "\<And>k. onChannel (ls_env x) r k m = k m' (snd (ls_state x))"
    "at_channel (ls_env x) (rq_name r) (snd (ls_state x)) m'"
    using assms(1) onChannel_open by (metis asks_def)
  have "asks adj x c' (at_cursor c' r) m'" for c'
    using assms(1) m'(2) r(2) assms(3) [of c' q] r(3)
    by (auto simp: asks_def parse_at_cursor pageQuery_def)
  then show thesis using r m'(1) that [of q f m'] by (simp add: pagedRead_def)
qed

section \<open>The boundary of a page\<close>

text \<open>A property of single ChannelMessages holds on a page when appending an item establishes it.\<close>

lemma putItem_all:
  assumes "\<And>cm. P cm \<Longrightarrow> P (it_Append it cm)" "\<And>s. P (it_Append it (zeroChannelMessage\<lparr>cm_ChannelSerial := s\<rparr>))"
    and "\<forall>cm \<in> set cms. P cm"
  shows "\<forall>cm \<in> set (putItem s it cms). P cm"
  using assms by (auto simp: putItem_def dest: in_set_butlastD)

lemma collapseScan_messages:
  assumes "\<forall>cm \<in> set (hp_ChannelMessages page). cm_Messages cm \<noteq> []"
  shows "\<forall>cm \<in> set (hp_ChannelMessages (scanPage (collapseScan q cs ss page n))). cm_Messages cm \<noteq> []"
  using assms
proof (induction ss arbitrary: page n)
  case (Cons s ss)
  let ?page = "\<lambda>a b. page\<lparr>hp_ChannelMessages := putItem a (ItemMessage b) (hp_ChannelMessages page)\<rparr>"
  have "\<forall>cm \<in> set (hp_ChannelMessages (?page a b)). cm_Messages cm \<noteq> []" for a b
    using putItem_all [of "\<lambda>cm. cm_Messages cm \<noteq> []" "ItemMessage b"] Cons.prems by simp
  then have "\<forall>cm \<in> set (hp_ChannelMessages (scanPage (collapseScan q cs ss (?page a b) k))). cm_Messages cm \<noteq> []"
    for a b k by (rule Cons.IH)
  moreover have "scanPage (Inl page') = page'" for page' by (simp add: scanPage_def)
  ultimately show ?case using Cons.IH [OF Cons.prems] Cons.prems by (simp add: emitHist_def Let_def)
qed (simp add: scanPage_def)

definition presence_only :: "ChannelMessage \<Rightarrow> bool" where
  "presence_only cm \<longleftrightarrow> cm_Messages cm = [] \<and> cm_Presence cm \<noteq> []"

lemma flatScan_presence:
  assumes "\<forall>p \<in> set ps. of_kind KindPresence (snd p)" "\<forall>cm \<in> set (hp_ChannelMessages page). presence_only cm"
  shows "\<forall>cm \<in> set (hp_ChannelMessages (scanPage (flatScan q ps page n))). presence_only cm"
  using assms
proof (induction ps arbitrary: page n)
  case (Cons p ps)
  obtain s pm where p: "p = (s, ItemPresence pm)"
    using Cons.prems(1) by (cases p; cases "snd p") (auto simp: of_kind_def kind_defs)
  let ?page = "page\<lparr>hp_ChannelMessages := putItem s (ItemPresence pm) (hp_ChannelMessages page)\<rparr>"
  have "\<forall>cm \<in> set (putItem s (ItemPresence pm) (hp_ChannelMessages page)). presence_only cm"
    by (rule putItem_all) (use Cons.prems(2) in \<open>auto simp: presence_only_def zeroChannelMessage_def\<close>)
  then have "\<forall>cm \<in> set (hp_ChannelMessages (scanPage (flatScan q ps ?page k))). presence_only cm" for k
    using Cons.prems(1) by (intro Cons.IH) auto
  moreover have "scanPage (Inl page') = page'" for page' by (simp add: scanPage_def)
  moreover have "\<forall>cm \<in> set (hp_ChannelMessages (scanPage (flatScan q ps page n))). presence_only cm"
    using Cons by simp
  ultimately show ?case using Cons.prems(2) by (simp add: p emitHist_def)
qed (simp add: scanPage_def)

lemma History_presence:
  assumes "History False (presenceQuery fw c lim) cs = Inr page" "cm \<in> set (hp_ChannelMessages page)"
  shows "cm_Messages cm = [] \<and> cm_Presence cm \<noteq> []"
proof -
  let ?q = "presenceQuery fw c lim"
  obtain lo hi where r: "histRange ?q (cs_order cs) = (lo, hi)" by fastforce
  define cms where "cms = map (cmAt cs) (drop lo (take hi (cs_order cs)))"
  define ps where "ps = concat (map (\<lambda>cm. if fw then cm_pairs KindPresence cm else rev (cm_pairs KindPresence cm))
    (if fw then cms else rev cms))"
  have "page = scanPage (flatScan ?q ps zeroPage 0)"
    using assms(1) r by (cases fw) (simp_all add: History_def Let_def scanCMs_flat ps_def cms_def kind_defs)
  moreover have "\<forall>p \<in> set ps. of_kind KindPresence (snd p)"
    by (auto simp: ps_def dest: cm_pairs_kind)
  ultimately show ?thesis
    using flatScan_presence [of ps zeroPage ?q 0] assms(2) by (simp add: zeroPage_def presence_only_def)
qed

lemma History_messages:
  "History False (collapsedQuery fw c lim) cs = Inr page \<Longrightarrow> cm \<in> set (hp_ChannelMessages page) \<Longrightarrow>
     cm_Messages cm \<noteq> []"
  using collapseScan_messages [of zeroPage]
  by (auto simp: History_def collapsedHistory_def Let_def kind_defs zeroPage_def)

lemma last_concat_map: "xs \<noteq> [] \<Longrightarrow> f (last xs) \<noteq> [] \<Longrightarrow> last (concat (map f xs)) = last (f (last xs))"
  by (cases xs rule: rev_exhaust) simp_all

lemma lastMessageSerial_eq:
  assumes "\<And>cm. cm \<in> set (hp_ChannelMessages page) \<Longrightarrow> cm_Messages cm \<noteq> []"
  shows "lastMessageSerial page = (if flattenHistory (hp_ChannelMessages page) = [] then []
    else m_Serial (last (flattenHistory (hp_ChannelMessages page))))"
  using assms [OF last_in_set] assms
  by (auto simp: lastMessageSerial_def flattenHistory_def last_concat_map Let_def)

lemma ln_next_eq:
  assumes "boundary = (if ys = [] then [] else key (last ys))"
  shows "ln_next (writeLinkHeaders r boundary b) = (if b \<and> ys \<noteq> [] \<and> key (last ys) \<noteq> []
    then Some (rq_query (at_cursor (key (last ys)) r)) else None)"
  using assms by (auto simp: writeLinkHeaders_def at_cursor_def)

text \<open>The paged handlers all end in this way.\<close>

lemma served_page:
  assumes "h = (m', Replied 200 f rep (Some (writeLinkHeaders r boundary b)))" "listed rep = Some ys"
    and "boundary = (if ys = [] then [] else key (last ys))" "\<And>c'. S c' (at_cursor c' r) m'"
  shows "\<exists>m' f rep ls. h = (m', Replied 200 f rep (Some ls)) \<and> listed rep = Some ys \<and>
    ln_next ls = (if b \<and> ys \<noteq> [] \<and> key (last ys) \<noteq> []
      then Some (rq_query (at_cursor (key (last ys)) r)) else None) \<and> (\<forall>c'. S c' (at_cursor c' r) m')"
  using assms(1,2,4) ln_next_eq [where key = key, OF assms(3)] by blast

section \<open>The listings\<close>

definition historyPage :: "listing \<Rightarrow> string \<Rightarrow> Message list \<times> bool" where
  "historyPage x c = collapsedPage (ls_state x) (ls_fw x) c (ls_lim x)"

interpretation rest_history: link_paging "asks (\<lambda>r q. q)" historyPage m_Serial "\<lambda>x. HandleHistory (ls_env x)" messagesOf
proof (unfold_locales, goal_cases)
  case (1 x c r m ys b)
  let ?cs = "snd (ls_state x)"
  obtain page where p: "History False (collapsedQuery (ls_fw x) c (ls_lim x)) ?cs = Inr page"
    by (simp add: History_def kind_defs)
  with 1(2) have ys: "ys = flattenHistory (hp_ChannelMessages page)" "b = hp_HasMore page"
    by (simp_all add: historyPage_def collapsedPage_def flattenHistory_def)
  have n: "channelRequired r = None" "\<not> en_ctxErr (ls_env x)"
    using 1(1) by (simp_all add: asks_def channelRequired_def at_channel_def)
  obtain q f m' where k: "\<And>k. pagedRead (ls_env x) r (channelRequired r) k m = k q f m' ?cs"
    "q = pageQuery (ls_fw x) c (ls_lim x)" and nx: "\<And>c'. asks (\<lambda>r q. q) x c' (at_cursor c' r) m'"
    using asks_pagedRead [OF 1(1) n(1)] by auto
  have h: "HandleHistory (ls_env x) r m =
      (m', Replied 200 f (MessagesReply ys) (Some (writeLinkHeaders r (lastMessageSerial page) b)))"
    using p n(2) by (simp add: HandleHistory_def k ys collapsedQuery_def writeHistoryLinks_def)
  have "lastMessageSerial page = (if ys = [] then [] else m_Serial (last ys))"
    unfolding ys(1) by (rule lastMessageSerial_eq) (rule History_messages [OF p])
  from h _ this nx show ?case by (rule served_page) simp
qed

text \<open>Presence history ignores an end serial.\<close>

definition noEnd :: "request \<Rightarrow> HistoryQuery \<Rightarrow> HistoryQuery" where
  "noEnd r q = q\<lparr>hq_EndChannelSerial := []\<rparr>"

definition presenceHistoryPage :: "listing \<Rightarrow> string \<Rightarrow> PresenceMessage list \<times> bool" where
  "presenceHistoryPage x c = presencePage (ls_state x) (ls_fw x) c (ls_lim x)"

lemma lastPresenceSerial_eq:
  assumes "\<And>cm. cm \<in> set (hp_ChannelMessages page) \<Longrightarrow> cm_Messages cm = [] \<and> cm_Presence cm \<noteq> []"
  shows "lastMessageSerial page = (if flattenPresence (hp_ChannelMessages page) = [] then []
    else p_Serial (last (flattenPresence (hp_ChannelMessages page))))"
  using assms [OF last_in_set] assms
  by (auto simp: lastMessageSerial_def flattenPresence_def last_concat_map Let_def)

interpretation rest_presence_history: link_paging "asks noEnd" presenceHistoryPage p_Serial
    "\<lambda>x. HandlePresenceHistory (ls_env x)" presenceOf
proof (unfold_locales, goal_cases)
  case (1 x c r m ys b)
  let ?cs = "snd (ls_state x)"
  obtain page where p: "History False (presenceQuery (ls_fw x) c (ls_lim x)) ?cs = Inr page"
    by (cases "histRange (presenceQuery (ls_fw x) c (ls_lim x)) (cs_order ?cs)") (simp add: History_def Let_def kind_defs)
  with 1(2) have ys: "ys = flattenPresence (hp_ChannelMessages page)" "b = hp_HasMore page"
    by (simp_all add: presenceHistoryPage_def presencePage_def flattenPresence_def)
  have n: "channelRequired r = None" "\<not> en_ctxErr (ls_env x)"
    using 1(1) by (simp_all add: asks_def channelRequired_def at_channel_def)
  obtain q f m' where k: "\<And>k. pagedRead (ls_env x) r (channelRequired r) k m = k q f m' ?cs"
    "noEnd r q = pageQuery (ls_fw x) c (ls_lim x)" and nx: "\<And>c'. asks noEnd x c' (at_cursor c' r) m'"
    using asks_pagedRead [OF 1(1) n(1)] by (auto simp: noEnd_def)
  have "q\<lparr>hq_Kind := KindPresence, hq_EndChannelSerial := []\<rparr> = presenceQuery (ls_fw x) c (ls_lim x)"
    unfolding presenceQuery_def k(2) [symmetric] by (simp add: noEnd_def)
  then have h: "HandlePresenceHistory (ls_env x) r m =
      (m', Replied 200 f (PresenceReply ys) (Some (writeLinkHeaders r (lastMessageSerial page) b)))"
    using p n(2) by (simp add: HandlePresenceHistory_def k(1) ys writeHistoryLinks_def)
  have "lastMessageSerial page = (if ys = [] then [] else p_Serial (last ys))"
    unfolding ys(1) by (rule lastPresenceSerial_eq) (rule History_presence [OF p])
  from h _ this nx show ?case by (rule served_page) simp
qed

lemma Paginate_shape:
  obtains vs where "hp_ChannelMessages (PaginateVersions all q) = map versionCM vs"
  using emitEach_eq [of q 0 VersionSerial versionCM _ zeroPage] by (simp add: PaginateVersions_def zeroPage_def)

lemma Paginate_annotations_shape:
  obtains as where "hp_ChannelMessages (PaginateAnnotations all q) = map annotationCM as"
  using emitEach_eq [of q 0 a_Serial annotationCM _ zeroPage] by (simp add: PaginateAnnotations_def zeroPage_def)

lemma forwardsDefault_at_cursor:
  "forwardsDefault (at_cursor c' r) (q\<lparr>hq_Cursor := c'\<rparr>) = (forwardsDefault r q)\<lparr>hq_Cursor := c'\<rparr>"
  by (simp add: forwardsDefault_def at_cursor_get)

definition asksVersions :: "listing \<Rightarrow> string \<Rightarrow> request \<Rightarrow> Manager \<Rightarrow> bool" where
  "asksVersions x c r m \<longleftrightarrow> asks forwardsDefault x c r m \<and> ls_target x \<noteq> [] \<and>
     map_of (cs_versions (snd (ls_state x))) (ls_target x) \<noteq> None"

definition versionListing :: "listing \<Rightarrow> string \<Rightarrow> Message list \<times> bool" where
  "versionListing x c = readVersions (snd (ls_state x)) (ls_target x) (ls_fw x) c (ls_lim x)"

interpretation rest_versions: link_paging asksVersions versionListing VersionSerial
    "\<lambda>x. HandleMessageVersions (ls_env x)" messagesOf
proof (unfold_locales, goal_cases)
  case (1 x c r m ys b)
  let ?cs = "snd (ls_state x)" and ?q = "pageQuery (ls_fw x) c (ls_lim x)"
  obtain all where v: "map_of (cs_versions ?cs) (ls_target x) = Some all" and a: "asks forwardsDefault x c r m"
    using 1(1) by (auto simp: asksVersions_def)
  define page where "page = PaginateVersions (CollapseAppendVersions all) ?q"
  obtain vs where vs: "hp_ChannelMessages page = map versionCM vs" unfolding page_def by (rule Paginate_shape)
  have s: "vs = ys" "b = hp_HasMore page" "flattenHistory (hp_ChannelMessages page) = vs"
    using 1(2) vs v by (simp_all add: versionListing_def readVersions_def Versions_def page_def [symmetric]
        versionCM_def comp_def flattenHistory_def)
  have n: "targetRequired r = None" "\<not> en_ctxErr (ls_env x)" "rq_serial r = ls_target x"
    using 1(1) by (simp_all add: asksVersions_def asks_def targetRequired_def at_channel_def)
  obtain q f m' where k: "\<And>k. pagedRead (ls_env x) r (targetRequired r) k m = k q f m' ?cs"
    "forwardsDefault r q = ?q" and nx: "\<And>c'. asks forwardsDefault x c' (at_cursor c' r) m'"
    using asks_pagedRead [OF a n(1) forwardsDefault_at_cursor] by metis
  have h: "HandleMessageVersions (ls_env x) r m =
      (m', Replied 200 f (MessagesReply ys) (Some (writeLinkHeaders r (lastVersionSerial page) b)))"
    using n v k s by (simp add: HandleMessageVersions_def Versions_def page_def [symmetric])
  have "lastVersionSerial page = (if ys = [] then [] else VersionSerial (last ys))"
    by (simp add: lastVersionSerial_def vs s(1) last_map versionCM_def)
  moreover have "asksVersions x c' (at_cursor c' r) m'" for c'
    using nx 1(1) by (simp add: asksVersions_def)
  ultimately show ?case by (intro served_page [OF h]) simp_all
qed

definition asksAnnotations :: "listing \<Rightarrow> string \<Rightarrow> request \<Rightarrow> Manager \<Rightarrow> bool" where
  "asksAnnotations x c r m \<longleftrightarrow> asks forwardsDefault x c r m \<and> ls_target x \<noteq> []"

definition annotationListing :: "listing \<Rightarrow> string \<Rightarrow> Annotation list \<times> bool" where
  "annotationListing x c = readAnnotations (snd (ls_state x)) (ls_target x) (ls_fw x) c (ls_lim x)"

interpretation rest_annotations: link_paging asksAnnotations annotationListing a_Serial
    "\<lambda>x. HandleListAnnotations (ls_env x)" annotationsOf
proof (unfold_locales, goal_cases)
  case (1 x c r m ys b)
  let ?cs = "snd (ls_state x)" and ?q = "pageQuery (ls_fw x) c (ls_lim x)"
  have a: "asks forwardsDefault x c r m" using 1(1) by (simp add: asksAnnotations_def)
  define page where "page = PaginateAnnotations (gget [] (cs_annotations ?cs) (ls_target x)) ?q"
  obtain vs where vs: "hp_ChannelMessages page = map annotationCM vs"
    unfolding page_def by (rule Paginate_annotations_shape)
  have s: "vs = ys" "b = hp_HasMore page" "flattenAnnotations (hp_ChannelMessages page) = vs"
    using 1(2) vs by (simp_all add: annotationListing_def readAnnotations_def Annotations_def page_def [symmetric]
        annotationCM_def comp_def flattenAnnotations_def)
  have n: "targetRequired r = None" "\<not> en_ctxErr (ls_env x)" "rq_serial r = ls_target x"
    using 1(1) by (simp_all add: asksAnnotations_def asks_def targetRequired_def at_channel_def)
  obtain q f m' where k: "\<And>k. pagedRead (ls_env x) r (targetRequired r) k m = k q f m' ?cs"
    "forwardsDefault r q = ?q" and nx: "\<And>c'. asks forwardsDefault x c' (at_cursor c' r) m'"
    using asks_pagedRead [OF a n(1) forwardsDefault_at_cursor] by metis
  have h: "HandleListAnnotations (ls_env x) r m =
      (m', Replied 200 f (AnnotationsReply ys) (Some (writeLinkHeaders r (lastAnnotationSerial page) b)))"
    using n k s by (simp add: HandleListAnnotations_def Annotations_def page_def [symmetric])
  have "lastAnnotationSerial page = (if ys = [] then [] else a_Serial (last ys))"
    by (simp add: lastAnnotationSerial_def vs s(1) last_map annotationCM_def)
  moreover have "asksAnnotations x c' (at_cursor c' r) m'" for c'
    using nx 1(1) by (simp add: asksAnnotations_def)
  ultimately show ?case by (intro served_page [OF h]) simp_all
qed

section \<open>The presence set\<close>

text \<open>The members a request selects, in order of their serials, read forwards only.\<close>

record memberListing =
  ml_env :: env
  ml_cs :: channelStore
  ml_clientID :: string
  ml_connectionID :: string
  ml_lim :: int

definition presenceFilter :: "memberListing \<Rightarrow> string \<Rightarrow> restPresenceQuery" where
  "presenceFilter x c = \<lparr>pq_clientID = ml_clientID x, pq_connectionID = ml_connectionID x,
     pq_limit = ml_lim x, pq_cursor = c\<rparr>"

definition selectedMembers :: "memberListing \<Rightarrow> PresenceMessage list" where
  "selectedMembers x = sort_key p_Serial (filter (memberSelected (presenceFilter x [])) (map snd (cs_members (ml_cs x))))"

definition membersPage :: "memberListing \<Rightarrow> string \<Rightarrow> int \<Rightarrow> PresenceMessage list \<times> bool" where
  "membersPage x c lim =
     (case paginateMembers (sort_key p_Serial (map snd (cs_members (ml_cs x)))) ((presenceFilter x c)\<lparr>pq_limit := lim\<rparr>)
      of (page, _, b) \<Rightarrow> (page, b))"

definition members_keyed :: "memberListing \<Rightarrow> bool" where
  "members_keyed x \<longleftrightarrow> distinct (map p_Serial (map snd (cs_members (ml_cs x)))) \<and>
     (\<forall>p \<in> set (map snd (cs_members (ml_cs x))). p_Serial p \<noteq> [])"

lemma members_valid:
  assumes "mem_inv (g, cs)" "batches_ok cs"
  shows "distinct (map p_Serial (map snd (cs_members cs))) \<and> (\<forall>p \<in> set (map snd (cs_members cs)). p_Serial p \<noteq> [])"
proof -
  let ?es = "log_presence (log_of cs)"
  have fold: "distinct (map fst (foldl foldMember [] es)) \<and>
      (\<forall>(k, p) \<in> set (foldl foldMember [] es). p \<in> set es \<and> member_of p = k)" for es
  proof (induction es rule: rev_induct)
    case (snoc e es)
    then show ?case
      by (auto simp: foldMember_def Let_def member_of_def distinct_update distinct_delete
          dest!: gput_memD gdel_memD)
  qed simp
  have m: "cs_members cs = foldl foldMember [] ?es"
    using assms(1) by (simp add: mem_inv_def derived_inv_def log_members_def)
  have "distinct (map p_Serial ?es)" using log_items_sorted(1) [OF assms] by (simp add: strict_sorted_iff)
  then have inj: "inj_on p_Serial (set ?es)" by (simp add: distinct_map)
  have "inj_on (\<lambda>x. p_Serial (snd x)) (set (cs_members cs))"
  proof (rule inj_onI, clarsimp)
    fix k p k' p'
    assume a: "(k, p) \<in> set (cs_members cs)" "(k', p') \<in> set (cs_members cs)" "p_Serial p = p_Serial p'"
    with fold [of ?es] have "p \<in> set ?es" "p' \<in> set ?es" "member_of p = k" "member_of p' = k'"
      unfolding m by auto
    with a(3) inj show "k = k' \<and> p = p'" by (auto dest: inj_onD)
  qed
  moreover have "distinct (cs_members cs)" using fold [of ?es] by (metis m distinct_map)
  ultimately have "distinct (map (\<lambda>x. p_Serial (snd x)) (cs_members cs))" by (simp add: distinct_map)
  moreover have "p_Serial p \<noteq> []" if "p \<in> set ?es" for p
    using log_items_nonempty(1) [of cs p] assms(1) that by (simp add: mem_inv_def)
  ultimately show ?thesis using fold [of ?es] unfolding m [symmetric]
    by (auto simp: comp_def case_prod_beta)
qed

interpretation member_scan: cursor_scan members_keyed selectedMembers p_Serial True membersPage
proof (unfold_locales, goal_cases)
  case (1 x c lim)
  have "memberSelected ((presenceFilter x c)\<lparr>pq_limit := lim\<rparr>) p \<longleftrightarrow>
      memberSelected (presenceFilter x []) p \<and> \<not> skips True c (p_Serial p)" for p
    by (auto simp: memberSelected_def presenceFilter_def skips_def)
  then have f: "filter (memberSelected ((presenceFilter x c)\<lparr>pq_limit := lim\<rparr>)) ps =
      filter (\<lambda>p. \<not> skips True c (p_Serial p)) (filter (memberSelected (presenceFilter x [])) ps)" for ps
    by (auto intro: filter_cong)
  have l: "pq_limit ((presenceFilter x c)\<lparr>pq_limit := lim\<rparr>) = lim" by simp
  have "sort_key p_Serial (filter (memberSelected ((presenceFilter x c)\<lparr>pq_limit := lim\<rparr>))
      (sort_key p_Serial ps)) = filter (\<lambda>p. \<not> skips True c (p_Serial p))
      (sort_key p_Serial (filter (memberSelected (presenceFilter x [])) ps))" for ps
    unfolding f filter_sort [symmetric] by (simp add: sort_key_id_if_sorted)
  then show ?case
    by (simp add: membersPage_def paginateMembers_def l page_of_def selectedMembers_def Let_def
        limited_def cut_short_def nat_less_iff del: filter_filter)
next
  case (2 x)
  then have "distinct (map p_Serial (filter (memberSelected (presenceFilter x [])) (map snd (cs_members (ml_cs x)))))"
    unfolding members_keyed_def by (blast intro: distinct_map_filter)
  then show ?case by (simp add: selectedMembers_def strict_sorted_iff distinct_map)
next
  case (3 x p)
  then show ?case by (auto simp: members_keyed_def selectedMembers_def)
qed

definition asksMembers :: "memberListing \<Rightarrow> string \<Rightarrow> request \<Rightarrow> Manager \<Rightarrow> bool" where
  "asksMembers x c r m \<longleftrightarrow>
     (\<exists>p. rq_auth r = Inr p \<and> Permits (pr_cap p) (rq_name r) OpSubscribe) \<and> rq_name r \<noteq> [] \<and>
     parsePresenceQuery (rq_query r) = Some (presenceFilter x c) \<and>
     acceptFormat (rq_accept r) \<noteq> None \<and> at_channel (ml_env x) (rq_name r) (ml_cs x) m"

definition membersListing :: "memberListing \<Rightarrow> string \<Rightarrow> PresenceMessage list \<times> bool" where
  "membersListing x c = (case membersPage x c (ml_lim x) of (ys, b) \<Rightarrow> (presentMembers ys, b))"

lemma presence_at_cursor:
  "parsePresenceQuery (rq_query r) = Some (presenceFilter x c) \<Longrightarrow>
     parsePresenceQuery (rq_query (at_cursor c' r)) = Some (presenceFilter x c')"
  by (auto simp: parsePresenceQuery_def presenceFilter_def at_cursor_get internalCursorParam_def split: option.splits)

lemma presentMembers_last: "ps \<noteq> [] \<Longrightarrow> p_Serial (last (presentMembers ps)) = p_Serial (last ps)"
  by (simp add: presentMembers_def last_map)

interpretation rest_members: link_paging asksMembers membersListing p_Serial "\<lambda>x. HandlePresence (ml_env x)" presenceOf
proof (unfold_locales, goal_cases)
  case (1 x c r m ys b)
  obtain p f where r: "entry r (channelRequired r) OpSubscribe = Inr p" "acceptFormat (rq_accept r) = Some f"
    using 1(1) by (auto simp: asksMembers_def entry_Inr channelRequired_def)
  obtain m' where m': "\<And>k. onChannel (ml_env x) r k m = k m' (ml_cs x)" "at_channel (ml_env x) (rq_name r) (ml_cs x) m'"
    using 1(1) onChannel_open by (metis asksMembers_def)
  obtain page bd where pm: "paginateMembers (sort_key p_Serial (map snd (cs_members (ml_cs x)))) (presenceFilter x c) = (page, bd, b)"
    and ys: "ys = presentMembers page"
    using 1(2) by (auto simp: membersListing_def membersPage_def presenceFilter_def split: prod.splits)
  have "\<not> en_ctxErr (ml_env x)" using 1(1) by (simp add: asksMembers_def at_channel_def)
  then have h: "HandlePresence (ml_env x) r m = (m', Replied 200 f (PresenceReply ys) (Some (writeLinkHeaders r bd b)))"
    using r m' 1(1) pm by (simp add: HandlePresence_def asksMembers_def Members_def ys)
  have "bd = (if page = [] then [] else p_Serial (last page))"
    using pm by (auto simp: paginateMembers_def Let_def)
  then have "bd = (if ys = [] then [] else p_Serial (last ys))"
    using presentMembers_last [of page] by (auto simp: ys presentMembers_def)
  moreover have "asksMembers x c' (at_cursor c' r) m'" for c'
    using 1(1) m'(2) presence_at_cursor by (auto simp: asksMembers_def)
  ultimately show ?case by (intro served_page [OF h]) simp_all
qed

lemma follow_map:
  assumes "\<And>a. key (f a) = key a"
  shows "follow (\<lambda>c. case pg c of (ys, b) \<Rightarrow> (map f ys, b)) key n c = map_option (map f) (follow pg key n c)"
proof (induction n arbitrary: c)
  case (Suc n)
  have "ys \<noteq> [] \<Longrightarrow> key (last (map f ys)) = key (last ys)" for ys by (simp add: last_map assms)
  with Suc show ?case by (auto split: prod.split simp: option.map_comp comp_def)
qed simp

section \<open>What a publish writes\<close>

lemma stampPublish_speaks:
  "stampPublish conns r clientID msgs = Inr msgs' \<Longrightarrow> \<forall>m \<in> set msgs'. speaks clientID (m_ClientID m)"
proof (induction msgs arbitrary: msgs')
  case (Cons msg msgs)
  obtain cid where cid: "MessageClientID clientID (m_ClientID msg) = Some cid"
    using Cons.prems by (auto split: if_splits option.splits)
  obtain msg' ms where "msgs' = msg' # ms" "m_ClientID msg' = cid" "stampPublish conns r clientID msgs = Inr ms"
    using Cons.prems cid by (auto split: if_splits option.splits sum.splits)
  with Cons.IH cid show ?case by (simp add: MessageClientID_speaks)
qed simp

lemma stampIDs_keeps: "map m_ClientID (stampIDs b i ms) = map m_ClientID ms"
  by (induction ms arbitrary: i) auto

lemma stampCreates_keeps: "map m_ClientID (stampCreates s i ms) = map m_ClientID ms"
  by (induction ms arbitrary: i) (auto simp: StampCreateVersion_def Let_def)

lemma stored_messages:
  assumes "StampMessageIDs fresh msgs = Inr (b, msgs1)"
  shows "map m_ClientID (stampCreates s 0 msgs1) = map m_ClientID msgs"
  using assms by (auto simp: StampMessageIDs_def stampIDs_keeps stampCreates_keeps split: sum.splits prod.splits if_splits)

lemma writeChannel_store:
  assumes "reachable series (mg_store m)" "clock_ok (en_now e) (ms_gen (mg_store m))"
    and "writeChannel e ch (OpStore fresh msgs) m = (m', res)" "channel_log ch m' \<noteq> channel_log ch m"
  shows "\<exists>cm. channel_log ch m' = channel_log ch m @ [cm] \<and> res = Inr (Some cm, False) \<and>
    map m_ClientID (cm_Messages cm) = map m_ClientID msgs"
proof -
  obtain cs where cs: "map_of (ms_channels (mg_store m)) ch = Some cs"
    using assms(3,4) by (cases "map_of (ms_channels (mg_store m)) ch") (auto simp: writeChannel_def)
  obtain g' cs' r' where x: "Store (en_ctxErr e) (en_now e) fresh msgs (ms_gen (mg_store m), cs) = ((g', cs'), r')"
    by (metis prod.collapse)
  have m': "m' = m\<lparr>mg_store := putChannel ch (g', cs') (mg_store m)\<rparr>" "res = r'"
    using assms(3) cs x by (auto simp: writeChannel_def)
  have l: "channel_log ch m = log_of cs" "channel_log ch m' = log_of cs'"
    using cs by (simp_all add: channel_log_def m' putChannel_def)
  have inv: "mem_inv (ms_gen (mg_store m), cs)" by (rule reachable_inv [OF assms(1) cs])
  have "\<exists>c. r' = Inr (c, False)"
    using x assms(4) l by (auto simp: Store_def Let_def split: if_splits sum.splits option.splits prod.splits)
  then obtain c where r: "r' = Inr (c, False)" by blast
  have "Store (en_ctxErr e) (en_now e) fresh msgs (ms_gen (mg_store m), cs) = ((g', cs'), Inr (c, False))"
    using x r by simp
  then obtain cm msgs1 where f: "c = Some cm" "ext_step (en_now e) (ms_gen (mg_store m)) cs cm cs'"
    "StampMessageIDs fresh msgs = Inr (cm_ID cm, msgs1)" "cm_Messages cm = stampCreates (cm_ChannelSerial cm) 0 msgs1"
    by (rule Store_fresh [OF inv assms(2)]) auto
  with ext_log [OF f(2)] stored_messages [OF f(3)] l r m'(2) show ?thesis by auto
qed

section \<open>Properties\<close>

text \<open>What the listing theorems take from a request that asks for the first page.\<close>

lemma queryLimit_pos: "queryLimit v = Some lim \<Longrightarrow> lim > 0"
  by (auto simp: queryLimit_def defaultHistoryLimit_def split: if_splits option.splits)

lemma parse_limit: "parseHistoryQuery qs = Some q \<Longrightarrow> hq_Limit q > 0"
  by (auto simp: parseHistoryQuery_def Let_def queryLimit_pos split: option.splits)

lemma asks_facts:
  assumes "asks adj x c r m" "\<And>q. hq_Limit (adj r q) = hq_Limit q" "reachable series (mg_store m)"
  shows "ls_lim x > 0" "\<exists>g. mem_inv (g, snd (ls_state x))"
proof -
  obtain q where q: "parseHistoryQuery (rq_query r) = Some q" "adj r q = pageQuery (ls_fw x) c (ls_lim x)"
    using assms(1) by (auto simp: asks_def)
  show "ls_lim x > 0" using parse_limit [OF q(1)] assms(2) [of q] q(2) by simp
  show "\<exists>g. mem_inv (g, snd (ls_state x))"
    using assms(1) reachable_inv [OF assms(3)] by (auto simp: asks_def at_channel_def)
qed


text \<open>GET presence history is complete: following its next links shows every logged presence event
  of the channel once, in log order or its reverse, provided no batch has more than a thousand
  events.\<close>

theorem rest_presence_history_complete:
  assumes "reachable series (mg_store m)" "asks noEnd x [] r m" "batches_ok (snd (ls_state x))"
    and "length (log_presence (log_of (snd (ls_state x)))) < n"
  shows "browse (HandlePresenceHistory (ls_env x)) presenceOf n r m =
    Some (let es = log_presence (log_of (snd (ls_state x))) in if ls_fw x then es else rev es)"
proof -
  obtain g where inv: "mem_inv (g, snd (ls_state x))" "ls_lim x > 0"
    using asks_facts [OF assms(2) _ assms(1)] by (auto simp: noEnd_def)
  then have v: "history_valid (g, snd (ls_state x))" using assms(3) by (simp add: history_valid_def)
  have "presenceHistoryPage x = (\<lambda>c. presencePage (g, snd (ls_state x)) (ls_fw x) c (ls_lim x))"
    by (auto simp: presenceHistoryPage_def presencePage_def)
  with presence_history.follow_all [OF v inv(2), of n "ls_fw x"] assms(4) show ?thesis
    by (simp add: rest_presence_history.browse_follow [OF assms(2)] Let_def)
qed

text \<open>GET versions and GET annotations of a message are complete: following the next links shows
  every version of the message once, each run of appends collapsed to its last aggregate, and
  every annotation once, oldest first unless the request asks for the reverse.\<close>

theorem rest_versions_annotations_complete:
  assumes "reachable series (mg_store m)" "asksVersions x [] r m" "batches_ok (snd (ls_state x))"
    and "length (log_versions (log_of (snd (ls_state x))) (ls_target x)) < n"
    and "length (log_annotations (log_of (snd (ls_state x))) (ls_target x)) < n"
  shows "browse (HandleMessageVersions (ls_env x)) messagesOf n r m =
      Some (let vs = CollapseAppendVersions (log_versions (log_of (snd (ls_state x))) (ls_target x))
        in if ls_fw x then vs else rev vs) \<and>
    browse (HandleListAnnotations (ls_env x)) annotationsOf n r m =
      Some (let as = log_annotations (log_of (snd (ls_state x))) (ls_target x) in if ls_fw x then as else rev as)"
proof -
  let ?cs = "snd (ls_state x)"
  let ?vs = "CollapseAppendVersions (log_versions (log_of ?cs) (ls_target x))"
  let ?as = "log_annotations (log_of ?cs) (ls_target x)"
  have a: "asks forwardsDefault x [] r m" "asksAnnotations x [] r m" "map_of (cs_versions ?cs) (ls_target x) \<noteq> None"
    using assms(2) by (simp_all add: asksVersions_def asksAnnotations_def)
  have fd: "hq_Limit (forwardsDefault r q) = hq_Limit q" for q by (simp add: forwardsDefault_def)
  obtain g where inv: "mem_inv (g, ?cs)" "ls_lim x > 0"
    using asks_facts [OF a(1) fd assms(1)] by auto
  have "map_of (cs_versions ?cs) (ls_target x) = Some (log_versions (log_of ?cs) (ls_target x))"
    using inv(1) a(3) by (simp add: mem_inv_def derived_inv_def split: if_splits)
  then have v: "versionListing x = (\<lambda>c. versionsPage ?vs (ls_fw x) c (ls_lim x))"
    by (intro ext) (simp add: versionListing_def readVersions_def Versions_def versionsPage_def Let_def)
  have n: "annotationListing x = (\<lambda>c. annotationsPage ?as (ls_fw x) c (ls_lim x))"
    using inv(1) by (intro ext) (simp add: annotationListing_def readAnnotations_def Annotations_def annotationsPage_def
        Let_def mem_inv_def derived_inv_def)
  have "length ?vs < n" using assms(4) list_emb_length [OF Collapse_subseq] by (meson le_less_trans)
  then show ?thesis
    using versions_paging.follow_all [OF versions_keyed [OF inv(1) assms(3), of "ls_target x"] inv(2), of n "ls_fw x"]
      annotations_paging.follow_all [OF annotations_keyed [OF inv(1) assms(3)] inv(2) assms(5), of "ls_fw x"]
    by (simp add: rest_versions.browse_follow [OF assms(2)] rest_annotations.browse_follow [OF a(2)] v n Let_def)
qed

text \<open>GET presence is complete: following its next links shows every member of the channel that
  the clientId and connectionId filters select, once, in order of the serial of its last event,
  marked present.\<close>

theorem rest_presence_complete:
  assumes "reachable series (mg_store m)" "asksMembers x [] r m" "batches_ok (ml_cs x)"
    and "length (cs_members (ml_cs x)) < n"
  shows "browse (HandlePresence (ml_env x)) presenceOf n r m = Some (presentMembers (selectedMembers x))"
proof -
  have lim: "ml_lim x > 0"
    using assms(2) by (auto simp: asksMembers_def parsePresenceQuery_def presenceFilter_def split: option.splits dest: queryLimit_pos)
  obtain g where "mem_inv (g, ml_cs x)"
    using assms(2) reachable_inv [OF assms(1)] by (auto simp: asksMembers_def at_channel_def)
  from members_valid [OF this assms(3)] have v: "members_keyed x" by (simp add: members_keyed_def)
  have "length (selectedMembers x) \<le> length (cs_members (ml_cs x))"
    by (metis selectedMembers_def length_filter_le length_map length_sort)
  then have "length (selectedMembers x) < n" using assms(4) by simp
  from member_scan.follow_scan [OF v lim this]
  have "follow (membersListing x) p_Serial n [] = Some (map (\<lambda>p. p\<lparr>p_Action := PresencePresent\<rparr>) (selectedMembers x))"
    unfolding membersListing_def presentMembers_def by (subst follow_map) simp_all
  then show ?thesis by (simp add: rest_members.browse_follow [OF assms(2)] presentMembers_def)
qed

text \<open>C14: a REST publish is confined. If it changes a channel's log, the channel is the one the
  request names, its name is valid, the credential permits publishing there, and the log grew by
  one ChannelMessage whose messages all carry an identity that the credential's clientId may
  assume; no other request leaves a trace.\<close>

theorem rest_publish_confined:
  assumes "reachable series (mg_store m)" "bound m" "room 2 (mg_store m)" "en_now e + 1 < 10 ^ 14"
    and "HandlePublish dc conns e r m = (m', resp)" "channel_log name m' \<noteq> channel_log name m"
  shows "name = rq_name r \<and> ValidChannelName (runes name) \<and>
    (\<exists>p clientID param cm. rq_auth r = Inr p \<and> Permits (pr_cap p) name OpPublish \<and>
       ResolveClientID p param = Inr clientID \<and> channel_log name m' = channel_log name m @ [cm] \<and>
       (\<forall>x \<in> set (cm_Messages cm). speaks clientID (m_ClientID x)))"
proof -
  obtain msgs f where pp: "preparePublish dc conns r = Inr (msgs, f)"
    using assms(5,6) by (cases "preparePublish dc conns r") (auto simp: HandlePublish_def)
  obtain p clientID msgs0 where id: "identify r = Inr (p, clientID)" "ValidChannelName (runes (rq_name r))"
    "authorize r p (rq_name r) OpPublish = None" "stampPublish conns r clientID msgs0 = Inr msgs"
    using pp by (auto simp: preparePublish_def split: sum.splits prod.splits if_splits option.splits)
  obtain param where p: "rq_auth r = Inr p" "ResolveClientID p param = Inr clientID" "Permits (pr_cap p) (rq_name r) OpPublish"
    using id by (auto simp: identify_def authenticate_def resolveRequestClientID_def authorize_def
        split: sum.splits option.splits if_splits)
  obtain m1 ok where g: "ManagerGetChannel (en_chErr e) (en_now e) (rq_name r) m = (m1, ok)" by fastforce
  obtain m2 res where w: "writeChannel e (rq_name r) (OpStore (en_fresh e) msgs) m1 = (m2, res)" by fastforce
  note l1 = GetChannel_log(1) [OF assms(2) g]
  have "m' = m1 \<or> m' = m2"
    using assms(5) pp g w by (auto simp: HandlePublish_def onChannel_def split: if_splits option.splits sum.splits storage_error.splits)
  with l1 assms(6) have m': "m' = m2" by auto
  have n: "name = rq_name r" using writeChannel_other [OF w] l1 assms(6) m' by metis
  have "store_ok series (Suc 0) m1"
    by (rule GetChannel_store_ok(1) [OF _ _ g]) (use assms(1-4) in \<open>simp_all add: store_ok_def numeral_2_eq_2\<close>)
  then have "reachable series (mg_store m1)" "clock_ok (en_now e) (ms_gen (mg_store m1))"
    using assms(4) room_clock [of 0 "mg_store m1" "en_now e"] by (simp_all add: store_ok_def)
  from writeChannel_store [OF this w] obtain cm where cm:
    "channel_log name m' = channel_log name m @ [cm]" "map m_ClientID (cm_Messages cm) = map m_ClientID msgs"
    using assms(6) n m' l1 by auto
  have "\<forall>x \<in> set (cm_Messages cm). speaks clientID (m_ClientID x)"
    using stampPublish_speaks [OF id(4)] arg_cong [OF cm(2), of set] by (force simp: image_iff)
  with n id(2) p cm(1) show ?thesis by blast
qed

text \<open>C15: REST and realtime mutations are the same operation. On the same store, for a principal
  with the capability and clientId of a connection, the PATCH handler and the connection's
  mutation worker leave the same store; the response carries the version serial exactly when
  the worker acknowledges with it, an error exactly when it refuses, and the one panics exactly
  when the other does.\<close>

theorem rest_mutation_equals_realtime:
  assumes "prepareMutate dc r = Inr (p, clientID, mut, f)" "cn_cap c = pr_cap p" "cn_clientID c = clientID"
    and "HandleMutate dc e r m = (m', resp)"
  shows "(case runMutate e n (rq_name r) mut (m, c) of
      None \<Rightarrow> resp = Panicked
    | Some (m2, c2) \<Rightarrow> m2 = m' \<and>
        ((\<exists>vs. resp = Replied 200 f (MutateReply vs) None \<and> c2 = ack n [[vs]] c) \<or>
         (\<exists>er info. resp = Failed er \<and> c2 = nack n info c)))"
proof -
  have wr: "\<exists>er. writeErrorInfo r a b t = Failed er" "\<exists>er. writeCapabilityError r t = Failed er" for a b t
    by (simp_all add: writeErrorInfo_def writeCapabilityError_def Let_def)
  have au: "authorizeMutation (en_ctxErr e) c cs (rq_name r) mut = None \<longleftrightarrow>
      restAuthorizeMutation (en_ctxErr e) r p clientID cs mut = None" for cs
    using assms(2,3) by (auto simp: authorizeMutation_def restAuthorizeMutation_def
        split: prod.splits MutationOutcome.splits sum.splits storage_error.splits)
  have ae: "restAuthorizeMutation (en_ctxErr e) r p clientID cs mut = Some x \<Longrightarrow> \<exists>er. x = Failed er" for cs x
    using wr by (auto simp: restAuthorizeMutation_def
        split: prod.splits MutationOutcome.splits sum.splits storage_error.splits if_splits)
  obtain m1 ok where g: "ManagerGetChannel (en_chErr e) (en_now e) (rq_name r) m = (m1, ok)" by fastforce
  obtain m2 res where w: "writeChannel e (rq_name r) (OpMutate mut) m1 = (m2, res)" by fastforce
  note defs = HandleMutate_def onChannel_def runMutate_def
  show ?thesis
  proof (cases "ok \<and> (\<exists>cs. map_of (ms_channels (mg_store m1)) (rq_name r) = Some cs)")
    case False
    with assms(1,4) g wr(1) show ?thesis by (auto simp: defs split: option.split)
  next
    case True
    then obtain cs where cs: ok "map_of (ms_channels (mg_store m1)) (rq_name r) = Some cs" by blast
    show ?thesis
    proof (cases "restAuthorizeMutation (en_ctxErr e) r p clientID cs mut")
      case (Some x)
      moreover from this obtain info where "authorizeMutation (en_ctxErr e) c cs (rq_name r) mut = Some info"
        using au [of cs] by (cases "authorizeMutation (en_ctxErr e) c cs (rq_name r) mut") auto
      ultimately show ?thesis using assms(1,4) g cs ae [OF Some] by (auto simp: defs)
    next
      case None
      with au have "authorizeMutation (en_ctxErr e) c cs (rq_name r) mut = None" by simp
      with None assms(1,4) g w cs wr(1) show ?thesis
        by (auto simp: defs split: option.splits sum.splits list.splits storage_error.splits)
    qed
  qed
qed

section \<open>Concrete requests\<close>

definition demo_principal :: Principal where
  "demo_principal = \<lparr>pr_Method = MethodToken, pr_ClientID = ''amy'', pr_HasClientID = True,
     pr_cap = [(''room'', [''publish'', ''subscribe'', ''history'', ''message-update-own''])], pr_ExpiresAt = 0\<rparr>"

definition demo_request :: request where
  "demo_request = \<lparr>rq_auth = Inr demo_principal, rq_query = [(''limit'', ''1''), (''direction'', ''forwards'')],
     rq_clientIDHeader = [], rq_contentType = [], rq_accept = [], rq_body = Some ''{}'', rq_name = ''room'',
     rq_serial = demo_target\<rparr>"

definition demo_listing :: listing where
  "demo_listing = \<lparr>ls_env = demo_env, ls_state = (ms_gen demo2, demo_cs demo2), ls_fw = True, ls_lim = 1,
     ls_target = demo_target\<rparr>"

definition demo_codec :: codec where
  "demo_codec = \<lparr>dc_message = (\<lambda>f s. Some (if s = ''{}'' then zeroMessage\<lparr>m_Data := AnyStr ''hi''\<rparr>
       else zeroMessage\<lparr>m_Action := MessageAppend, m_Data := AnyStr ''lo''\<rparr>)),
     dc_messages = (\<lambda>f s. None), dc_annotation = (\<lambda>f s. None), dc_annotations = (\<lambda>f s. None)\<rparr>"

lemma demo_parse:
  "parseHistoryQuery (rq_query demo_request) = Some (pageQuery True [] 1)" "noEnd r (pageQuery True [] 1) = pageQuery True [] 1"
  "forwardsDefault demo_request (pageQuery True [] 1) = pageQuery True [] 1"
  "Permits (pr_cap demo_principal) ''room'' OpHistory" "acceptFormat [] = Some FormatJSON" "demo_target \<noteq> []"
  by code_simp+

lemma demo_sel:
  "rq_auth demo_request = Inr demo_principal" "rq_name demo_request = ''room''" "rq_serial demo_request = demo_target"
  "rq_accept demo_request = []" "ls_env demo_listing = demo_env" "ls_state demo_listing = (ms_gen demo2, demo_cs demo2)"
  "ls_fw demo_listing" "ls_lim demo_listing = 1" "ls_target demo_listing = demo_target"
  by (simp_all add: demo_request_def demo_listing_def)

lemma demo_manager: "reachable ''ab'' (mg_store (NewManager demo2))" "at_channel demo_env ''room'' (demo_cs demo2) (NewManager demo2)"
  using demo_reachable demo_channel by (simp_all add: NewManager_def at_channel_def bound_def demo_env_def)

lemma demo_asks:
  "asks (\<lambda>r q. q) demo_listing [] demo_request (NewManager demo2)" "asks noEnd demo_listing [] demo_request (NewManager demo2)"
  "asks forwardsDefault demo_listing [] demo_request (NewManager demo2)"
  using demo_manager by (simp_all add: asks_def demo_sel demo_parse)


theorem rest_presence_history_complete_witness:
  "browse (HandlePresenceHistory demo_env) presenceOf 2 demo_request (NewManager demo2) =
     Some (log_presence (log_of (demo_cs demo2)))"
proof -
  have "batches_ok (demo_cs demo2)" "length (log_presence (log_of (demo_cs demo2))) < 2" by code_simp+
  with rest_presence_history_complete [OF demo_manager(1) demo_asks(2), of 2] show ?thesis by (simp add: demo_sel)
qed

theorem rest_versions_annotations_complete_witness:
  "browse (HandleMessageVersions demo_env) messagesOf 2 demo_request (NewManager demo2) =
     Some (CollapseAppendVersions (log_versions (log_of (demo_cs demo2)) demo_target))"
proof -
  have "batches_ok (demo_cs demo2)" "length (log_versions (log_of (demo_cs demo2)) demo_target) < 2"
    "length (log_annotations (log_of (demo_cs demo2)) demo_target) < 2" "map_of (cs_versions (demo_cs demo2)) demo_target \<noteq> None"
    by code_simp+
  moreover from this have "asksVersions demo_listing [] demo_request (NewManager demo2)"
    using demo_asks(3) by (simp add: asksVersions_def demo_sel demo_parse)
  ultimately show ?thesis
    using rest_versions_annotations_complete [OF demo_manager(1), of demo_listing demo_request 2] by (simp add: demo_sel)
qed

theorem rest_presence_complete_witness:
  "browse (HandlePresence demo_env) presenceOf 2 demo_request (NewManager demo2) =
     Some (presentMembers (selectedMembers \<lparr>ml_env = demo_env, ml_cs = demo_cs demo2, ml_clientID = [],
       ml_connectionID = [], ml_lim = 1\<rparr>))"
proof -
  let ?x = "\<lparr>ml_env = demo_env, ml_cs = demo_cs demo2, ml_clientID = [], ml_connectionID = [], ml_lim = 1\<rparr>"
  have "batches_ok (demo_cs demo2)" "length (cs_members (demo_cs demo2)) < 2"
    "parsePresenceQuery (rq_query demo_request) = Some (presenceFilter ?x [])"
    "Permits (pr_cap demo_principal) ''room'' OpSubscribe" by code_simp+
  moreover from this have "asksMembers ?x [] demo_request (NewManager demo2)"
    using demo_manager by (simp add: asksMembers_def demo_sel demo_parse)
  ultimately show ?thesis using rest_presence_complete [OF demo_manager(1), of ?x demo_request 2] by simp
qed

theorem rest_publish_confined_witness:
  "\<exists>m' resp. HandlePublish demo_codec None demo_env demo_request (NewManager demo1) = (m', resp) \<and>
     (\<exists>cm. channel_log ''room'' m' = channel_log ''room'' (NewManager demo1) @ [cm])"
proof -
  let ?m1 = "(NewManager demo1)\<lparr>mg_channels := [(''room'', True)]\<rparr>"
  let ?msgs = "[zeroMessage\<lparr>m_Data := AnyStr ''hi'', m_ClientID := ''amy''\<rparr>]"
  obtain m' resp where h: "HandlePublish demo_codec None demo_env demo_request (NewManager demo1) = (m', resp)" by fastforce
  have pp: "preparePublish demo_codec None demo_request = Inr (?msgs, FormatJSON)" by code_simp
  have g: "ManagerGetChannel (en_chErr demo_env) (en_now demo_env) ''room'' (NewManager demo1) = (?m1, True)" by code_simp
  obtain m2 res where w: "writeChannel demo_env ''room'' (OpStore (en_fresh demo_env) ?msgs) ?m1 = (m2, res)" by fastforce
  have "map_of (ms_channels (mg_store ?m1)) ''room'' = Some (demo_cs demo1)"
    using demo_channel(1) by (simp add: NewManager_def)
  with h pp g w have "m' = m2"
    by (auto simp: HandlePublish_def onChannel_def demo_sel split: sum.splits option.splits storage_error.splits)
  moreover have "length (channel_log ''room'' (fst (writeChannel demo_env ''room'' (OpStore (en_fresh demo_env) ?msgs) ?m1))) = 2"
    "length (channel_log ''room'' (NewManager demo1)) = 1" by code_simp+
  ultimately have c: "channel_log ''room'' m' \<noteq> channel_log ''room'' (NewManager demo1)" using w by auto
  have "reachable ''ab'' (mg_store (NewManager demo1))" "bound (NewManager demo1)" "room 2 (mg_store (NewManager demo1))"
    "en_now demo_env + 1 < 10 ^ 14"
    by (simp_all add: bound_def NewManager_def demo_reachable room_def demo_gens gen_inv_def width_defs demo_env_def)
  from rest_publish_confined [OF this h c] h show ?thesis by blast
qed

theorem rest_mutation_equals_realtime_witness:
  "\<exists>m' vs. HandleMutate demo_codec demo_env (demo_request\<lparr>rq_body := Some ''{+}''\<rparr>) (NewManager demo1) =
       (m', Replied 200 FormatJSON (MutateReply vs) None) \<and>
     map_option fst (runMutate demo_env 1 ''room'' (demo_append\<lparr>m_ClientID := ''amy''\<rparr>) (NewManager demo1,
       demo_conn\<lparr>cn_cap := pr_cap demo_principal\<rparr>)) = Some m'"
proof -
  let ?r = "demo_request\<lparr>rq_body := Some ''{+}''\<rparr>" and ?mut = "demo_append\<lparr>m_ClientID := ''amy''\<rparr>"
  let ?c = "demo_conn\<lparr>cn_cap := pr_cap demo_principal\<rparr>"
  have p: "prepareMutate demo_codec ?r = Inr (demo_principal, ''amy'', ?mut, FormatJSON)" "cn_clientID ?c = ''amy''" by code_simp+
  obtain m' resp where h: "HandleMutate demo_codec demo_env ?r (NewManager demo1) = (m', resp)" by fastforce
  have "case runMutate demo_env 1 ''room'' ?mut (NewManager demo1, ?c) of None \<Rightarrow> False
    | Some (m2, c2) \<Rightarrow> pm_Action (last (cn_outbound c2)) \<noteq> ActionNack" by code_simp
  then obtain m2 c2 where "runMutate demo_env 1 ''room'' ?mut (NewManager demo1, ?c) = Some (m2, c2)"
    "pm_Action (last (cn_outbound c2)) \<noteq> ActionNack" by (auto split: option.splits)
  with rest_mutation_equals_realtime [OF p(1) _ p(2) h, of 1] h show ?thesis
    by (auto simp: demo_sel nack_def queue_def frame_def)
qed

end
