(* ===== verification/Spec2Isabelle.thy ===== *)
theory Spec2Isabelle
  imports MemoryHistory BoltCodec PgFaults Auth Replay Delivery SessionLaws RestLaws
begin

text \<open>
  Verification of ably-server, a pub/sub server: clients attach to named channels over a
  WebSocket, publish messages, mutate and annotate them, enter presence, and read history.

  \<^bold>\<open>The program and the theories.\<close> A process has one storage root with one channel store per
  channel, a registry of live channels in front of it, and one connection object per socket.

    \<^item> \<open>Prelude\<close>: Go's maps as association lists (\<open>gput\<close>, \<open>gdel\<close>, \<open>gget\<close>), int64 arithmetic
      (\<open>wrap64\<close>), decimal printing and parsing, splitting and joining; the order on strings is Go's
      byte order. \<open>Runes\<close>: UTF-8 decoding, trimming and lower case of the standard library.
    \<^item> \<open>Serial\<close> (\<open>internal/serial\<close>): the generator of channel serials and the message serials.
    \<^item> \<open>Protocol\<close>, \<open>Wire\<close> (\<open>internal/protocol\<close>): messages, presence, annotations, frames, flags.
      \<open>Summary\<close>: annotation types, validation, the folds of \<open>summary.go\<close>.
    \<^item> \<open>Storage\<close>, \<open>Paging\<close> (\<open>internal/storage/storage.go\<close>): batch ids, version merge, paging.
    \<^item> \<open>Core\<close>, \<open>Manager\<close> (\<open>internal/core\<close>): the live list of a channel, its readers, channel names,
      the registry.
    \<^item> \<open>Memory\<close> (\<open>internal/storage/memory\<close>): every operation of the in-memory backend, errors
      included. \<open>MemoryLog\<close> proves the invariant of a store, \<open>MemoryStore\<close> the contract
      (\<open>store_backend\<close>, a locale, interpreted on the backend) and the properties of all reachable
      states, \<open>MemoryHistory\<close> the paging of every read.
    \<^item> \<open>Bolt\<close> (\<open>internal/storage/bbolt\<close>): every operation of the on-disk backend over a record of
      library functions. \<open>BoltScan\<close>: the laws of the library and the cursor loops, \<open>BoltLaws\<close>: the
      buckets against the maps of an in-memory store, \<open>BoltSim\<close>: one write simulated, \<open>BoltReads\<close>:
      the reads, \<open>BoltStore\<close>: channels apart and whole runs, \<open>BoltFile\<close>: the properties, on an
      executable library too.
    \<^item> \<open>Base64\<close>, \<open>Msgpack\<close> (\<open>internal/protocol/msgpack.go\<close>): the transcoder of payloads from msgpack to JSON text, on
      bytes. \<open>Json\<close>: a reference reader of JSON. \<open>MsgpackLaws\<close>: a reference of msgpack, every encoding of a value,
      and the text the transcoder writes for it. \<open>Transcode\<close>: the two together.
    \<^item> \<open>Payload\<close> (\<open>data.go\<close>): the normalisation of payloads. \<open>Codec\<close> (\<open>msgpackcodec.go\<close>): the encoders and decoders of
      messages, presence and annotations over a record of library functions. \<open>CodecLaws\<close>: they are inverse.
      \<open>BoltCodec\<close>: the on-disk backend over them.
    \<^item> \<open>Pg\<close> (\<open>internal/storage/postgres\<close>, with the functions of its schema): the tables, the minting of serials in SQL, the
      loads and every write in the two parts its transaction has, before and from the lock of the channel row on. \<open>PgReads\<close>:
      the queries and their pages. \<open>PgNode\<close>: the channels of a node, the listener, the recovery after a lost connection,
      leases, the reaper, migrations. \<open>PgLaws\<close>: the serials, and what each write adds. \<open>PgCluster\<close>: any number of nodes on one
      database as a transition system, and its invariant. \<open>PgHistory\<close>: pages against what was committed. \<open>PgDelivery\<close>: what
      a listener delivers and a recovery restores. \<open>PgFaults\<close>: where recovery and concurrent writes do less than the other backends.
    \<^item> \<open>Capability\<close>, \<open>Auth\<close> (\<open>internal/auth\<close>): matching and intersection of capabilities, keys,
      tokens, client ids, token requests.
    \<^item> \<open>Attachment\<close> (\<open>internal/realtime/attachment.go\<close>, \<open>rewind.go\<close>): modes, replay and delivery of
      one attachment. \<open>Replay\<close>: what a resume replays. \<open>Delivery\<close>: what a subscriber holds.
    \<^item> \<open>Connection\<close> (\<open>connection.go\<close>, \<open>mutation.go\<close>, \<open>presence.go\<close>, \<open>annotation.go\<close>, \<open>reauth.go\<close>): the
      frame handlers, the publish worker, re-authentication. \<open>ConnectionLaws\<close>: the connection as a
      transition system and its invariants. \<open>Worker\<close>: connection and store together.
    \<^item> \<open>Sessions\<close> (\<open>server.go\<close>, \<open>internal/id\<close>, the timer of \<open>reauth.go\<close>): upgrade, connection keys,
      registry, teardown, shutdown. \<open>SessionLaws\<close>: what they guarantee.
    \<^item> \<open>Rest\<close> (\<open>internal/rest\<close>): every HTTP handler as a function of the request and the registry.
      \<open>RestLaws\<close>: a client that follows next links (locale \<open>link_paging\<close>, interpreted on the five
      listings), REST against realtime mutations, what a publish may write.

  \<^bold>\<open>How state and effects are modelled.\<close> A struct is a record with a prefix per type, a map an
  association list, a fallible call a sum or an option. A method that runs under a mutex is one
  function on the state, so that interleavings are sequences of such steps: \<open>storage_step\<close> for
  the storage root, \<open>cluster_step\<close> for the nodes on one database (a write begins, a write locks and commits or fails,
  a channel is materialised, leases are renewed and reaped), \<open>conn_step\<close> for a connection (a frame is dispatched, the worker runs a task, an
  attachment starts or forwards, the rest of the process changes the store). The closures on a
  connection's publish queue are the datatype \<open>task\<close>. Blocking calls return an \<open>outcome\<close>. A panic
  of the source is \<open>None\<close>. The clock, random ids, the cancellation of contexts and the failure
  of a backend are arguments of each step, so the theorems hold for all of them.

  \<^bold>\<open>What is shown.\<close> The log of a channel determines its store and its live list, its serials
  increase, retries return the original, mutations are atomic; the on-disk backend answers and
  reads as the in-memory one, its file holds exactly what was acknowledged, a restart resumes
  there; its blobs decode to what was stored, a payload survives either transport, and msgpack is transcoded to
  JSON that reads as the same value; on postgres serials increase in commit order across nodes, every commit is notified
  once and in that order, every node delivers what was committed, in order and without repeats, a recovery restores messages and presence, and a page of
  history is what was committed; following the next links of
  any REST listing shows every item once; a REST mutation does what a realtime one does;
  a stream has no gaps; a resume replays exactly the gap; a subscriber that applies what it is
  sent holds the newest data; every accepted frame is answered once and in order, and the
  worker gets through its queue; modes stay inside requested and permitted ones in every
  interleaving; a message is changed only under a grant; tokens stay inside their key; keys,
  modes and serials round-trip; delayed leaves hit exactly the captured members; tokens expire
  on time; a shutdown is paced within its deadline. Each theory also proves, with a concrete
  input, the places where the code does less than it says.

  \<^bold>\<open>Bounds.\<close> A channel serial has 14 digits of milliseconds; properties that mint serials assume
  \<open>clock_ok\<close> (or \<open>room\<close>, for several) that the clock leaves room in them, which holds until the
  year 5138. The steps of a cluster ask the same of the clock of the database. The client that follows next links (\<open>Paging\<close>) runs on fuel, the number of items
  plus one, and is shown to finish. The publish queue has the capacity of the source, 16. The transcoder runs on
  fuel, twice the input and one, which is shown to be enough; more changes nothing.

  The reads of the on-disk backend walk cursors until the keys end; a walk that does not end
  would be \<open>None\<close>, and is shown not to happen. Its theorems assume that channel names and the
  series id hold no NUL.

  \<^bold>\<open>Parameters.\<close> The database is assumed to run at read committed and to compare texts as bytes; a step of a cluster commits
  payloads as ingress normalises them (\<open>channel_ok\<close>). The bbolt library (\<open>bolt_laws\<close>, \<open>lib_accepts\<close>; \<open>codec_keeps\<close> is what it needs of a codec), the primitives
  of the msgpack library (\<open>mplib_laws\<close>), the text of a float (\<open>printsNumbers\<close>), the JWT library, HMAC-SHA256 (assumed only to have 32 bytes), \<open>ParseFloat\<close>, the
  verification of a token inside \<open>handleAuth\<close>, the HTTP upgrade.

  \<^bold>\<open>Not modelled.\<close> The encoding of whole frames by struct tags, which the JSON and msgpack libraries do; the order in which concurrent writes of the on-disk backend
  deliver to the live list (each write is one step with its delivery); the connection pool and the transport of postgres (that a statement or a commit fails, or its
  answer is lost, is an argument of the step; that notifications arrive in commit order is what the library documents); sockets, logging, metrics, tracing,
  configuration and the command-line tools, which are I/O; the conformance suite of the stores.
\<close>

end
